(* ===== verification/Prelude.thy ===== *)
theory Prelude
  imports Complex_Main "HOL-Library.Word" "HOL-Library.Sublist"
begin

unbundle bit_operations_syntax

text \<open>
  Shared vocabulary of the development: the fixed-width integers of the C++ sources, the
  bit macros of the simulator, the lemma collections the component theories fill, generic
  facts about lists used as queues and logs, and the interfaces (locales) that several
  components implement: first-in-first-out queues, bounded logs and word-addressed memories.
\<close>

section \<open>Machine integers\<close>

type_synonym u8 = "8 word"
type_synonym u16 = "16 word"
type_synonym u32 = "32 word"
type_synonym u64 = "64 word"
type_synonym s8 = "8 word"
type_synonym s16 = "16 word"

named_theorems step_defs "definitions of single simulation steps"
named_theorems frame_simps "what a step leaves unchanged"

text \<open>
  The four macros \<open>bitset\<close>, \<open>bitclear\<close> and \<open>bitcheck\<close> of \<open>sim_blkdevice.cpp\<close> work on
  an 8-bit port (\<open>CData\<close>): the shift is done at \<open>int\<close> width and the result is stored back
  into 8 bits, so positions from 8 upwards are lost. On \<open>8 word\<close> the shift loses the same
  bits.
\<close>

definition bitset :: "u8 \<Rightarrow> nat \<Rightarrow> u8" where
  "bitset byte nbit = byte OR push_bit nbit 1"

definition bitclear :: "u8 \<Rightarrow> nat \<Rightarrow> u8" where
  "bitclear byte nbit = byte AND NOT (push_bit nbit 1)"

definition bitcheck :: "u8 \<Rightarrow> nat \<Rightarrow> bool" where
  "bitcheck byte nbit \<longleftrightarrow> byte AND push_bit nbit 1 \<noteq> 0"

lemma bitcheck_iff_bit: "bitcheck b n \<longleftrightarrow> bit b n"
proof -
  have "b AND push_bit n 1 = (if bit b n then push_bit n 1 else 0)"
    by (rule bit_word_eqI) (auto simp: bit_simps)
  moreover have "bit b n \<Longrightarrow> (push_bit n 1 :: u8) \<noteq> 0"
    by (metis bit_imp_le_length exp_eq_zero_iff leD push_bit_of_1)
  ultimately show ?thesis by (auto simp: bitcheck_def)
qed

lemma bit_bitset [simp]: "bit (bitset b n) m \<longleftrightarrow> bit b m \<or> (m = n \<and> n < 8)"
  by (auto simp: bitset_def bit_simps)

lemma bit_bitclear [simp]: "bit (bitclear b n) m \<longleftrightarrow> bit b m \<and> m \<noteq> n"
  by (auto simp: bitclear_def bit_simps dest: bit_imp_le_length)

lemma bitcheck_bitset [simp]: "bitcheck (bitset b n) m \<longleftrightarrow> bitcheck b m \<or> (m = n \<and> n < 8)"
  by (simp add: bitcheck_iff_bit)

lemma bitcheck_bitclear [simp]: "bitcheck (bitclear b n) m \<longleftrightarrow> bitcheck b m \<and> m \<noteq> n"
  by (simp add: bitcheck_iff_bit)

lemma bitset_twice [simp]: "bitset (bitset b n) n = bitset b n"
  by (rule bit_word_eqI) auto

lemma bitclear_bitset [simp]: "\<not> bitcheck b n \<Longrightarrow> bitclear (bitset b n) n = b"
  by (rule bit_word_eqI) (auto simp: bitcheck_iff_bit)

lemma bitset_out_of_range: "8 \<le> n \<Longrightarrow> bitset b n = b"
  by (rule bit_word_eqI) auto

lemma take_bit_byte [simp]: "take_bit 8 (b :: u8) = b"
  by (rule bit_word_eqI) (simp add: bit_take_bit_iff)

section \<open>Lists\<close>

lemma upt_append: "i \<le> j \<Longrightarrow> j \<le> k \<Longrightarrow> [i..<k] = [i..<j] @ [j..<k]"
  by (metis le_iff_add upt_add_eq_append)

definition keep_last :: "nat \<Rightarrow> 'a list \<Rightarrow> 'a list" where
  "keep_last n xs = drop (length xs - n) xs"

lemma keep_last_short [simp]: "length xs \<le> n \<Longrightarrow> keep_last n xs = xs"
  by (simp add: keep_last_def)

lemma length_keep_last [simp]: "length (keep_last n xs) = min n (length xs)"
  by (simp add: keep_last_def min_def)

lemma keep_last_append_one:
  "0 < n \<Longrightarrow> keep_last n (keep_last n xs @ [x]) = keep_last n (xs @ [x])"
  by (cases "length xs \<le> n") (simp_all add: keep_last_def Suc_diff_le)

lemma keep_last_append: "keep_last n (keep_last n xs @ ys) = keep_last n (xs @ ys)"
  by (cases "length xs \<le> n") (simp_all add: keep_last_def add.commute)

lemma keep_last_Cons: "n \<le> length xs \<Longrightarrow> keep_last n (x # xs) = keep_last n xs"
  by (simp add: keep_last_def Suc_diff_le)

section \<open>Interface: a log of bounded length\<close>

text \<open>
  Several components keep the last few entries of a stream: the console and the serial
  terminal trim a vector from the front, the traces overwrite a ring. Each promises that one
  push keeps exactly the newest \<open>cap\<close> entries; the client then knows the whole history.
\<close>

locale bounded_log =
  fixes push :: "'a \<Rightarrow> 's \<Rightarrow> 's"
    and entries :: "'s \<Rightarrow> 'a list"
    and ok :: "'s \<Rightarrow> bool"
    and cap :: nat
  assumes cap_pos: "0 < cap"
    and entries_push: "ok s \<Longrightarrow> entries (push x s) = keep_last cap (entries s @ [x])"
    and ok_push: "ok s \<Longrightarrow> ok (push x s)"
begin

lemma push_all:
  assumes "ok s" "length (entries s) \<le> cap"
  shows "ok (fold push xs s) \<and> entries (fold push xs s) = keep_last cap (entries s @ xs)"
  using assms
proof (induction xs rule: rev_induct)
  case Nil
  then show ?case by simp
next
  case (snoc x xs)
  then show ?case
    using keep_last_append_one [OF cap_pos, of "entries s @ xs" x]
    by (simp add: ok_push entries_push)
qed

lemma entries_bounded: "ok s \<Longrightarrow> length (entries (push x s)) \<le> cap"
  by (simp add: entries_push)

end

section \<open>Interface: a first-in first-out queue\<close>

text \<open>
  The C++ side is \<open>std::queue\<close>: \<open>push\<close> at the back, \<open>front\<close> and \<open>pop\<close> at the front. What a
  client may rely on is that draining gives back what was pushed, in order.
\<close>

locale fifo =
  fixes enq :: "'a \<Rightarrow> 'q \<Rightarrow> 'q"
    and deq :: "'q \<Rightarrow> ('a \<times> 'q) option"
    and content :: "'q \<Rightarrow> 'a list"
  assumes content_enq: "content (enq x q) = content q @ [x]"
    and deq_Nil: "content q = [] \<Longrightarrow> deq q = None"
    and deq_Cons: "content q = y # ys \<Longrightarrow> \<exists>q'. deq q = Some (y, q') \<and> content q' = ys"
begin

fun drain :: "nat \<Rightarrow> 'q \<Rightarrow> 'a list" where
  "drain 0 q = []"
| "drain (Suc n) q = (case deq q of None \<Rightarrow> [] | Some (x, q') \<Rightarrow> x # drain n q')"

lemma content_enq_all: "content (fold enq xs q) = content q @ xs"
  by (induction xs arbitrary: q) (simp_all add: content_enq)

lemma drain_content: "length (content q) \<le> n \<Longrightarrow> drain n q = content q"
proof (induction n arbitrary: q)
  case 0
  then show ?case by simp
next
  case (Suc n)
  then show ?case
  proof (cases "content q")
    case Nil
    then show ?thesis by (simp add: deq_Nil)
  next
    case (Cons y ys)
    with deq_Cons [OF this] Suc show ?thesis by fastforce
  qed
qed

lemma fifo_order: "drain (length (content q) + length xs) (fold enq xs q) = content q @ xs"
  by (simp add: drain_content content_enq_all)

end

section \<open>Interface: a memory\<close>

text \<open>
  A memory addressed in units that may not all exist: \<open>cell a\<close> is the storage cell an address
  reaches, \<open>None\<close> where a write is ignored. Addresses that reach the same cell alias. What its
  clients use is that a run of writes leaves in every cell the last value written to it.
\<close>

locale word_memory =
  fixes rd :: "'m \<Rightarrow> 'a \<Rightarrow> 'v"
    and wr :: "'a \<Rightarrow> 'v \<Rightarrow> 'm \<Rightarrow> 'm"
    and cell :: "'a \<Rightarrow> 'c option"
  assumes rd_wr: "rd (wr a v m) b = (if cell a \<noteq> None \<and> cell a = cell b then v else rd m b)"
begin

lemma rd_wr_same: "cell a \<noteq> None \<Longrightarrow> rd (wr a v m) a = v"
  by (simp add: rd_wr)

lemma rd_wr_other: "cell a \<noteq> cell b \<Longrightarrow> rd (wr a v m) b = rd m b"
  by (simp add: rd_wr)

lemma rd_writes_other:
  "\<forall>(a, v)\<in>set ws. cell a \<noteq> cell b \<Longrightarrow> rd (fold (\<lambda>(a, v). wr a v) ws m) b = rd m b"
  by (induction ws arbitrary: m) (auto simp: rd_wr_other)

lemma rd_writes:
  assumes "distinct (map (cell \<circ> fst) ws)" "(a, v) \<in> set ws" "cell a \<noteq> None"
  shows "rd (fold (\<lambda>(a, v). wr a v) ws m) a = v"
  using assms
proof (induction ws arbitrary: m)
  case Nil
  then show ?case by simp
next
  case (Cons x ws)
  show ?case
  proof (cases "x = (a, v)")
    case True
    with Cons.prems have "\<forall>(b, u)\<in>set ws. cell b \<noteq> cell a" by force
    with True Cons.prems(3) show ?thesis by (simp add: rd_writes_other rd_wr_same)
  next
    case False
    with Cons.prems(2) have "(a, v) \<in> set ws" by auto
    with Cons.IH Cons.prems(1,3) show ?thesis by (cases x) simp
  qed
qed

end

end
