(* ===== verification/SimClock.thy ===== *)
theory SimClock
  imports Prelude
begin

text \<open>
  The clock divider of \<open>verilator/sim/sim_clock.cpp\<close> and the audio sampler of
  \<open>verilator/sim/sim_audio.cpp\<close>, which is paced by a divider of its own. A divider made with
  \<open>SimClock(r)\<close> counts \<open>0 \<dots> r\<close>, so its period is \<open>r + 1\<close> ticks; the lemmas give the exact
  state after any number of ticks and the exact number of rising edges, and through the
  interface \<open>edge_source\<close> the exact number of audio samples written.
\<close>

section \<open>The divider\<close>

record sim_clock =
  clk_now :: bool
  clk_old :: bool
  clk_ratio :: int
  clk_count :: int

definition SimClock_default :: sim_clock where
  "SimClock_default = \<lparr>clk_now = False, clk_old = False, clk_ratio = 1, clk_count = 0\<rparr>"

definition SimClock_init :: "int \<Rightarrow> sim_clock" where
  "SimClock_init r = \<lparr>clk_now = False, clk_old = False, clk_ratio = r, clk_count = 0\<rparr>"

definition Tick :: "sim_clock \<Rightarrow> sim_clock" where
  "Tick c =
     (let old = clk_now c;
          count = clk_count c + 1;
          count = (if count > clk_ratio c then 0 else count)
      in c\<lparr>clk_old := old, clk_count := count, clk_now := (count = 0)\<rparr>)"

definition Reset :: "sim_clock \<Rightarrow> sim_clock" where
  "Reset c = c\<lparr>clk_count := 0, clk_now := False, clk_old := False\<rparr>"

definition IsRising :: "sim_clock \<Rightarrow> bool" where
  "IsRising c \<longleftrightarrow> clk_now c \<and> \<not> clk_old c"

lemmas clock_defs = SimClock_default_def SimClock_init_def Tick_def Reset_def IsRising_def

lemma ratio_Tick [simp]: "clk_ratio (Tick c) = clk_ratio c"
  by (simp add: Tick_def Let_def)

lemma ratio_Ticks [simp]: "clk_ratio ((Tick ^^ n) c) = clk_ratio c"
  by (induction n) simp_all

definition clock_inv :: "sim_clock \<Rightarrow> bool" where
  "clock_inv c \<longleftrightarrow> 0 \<le> clk_count c \<and> clk_count c \<le> clk_ratio c"

lemma clock_inv_init: "0 \<le> r \<Longrightarrow> clock_inv (SimClock_init r)"
  by (simp add: clock_inv_def SimClock_init_def)

lemma clock_inv_Reset: "0 \<le> clk_ratio c \<Longrightarrow> clock_inv (Reset c)"
  by (simp add: clock_inv_def Reset_def)

lemma clock_inv_Tick: "clock_inv c \<Longrightarrow> clock_inv (Tick c)"
  by (auto simp: clock_inv_def Tick_def Let_def)

lemma clock_inv_Ticks: "clock_inv c \<Longrightarrow> clock_inv ((Tick ^^ n) c)"
  by (induction n) (simp_all add: clock_inv_Tick)

lemma count_Tick:
  assumes "clock_inv c"
  shows "clk_count (Tick c) = (clk_count c + 1) mod (clk_ratio c + 1)"
proof (cases "clk_count c = clk_ratio c")
  case True
  then show ?thesis using assms by (simp add: Tick_def Let_def clock_inv_def)
next
  case False
  with assms have "clk_count c + 1 < clk_ratio c + 1" "0 \<le> clk_count c + 1"
    by (auto simp: clock_inv_def)
  then show ?thesis by (simp add: Tick_def Let_def mod_pos_pos_trivial)
qed

lemma count_Ticks:
  assumes "clock_inv c"
  shows "clk_count ((Tick ^^ n) c) = (clk_count c + int n) mod (clk_ratio c + 1)"
proof (induction n)
  case 0
  with assms show ?case by (simp add: clock_inv_def mod_pos_pos_trivial)
next
  case (Suc n)
  with assms show ?case
    by (simp add: count_Tick clock_inv_Ticks mod_simps algebra_simps)
qed

lemma now_Ticks_Suc: "clk_now ((Tick ^^ Suc n) c) \<longleftrightarrow> clk_count ((Tick ^^ Suc n) c) = 0"
  by (simp add: Tick_def Let_def)

lemma old_Ticks_Suc: "clk_old ((Tick ^^ Suc n) c) \<longleftrightarrow> clk_now ((Tick ^^ n) c)"
  by (simp add: Tick_def Let_def)

lemma now_Ticks:
  assumes "0 \<le> r"
  shows "clk_now ((Tick ^^ n) (SimClock_init r)) \<longleftrightarrow> 0 < n \<and> int n mod (r + 1) = 0"
proof (cases n)
  case 0
  then show ?thesis by (simp add: SimClock_init_def)
next
  case (Suc m)
  have "clk_count ((Tick ^^ Suc m) (SimClock_init r)) = int (Suc m) mod (r + 1)"
    using count_Ticks [OF clock_inv_init [OF assms], of "Suc m"]
    by (simp only: SimClock_init_def sim_clock.select_convs) simp
  then show ?thesis by (simp only: Suc now_Ticks_Suc) simp
qed

text \<open>A divider of ratio at least 1 rises exactly at the positive multiples of its period.\<close>

lemma rising_Ticks:
  assumes "1 \<le> r"
  shows "IsRising ((Tick ^^ n) (SimClock_init r)) \<longleftrightarrow> 0 < n \<and> int n mod (r + 1) = 0"
proof (cases n)
  case 0
  then show ?thesis by (simp add: IsRising_def SimClock_init_def)
next
  case (Suc m)
  have "\<not> (int (Suc m) mod (r + 1) = 0 \<and> int m mod (r + 1) = 0)"
  proof
    assume "int (Suc m) mod (r + 1) = 0 \<and> int m mod (r + 1) = 0"
    then have "(int (Suc m) - int m) mod (r + 1) = 0"
      by (metis diff_zero mod_diff_eq mod_0)
    with assms show False by (simp add: mod_pos_pos_trivial)
  qed
  with assms show ?thesis
    unfolding IsRising_def Suc old_Ticks_Suc by (subst (1 2) now_Ticks) auto
qed

section \<open>Pacing by rising edges\<close>

text \<open>
  \<open>every p xs\<close> keeps every \<open>p\<close>-th element. The interface \<open>edge_source\<close> is what the rest of
  the simulator relies on: ticked from its start state, the source rises exactly at the
  multiples of its period. A client that acts on rising edges then sees \<open>every period\<close> of
  the inputs offered to it.
\<close>

definition every :: "nat \<Rightarrow> 'a list \<Rightarrow> 'a list" where
  "every p xs = map (\<lambda>k. xs ! (Suc k * p - 1)) [0..<length xs div p]"

lemma length_every [simp]: "length (every p xs) = length xs div p"
  by (simp add: every_def)

lemma every_Nil [simp]: "every p [] = []"
  by (simp add: every_def)

lemma every_snoc:
  assumes "0 < p"
  shows "every p (xs @ [x]) = every p xs @ (if Suc (length xs) mod p = 0 then [x] else [])"
proof -
  let ?n = "length xs"
  have old: "(xs @ [x]) ! (Suc k * p - 1) = xs ! (Suc k * p - 1)" if "k < ?n div p" for k
  proof -
    from that have "Suc k * p \<le> ?n div p * p" by (intro mult_le_mono1) simp
    also have "\<dots> \<le> ?n" by simp
    finally have le: "Suc k * p \<le> ?n" .
    have pred: "0 < a \<Longrightarrow> a \<le> ?n \<Longrightarrow> a - 1 < ?n" for a by arith
    have "Suc k * p - 1 < ?n" using assms by (intro pred le) simp
    then show ?thesis by (simp add: nth_append)
  qed
  show ?thesis
  proof (cases "Suc ?n mod p = 0")
    case True
    then have d: "Suc ?n div p = Suc (?n div p)" by (simp add: div_Suc)
    have "Suc ?n = Suc ?n div p * p + Suc ?n mod p" by (rule div_mult_mod_eq [symmetric])
    then have "Suc (?n div p) * p = Suc ?n" using True d by simp
    then show ?thesis using True d old by (simp add: every_def nth_append)
  next
    case False
    then have "Suc ?n div p = ?n div p" by (simp add: div_Suc)
    then show ?thesis using False old by (simp add: every_def)
  qed
qed

lemma nth_every: "k < length xs div p \<Longrightarrow> every p xs ! k = xs ! (Suc k * p - 1)"
  by (simp add: every_def)

locale edge_source =
  fixes tick :: "'c \<Rightarrow> 'c"
    and rising :: "'c \<Rightarrow> bool"
    and start :: "'c"
    and period :: nat
  assumes period_pos: "0 < period"
    and rising_at: "rising ((tick ^^ n) start) \<longleftrightarrow> 0 < n \<and> n mod period = 0"
begin

lemma edges_upto: "length (filter (\<lambda>k. rising ((tick ^^ k) start)) [1..<Suc n]) = n div period"
proof (induction n)
  case 0
  show ?case by simp
next
  case (Suc n)
  then show ?case using rising_at [of "Suc n"] by (simp add: div_Suc)
qed

lemma paced_by_edges:
  assumes "\<And>s x. snd (act s x) = (if rising (tick (fst s)) then upd x (snd s) else snd s)"
    and "\<And>s x. fst (act s x) = tick (fst s)"
  shows "foldl act (start, out) xs = ((tick ^^ length xs) start, fold upd (every period xs) out)"
proof (induction xs rule: rev_induct)
  case Nil
  show ?case by simp
next
  case (snoc x xs)
  have r: "rising (tick ((tick ^^ length xs) start)) \<longleftrightarrow> Suc (length xs) mod period = 0"
    using rising_at [of "Suc (length xs)"] by simp
  show ?case
    using snoc by (intro prod_eqI) (simp_all add: assms r every_snoc period_pos)
qed

end

lemma edge_source_SimClock:
  assumes "1 \<le> r"
  shows "edge_source Tick IsRising (SimClock_init r) (nat (r + 1))"
proof
  show "0 < nat (r + 1)" using assms by simp
next
  fix n
  have "int n mod (r + 1) = 0 \<longleftrightarrow> n mod nat (r + 1) = 0"
    proof -
    have "int (n mod nat (r + 1)) = int n mod (r + 1)"
      using assms zmod_int [of n "nat (r + 1)"] by simp
    then show ?thesis by (metis of_nat_eq_0_iff)
  qed
  with rising_Ticks [OF assms, of n]
  show "IsRising ((Tick ^^ n) (SimClock_init r)) \<longleftrightarrow> 0 < n \<and> n mod nat (r + 1) = 0"
    by simp
qed

text \<open>The two dividers the simulator makes: \<open>clk_sys(1)\<close> and the audio sampler's.\<close>

definition clk_sys_freq :: int where
  "clk_sys_freq = 31334400"

interpretation clk_sys: edge_source Tick IsRising "SimClock_init 1" "nat (1 + 1)"
  by (rule edge_source_SimClock) simp

interpretation audio_clk: edge_source Tick IsRising "SimClock_init (clk_sys_freq div 44100)"
    "nat (clk_sys_freq div 44100 + 1)"
  by (rule edge_source_SimClock) (simp add: clk_sys_freq_def)

section \<open>Audio\<close>

text \<open>
  A sample is the left channel divided by \<open>32768.0f\<close>; both the 16-bit value and the quotient
  are exact in a \<open>float\<close>, so the sample is a rational here. The debug waves are arrays of
  \<open>debug_max_samples\<close> floats; a write outside them would be undefined and is \<open>None\<close>.
\<close>

definition debug_max_samples :: nat where
  "debug_max_samples = 600"

record sim_audio =
  aud_clk :: sim_clock
  aud_output :: bool
  aud_file :: "rat list"
  aud_positions :: "rat list"
  aud_wave_l :: "rat list"
  aud_wave_r :: "rat list"
  aud_pos :: nat

definition audio_sample :: "s16 \<Rightarrow> rat" where
  "audio_sample v = of_int (sint v) / 32768"

text \<open>The object is a global: every array and \<open>debug_pos\<close> starts zeroed.\<close>

definition SimAudio_init :: "int \<Rightarrow> bool \<Rightarrow> sim_audio" where
  "SimAudio_init systemClockFrequency saveToFile =
     \<lparr>aud_clk = SimClock_init (systemClockFrequency div 44100), aud_output = saveToFile,
      aud_file = [], aud_positions = replicate debug_max_samples 0,
      aud_wave_l = replicate debug_max_samples 0,
      aud_wave_r = replicate debug_max_samples 0, aud_pos = 0\<rparr>"

definition audio_Clock :: "sim_audio \<Rightarrow> s16 \<Rightarrow> s16 \<Rightarrow> sim_audio" where
  "audio_Clock a left right =
     (let c = Tick (aud_clk a); a = a\<lparr>aud_clk := c\<rparr>
      in if IsRising c \<and> aud_output a
         then a\<lparr>aud_file := aud_file a @ [audio_sample left]\<rparr> else a)"

definition CollectDebug :: "sim_audio \<Rightarrow> s16 \<Rightarrow> s16 \<Rightarrow> sim_audio option" where
  "CollectDebug a left right =
     (let pos = Suc (aud_pos a);
          pos = (if pos = debug_max_samples then 0 else pos)
      in if pos < length (aud_wave_l a) \<and> pos < length (aud_wave_r a)
         then Some (a\<lparr>aud_pos := pos,
                      aud_wave_l := (aud_wave_l a)[pos := audio_sample left],
                      aud_wave_r := (aud_wave_r a)[pos := audio_sample right]\<rparr>)
         else None)"

definition audio_Initialise :: "sim_audio \<Rightarrow> sim_audio" where
  "audio_Initialise a =
     a\<lparr>aud_wave_l := replicate debug_max_samples 0,
       aud_wave_r := replicate debug_max_samples 0,
       aud_positions := map (\<lambda>c. of_nat c / of_nat debug_max_samples) [0..<debug_max_samples],
       aud_file := (if aud_output a then [] else aud_file a)\<rparr>"

lemma output_audio_Clock [simp]: "aud_output (audio_Clock a l r) = aud_output a"
  by (simp add: audio_Clock_def Let_def)

lemma clk_audio_Clock [simp]: "aud_clk (audio_Clock a l r) = Tick (aud_clk a)"
  by (simp add: audio_Clock_def Let_def)

definition audio_run :: "sim_audio \<Rightarrow> (s16 \<times> s16) list \<Rightarrow> sim_audio" where
  "audio_run = foldl (\<lambda>a (l, r). audio_Clock a l r)"

lemma audio_run_output [simp]: "aud_output (audio_run a xs) = aud_output a"
  by (induction xs rule: rev_induct) (auto simp: audio_run_def split: prod.splits)

text \<open>A run seen as the pair of divider and file, the shape \<open>paced_by_edges\<close> wants.\<close>

lemma audio_run_paced:
  assumes "aud_output a"
  shows "(aud_clk (audio_run a xs), aud_file (audio_run a xs)) =
    foldl (\<lambda>s x. (Tick (fst s), if IsRising (Tick (fst s)) then snd s @ [audio_sample (fst x)] else snd s))
      (aud_clk a, aud_file a) xs"
proof (induction xs rule: rev_induct)
  case Nil
  show ?case by (simp add: audio_run_def)
next
  case (snoc x xs)
  have "aud_output (audio_run a xs)" using assms by simp
  with snoc [symmetric] show ?case
    by (cases x) (auto simp: audio_run_def audio_Clock_def Let_def)
qed

lemma fold_snoc: "fold (\<lambda>x out. out @ [f x]) xs out = out @ map f xs"
  by (induction xs arbitrary: out) simp_all

definition audio_inv :: "sim_audio \<Rightarrow> bool" where
  "audio_inv a \<longleftrightarrow> aud_pos a < debug_max_samples \<and>
     length (aud_wave_l a) = debug_max_samples \<and> length (aud_wave_r a) = debug_max_samples"

lemma audio_inv_init: "audio_inv (SimAudio_init f b)"
  by (simp add: audio_inv_def SimAudio_init_def debug_max_samples_def)

lemma audio_inv_Initialise: "audio_inv a \<Longrightarrow> audio_inv (audio_Initialise a)"
  by (simp add: audio_inv_def audio_Initialise_def)

lemma audio_inv_Clock: "audio_inv a \<Longrightarrow> audio_inv (audio_Clock a l r)"
  by (simp add: audio_inv_def audio_Clock_def Let_def)

lemma CollectDebug_defined:
  assumes "audio_inv a"
  shows "\<exists>a'. CollectDebug a l r = Some a' \<and> audio_inv a' \<and>
    aud_pos a' = Suc (aud_pos a) mod debug_max_samples \<and>
    aud_wave_l a' ! aud_pos a' = audio_sample l \<and> aud_wave_r a' ! aud_pos a' = audio_sample r"
  using assms
  by (auto simp: CollectDebug_def Let_def audio_inv_def debug_max_samples_def)

section \<open>Properties\<close>

text \<open>A divider created by \<open>SimClock(r)\<close> with \<open>r \<ge> 1\<close> reports, in its first \<open>n\<close> ticks,
  exactly \<open>n div (r + 1)\<close> rising edges: its period is \<open>r + 1\<close>, one more than its ratio.\<close>

theorem SimClock_rising_edges:
  assumes "1 \<le> r"
  shows "length (filter (\<lambda>k. IsRising ((Tick ^^ k) (SimClock_init r))) [1..<Suc n]) = n div nat (r + 1)"
  using edge_source.edges_upto [OF edge_source_SimClock [OF assms]] .

theorem SimClock_rising_edges_witness:
  "(1::int) \<le> 2 \<and>
   length (filter (\<lambda>k. IsRising ((Tick ^^ k) (SimClock_init 2))) [1..<Suc 9]) = 3"
  using SimClock_rising_edges [of 2 9] by simp

text \<open>The audio sampler of the simulator, made for the 31.3344 MHz system clock and saving to
  a file, writes exactly the left-channel samples of every 711th clock (44070.9 Hz, not the
  44100 Hz its divisor names), in order and scaled by 1/32768.\<close>

theorem audio_file_samples:
  "aud_file (audio_run (SimAudio_init clk_sys_freq True) xs) = map (audio_sample \<circ> fst) (every 711 xs)"
proof -
  have "snd (foldl (\<lambda>s x. (Tick (fst s), if IsRising (Tick (fst s)) then snd s @ [audio_sample (fst x)] else snd s))
      (SimClock_init (clk_sys_freq div 44100), []) xs)
    = fold (\<lambda>x out. out @ [audio_sample (fst x)]) (every (nat (clk_sys_freq div 44100 + 1)) xs) []"
    by (subst audio_clk.paced_by_edges [where upd = "\<lambda>x out. out @ [audio_sample (fst x)]"]) auto
  moreover have "nat (clk_sys_freq div 44100 + 1) = 711"
    by (simp add: clk_sys_freq_def)
  ultimately show ?thesis
    using arg_cong [OF audio_run_paced [of "SimAudio_init clk_sys_freq True" xs], of snd]
    by (simp add: SimAudio_init_def fold_snoc o_def)
qed

end
