(* ===== verification/SoftUart.thy ===== *)
theory SoftUart
  imports Prelude
begin

text \<open>
  The bit-level UART of \<open>verilator/sim/sim_serial.h\<close> and \<open>sim_serial.cpp\<close> (\<open>SoftUART\<close>): one
  record for the configuration, the receiver and the transmitter, and one function per
  method. The lemmas follow a line sample by sample: where the receiver samples, what it
  decodes from any waveform, what waveform the transmitter makes of its queue, and that the
  receiver decodes that waveform to the bytes queued.
\<close>

section \<open>State\<close>

datatype rx_state = RX_IDLE | RX_START | RX_DATA | RX_PARITY | RX_STOP

datatype tx_state = TX_IDLE | TX_START | TX_DATA | TX_PARITY | TX_STOP

record soft_uart =
  m_clocks_per_baud :: u32
  m_data_bits :: int
  m_stop_bits :: int
  m_parity_en :: bool
  m_parity_even :: bool
  m_rx_state :: rx_state
  m_rx_counter :: u32
  m_rx_bit_index :: nat
  m_rx_shift :: u8
  m_rx_byte :: u8
  m_rx_ready :: bool
  m_rx_frame_error :: bool
  m_rx_last_pin :: bool
  m_tx_state :: tx_state
  m_tx_counter :: u32
  m_tx_bit_index :: nat
  m_tx_shift :: u8
  m_tx_pin :: bool
  m_tx_stop_count :: nat
  m_tx_queue :: "u8 list"

definition SoftUART_init :: soft_uart where
  "SoftUART_init =
     \<lparr>m_clocks_per_baud = 3385, m_data_bits = 8, m_stop_bits = 1, m_parity_en = False,
      m_parity_even = False,
      m_rx_state = RX_IDLE, m_rx_counter = 0, m_rx_bit_index = 0, m_rx_shift = 0,
      m_rx_byte = 0, m_rx_ready = False, m_rx_frame_error = False, m_rx_last_pin = True,
      m_tx_state = TX_IDLE, m_tx_counter = 0, m_tx_bit_index = 0, m_tx_shift = 0,
      m_tx_pin = True, m_tx_stop_count = 0, m_tx_queue = []\<rparr>"

section \<open>Configuration\<close>

definition Configure :: "u32 \<Rightarrow> int \<Rightarrow> int \<Rightarrow> bool \<Rightarrow> bool \<Rightarrow> soft_uart \<Rightarrow> soft_uart" where
  "Configure clocks_per_baud data_bits stop_bits parity_en parity_even u =
     u\<lparr>m_clocks_per_baud := (if clocks_per_baud > 0 then clocks_per_baud else 1),
       m_data_bits := data_bits, m_stop_bits := stop_bits,
       m_parity_en := parity_en, m_parity_even := parity_even\<rparr>"

definition ConfigureFromSetup :: "u32 \<Rightarrow> soft_uart \<Rightarrow> soft_uart" where
  "ConfigureFromSetup setup_reg u =
     (let cpb = setup_reg AND 0xFFFFFF;
          even = drop_bit 24 setup_reg AND 1 \<noteq> 0;
          par_en = drop_bit 26 setup_reg AND 1 \<noteq> 0;
          two_st = drop_bit 27 setup_reg AND 1 \<noteq> 0;
          dbits_code = uint (drop_bit 28 setup_reg AND 3);
          dbits = 8 - dbits_code
      in Configure cpb dbits (if two_st then 2 else 1) par_en even u)"

section \<open>Receiver\<close>

definition RxTick :: "soft_uart \<Rightarrow> bool \<Rightarrow> soft_uart \<times> bool" where
  "RxTick u txd_pin =
     (let u = u\<lparr>m_rx_ready := False\<rparr>;
          u = (case m_rx_state u of
            RX_IDLE \<Rightarrow>
              if m_rx_last_pin u \<and> \<not> txd_pin
              then u\<lparr>m_rx_state := RX_START, m_rx_counter := m_clocks_per_baud u div 2,
                     m_rx_shift := 0, m_rx_bit_index := 0, m_rx_frame_error := False\<rparr>
              else u
          | RX_START \<Rightarrow>
              if m_rx_counter u > 0 then u\<lparr>m_rx_counter := m_rx_counter u - 1\<rparr>
              else if txd_pin then u\<lparr>m_rx_state := RX_IDLE\<rparr>
              else u\<lparr>m_rx_state := RX_DATA, m_rx_counter := m_clocks_per_baud u\<rparr>
          | RX_DATA \<Rightarrow>
              if m_rx_counter u > 0 then u\<lparr>m_rx_counter := m_rx_counter u - 1\<rparr>
              else
                (let u = (if txd_pin
                          then u\<lparr>m_rx_shift := m_rx_shift u OR push_bit (m_rx_bit_index u) 1\<rparr>
                          else u);
                     u = u\<lparr>m_rx_bit_index := Suc (m_rx_bit_index u)\<rparr>;
                     u = (if int (m_rx_bit_index u) \<ge> m_data_bits u
                          then u\<lparr>m_rx_state := (if m_parity_en u then RX_PARITY else RX_STOP)\<rparr>
                          else u)
                 in u\<lparr>m_rx_counter := m_clocks_per_baud u\<rparr>)
          | RX_PARITY \<Rightarrow>
              if m_rx_counter u > 0 then u\<lparr>m_rx_counter := m_rx_counter u - 1\<rparr>
              else u\<lparr>m_rx_state := RX_STOP, m_rx_counter := m_clocks_per_baud u\<rparr>
          | RX_STOP \<Rightarrow>
              if m_rx_counter u > 0 then u\<lparr>m_rx_counter := m_rx_counter u - 1\<rparr>
              else
                (let u = (if \<not> txd_pin then u\<lparr>m_rx_frame_error := True\<rparr> else u)
                 in u\<lparr>m_rx_byte := m_rx_shift u, m_rx_ready := True, m_rx_state := RX_IDLE\<rparr>));
          u = u\<lparr>m_rx_last_pin := txd_pin\<rparr>
      in (u, m_rx_ready u))"

definition RxByte :: "soft_uart \<Rightarrow> u8" where
  "RxByte u = m_rx_byte u"

definition RxFrameError :: "soft_uart \<Rightarrow> bool" where
  "RxFrameError u = m_rx_frame_error u"

section \<open>Transmitter\<close>

definition TxEnqueue :: "u8 \<Rightarrow> soft_uart \<Rightarrow> soft_uart" where
  "TxEnqueue byte u = u\<lparr>m_tx_queue := m_tx_queue u @ [byte]\<rparr>"

fun count_ones :: "u8 \<Rightarrow> nat \<Rightarrow> nat \<Rightarrow> nat" where
  "count_ones s i 0 = 0"
| "count_ones s i (Suc n) = (if drop_bit i s AND 1 \<noteq> 0 then 1 else 0) + count_ones s (Suc i) n"

definition TxTick :: "soft_uart \<Rightarrow> soft_uart \<times> bool" where
  "TxTick u =
     (let u = (case m_tx_state u of
            TX_IDLE \<Rightarrow>
              (case m_tx_queue u of
                 [] \<Rightarrow> u
               | b # q \<Rightarrow>
                   u\<lparr>m_tx_shift := b, m_tx_queue := q, m_tx_state := TX_START,
                     m_tx_counter := m_clocks_per_baud u, m_tx_pin := False,
                     m_tx_bit_index := 0\<rparr>)
          | TX_START \<Rightarrow>
              if m_tx_counter u > 0 then u\<lparr>m_tx_counter := m_tx_counter u - 1\<rparr>
              else u\<lparr>m_tx_state := TX_DATA,
                     m_tx_pin := (drop_bit (m_tx_bit_index u) (m_tx_shift u) AND 1 \<noteq> 0),
                     m_tx_counter := m_clocks_per_baud u\<rparr>
          | TX_DATA \<Rightarrow>
              if m_tx_counter u > 0 then u\<lparr>m_tx_counter := m_tx_counter u - 1\<rparr>
              else
                (let u = u\<lparr>m_tx_bit_index := Suc (m_tx_bit_index u)\<rparr>;
                     u = (if int (m_tx_bit_index u) \<ge> m_data_bits u
                          then
                            (if m_parity_en u
                             then
                               (let ones = count_ones (m_tx_shift u) 0 (nat (m_data_bits u))
                                in u\<lparr>m_tx_state := TX_PARITY,
                                     m_tx_pin := (if m_parity_even u then odd ones else \<not> odd ones)\<rparr>)
                             else u\<lparr>m_tx_state := TX_STOP, m_tx_pin := True, m_tx_stop_count := 0\<rparr>)
                          else u\<lparr>m_tx_pin := (drop_bit (m_tx_bit_index u) (m_tx_shift u) AND 1 \<noteq> 0)\<rparr>)
                 in u\<lparr>m_tx_counter := m_clocks_per_baud u\<rparr>)
          | TX_PARITY \<Rightarrow>
              if m_tx_counter u > 0 then u\<lparr>m_tx_counter := m_tx_counter u - 1\<rparr>
              else u\<lparr>m_tx_state := TX_STOP, m_tx_pin := True, m_tx_stop_count := 0,
                     m_tx_counter := m_clocks_per_baud u\<rparr>
          | TX_STOP \<Rightarrow>
              if m_tx_counter u > 0 then u\<lparr>m_tx_counter := m_tx_counter u - 1\<rparr>
              else
                (let u = u\<lparr>m_tx_stop_count := Suc (m_tx_stop_count u)\<rparr>
                 in if int (m_tx_stop_count u) \<ge> m_stop_bits u
                    then u\<lparr>m_tx_state := TX_IDLE, m_tx_pin := True\<rparr>
                    else u\<lparr>m_tx_counter := m_clocks_per_baud u\<rparr>))
      in (u, m_tx_pin u))"

definition TxBusy :: "soft_uart \<Rightarrow> bool" where
  "TxBusy u \<longleftrightarrow> m_tx_state u \<noteq> TX_IDLE \<or> m_tx_queue u \<noteq> []"

section \<open>Runs over a line\<close>

fun rx_run :: "soft_uart \<Rightarrow> bool list \<Rightarrow> soft_uart \<times> (u8 \<times> bool) list" where
  "rx_run u [] = (u, [])"
| "rx_run u (p # ps) =
     (let (u1, rdy) = RxTick u p; (u2, out) = rx_run u1 ps
      in (u2, if rdy then (RxByte u1, RxFrameError u1) # out else out))"

fun tx_run :: "soft_uart \<Rightarrow> nat \<Rightarrow> soft_uart \<times> bool list" where
  "tx_run u 0 = (u, [])"
| "tx_run u (Suc n) = (let (u1, p) = TxTick u; (u2, ps) = tx_run u1 n in (u2, p # ps))"

lemma rx_run_append:
  "rx_run u (ps @ qs) =
     (let (u1, o1) = rx_run u ps; (u2, o2) = rx_run u1 qs in (u2, o1 @ o2))"
  by (induction ps arbitrary: u) (auto split: prod.splits simp: Let_def)

lemma tx_run_add:
  "tx_run u (m + n) =
     (let (u1, p1) = tx_run u m; (u2, p2) = tx_run u1 n in (u2, p1 @ p2))"
  by (induction m arbitrary: u) (auto split: prod.splits simp: Let_def)

lemma tx_run_length: "length (snd (tx_run u n)) = n"
  by (induction n arbitrary: u) (simp_all add: Let_def case_prod_beta)

section \<open>Waiting for a sample point\<close>

lemma rx_tick_wait:
  assumes "m_rx_state u \<noteq> RX_IDLE" "0 < m_rx_counter u"
  shows "RxTick u p = (u\<lparr>m_rx_ready := False, m_rx_counter := m_rx_counter u - 1, m_rx_last_pin := p\<rparr>, False)"
  using assms by (cases "m_rx_state u") (simp_all add: RxTick_def Let_def)

lemma rx_tick_history:
  assumes "m_rx_state u \<noteq> RX_IDLE"
  shows "RxTick (u\<lparr>m_rx_ready := a, m_rx_last_pin := b\<rparr>) p = RxTick u p"
  using assms by (cases "m_rx_state u") (simp_all add: RxTick_def Let_def)

lemma rx_wait:
  assumes "m_rx_state u \<noteq> RX_IDLE" "length ps = unat (m_rx_counter u)"
  shows "rx_run u (ps @ [p]) = rx_run (u\<lparr>m_rx_counter := 0\<rparr>) [p]"
  using assms
proof (induction ps arbitrary: u)
  case Nil
  then have "m_rx_counter u = 0" by (simp add: unat_eq_0)
  then have "u\<lparr>m_rx_counter := 0\<rparr> = u" by simp
  then show ?case by simp
next
  case (Cons q ps)
  then have pos: "0 < m_rx_counter u" by (auto simp: word_gt_0)
  let ?v = "u\<lparr>m_rx_ready := False, m_rx_counter := m_rx_counter u - 1, m_rx_last_pin := q\<rparr>"
  have "length ps = unat (m_rx_counter ?v)"
    using Cons.prems pos by (simp add: unat_minus_one word_gt_0)
  then have "rx_run ?v (ps @ [p]) = rx_run (?v\<lparr>m_rx_counter := 0\<rparr>) [p]"
    using Cons.IH [of ?v] Cons.prems by simp
  also have "?v\<lparr>m_rx_counter := 0\<rparr> = (u\<lparr>m_rx_counter := 0\<rparr>)\<lparr>m_rx_ready := False, m_rx_last_pin := q\<rparr>"
    by (cases u) simp
  also have "rx_run \<dots> [p] = rx_run (u\<lparr>m_rx_counter := 0\<rparr>) [p]"
    using rx_tick_history [of "u\<lparr>m_rx_counter := 0\<rparr>" q False p] Cons.prems by simp
  finally show ?case
    using rx_tick_wait [OF Cons.prems(1) pos, of q] by (simp add: Let_def split: prod.splits)
qed

lemma rx_wait_fun:
  assumes "m_rx_state u \<noteq> RX_IDLE" "unat (m_rx_counter u) = c"
  shows "rx_run u (map w [a..<a + c + 1]) = rx_run (u\<lparr>m_rx_counter := 0\<rparr>) [w (a + c)]"
proof -
  have "map w [a..<a + c + 1] = map w [a..<a + c] @ [w (a + c)]" by simp
  with assms show ?thesis by (simp add: rx_wait del: upt_Suc)
qed

section \<open>Receiving one frame\<close>

definition bits_to_byte :: "bool list \<Rightarrow> u8" where
  "bits_to_byte bs = horner_sum of_bool 2 bs"

lemma bit_bits_to_byte [simp]: "bit (bits_to_byte bs) n \<longleftrightarrow> n < 8 \<and> n < length bs \<and> bs ! n"
  by (auto simp: bits_to_byte_def bit_horner_sum_bit_word_iff)

fun shift_in :: "u8 \<Rightarrow> nat \<Rightarrow> bool list \<Rightarrow> u8" where
  "shift_in s i [] = s"
| "shift_in s i (b # bs) = shift_in (if b then s OR push_bit i 1 else s) (Suc i) bs"

lemma bit_shift_in:
  "bit (shift_in s i bs) n \<longleftrightarrow> bit s n \<or> (n < 8 \<and> i \<le> n \<and> n - i < length bs \<and> bs ! (n - i))"
proof (induction bs arbitrary: s i n)
  case Nil
  show ?case by simp
next
  case (Cons b bs)
  consider "n < i" | "n = i" | m where "n = Suc (i + m)"
    by (metis less_imp_Suc_add linorder_neqE_nat)
  then show ?case
    by cases (auto simp: Cons.IH bit_simps)
qed

lemma shift_in_0: "shift_in 0 0 bs = bits_to_byte bs"
  by (rule bit_word_eqI) (auto simp: bit_shift_in)

definition rx_bits :: "(nat \<Rightarrow> bool) \<Rightarrow> nat \<Rightarrow> nat \<Rightarrow> nat \<Rightarrow> bool list" where
  "rx_bits w a c k = map (\<lambda>i. w (a + c + (c + 1) * i)) [0..<k]"

lemma rx_data_bit:
  assumes "m_rx_state u = RX_DATA" "unat (m_rx_counter u) = c"
  shows "rx_run u (map w [a..<a + c + 1]) =
    (u\<lparr>m_rx_ready := False, m_rx_last_pin := w (a + c), m_rx_counter := m_clocks_per_baud u,
      m_rx_shift := shift_in (m_rx_shift u) (m_rx_bit_index u) [w (a + c)],
      m_rx_bit_index := Suc (m_rx_bit_index u),
      m_rx_state := (if int (Suc (m_rx_bit_index u)) \<ge> m_data_bits u
        then (if m_parity_en u then RX_PARITY else RX_STOP) else RX_DATA)\<rparr>, [])"
  using assms by (subst rx_wait_fun) (auto simp: RxTick_def Let_def)

lemma rx_bits_Suc: "rx_bits w a c (Suc k) = w (a + c) # rx_bits w (a + c + 1) c k"
proof -
  have "[0..<Suc k] = 0 # map Suc [0..<k]" by (simp add: map_Suc_upt upt_conv_Cons)
  then show ?thesis by (simp add: rx_bits_def algebra_simps)
qed

lemma rx_data_bits:
  assumes "m_rx_state u = RX_DATA" "m_rx_counter u = m_clocks_per_baud u"
    and "unat (m_clocks_per_baud u) = c"
    and "m_data_bits u = int (m_rx_bit_index u + Suc k)"
  shows "\<exists>l. rx_run u (map w [a..<a + (c + 1) * Suc k]) =
    (u\<lparr>m_rx_ready := False, m_rx_last_pin := l,
      m_rx_shift := shift_in (m_rx_shift u) (m_rx_bit_index u) (rx_bits w a c (Suc k)),
      m_rx_bit_index := m_rx_bit_index u + Suc k,
      m_rx_state := (if m_parity_en u then RX_PARITY else RX_STOP)\<rparr>, [])"
  using assms
proof (induction k arbitrary: u a)
  case 0
  then show ?case
    using rx_data_bit [of u c w a]
    by (intro exI [of _ "w (a + c)"], cases u) (simp add: rx_bits_def)
next
  case (Suc k)
  let ?b = "w (a + c)"
  let ?v = "u\<lparr>m_rx_ready := False, m_rx_last_pin := ?b, m_rx_counter := m_clocks_per_baud u,
      m_rx_shift := shift_in (m_rx_shift u) (m_rx_bit_index u) [?b],
      m_rx_bit_index := Suc (m_rx_bit_index u), m_rx_state := RX_DATA\<rparr>"
  have 1: "rx_run u (map w [a..<a + c + 1]) = (?v, [])"
    using rx_data_bit [of u c w a] Suc.prems by simp
  obtain l where 2: "rx_run ?v (map w [a + c + 1..<a + c + 1 + (c + 1) * Suc k]) =
    (?v\<lparr>m_rx_ready := False, m_rx_last_pin := l,
      m_rx_shift := shift_in (m_rx_shift ?v) (m_rx_bit_index ?v) (rx_bits w (a + c + 1) c (Suc k)),
      m_rx_bit_index := m_rx_bit_index ?v + Suc k,
      m_rx_state := (if m_parity_en ?v then RX_PARITY else RX_STOP)\<rparr>, [])"
    using Suc.IH [of ?v "a + c + 1"] Suc.prems by auto
  have split: "[a..<a + (c + 1) * Suc (Suc k)] = [a..<a + c + 1] @ [a + c + 1..<a + c + 1 + (c + 1) * Suc k]"
    using upt_add_eq_append [of a "a + c + 1" "(c + 1) * Suc k"] by (simp add: algebra_simps)
  have "rx_run u (map w [a..<a + (c + 1) * Suc (Suc k)]) =
    (?v\<lparr>m_rx_ready := False, m_rx_last_pin := l,
      m_rx_shift := shift_in (m_rx_shift ?v) (m_rx_bit_index ?v) (rx_bits w (a + c + 1) c (Suc k)),
      m_rx_bit_index := m_rx_bit_index ?v + Suc k,
      m_rx_state := (if m_parity_en ?v then RX_PARITY else RX_STOP)\<rparr>, [])"
    unfolding split map_append rx_run_append 1 by (simp only: Let_def prod.case 2 append_Nil)
  then show ?case
    using Suc.prems(2) rx_bits_Suc [of w a c "Suc k"]
    by (intro exI [of _ l], cases u) simp
qed

text \<open>
  The sample points of a frame whose falling edge is at position 0, for a bit time of
  \<open>c = clocks_per_baud\<close>: point 0 is the start bit, points \<open>1 \<dots> n\<close> the data bits, then parity
  if enabled, then the stop bit.
\<close>

definition rx_point :: "nat \<Rightarrow> nat \<Rightarrow> nat" where
  "rx_point c k = c div 2 + 1 + (c + 1) * k"

definition rx_idle :: "soft_uart \<Rightarrow> bool" where
  "rx_idle u \<longleftrightarrow> m_rx_state u = RX_IDLE \<and> m_rx_last_pin u"

definition same_config :: "soft_uart \<Rightarrow> soft_uart \<Rightarrow> bool" where
  "same_config u v \<longleftrightarrow> m_clocks_per_baud u = m_clocks_per_baud v \<and> m_data_bits u = m_data_bits v \<and>
     m_stop_bits u = m_stop_bits v \<and> m_parity_en u = m_parity_en v \<and> m_parity_even u = m_parity_even v"

definition stop_point :: "soft_uart \<Rightarrow> nat" where
  "stop_point u = rx_point (unat (m_clocks_per_baud u))
     (nat (m_data_bits u) + (if m_parity_en u then 1 else 0) + 1)"

lemma rx_start:
  assumes "rx_idle u" "\<not> w 0" "\<not> w (rx_point c 0)" "unat (m_clocks_per_baud u) = c"
  shows "rx_run u (map w [0..<rx_point c 0 + 1]) =
    (u\<lparr>m_rx_ready := False, m_rx_last_pin := False, m_rx_state := RX_DATA,
       m_rx_counter := m_clocks_per_baud u, m_rx_shift := 0, m_rx_bit_index := 0,
       m_rx_frame_error := False\<rparr>, [])"
proof -
  let ?v = "u\<lparr>m_rx_ready := False, m_rx_state := RX_START, m_rx_counter := m_clocks_per_baud u div 2,
    m_rx_shift := 0, m_rx_bit_index := 0, m_rx_frame_error := False, m_rx_last_pin := False\<rparr>"
  have 1: "rx_run u (map w [0..<1]) = (?v, [])"
    using assms by (simp add: RxTick_def rx_idle_def)
  have c: "unat (m_rx_counter ?v) = c div 2"
    using assms by (simp add: unat_div)
  have 2: "rx_run ?v (map w [1..<1 + c div 2 + 1]) =
      (?v\<lparr>m_rx_state := RX_DATA, m_rx_counter := m_clocks_per_baud u\<rparr>, [])"
    using rx_wait_fun [OF _ c, of w 1] assms
    by (simp add: RxTick_def Let_def rx_point_def del: upt_Suc)
  have "[0..<rx_point c 0 + 1] = [0..<1] @ [1..<1 + c div 2 + 1]"
    using upt_add_eq_append [of 0 1 "c div 2 + 1"] by (simp add: rx_point_def)
  then show ?thesis
    using 1 2 by (simp only: map_append rx_run_append) (cases u, simp)
qed

lemma rx_finish:
  assumes "m_rx_state u = RX_STOP" "unat (m_rx_counter u) = c"
  shows "rx_run u (map w [a..<a + c + 1]) =
    (u\<lparr>m_rx_counter := 0, m_rx_ready := True, m_rx_byte := m_rx_shift u, m_rx_state := RX_IDLE,
       m_rx_frame_error := (m_rx_frame_error u \<or> \<not> w (a + c)), m_rx_last_pin := w (a + c)\<rparr>,
     [(m_rx_shift u, m_rx_frame_error u \<or> \<not> w (a + c))])"
  using assms by (subst rx_wait_fun) (auto simp: RxTick_def Let_def RxByte_def RxFrameError_def)

lemma rx_skip_parity:
  assumes "m_rx_state u = RX_PARITY" "unat (m_rx_counter u) = c"
  shows "rx_run u (map w [a..<a + c + 1]) =
    (u\<lparr>m_rx_ready := False, m_rx_last_pin := w (a + c), m_rx_state := RX_STOP,
      m_rx_counter := m_clocks_per_baud u\<rparr>, [])"
  using assms by (subst rx_wait_fun) (auto simp: RxTick_def Let_def)



text \<open>A whole frame, from the falling edge to the stop sample, on any line \<open>w\<close>.\<close>

definition frame_bits :: "(nat \<Rightarrow> bool) \<Rightarrow> nat \<Rightarrow> nat \<Rightarrow> bool list" where
  "frame_bits w c n = map (\<lambda>i. w (rx_point c (Suc i))) [0..<n]"

lemma rx_bits_frame: "rx_bits w (Suc (rx_point c 0)) c n = frame_bits w c n"
  by (simp add: rx_bits_def frame_bits_def rx_point_def algebra_simps)

lemma rx_tail:
  assumes "m_rx_state u = (if m_parity_en u then RX_PARITY else RX_STOP)"
    and "m_rx_counter u = m_clocks_per_baud u" "unat (m_clocks_per_baud u) = c"
    and "\<not> m_rx_frame_error u"
    and s: "s = a + c + (if m_parity_en u then c + 1 else 0)"
  shows "\<exists>v. rx_run u (map w [a..<s + 1]) = (v, [(m_rx_shift u, \<not> w s)]) \<and>
    same_config v u \<and> m_rx_state v = RX_IDLE \<and> m_rx_last_pin v = w s"
proof (cases "m_parity_en u")
  case False
  then show ?thesis
    using assms rx_finish [of u c w a] by (auto simp: same_config_def)
next
  case True
  let ?v = "u\<lparr>m_rx_ready := False, m_rx_last_pin := w (a + c), m_rx_state := RX_STOP,
      m_rx_counter := m_clocks_per_baud u\<rparr>"
  have 1: "rx_run u (map w [a..<a + c + 1]) = (?v, [])"
    using rx_skip_parity [of u c w a] assms True by simp
  have 2: "rx_run ?v (map w [a + c + 1..<a + c + 1 + c + 1]) =
    (?v\<lparr>m_rx_counter := 0, m_rx_ready := True, m_rx_byte := m_rx_shift ?v, m_rx_state := RX_IDLE,
       m_rx_frame_error := (m_rx_frame_error ?v \<or> \<not> w (a + c + 1 + c)), m_rx_last_pin := w (a + c + 1 + c)\<rparr>,
     [(m_rx_shift ?v, m_rx_frame_error ?v \<or> \<not> w (a + c + 1 + c))])"
    using rx_finish [of ?v c w "a + c + 1"] assms by simp
  have s': "s = a + c + 1 + c" using s True by simp
  let ?x = "?v\<lparr>m_rx_counter := 0, m_rx_ready := True, m_rx_byte := m_rx_shift ?v, m_rx_state := RX_IDLE,
       m_rx_frame_error := (m_rx_frame_error ?v \<or> \<not> w (a + c + 1 + c)), m_rx_last_pin := w (a + c + 1 + c)\<rparr>"
  have "[a..<s + 1] = [a..<a + c + 1] @ [a + c + 1..<a + c + 1 + c + 1]"
    using upt_add_eq_append [of a "a + c + 1" "c + 1"] s' by (simp add: add_ac)
  then have "rx_run u (map w [a..<s + 1]) = (?x, [(m_rx_shift ?v, m_rx_frame_error ?v \<or> \<not> w (a + c + 1 + c))])"
    by (simp only: map_append rx_run_append 1 2 Let_def prod.case append_Nil)
  moreover have "m_rx_shift ?v = m_rx_shift u" "(m_rx_frame_error ?v \<or> \<not> w (a + c + 1 + c)) = (\<not> w s)"
    using assms(4) s' by simp_all
  ultimately have "rx_run u (map w [a..<s + 1]) = (?x, [(m_rx_shift u, \<not> w s)])"
    by (simp only:)
  then show ?thesis
    using s' by (intro exI [of _ ?x] conjI) (simp_all add: same_config_def)
qed

theorem rx_frame:
  assumes "rx_idle u" "unat (m_clocks_per_baud u) = c" "m_data_bits u = int n" "0 < n"
    and "\<not> w 0" "\<not> w (rx_point c 0)"
  shows "\<exists>v. rx_run u (map w [0..<stop_point u + 1]) =
      (v, [(bits_to_byte (frame_bits w c n), \<not> w (stop_point u))]) \<and>
    same_config v u \<and> m_rx_state v = RX_IDLE \<and> m_rx_last_pin v = w (stop_point u)"
proof -
  let ?a = "rx_point c 0 + 1" and ?n = "(c + 1) * n"
  let ?u1 = "u\<lparr>m_rx_ready := False, m_rx_last_pin := False, m_rx_state := RX_DATA,
       m_rx_counter := m_clocks_per_baud u, m_rx_shift := 0, m_rx_bit_index := 0,
       m_rx_frame_error := False\<rparr>"
  obtain k where n: "n = Suc k" using \<open>0 < n\<close> gr0_conv_Suc by auto
  have 1: "rx_run u (map w [0..<?a]) = (?u1, [])"
    using rx_start [OF assms(1,5,6,2)] by simp
  obtain l where 2: "rx_run ?u1 (map w [?a..<?a + ?n]) =
    (?u1\<lparr>m_rx_ready := False, m_rx_last_pin := l,
      m_rx_shift := shift_in 0 0 (frame_bits w c n), m_rx_bit_index := n,
      m_rx_state := (if m_parity_en u then RX_PARITY else RX_STOP)\<rparr>, [])" (is "_ = (?u2 l, [])")
    using rx_data_bits [of ?u1 c k w ?a] assms n by (auto simp: rx_bits_frame)
  have sp: "stop_point u = ?a + ?n + c + (if m_parity_en u then c + 1 else 0)"
    using assms by (simp add: stop_point_def rx_point_def algebra_simps)
  obtain v where 3: "rx_run (?u2 l) (map w [?a + ?n..<stop_point u + 1]) =
      (v, [(shift_in 0 0 (frame_bits w c n), \<not> w (stop_point u))])"
    "same_config v (?u2 l)" "m_rx_state v = RX_IDLE" "m_rx_last_pin v = w (stop_point u)"
    using rx_tail [of "?u2 l" c "stop_point u" "?a + ?n" w] assms sp by auto
  have "[0..<stop_point u + 1] = [0..<?a] @ [?a..<?a + ?n] @ [?a + ?n..<stop_point u + 1]"
    using upt_append [of 0 ?a "stop_point u + 1"] upt_append [of ?a "?a + ?n" "stop_point u + 1"] sp
    by (simp only: le0 simp_thms add_le_mono le_add1 trans_le_add1)
  then have "rx_run u (map w [0..<stop_point u + 1]) =
      (v, [(shift_in 0 0 (frame_bits w c n), \<not> w (stop_point u))])"
    by (simp only: map_append rx_run_append 1 2 3(1) Let_def prod.case append_Nil append_Nil2)
  then show ?thesis using 3 by (auto simp: shift_in_0 same_config_def)
qed

section \<open>The waveform of the transmitter\<close>

definition hold :: "nat \<Rightarrow> bool list \<Rightarrow> bool list" where
  "hold p levels = concat (map (replicate p) levels)"

lemma hold_simps [simp]:
  "hold p [] = []" "hold p (l # ls) = replicate p l @ hold p ls" "hold p (xs @ ys) = hold p xs @ hold p ys"
  by (simp_all add: hold_def)

lemma length_hold [simp]: "length (hold p ls) = p * length ls"
  by (induction ls) simp_all

lemma nth_hold:
  assumes "k < length ls" "j < p"
  shows "hold p ls ! (p * k + j) = ls ! k"
  using assms
proof (induction ls arbitrary: k)
  case Nil
  then show ?case by simp
next
  case (Cons l ls)
  then show ?case by (cases k) (simp_all add: nth_append add.assoc)
qed

definition parity_level :: "soft_uart \<Rightarrow> u8 \<Rightarrow> bool" where
  "parity_level u b = (let ones = count_ones b 0 (nat (m_data_bits u))
     in if m_parity_even u then odd ones else \<not> odd ones)"

definition frame_levels :: "soft_uart \<Rightarrow> u8 \<Rightarrow> bool list" where
  "frame_levels u b = False # map (bit b) [0..<nat (m_data_bits u)] @
     (if m_parity_en u then [parity_level u b] else []) @ replicate (nat (m_stop_bits u)) True"

definition frame_wave :: "soft_uart \<Rightarrow> u8 \<Rightarrow> bool list" where
  "frame_wave u b = hold (unat (m_clocks_per_baud u) + 1) (frame_levels u b) @ [True]"

definition sane_config :: "soft_uart \<Rightarrow> bool" where
  "sane_config u \<longleftrightarrow> 0 < m_clocks_per_baud u \<and> 0 < m_data_bits u \<and> 0 < m_stop_bits u"

lemma bit_shown: "(drop_bit i s AND 1 \<noteq> 0) \<longleftrightarrow> bit (s :: 'a::len word) i"
  by (simp add: and_one_eq bit_iff_odd_drop_bit odd_iff_mod_2_eq_one)

lemma tx_tick_wait:
  assumes "m_tx_state u \<noteq> TX_IDLE" "0 < m_tx_counter u"
  shows "TxTick u = (u\<lparr>m_tx_counter := m_tx_counter u - 1\<rparr>, m_tx_pin u)"
  using assms by (cases "m_tx_state u") (simp_all add: TxTick_def Let_def)

lemma tx_hold:
  assumes "m_tx_state u \<noteq> TX_IDLE" "unat (m_tx_counter u) = c"
  shows "tx_run u c = (u\<lparr>m_tx_counter := 0\<rparr>, replicate c (m_tx_pin u))"
  using assms
proof (induction c arbitrary: u)
  case 0
  then have "m_tx_counter u = 0" by (simp add: unat_eq_0)
  then show ?case by simp
next
  case (Suc c)
  then have pos: "0 < m_tx_counter u" by (auto simp: word_gt_0)
  let ?v = "u\<lparr>m_tx_counter := m_tx_counter u - 1\<rparr>"
  have "tx_run ?v c = (?v\<lparr>m_tx_counter := 0\<rparr>, replicate c (m_tx_pin ?v))"
    using Suc pos by (intro Suc.IH) (simp_all add: unat_minus_one word_gt_0)
  then show ?case using tx_tick_wait [OF Suc.prems(1) pos] by simp
qed

text \<open>A cell: the tick that sets the level, and \<open>clocks_per_baud\<close> ticks that hold it.\<close>

lemma tx_cell:
  assumes "TxTick u = (v, m_tx_pin v)" "m_tx_state v \<noteq> TX_IDLE"
    and "m_tx_counter v = m_clocks_per_baud v" "unat (m_clocks_per_baud v) = c"
  shows "tx_run u (c + 1) = (v\<lparr>m_tx_counter := 0\<rparr>, replicate (c + 1) (m_tx_pin v))"
  using assms tx_hold [of v c] by simp

lemma tx_seq:
  assumes "tx_run u m = (v, ps)" "tx_run v n = (w, qs)"
  shows "tx_run u (m + n) = (w, ps @ qs)"
  using assms by (simp add: tx_run_add)

definition tx_stopping :: "soft_uart \<Rightarrow> soft_uart" where
  "tx_stopping u = u\<lparr>m_tx_state := TX_STOP, m_tx_pin := True, m_tx_stop_count := 0,
     m_tx_counter := 0\<rparr>"

lemma tx_stop:
  assumes "m_tx_state u = TX_STOP" "m_tx_counter u = 0" "m_tx_pin u"
    and "unat (m_clocks_per_baud u) = c" "m_stop_bits u = int (m_tx_stop_count u + Suc k)"
  shows "tx_run u ((c + 1) * k + 1) =
    (u\<lparr>m_tx_state := TX_IDLE, m_tx_stop_count := m_tx_stop_count u + Suc k\<rparr>,
     replicate ((c + 1) * k + 1) True)"
  using assms
proof (induction k arbitrary: u)
  case 0
  then show ?case by (simp add: TxTick_def Let_def)
next
  case (Suc k)
  let ?v = "u\<lparr>m_tx_stop_count := Suc (m_tx_stop_count u), m_tx_counter := m_clocks_per_baud u\<rparr>"
  have "TxTick u = (?v, m_tx_pin ?v)"
    using Suc.prems by (simp add: TxTick_def Let_def)
  then have 1: "tx_run u (c + 1) = (?v\<lparr>m_tx_counter := 0\<rparr>, replicate (c + 1) True)"
    using Suc.prems tx_cell [of u ?v c] by simp
  have 2: "tx_run (?v\<lparr>m_tx_counter := 0\<rparr>) ((c + 1) * k + 1) =
    (?v\<lparr>m_tx_counter := 0, m_tx_state := TX_IDLE, m_tx_stop_count := m_tx_stop_count ?v + Suc k\<rparr>,
     replicate ((c + 1) * k + 1) True)"
    using Suc.prems by (subst Suc.IH) simp_all
  have e: "?v\<lparr>m_tx_counter := 0, m_tx_state := TX_IDLE, m_tx_stop_count := m_tx_stop_count ?v + Suc k\<rparr>
    = u\<lparr>m_tx_state := TX_IDLE, m_tx_stop_count := m_tx_stop_count u + Suc (Suc k)\<rparr>"
    using Suc.prems by (cases u) simp
  have n: "(c + 1) * Suc k + 1 = (c + 1) + ((c + 1) * k + 1)" by simp
  show ?case
    unfolding n using tx_seq [OF 1 2] by (simp only: e replicate_add)
qed

text \<open>From the tick that ends the last data cell, through parity, to the stop cell.\<close>

lemma tx_to_stop:
  assumes "m_tx_state u = TX_DATA" "m_tx_counter u = 0" "unat (m_clocks_per_baud u) = c"
    and "m_data_bits u = int (Suc (m_tx_bit_index u))"
  shows "\<exists>v. let par = (if m_parity_en u then [parity_level u (m_tx_shift u)] else []) in
    tx_run u ((c + 1) * (length par + 1)) = (v, hold (c + 1) (par @ [True])) \<and>
    v = tx_stopping (u\<lparr>m_tx_bit_index := Suc (m_tx_bit_index u)\<rparr>)"
proof (cases "m_parity_en u")
  case False
  let ?v = "u\<lparr>m_tx_bit_index := Suc (m_tx_bit_index u), m_tx_state := TX_STOP, m_tx_pin := True,
    m_tx_stop_count := 0, m_tx_counter := m_clocks_per_baud u\<rparr>"
  have "TxTick u = (?v, m_tx_pin ?v)"
    using assms False by (simp add: TxTick_def Let_def)
  then show ?thesis
    using assms False tx_cell [of u ?v c] by (simp add: tx_stopping_def)
next
  case True
  let ?p = "parity_level u (m_tx_shift u)"
  let ?v = "u\<lparr>m_tx_bit_index := Suc (m_tx_bit_index u), m_tx_state := TX_PARITY, m_tx_pin := ?p,
    m_tx_counter := m_clocks_per_baud u\<rparr>"
  let ?w = "?v\<lparr>m_tx_counter := m_clocks_per_baud u, m_tx_state := TX_STOP, m_tx_pin := True,
    m_tx_stop_count := 0\<rparr>"
  have "TxTick u = (?v, m_tx_pin ?v)"
    using assms True by (cases u) (simp add: TxTick_def Let_def parity_level_def)
  then have 1: "tx_run u (c + 1) = (?v\<lparr>m_tx_counter := 0\<rparr>, replicate (c + 1) ?p)"
    using assms tx_cell [of u ?v c] by simp
  have "TxTick (?v\<lparr>m_tx_counter := 0\<rparr>) = (?w, m_tx_pin ?w)"
    by (cases u) (simp add: TxTick_def Let_def)
  then have 2: "tx_run (?v\<lparr>m_tx_counter := 0\<rparr>) (c + 1) = (?w\<lparr>m_tx_counter := 0\<rparr>, replicate (c + 1) True)"
    using assms tx_cell [of "?v\<lparr>m_tx_counter := 0\<rparr>" ?w c] by simp
  have "tx_run u (c + 1 + (c + 1)) = (?w\<lparr>m_tx_counter := 0\<rparr>, replicate (c + 1) ?p @ replicate (c + 1) True)"
    by (rule tx_seq [OF 1 2])
  then show ?thesis using True by (cases u) (simp add: tx_stopping_def Let_def)
qed

lemma tx_data_bits:
  assumes "m_tx_state u = TX_DATA" "m_tx_counter u = 0" "unat (m_clocks_per_baud u) = c"
    and "m_data_bits u = int (m_tx_bit_index u + Suc k)"
  shows "\<exists>l. tx_run u ((c + 1) * k) =
    (u\<lparr>m_tx_bit_index := m_tx_bit_index u + k, m_tx_pin := l\<rparr>,
     hold (c + 1) (map (bit (m_tx_shift u)) [Suc (m_tx_bit_index u)..<m_tx_bit_index u + Suc k]))"
  using assms
proof (induction k arbitrary: u)
  case 0
  then show ?case by (intro exI [of _ "m_tx_pin u"]) simp
next
  case (Suc k)
  let ?i = "Suc (m_tx_bit_index u)"
  let ?b = "bit (m_tx_shift u) ?i"
  let ?v = "u\<lparr>m_tx_bit_index := ?i, m_tx_pin := ?b, m_tx_counter := m_clocks_per_baud u\<rparr>"
  let ?vz = "?v\<lparr>m_tx_counter := 0\<rparr>"
  have "TxTick u = (?v, m_tx_pin ?v)"
    using Suc.prems by (simp add: TxTick_def Let_def bit_shown)
  then have 1: "tx_run u (c + 1) = (?vz, replicate (c + 1) ?b)"
    using Suc.prems tx_cell [of u ?v c] by simp
  obtain l where 2: "tx_run ?vz ((c + 1) * k) =
    (?vz\<lparr>m_tx_bit_index := m_tx_bit_index ?vz + k, m_tx_pin := l\<rparr>,
     hold (c + 1) (map (bit (m_tx_shift ?vz)) [Suc (m_tx_bit_index ?vz)..<m_tx_bit_index ?vz + Suc k]))"
    using Suc.IH [of ?vz] Suc.prems by auto
  have n: "(c + 1) * Suc k = (c + 1) + (c + 1) * k" by simp
  have i: "[?i..<m_tx_bit_index u + Suc (Suc k)] = ?i # [Suc ?i..<?i + Suc k]"
    by (simp add: upt_conv_Cons del: upt_Suc)
  have e: "?vz\<lparr>m_tx_bit_index := m_tx_bit_index ?vz + k, m_tx_pin := l\<rparr> =
    u\<lparr>m_tx_bit_index := m_tx_bit_index u + Suc k, m_tx_pin := l\<rparr>"
    using Suc.prems by (cases u) simp
  show ?case
    unfolding n i using tx_seq [OF 1 2]
    by (intro exI [of _ l]) (simp only: e, simp del: upt_Suc)
qed


lemma tx_start:
  assumes "m_tx_state u = TX_IDLE" "m_tx_queue u = b # q" "unat (m_clocks_per_baud u) = c"
  shows "tx_run u ((c + 1) * 2) =
    (u\<lparr>m_tx_shift := b, m_tx_queue := q, m_tx_state := TX_DATA, m_tx_counter := 0,
       m_tx_pin := bit b 0, m_tx_bit_index := 0\<rparr>, hold (c + 1) [False, bit b 0])"
proof -
  let ?v = "u\<lparr>m_tx_shift := b, m_tx_queue := q, m_tx_state := TX_START,
    m_tx_counter := m_clocks_per_baud u, m_tx_pin := False, m_tx_bit_index := 0\<rparr>"
  let ?vz = "?v\<lparr>m_tx_counter := 0\<rparr>"
  let ?w = "?vz\<lparr>m_tx_state := TX_DATA, m_tx_pin := bit b 0, m_tx_counter := m_clocks_per_baud u\<rparr>"
  have "TxTick u = (?v, m_tx_pin ?v)"
    using assms by (simp add: TxTick_def)
  then have 1: "tx_run u (c + 1) = (?vz, replicate (c + 1) False)"
    using assms tx_cell [of u ?v c] by simp
  have "TxTick ?vz = (?w, m_tx_pin ?w)"
    using bit_shown [of 0 b] by (simp add: TxTick_def)
  then have 2: "tx_run ?vz (c + 1) = (?w\<lparr>m_tx_counter := 0\<rparr>, replicate (c + 1) (bit b 0))"
    using assms tx_cell [of ?vz ?w c] by simp
  have "tx_run u (c + 1 + (c + 1)) =
      (?w\<lparr>m_tx_counter := 0\<rparr>, replicate (c + 1) False @ replicate (c + 1) (bit b 0))"
    by (rule tx_seq [OF 1 2])
  moreover have "?w\<lparr>m_tx_counter := 0\<rparr> =
    u\<lparr>m_tx_shift := b, m_tx_queue := q, m_tx_state := TX_DATA, m_tx_counter := 0,
       m_tx_pin := bit b 0, m_tx_bit_index := 0\<rparr>"
    by (cases u) simp
  moreover have "(c + 1) * 2 = c + 1 + (c + 1)" by simp
  ultimately show ?thesis by (simp only: hold_simps append_Nil2)
qed

lemma frame_wave_split:
  assumes "m_data_bits u = int (Suc d)" "m_stop_bits u = int (Suc s)"
    and "c = unat (m_clocks_per_baud u)"
    and "par = (if m_parity_en u then [parity_level u b] else [])"
  shows "frame_wave u b = (hold (c + 1) [False, bit b 0] @ hold (c + 1) (map (bit b) [Suc 0..<0 + Suc d])) @
    hold (c + 1) (par @ [True]) @ replicate ((c + 1) * s + 1) True"
proof -
  have "hold (c + 1) (replicate s True) = replicate ((c + 1) * s) True"
    by (induction s) (simp_all only: replicate.simps hold_simps mult_Suc_right replicate_add mult_0_right)
  moreover have "[0..<Suc d] = 0 # [Suc 0..<0 + Suc d]" by (simp add: upt_conv_Cons del: upt_Suc)
  moreover have "nat (m_data_bits u) = Suc d" "nat (m_stop_bits u) = Suc s" using assms by simp_all
  ultimately show ?thesis
    unfolding frame_wave_def frame_levels_def assms(3,4)
    by (simp add: replicate_add replicate_append_same del: upt_Suc)
qed

theorem tx_frame:
  assumes "sane_config u" "m_tx_state u = TX_IDLE" "m_tx_queue u = b # q"
  shows "\<exists>v. tx_run u (length (frame_wave u b)) = (v, frame_wave u b) \<and>
    same_config v u \<and> m_tx_state v = TX_IDLE \<and> m_tx_queue v = q \<and> m_tx_pin v"
proof -
  obtain d where d: "m_data_bits u = int (Suc d)"
    using assms(1) zero_less_imp_eq_int [of "m_data_bits u"] gr0_conv_Suc by (auto simp: sane_config_def)
  obtain s where s: "m_stop_bits u = int (Suc s)"
    using assms(1) zero_less_imp_eq_int [of "m_stop_bits u"] gr0_conv_Suc by (auto simp: sane_config_def)
  define c where "c = unat (m_clocks_per_baud u)"
  define par where "par = (if m_parity_en u then [parity_level u b] else [])"
  let ?v = "u\<lparr>m_tx_shift := b, m_tx_queue := q, m_tx_state := TX_DATA, m_tx_counter := 0,
       m_tx_pin := bit b 0, m_tx_bit_index := 0\<rparr>"
  have 1: "tx_run u ((c + 1) * 2) = (?v, hold (c + 1) [False, bit b 0])"
    using tx_start [OF assms(2,3)] c_def by simp
  obtain l where 2: "tx_run ?v ((c + 1) * d) =
    (?v\<lparr>m_tx_bit_index := m_tx_bit_index ?v + d, m_tx_pin := l\<rparr>,
     hold (c + 1) (map (bit (m_tx_shift ?v)) [Suc (m_tx_bit_index ?v)..<m_tx_bit_index ?v + Suc d]))"
    using tx_data_bits [of ?v c d] c_def d by auto
  let ?w = "?v\<lparr>m_tx_bit_index := m_tx_bit_index ?v + d, m_tx_pin := l\<rparr>"
  let ?x = "tx_stopping (?w\<lparr>m_tx_bit_index := Suc (m_tx_bit_index ?w)\<rparr>)"
  have 3: "tx_run ?w ((c + 1) * (length par + 1)) = (?x, hold (c + 1) (par @ [True]))"
    using tx_to_stop [of ?w c] c_def d par_def by (auto simp: parity_level_def Let_def)
  have 4: "tx_run ?x ((c + 1) * s + 1) =
    (?x\<lparr>m_tx_state := TX_IDLE, m_tx_stop_count := m_tx_stop_count ?x + Suc s\<rparr>,
     replicate ((c + 1) * s + 1) True)"
    using tx_stop [of ?x c s] c_def s by (simp add: tx_stopping_def)
  let ?y = "?x\<lparr>m_tx_state := TX_IDLE, m_tx_stop_count := m_tx_stop_count ?x + Suc s\<rparr>"
  have wave: "frame_wave u b = (hold (c + 1) [False, bit b 0] @
      hold (c + 1) (map (bit (m_tx_shift ?v)) [Suc (m_tx_bit_index ?v)..<m_tx_bit_index ?v + Suc d])) @
      hold (c + 1) (par @ [True]) @ replicate ((c + 1) * s + 1) True"
    using frame_wave_split [OF d s c_def par_def] by (simp del: upt_Suc)
  have run: "tx_run u (((c + 1) * 2 + (c + 1) * d) + ((c + 1) * (length par + 1) + ((c + 1) * s + 1))) =
    (?y, frame_wave u b)"
    unfolding wave by (intro tx_seq [OF tx_seq [OF 1 2]] tx_seq [OF 3 4])
  then have "length (frame_wave u b) =
      ((c + 1) * 2 + (c + 1) * d) + ((c + 1) * (length par + 1) + ((c + 1) * s + 1))"
    using tx_run_length by (metis snd_conv)
  then show ?thesis
    using run by (intro exI [of _ ?y]) (simp add: tx_stopping_def same_config_def)
qed

section \<open>Streams of frames\<close>

text \<open>
  The interface of a line code: a receiver that digests a line piecewise, and an encoding
  of one symbol that a ready receiver decodes, ending ready again. A ready receiver then
  decodes any concatenation of encodings.
\<close>

locale line_code =
  fixes receive :: "'r \<Rightarrow> 'l list \<Rightarrow> 'r \<times> 'o list"
    and encode :: "'b \<Rightarrow> 'l list"
    and decoded :: "'b \<Rightarrow> 'o"
    and ready :: "'r \<Rightarrow> bool"
  assumes receive_Nil: "receive r [] = (r, [])"
    and receive_append: "receive r (xs @ ys) =
      (fst (receive (fst (receive r xs)) ys), snd (receive r xs) @ snd (receive (fst (receive r xs)) ys))"
    and receive_encoded: "ready r \<Longrightarrow> snd (receive r (encode b)) = [decoded b] \<and> ready (fst (receive r (encode b)))"
begin

lemma receive_stream:
  assumes "ready r"
  shows "snd (receive r (concat (map encode bs))) = map decoded bs \<and>
    ready (fst (receive r (concat (map encode bs))))"
  using assms
proof (induction bs arbitrary: r)
  case Nil
  then show ?case by (simp add: receive_Nil)
next
  case (Cons b bs)
  then show ?case
    using receive_encoded [OF Cons.prems, of b]
      Cons.IH [of "fst (receive r (encode b))"]
    by (simp add: receive_append [of r "encode b"])
qed

lemma receive_stream_prefix:
  assumes "ready r"
  shows "snd (receive r (concat (map encode bs) @ rest)) =
    map decoded bs @ snd (receive (fst (receive r (concat (map encode bs)))) rest)"
  using receive_stream [OF assms, of bs] by (simp add: receive_append)

end

section \<open>The receiver decodes the transmitter's frames\<close>

lemma map_nth_take: "k \<le> length xs \<Longrightarrow> map ((!) xs) [0..<k] = take k xs"
  by (rule nth_equalityI) simp_all

lemma same_config_sym: "same_config u v \<Longrightarrow> same_config v u"
  by (simp add: same_config_def)

lemma same_config_trans: "same_config u v \<Longrightarrow> same_config v w \<Longrightarrow> same_config u w"
  by (simp add: same_config_def)

lemma rx_stays_idle:
  assumes "rx_idle u"
  shows "\<exists>v. rx_run u (replicate n True) = (v, []) \<and> same_config v u \<and> rx_idle v"
  using assms
proof (induction n arbitrary: u)
  case 0
  then show ?case by (simp add: same_config_def)
next
  case (Suc n)
  let ?v = "u\<lparr>m_rx_ready := False, m_rx_last_pin := True\<rparr>"
  have t: "RxTick u True = (?v, False)"
    using Suc.prems by (simp add: RxTick_def rx_idle_def)
  have i: "rx_idle ?v" using Suc.prems by (simp add: rx_idle_def)
  obtain v where "rx_run ?v (replicate n True) = (v, [])" "same_config v ?v" "rx_idle v"
    using Suc.IH [OF i] by blast
  then show ?case using t by (intro exI [of _ v]) (simp add: same_config_def)
qed

lemma length_frame_levels:
  "length (frame_levels u b) = 1 + nat (m_data_bits u) + (if m_parity_en u then 1 else 0) + nat (m_stop_bits u)"
  by (simp add: frame_levels_def)

text \<open>The receiver's sample points fall strictly inside the cells the transmitter holds.\<close>

lemma frame_sampled:
  assumes "0 < m_clocks_per_baud u" "k < length (frame_levels u b)"
  shows "frame_wave u b ! rx_point (unat (m_clocks_per_baud u)) k = frame_levels u b ! k"
    and "rx_point (unat (m_clocks_per_baud u)) k < length (frame_wave u b)"
proof -
  define c where "c = unat (m_clocks_per_baud u)"
  have "c div 2 + 1 < c + 1"
    using assms(1) by (simp add: c_def unat_gt_0 word_gt_0)
  moreover have p: "rx_point c k = (c + 1) * k + (c div 2 + 1)" by (simp add: rx_point_def)
  moreover have "(c + 1) * k + (c + 1) \<le> (c + 1) * length (frame_levels u b)"
    using assms(2) by (metis Suc_leI add.commute mult_Suc_right mult_le_mono2)
  ultimately show "frame_wave u b ! rx_point (unat (m_clocks_per_baud u)) k = frame_levels u b ! k"
    and "rx_point (unat (m_clocks_per_baud u)) k < length (frame_wave u b)"
    using nth_hold [OF assms(2), of "c div 2 + 1" "c + 1"]
    by (simp_all add: frame_wave_def nth_append flip: c_def)
qed

lemma frame_tail_high:
  assumes "(unat (m_clocks_per_baud u) + 1) * (length (frame_levels u b) - nat (m_stop_bits u)) \<le> n"
  shows "\<exists>m. drop n (frame_wave u b) = replicate m True"
proof -
  define p where "p = unat (m_clocks_per_baud u) + 1"
  define pre where "pre = False # map (bit b) [0..<nat (m_data_bits u)] @
     (if m_parity_en u then [parity_level u b] else [])"
  have lv: "frame_levels u b = pre @ replicate (nat (m_stop_bits u)) True"
    by (simp add: frame_levels_def pre_def)
  have hr: "hold p (replicate s True) = replicate (p * s) True" for s
    by (induction s) (simp_all only: replicate.simps hold_simps mult_Suc_right replicate_add mult_0_right)
  have fw: "frame_wave u b = hold p pre @ replicate (Suc (p * nat (m_stop_bits u))) True"
    by (simp only: frame_wave_def lv hold_simps hr flip: p_def) (simp add: replicate_append_same)
  have "length (hold p pre) \<le> n" using assms by (simp add: lv p_def)
  then show ?thesis by (simp add: fw del: replicate_Suc)
qed

lemma sample_levels:
  assumes "i < nat (m_data_bits u)"
  shows "frame_levels u b ! Suc i = bit b i"
  using assms by (simp add: frame_levels_def nth_append)

lemma stop_level:
  assumes "0 < m_stop_bits u"
  shows "frame_levels u b ! (nat (m_data_bits u) + (if m_parity_en u then 1 else 0) + 1)"
  using assms by (simp add: frame_levels_def nth_append)

lemma rx_frame_wave:
  assumes sane: "sane_config t" and same: "same_config u t" and idle: "rx_idle u"
  shows "\<exists>v. rx_run u (frame_wave t b) = (v, [(take_bit (nat (m_data_bits t)) b, False)]) \<and>
    same_config v u \<and> rx_idle v"
proof -
  define c where "c = unat (m_clocks_per_baud t)"
  define n where "n = nat (m_data_bits t)"
  let ?w = "(!) (frame_wave t b)"
  have cpb: "0 < m_clocks_per_baud t" "unat (m_clocks_per_baud u) = c"
    and d: "m_data_bits u = int n" "0 < n" and st: "0 < m_stop_bits t"
    using sane same by (auto simp: sane_config_def same_config_def c_def n_def)
  have sp: "stop_point u = rx_point c (n + (if m_parity_en t then 1 else 0) + 1)"
    using same by (simp add: stop_point_def same_config_def c_def n_def)
  have len: "n + (if m_parity_en t then 1 else 0) + 1 < length (frame_levels t b)"
    using st by (simp add: length_frame_levels n_def)
  have ps: "?w (rx_point c k) = frame_levels t b ! k" if "k < length (frame_levels t b)" for k
    using frame_sampled(1) [OF cpb(1) that] by (simp add: c_def)
  have w0: "\<not> ?w 0" by (simp add: frame_wave_def frame_levels_def)
  have w1: "\<not> ?w (rx_point c 0)" using ps [of 0] by (simp add: frame_levels_def)
  have ws: "?w (stop_point u)"
    unfolding sp using ps [OF len] stop_level [OF st, of b] by (simp only: n_def)
  have fb: "bits_to_byte (frame_bits ?w c n) = take_bit n b"
    using len ps sample_levels [of _ t b]
    by (intro bit_word_eqI) (auto simp: frame_bits_def bit_take_bit_iff n_def dest: bit_imp_le_length)
  obtain v where v: "rx_run u (map ?w [0..<stop_point u + 1]) = (v, [(take_bit n b, False)])"
    "same_config v u" "rx_idle v"
    using rx_frame [OF idle cpb(2) d w0 w1] ws fb by (auto simp: rx_idle_def)
  have "stop_point u < length (frame_wave t b)"
    using frame_sampled(2) [OF cpb(1) len] by (simp add: sp c_def)
  then have tk: "map ?w [0..<stop_point u + 1] = take (stop_point u + 1) (frame_wave t b)"
    by (intro map_nth_take) simp
  have "(unat (m_clocks_per_baud t) + 1) * (length (frame_levels t b) - nat (m_stop_bits t)) \<le> stop_point u + 1"
    by (simp add: sp rx_point_def length_frame_levels c_def n_def)
  then obtain m where m: "drop (stop_point u + 1) (frame_wave t b) = replicate m True"
    using frame_tail_high by blast
  obtain x where x: "rx_run v (replicate m True) = (x, [])" "same_config x v" "rx_idle x"
    using rx_stays_idle [OF v(3)] by blast
  have "rx_run u (take (stop_point u + 1) (frame_wave t b) @ drop (stop_point u + 1) (frame_wave t b)) =
    (x, [(take_bit n b, False)])"
    unfolding m using v(1) x(1) by (simp only: tk rx_run_append Let_def prod.case append_Nil2)
  then have "rx_run u (frame_wave t b) = (x, [(take_bit n b, False)])"
    by (simp only: append_take_drop_id)
  then show ?thesis
    using x v same_config_trans by (auto simp: n_def)
qed

interpretation uart_line: line_code rx_run "frame_wave t" "\<lambda>b. (take_bit (nat (m_data_bits t)) b, False)"
    "\<lambda>u. sane_config t \<and> same_config u t \<and> rx_idle u" for t
proof
  show "rx_run r [] = (r, [])" for r by simp
  show "rx_run r (xs @ ys) =
      (fst (rx_run (fst (rx_run r xs)) ys), snd (rx_run r xs) @ snd (rx_run (fst (rx_run r xs)) ys))" for r xs ys
    by (simp add: rx_run_append Let_def case_prod_beta)
  show "snd (rx_run r (frame_wave t b)) = [(take_bit (nat (m_data_bits t)) b, False)] \<and>
      sane_config t \<and> same_config (fst (rx_run r (frame_wave t b))) t \<and> rx_idle (fst (rx_run r (frame_wave t b)))"
    if "sane_config t \<and> same_config r t \<and> rx_idle r" for r b
    using rx_frame_wave [of t r b] that same_config_trans by fastforce
qed

lemma tx_drains:
  assumes "sane_config u" "m_tx_state u = TX_IDLE" "m_tx_queue u = bs"
  shows "\<exists>v. tx_run u (length (concat (map (frame_wave u) bs))) = (v, concat (map (frame_wave u) bs)) \<and>
    same_config v u \<and> \<not> TxBusy v"
  using assms
proof (induction bs arbitrary: u)
  case Nil
  then show ?case by (simp add: TxBusy_def same_config_def)
next
  case (Cons b bs)
  obtain v where v: "tx_run u (length (frame_wave u b)) = (v, frame_wave u b)" "same_config v u"
    "m_tx_state v = TX_IDLE" "m_tx_queue v = bs"
    using tx_frame [OF Cons.prems] by blast
  then have s: "sane_config v" using Cons.prems(1) by (simp add: sane_config_def same_config_def)
  have w: "frame_wave v = frame_wave u"
    using v(2) by (intro ext) (simp add: frame_wave_def frame_levels_def parity_level_def same_config_def)
  obtain x where x: "tx_run v (length (concat (map (frame_wave u) bs))) = (x, concat (map (frame_wave u) bs))"
    "same_config x v" "\<not> TxBusy x"
    using Cons.IH [OF s v(3,4)] unfolding w by blast
  show ?case
    using tx_seq [OF v(1) x(1)] x(2,3) v(2) same_config_trans by (auto intro: exI [of _ x])
qed

section \<open>Properties\<close>

definition frame_time :: "soft_uart \<Rightarrow> nat" where
  "frame_time u = (unat (m_clocks_per_baud u) + 1) *
     (1 + nat (m_data_bits u) + (if m_parity_en u then 1 else 0) + nat (m_stop_bits u)) + 1"

lemma length_frame_wave: "length (frame_wave u b) = frame_time u"
  by (simp add: frame_wave_def length_frame_levels frame_time_def)

lemma length_frames: "length (concat (map (frame_wave u) bs)) = length bs * frame_time u"
  by (induction bs) (simp_all add: length_frame_wave)

text \<open>C1: Loopback. A transmitter with any positive bit time, number of data bits and stop bits,
  with or without parity, idle with the bytes \<open>bs\<close> queued, drains its queue in
  \<open>length bs\<close> frame times, and an idle receiver of the same configuration that watches
  those samples reports exactly the low \<open>data_bits\<close> bits of each byte, in order and
  without a framing error.\<close>

theorem uart_loopback:
  assumes "sane_config t" "m_tx_state t = TX_IDLE" "same_config r t" "rx_idle r"
  shows "\<not> TxBusy (fst (tx_run t (length (m_tx_queue t) * frame_time t))) \<and>
    snd (rx_run r (snd (tx_run t (length (m_tx_queue t) * frame_time t)))) =
      map (\<lambda>b. (take_bit (nat (m_data_bits t)) b, False)) (m_tx_queue t)"
proof -
  obtain v where "tx_run t (length (m_tx_queue t) * frame_time t) =
      (v, concat (map (frame_wave t) (m_tx_queue t)))" "\<not> TxBusy v"
    using tx_drains [OF assms(1,2) refl] by (auto simp: length_frames)
  moreover have "snd (rx_run r (concat (map (frame_wave t) (m_tx_queue t)))) =
      map (\<lambda>b. (take_bit (nat (m_data_bits t)) b, False)) (m_tx_queue t)"
    using uart_line.receive_stream [of t r] assms by simp
  ultimately show ?thesis by simp
qed

theorem uart_loopback_witness:
  "snd (rx_run (Configure 2 7 1 True True SoftUART_init)
    (snd (tx_run (TxEnqueue 0xC1 (TxEnqueue 0x48 (Configure 2 7 1 True True SoftUART_init))) 62))) =
   [(0x48, False), (0x41, False)]"
  using uart_loopback [of "TxEnqueue 0xC1 (TxEnqueue 0x48 (Configure 2 7 1 True True SoftUART_init))"
      "Configure 2 7 1 True True SoftUART_init"]
  by (simp add: sane_config_def same_config_def rx_idle_def TxEnqueue_def Configure_def SoftUART_init_def
      frame_time_def)

text \<open>C19: Clock tolerance. A receiver set to \<open>c\<close> clocks per bit samples every \<open>c + 1\<close> clocks; on
  an 8N1 line whose bits last exactly \<open>c\<close> clocks it still decodes the byte without a framing
  error whenever \<open>c\<close> is at least 21.\<close>

theorem rx_nominal_rate:
  assumes "rx_idle u" "unat (m_clocks_per_baud u) = c" "21 \<le> c" "m_data_bits u = 8" "\<not> m_parity_en u"
    and "\<And>i. i < 10 * c \<Longrightarrow> w i = ([False] @ map (bit (b :: u8)) [0..<8] @ [True]) ! (i div c)"
  shows "snd (rx_run u (map w [0..<stop_point u + 1])) = [(b, False)]"
proof -
  let ?l = "[False] @ map (bit b) [0..<8] @ [True]"
  have pt: "rx_point c k < 10 * c \<and> rx_point c k div c = k" if "k < 10" for k
  proof -
    have "c div 2 + 1 + k < c" using that assms(3) by linarith
    moreover have "rx_point c k = c * k + (c div 2 + 1 + k)" by (simp add: rx_point_def)
    moreover have "c * k + c \<le> 10 * c" using that mult_le_mono2 [of "Suc k" 10 c] by simp
    moreover have "(c * k + j) div c = k" if "j < c" for j using that by simp
    ultimately show ?thesis by (metis add_less_cancel_left order_less_le_trans)
  qed
  have ps: "w (rx_point c k) = ?l ! k" if "k < 10" for k
    using assms(6) [of "rx_point c k"] pt [OF that] by simp
  have sp: "stop_point u = rx_point c 9"
    using assms by (simp add: stop_point_def)
  have fb: "bits_to_byte (frame_bits w c 8) = b"
    using ps by (intro bit_word_eqI) (auto simp: frame_bits_def nth_append dest: bit_imp_le_length)
  have "\<not> w 0" using assms(6) [of 0] assms(3) by simp
  moreover have "\<not> w (rx_point c 0)" using ps [of 0] by simp
  moreover have "w (stop_point u)" using ps [of 9] sp by (simp add: nth_append)
  ultimately show ?thesis
    using rx_frame [OF assms(1,2), of 8 w] assms(4) fb by auto
qed

theorem rx_nominal_rate_witness:
  "snd (rx_run (Configure 21 8 1 False False SoftUART_init)
     (map (\<lambda>i. ([False] @ map (bit (0xA5 :: u8)) [0..<8] @ [True]) ! (i div 21))
       [0..<stop_point (Configure 21 8 1 False False SoftUART_init) + 1])) = [(0xA5, False)]"
  by (rule rx_nominal_rate [where c = 21])
    (simp_all add: rx_idle_def Configure_def SoftUART_init_def)

text \<open>Glitch rejection. When the line, idle high, falls but is high again at the middle of the
  start bit, the receiver is idle again after that sample and has reported nothing.\<close>

theorem rx_rejects_glitch:
  assumes "rx_idle u" "unat (m_clocks_per_baud u) = c" "\<not> w 0" "w (rx_point c 0)"
  shows "snd (rx_run u (map w [0..<rx_point c 0 + 1])) = [] \<and>
    rx_idle (fst (rx_run u (map w [0..<rx_point c 0 + 1])))"
proof -
  let ?v = "u\<lparr>m_rx_ready := False, m_rx_state := RX_START, m_rx_counter := m_clocks_per_baud u div 2,
    m_rx_shift := 0, m_rx_bit_index := 0, m_rx_frame_error := False, m_rx_last_pin := False\<rparr>"
  have 1: "rx_run u (map w [0..<1]) = (?v, [])"
    using assms by (simp add: RxTick_def rx_idle_def)
  have c: "unat (m_rx_counter ?v) = c div 2"
    using assms by (simp add: unat_div)
  have 2: "rx_run ?v (map w [1..<1 + c div 2 + 1]) = rx_run (?v\<lparr>m_rx_counter := 0\<rparr>) [w (1 + c div 2)]"
    by (rule rx_wait_fun [OF _ c]) simp
  have s: "[0..<rx_point c 0 + 1] = [0..<1] @ [1..<1 + c div 2 + 1]"
    using upt_append [of 0 1 "rx_point c 0 + 1"] by (simp add: rx_point_def del: upt_Suc)
  show ?thesis
    unfolding s map_append rx_run_append 1 Let_def prod.case 2
    using assms by (simp add: RxTick_def rx_idle_def rx_point_def)
qed

theorem rx_rejects_glitch_witness:
  "rx_idle (fst (rx_run (Configure 16 8 1 False False SoftUART_init) (map (\<lambda>i. 3 < i) [0..<rx_point 16 0 + 1])))"
  using rx_rejects_glitch [of "Configure 16 8 1 False False SoftUART_init" 16 "\<lambda>i. 3 < i"]
  by (simp add: rx_idle_def Configure_def SoftUART_init_def rx_point_def)

text \<open>C39: Every value of the setup register configures a usable line: 5 to 8 data bits, 1 or 2 stop
  bits, a positive bit time below \<open>2\<^sup>24\<close> clocks that is the register's low 24 bits unless those
  are zero, and the parity flags of bits 26 and 24.\<close>

theorem setup_register_config:
  "let v = ConfigureFromSetup reg u in
     sane_config v \<and> m_data_bits v \<in> {5..8} \<and> m_stop_bits v = (if bit reg 27 then 2 else 1) \<and>
     unat (m_clocks_per_baud v) = max 1 (unat reg mod 2 ^ 24) \<and>
     (m_parity_en v \<longleftrightarrow> bit reg 26) \<and> (m_parity_even v \<longleftrightarrow> bit reg 24) \<and>
     m_data_bits v = 8 - int (unat reg div 2 ^ 28 mod 4)"
proof -
  have m: "reg AND 0xFFFFFF = take_bit 24 reg"
    by (simp add: take_bit_eq_mask mask_eq_exp_minus_1)
  have u: "unat (take_bit 24 reg) = unat reg mod 2 ^ 24"
    unfolding unsigned_take_bit_eq by (simp only: take_bit_eq_mod)
  have "uint (drop_bit 28 reg AND 3) = int (unat (take_bit 2 (drop_bit 28 reg)))"
    by (simp add: take_bit_eq_mask mask_eq_exp_minus_1)
  also have "unat (take_bit 2 (drop_bit 28 reg)) = unat reg div 2 ^ 28 mod 4"
    unfolding unsigned_take_bit_eq unsigned_drop_bit_eq
    using unsigned_less [of reg, where 'a = nat] by (simp add: take_bit_eq_mod drop_bit_eq_div)
  finally have d: "uint (drop_bit 28 reg AND 3) = int (unat reg div 2 ^ 28 mod 4)" .
  have c: "unat (if take_bit 24 reg > 0 then take_bit 24 reg else 1) = max 1 (unat reg mod 2 ^ 24)"
  proof (cases "unat (take_bit 24 reg) = 0")
    case True
    then show ?thesis using u by (simp add: unat_eq_0)
  next
    case False
    then have "take_bit 24 reg > 0" by (simp add: word_gt_0 unat_eq_0)
    with False u show ?thesis by simp
  qed
  have q: "unat reg div 268435456 mod 4 \<le> 3" "unat reg div 268435456 mod 4 < 8"
    using mod_less_divisor [of 4 "unat reg div 268435456"] by linarith+
  have p: "0 < (if take_bit 24 reg > 0 then take_bit 24 reg else 1)" by simp
  show ?thesis
    unfolding Let_def ConfigureFromSetup_def m d Configure_def bit_shown sane_config_def
    using c p by (simp add: q)
qed

end
