(* ===== verification/SerialTerm.thy ===== *)
theory SerialTerm
  imports SoftUart
begin

text \<open>
  The serial terminal window of \<open>verilator/sim/sim_serial.cpp\<close> (\<open>SimSerialTerminal\<close>): the soft
  UART together with the line buffer that shows what arrives and the input field that is sent.
  The ImGui widgets are outside the repository: what they return on one frame is the record
  \<open>draw_ui\<close>, an argument of \<open>Draw\<close>. The messages on \<open>stderr\<close> are not modelled.
\<close>

section \<open>State\<close>

datatype line_ending = LE_CR | LE_LF | LE_CRLF

record terminal =
  m_uart :: soft_uart
  m_lines :: "string list"
  m_current_line :: string
  m_auto_scroll :: bool
  m_scroll_to_bottom :: bool
  m_input_buf :: "u8 list"
  m_rx_byte_count :: u64
  m_tx_byte_count :: u64
  m_frame_error_count :: u32
  m_hex_mode :: bool
  m_last_was_cr :: bool
  m_line_ending :: line_ending
  m_scc_wr3 :: u8
  m_scc_wr5 :: u8
  m_scc_wr9 :: u8
  m_scc_wr14 :: u8

definition MAX_LINES :: nat where
  "MAX_LINES = 1000"

definition SimSerialTerminal_init :: terminal where
  "SimSerialTerminal_init =
     \<lparr>m_uart = SoftUART_init, m_lines = [''[Serial terminal ready]''], m_current_line = [],
      m_auto_scroll = True, m_scroll_to_bottom = False, m_input_buf = [],
      m_rx_byte_count = 0, m_tx_byte_count = 0, m_frame_error_count = 0,
      m_hex_mode = False, m_last_was_cr = False, m_line_ending = LE_CR,
      m_scc_wr3 = 0, m_scc_wr5 = 0, m_scc_wr9 = 0, m_scc_wr14 = 0\<rparr>"

section \<open>Received characters\<close>

definition char_of_u8 :: "u8 \<Rightarrow> char" where
  "char_of_u8 c = char_of (unat c)"

definition hex_digit :: "nat \<Rightarrow> char" where
  "hex_digit n = ''0123456789ABCDEF'' ! n"

definition hex2 :: "u8 \<Rightarrow> string" where
  "hex2 c = [hex_digit (unat c div 16), hex_digit (unat c mod 16)]"

text \<open>\<open>while (m_lines.size() > MAX_LINES) m_lines.erase(m_lines.begin());\<close>\<close>

fun trim_lines :: "string list \<Rightarrow> string list" where
  "trim_lines [] = []"
| "trim_lines (l # ls) = (if length (l # ls) > MAX_LINES then trim_lines ls else l # ls)"

definition add_hex_char :: "u8 \<Rightarrow> terminal \<Rightarrow> terminal" where
  "add_hex_char c s =
     (let s = s\<lparr>m_current_line := m_current_line s @ hex2 c @ '' ''\<rparr>
      in if length (m_current_line s) > 72
         then s\<lparr>m_lines := m_lines s @ [m_current_line s], m_current_line := []\<rparr> else s)"

definition add_text_char :: "u8 \<Rightarrow> terminal \<Rightarrow> terminal" where
  "add_text_char c s =
     (if c = 0x0D
      then s\<lparr>m_lines := m_lines s @ [m_current_line s], m_current_line := [], m_last_was_cr := True\<rparr>
      else if c = 0x0A
      then
        (let s = (if \<not> m_last_was_cr s
                  then s\<lparr>m_lines := m_lines s @ [m_current_line s], m_current_line := []\<rparr>
                  else s)
         in s\<lparr>m_last_was_cr := False\<rparr>)
      else if c = 0x08 \<or> c = 0x7F
      then
        (let s = (if m_current_line s \<noteq> []
                  then s\<lparr>m_current_line := butlast (m_current_line s)\<rparr> else s)
         in s\<lparr>m_last_was_cr := False\<rparr>)
      else if c \<ge> 0x20 \<and> c < 0x7F
      then s\<lparr>m_current_line := m_current_line s @ [char_of_u8 c], m_last_was_cr := False\<rparr>
      else s\<lparr>m_current_line := m_current_line s @ ''<'' @ hex2 c @ ''>'', m_last_was_cr := False\<rparr>)"

definition AddReceivedChar :: "u8 \<Rightarrow> terminal \<Rightarrow> terminal" where
  "AddReceivedChar c s =
     (let s = (if m_hex_mode s then add_hex_char c s else add_text_char c s)
      in s\<lparr>m_lines := trim_lines (m_lines s), m_scroll_to_bottom := True\<rparr>)"

section \<open>Sending the input field\<close>

definition line_ending_bytes :: "line_ending \<Rightarrow> u8 list" where
  "line_ending_bytes e = (case e of LE_CR \<Rightarrow> [0x0D] | LE_LF \<Rightarrow> [0x0A] | LE_CRLF \<Rightarrow> [0x0D, 0x0A])"

definition enqueue_counted :: "u8 \<Rightarrow> terminal \<Rightarrow> terminal" where
  "enqueue_counted b s = s\<lparr>m_uart := TxEnqueue b (m_uart s), m_tx_byte_count := m_tx_byte_count s + 1\<rparr>"

text \<open>\<open>m_input_buf\<close> is the field's text up to its terminating NUL.\<close>

definition SendInput :: "terminal \<Rightarrow> terminal" where
  "SendInput s =
     (let s = fold enqueue_counted (m_input_buf s) s;
          s = (case m_line_ending s of
                 LE_CR \<Rightarrow> enqueue_counted 0x0D s
               | LE_LF \<Rightarrow> enqueue_counted 0x0A s
               | LE_CRLF \<Rightarrow> s\<lparr>m_uart := TxEnqueue 0x0A (TxEnqueue 0x0D (m_uart s)),
                              m_tx_byte_count := m_tx_byte_count s + 2\<rparr>)
      in s\<lparr>m_input_buf := []\<rparr>)"

section \<open>One clock\<close>

definition term_Tick :: "terminal \<Rightarrow> bool \<Rightarrow> terminal \<times> bool" where
  "term_Tick s fpga_txd_pin =
     (let (u, rdy) = RxTick (m_uart s) fpga_txd_pin;
          s = s\<lparr>m_uart := u\<rparr>;
          s = (if rdy
               then
                 (let s = s\<lparr>m_rx_byte_count := m_rx_byte_count s + 1\<rparr>;
                      s = (if RxFrameError u
                           then s\<lparr>m_frame_error_count := m_frame_error_count s + 1\<rparr> else s)
                  in AddReceivedChar (RxByte u) s)
               else s);
          (u, pin) = TxTick (m_uart s)
      in (s\<lparr>m_uart := u\<rparr>, pin))"

section \<open>Configuration and status\<close>

definition UpdateConfig :: "u32 \<Rightarrow> terminal \<Rightarrow> terminal" where
  "UpdateConfig uart_setup_reg s = s\<lparr>m_uart := ConfigureFromSetup uart_setup_reg (m_uart s)\<rparr>"

definition UpdateConfigDirect :: "u32 \<Rightarrow> int \<Rightarrow> int \<Rightarrow> bool \<Rightarrow> bool \<Rightarrow> terminal \<Rightarrow> terminal" where
  "UpdateConfigDirect cpb data_bits stop_bits parity_en parity_even s =
     s\<lparr>m_uart := Configure cpb data_bits stop_bits parity_en parity_even (m_uart s)\<rparr>"

definition UpdateSCCStatus :: "u8 \<Rightarrow> u8 \<Rightarrow> u8 \<Rightarrow> u8 \<Rightarrow> terminal \<Rightarrow> terminal" where
  "UpdateSCCStatus wr3 wr5 wr9 wr14 s =
     s\<lparr>m_scc_wr3 := wr3, m_scc_wr5 := wr5, m_scc_wr9 := wr9, m_scc_wr14 := wr14\<rparr>"

section \<open>Drawing\<close>

text \<open>What the widgets of one frame return.\<close>

record draw_ui =
  ui_begin :: bool
  ui_clear :: bool
  ui_hex :: bool
  ui_auto_scroll :: bool
  ui_at_bottom :: bool
  ui_input :: "u8 list"
  ui_enter :: bool
  ui_line_ending :: "line_ending option"

record screen =
  scr_ready :: bool
  scr_flags :: "bool \<times> bool \<times> bool \<times> bool"
  scr_baud :: u32
  scr_cpb :: u32
  scr_data_bits :: int
  scr_stop_bits :: nat
  scr_counts :: "u64 \<times> u64 \<times> u32"
  scr_lines :: "string list"
  scr_scrolled :: bool

definition Draw :: "draw_ui \<Rightarrow> terminal \<Rightarrow> terminal \<times> screen option" where
  "Draw ui s =
     (if \<not> ui_begin ui then (s, None)
      else
        (let rx_en = m_scc_wr3 s AND 0x01 \<noteq> 0;
             tx_en = m_scc_wr5 s AND 0x08 \<noteq> 0;
             brg_en = m_scc_wr14 s AND 0x01 \<noteq> 0;
             mie = m_scc_wr9 s AND 0x08 \<noteq> 0;
             cpb = m_clocks_per_baud (m_uart s);
             counts = (m_rx_byte_count s, m_tx_byte_count s, m_frame_error_count s);
             s = (if ui_clear ui
                  then s\<lparr>m_lines := [], m_current_line := [], m_rx_byte_count := 0,
                         m_tx_byte_count := 0, m_frame_error_count := 0\<rparr>
                  else s);
             s = s\<lparr>m_hex_mode := ui_hex ui, m_auto_scroll := ui_auto_scroll ui\<rparr>;
             shown = m_lines s @ (if m_current_line s \<noteq> [] then [m_current_line s @ ''_''] else []);
             scrolled = (m_scroll_to_bottom s \<or> (m_auto_scroll s \<and> ui_at_bottom ui));
             s = s\<lparr>m_scroll_to_bottom := False, m_input_buf := ui_input ui\<rparr>;
             s = (if ui_enter ui then SendInput s else s);
             s = (case ui_line_ending ui of None \<Rightarrow> s | Some e \<Rightarrow> s\<lparr>m_line_ending := e\<rparr>)
         in (s, Some \<lparr>scr_ready = rx_en \<and> tx_en \<and> brg_en, scr_flags = (rx_en, tx_en, brg_en, mie),
                      scr_baud = (if cpb > 0 then 31334400 div cpb else 0), scr_cpb = cpb,
                      scr_data_bits = m_data_bits (m_uart s), scr_stop_bits = 1,
                      scr_counts = counts,
                      scr_lines = shown, scr_scrolled = scrolled\<rparr>)))"

section \<open>The line buffer\<close>

lemma trim_lines_eq: "trim_lines ls = keep_last MAX_LINES ls"
  by (induction ls) (simp_all add: keep_last_Cons)

interpretation term_log: bounded_log "\<lambda>l ls. trim_lines (ls @ [l])" "\<lambda>ls. ls" "\<lambda>_. True" MAX_LINES
  by unfold_locales (simp_all add: trim_lines_eq MAX_LINES_def)

definition term_inv :: "terminal \<Rightarrow> bool" where
  "term_inv s \<longleftrightarrow> length (m_lines s) \<le> MAX_LINES \<and>
     (m_hex_mode s \<longrightarrow> length (m_current_line s) \<le> 72 \<or> m_current_line s = [])"

lemma lines_bounded: "length (m_lines (AddReceivedChar c s)) \<le> MAX_LINES"
  by (simp add: AddReceivedChar_def Let_def trim_lines_eq)

definition printable :: "u8 \<Rightarrow> bool" where
  "printable c \<longleftrightarrow> c \<ge> 0x20 \<and> c < 0x7F"

lemma printable_not: "printable c \<Longrightarrow> c \<noteq> 0x0D \<and> c \<noteq> 0x0A \<and> c \<noteq> 0x08 \<and> c \<noteq> 0x7F"
  by (auto simp: printable_def)

lemma receive_text:
  assumes "\<not> m_hex_mode s" "list_all printable cs" "length (m_lines s) \<le> MAX_LINES"
  shows "fold AddReceivedChar cs s =
    (if cs = [] then s
     else s\<lparr>m_current_line := m_current_line s @ map char_of_u8 cs, m_last_was_cr := False,
            m_scroll_to_bottom := True\<rparr>)"
  using assms
proof (induction cs arbitrary: s)
  case Nil
  then show ?case by simp
next
  case (Cons c cs)
  let ?v = "s\<lparr>m_current_line := m_current_line s @ [char_of_u8 c], m_last_was_cr := False,
            m_scroll_to_bottom := True\<rparr>"
  have "AddReceivedChar c s = ?v"
    using Cons.prems printable_not [of c]
    by (cases s) (simp add: AddReceivedChar_def add_text_char_def printable_def trim_lines_eq)
  then show ?case using Cons by (cases s) simp
qed

lemma receive_newline:
  assumes "\<not> m_hex_mode s" "length (m_lines s) \<le> MAX_LINES" "e = LE_LF \<longrightarrow> \<not> m_last_was_cr s"
  shows "fold AddReceivedChar (line_ending_bytes e) s =
    s\<lparr>m_lines := trim_lines (m_lines s @ [m_current_line s]), m_current_line := [],
      m_last_was_cr := (e = LE_CR), m_scroll_to_bottom := True\<rparr>"
  using assms
  by (cases s; cases e) (simp_all add: line_ending_bytes_def AddReceivedChar_def add_text_char_def trim_lines_eq)

lemma receive_line:
  assumes "\<not> m_hex_mode s" "length (m_lines s) \<le> MAX_LINES" "list_all printable cs"
    and "e = LE_LF \<longrightarrow> \<not> m_last_was_cr s"
  shows "fold AddReceivedChar (cs @ line_ending_bytes e) s =
    s\<lparr>m_lines := trim_lines (m_lines s @ [m_current_line s @ map char_of_u8 cs]), m_current_line := [],
      m_last_was_cr := (e = LE_CR), m_scroll_to_bottom := True\<rparr>"
proof (cases "cs = []")
  case True
  then show ?thesis using assms by (simp add: receive_newline)
next
  case False
  let ?v = "s\<lparr>m_current_line := m_current_line s @ map char_of_u8 cs, m_last_was_cr := False,
            m_scroll_to_bottom := True\<rparr>"
  have "fold AddReceivedChar cs s = ?v" using receive_text [of s cs] assms False by simp
  then show ?thesis using assms receive_newline [of ?v e] by (cases s) simp
qed

section \<open>The terminal as a UART\<close>

text \<open>The halves of the UART: each tick reads and writes its own half and the configuration.\<close>

definition config_of :: "soft_uart \<Rightarrow> u32 \<times> int \<times> int \<times> bool \<times> bool" where
  "config_of u = (m_clocks_per_baud u, m_data_bits u, m_stop_bits u, m_parity_en u, m_parity_even u)"

definition rx_half :: "soft_uart \<Rightarrow> rx_state \<times> u32 \<times> nat \<times> u8 \<times> u8 \<times> bool \<times> bool \<times> bool" where
  "rx_half u = (m_rx_state u, m_rx_counter u, m_rx_bit_index u, m_rx_shift u, m_rx_byte u,
     m_rx_ready u, m_rx_frame_error u, m_rx_last_pin u)"

definition tx_half :: "soft_uart \<Rightarrow> tx_state \<times> u32 \<times> nat \<times> u8 \<times> bool \<times> nat \<times> u8 list" where
  "tx_half u = (m_tx_state u, m_tx_counter u, m_tx_bit_index u, m_tx_shift u, m_tx_pin u,
     m_tx_stop_count u, m_tx_queue u)"

lemmas halves = config_of_def rx_half_def tx_half_def

lemma RxTick_keeps [frame_simps]:
  "tx_half (fst (RxTick u p)) = tx_half u" "config_of (fst (RxTick u p)) = config_of u"
  by (cases "m_rx_state u"; simp add: RxTick_def Let_def halves)+

lemma TxTick_keeps [frame_simps]:
  "rx_half (fst (TxTick u)) = rx_half u" "config_of (fst (TxTick u)) = config_of u"
  by (cases "m_tx_state u"; simp add: TxTick_def Let_def halves split: list.split)+

lemma RxTick_local:
  assumes "rx_half u = rx_half v" "config_of u = config_of v"
  shows "snd (RxTick u p) = snd (RxTick v p) \<and> rx_half (fst (RxTick u p)) = rx_half (fst (RxTick v p))"
  using assms by (cases "m_rx_state v"; simp add: RxTick_def Let_def halves)

lemma TxTick_local:
  assumes "tx_half u = tx_half v" "config_of u = config_of v"
  shows "snd (TxTick u) = snd (TxTick v) \<and> tx_half (fst (TxTick u)) = tx_half (fst (TxTick v))"
  using assms
  by (cases "m_tx_state v"; simp add: TxTick_def Let_def halves split: list.split)

lemma rx_run_local:
  assumes "rx_half u = rx_half v" "config_of u = config_of v"
  shows "snd (rx_run u ps) = snd (rx_run v ps)"
  using assms
proof (induction ps arbitrary: u v)
  case Nil
  then show ?case by simp
next
  case (Cons p ps)
  have l: "snd (RxTick u p) = snd (RxTick v p)" "rx_half (fst (RxTick u p)) = rx_half (fst (RxTick v p))"
    using RxTick_local [OF Cons.prems] by auto
  have "snd (rx_run (fst (RxTick u p)) ps) = snd (rx_run (fst (RxTick v p)) ps)"
    using l Cons.prems(2) by (intro Cons.IH) (simp_all add: frame_simps)
  with l show ?case
    by (auto simp: Let_def case_prod_beta RxByte_def RxFrameError_def rx_half_def)
qed

lemma tx_run_local:
  assumes "tx_half u = tx_half v" "config_of u = config_of v"
  shows "snd (tx_run u n) = snd (tx_run v n)"
  using assms
proof (induction n arbitrary: u v)
  case 0
  then show ?case by simp
next
  case (Suc n)
  have l: "snd (TxTick u) = snd (TxTick v)" "tx_half (fst (TxTick u)) = tx_half (fst (TxTick v))"
    using TxTick_local [OF Suc.prems] by auto
  have "snd (tx_run (fst (TxTick u)) n) = snd (tx_run (fst (TxTick v)) n)"
    using l Suc.prems(2) by (intro Suc.IH) (simp_all add: frame_simps)
  with l show ?case by (simp add: Let_def case_prod_beta)
qed

fun term_run :: "terminal \<Rightarrow> bool list \<Rightarrow> terminal \<times> bool list" where
  "term_run s [] = (s, [])"
| "term_run s (p # ps) = (let (s1, o1) = term_Tick s p; (s2, os) = term_run s1 ps in (s2, o1 # os))"

definition show_byte :: "u8 \<times> bool \<Rightarrow> terminal \<Rightarrow> terminal" where
  "show_byte be s =
     (let s = s\<lparr>m_rx_byte_count := m_rx_byte_count s + 1\<rparr>;
          s = (if snd be then s\<lparr>m_frame_error_count := m_frame_error_count s + 1\<rparr> else s)
      in AddReceivedChar (fst be) s)"

lemma add_char_uart:
  "add_hex_char c (s\<lparr>m_uart := u\<rparr>) = (add_hex_char c s)\<lparr>m_uart := u\<rparr>"
  "add_text_char c (s\<lparr>m_uart := u\<rparr>) = (add_text_char c s)\<lparr>m_uart := u\<rparr>"
  by (cases s; simp add: add_hex_char_def add_text_char_def Let_def)+

lemma AddReceivedChar_uart: "AddReceivedChar c (s\<lparr>m_uart := u\<rparr>) = (AddReceivedChar c s)\<lparr>m_uart := u\<rparr>"
proof -
  have "m_hex_mode (s\<lparr>m_uart := u\<rparr>) = m_hex_mode s" by simp
  moreover have "(x\<lparr>m_uart := u\<rparr>)\<lparr>m_lines := ls, m_scroll_to_bottom := b\<rparr> =
      (x\<lparr>m_lines := ls, m_scroll_to_bottom := b\<rparr>)\<lparr>m_uart := u\<rparr>" for x :: terminal and ls b
    by (cases x) simp
  ultimately show ?thesis by (simp add: AddReceivedChar_def Let_def add_char_uart)
qed

lemma show_byte_uart: "show_byte b (s\<lparr>m_uart := u\<rparr>) = (show_byte b s)\<lparr>m_uart := u\<rparr>"
  by (cases s; cases "snd b")
    (simp_all only: show_byte_def Let_def terminal.simps if_True if_False flip: AddReceivedChar_uart)

lemma show_bytes_uart: "fold show_byte bs (s\<lparr>m_uart := u\<rparr>) = (fold show_byte bs s)\<lparr>m_uart := u\<rparr>"
  by (induction bs arbitrary: s) (simp_all add: show_byte_uart)

lemma term_Tick_split:
  "term_Tick s p =
    (let (u, rdy) = RxTick (m_uart s) p; (v, pin) = TxTick u
     in ((if rdy then show_byte (RxByte u, RxFrameError u) s else s)\<lparr>m_uart := v\<rparr>, pin))"
proof -
  obtain u rdy where r: "RxTick (m_uart s) p = (u, rdy)" by fastforce
  obtain v pin where t: "TxTick u = (v, pin)" by fastforce
  let ?s1 = "s\<lparr>m_uart := u\<rparr>"
  have e: "AddReceivedChar (RxByte u) (if RxFrameError u
      then (?s1\<lparr>m_rx_byte_count := m_rx_byte_count ?s1 + 1\<rparr>)\<lparr>m_frame_error_count := m_frame_error_count (?s1\<lparr>m_rx_byte_count := m_rx_byte_count ?s1 + 1\<rparr>) + 1\<rparr>
      else ?s1\<lparr>m_rx_byte_count := m_rx_byte_count ?s1 + 1\<rparr>) = show_byte (RxByte u, RxFrameError u) ?s1"
    by (simp add: show_byte_def Let_def)
  show ?thesis
  proof (cases rdy)
    case True
    then show ?thesis
      unfolding term_Tick_def r prod.case Let_def if_P [OF True] e show_byte_uart
      by (simp add: t)
  next
    case False
    then show ?thesis by (simp add: term_Tick_def r t)
  qed
qed

theorem term_run_split:
  "\<exists>v. fst (term_run s ps) = (fold show_byte (snd (rx_run (m_uart s) ps)) s)\<lparr>m_uart := v\<rparr> \<and>
     snd (term_run s ps) = snd (tx_run (m_uart s) (length ps))"
proof (induction ps arbitrary: s)
  case Nil
  then show ?case by (auto intro: exI [of _ "m_uart s"])
next
  case (Cons p ps)
  obtain u rdy where r: "RxTick (m_uart s) p = (u, rdy)" by fastforce
  obtain v pin where t: "TxTick u = (v, pin)" by fastforce
  let ?x = "if rdy then show_byte (RxByte u, RxFrameError u) s else s"
  have tick: "term_Tick s p = (?x\<lparr>m_uart := v\<rparr>, pin)"
    by (simp add: term_Tick_split r t)
  obtain w where w: "fst (term_run (?x\<lparr>m_uart := v\<rparr>) ps) =
      (fold show_byte (snd (rx_run v ps)) (?x\<lparr>m_uart := v\<rparr>))\<lparr>m_uart := w\<rparr>"
    "snd (term_run (?x\<lparr>m_uart := v\<rparr>) ps) = snd (tx_run v (length ps))"
    using Cons.IH [of "?x\<lparr>m_uart := v\<rparr>"] by auto
  have rl: "snd (rx_run v ps) = snd (rx_run u ps)"
    using TxTick_keeps [of u] t by (intro rx_run_local) simp_all
  have tl: "snd (TxTick (m_uart s)) = pin"
    "snd (tx_run v (length ps)) = snd (tx_run (fst (TxTick (m_uart s))) (length ps))"
  proof -
    have h: "tx_half u = tx_half (m_uart s)" "config_of u = config_of (m_uart s)"
      using RxTick_keeps [of "m_uart s" p] r by simp_all
    show "snd (TxTick (m_uart s)) = pin" using TxTick_local [OF h] t by simp
    show "snd (tx_run v (length ps)) = snd (tx_run (fst (TxTick (m_uart s))) (length ps))"
      using TxTick_local [OF h] TxTick_keeps [of u] TxTick_keeps [of "m_uart s"] h t
      by (intro tx_run_local) simp_all
  qed
  show ?case
    using w rl tl by (intro exI [of _ w]) (simp add: tick r Let_def case_prod_beta show_bytes_uart)
qed

section \<open>Properties\<close>

lemma screen_text_counts:
  "fold show_byte (map (\<lambda>b. (b, False)) bs) s =
    (fold AddReceivedChar bs s)\<lparr>m_rx_byte_count := m_rx_byte_count s + of_nat (length bs)\<rparr>"
proof (induction bs arbitrary: s)
  case Nil
  then show ?case by simp
next
  case (Cons b bs)
  have a: "add_text_char c (x\<lparr>m_rx_byte_count := n\<rparr>) = (add_text_char c x)\<lparr>m_rx_byte_count := n\<rparr>"
    "add_hex_char c (x\<lparr>m_rx_byte_count := n\<rparr>) = (add_hex_char c x)\<lparr>m_rx_byte_count := n\<rparr>" for c x n
    by (cases x; simp add: add_text_char_def add_hex_char_def Let_def)+
  have keep: "(add_text_char c x)\<lparr>m_rx_byte_count := n, m_lines := ls, m_scroll_to_bottom := t\<rparr> =
      (add_text_char c x)\<lparr>m_lines := ls, m_scroll_to_bottom := t, m_rx_byte_count := n\<rparr>"
    "(add_hex_char c x)\<lparr>m_rx_byte_count := n, m_lines := ls, m_scroll_to_bottom := t\<rparr> =
      (add_hex_char c x)\<lparr>m_lines := ls, m_scroll_to_bottom := t, m_rx_byte_count := n\<rparr>" for c x n ls t
    by (rule terminal.equality; simp)+
  have c: "AddReceivedChar c (x\<lparr>m_rx_byte_count := n\<rparr>) = (AddReceivedChar c x)\<lparr>m_rx_byte_count := n\<rparr>" for c x n
    by (simp add: AddReceivedChar_def Let_def a keep)
  have f: "fold AddReceivedChar bs (x\<lparr>m_rx_byte_count := n\<rparr>) = (fold AddReceivedChar bs x)\<lparr>m_rx_byte_count := n\<rparr>" for x n
    by (induction bs arbitrary: x) (simp_all add: c)
  have r: "m_rx_byte_count (show_byte (b, False) s) = m_rx_byte_count s + 1"
    by (simp add: show_byte_def c)
  show ?case
    unfolding list.map fold.simps o_apply Cons.IH r
    by (simp add: show_byte_def c f add.assoc)
qed

lemma receive_lines:
  assumes "\<not> m_hex_mode s" "length (m_lines s) \<le> MAX_LINES" "m_current_line s = []"
    and "list_all (list_all printable) ls" "e = LE_LF \<longrightarrow> \<not> m_last_was_cr s"
  shows "m_lines (fold AddReceivedChar (concat (map (\<lambda>l. l @ line_ending_bytes e) ls)) s) =
      keep_last MAX_LINES (m_lines s @ map (map char_of_u8) ls) \<and>
    m_current_line (fold AddReceivedChar (concat (map (\<lambda>l. l @ line_ending_bytes e) ls)) s) = []"
  using assms
proof (induction ls arbitrary: s)
  case Nil
  then show ?case by simp
next
  case (Cons l ls)
  let ?v = "s\<lparr>m_lines := trim_lines (m_lines s @ [m_current_line s @ map char_of_u8 l]), m_current_line := [],
      m_last_was_cr := (e = LE_CR), m_scroll_to_bottom := True\<rparr>"
  have 1: "fold AddReceivedChar (l @ line_ending_bytes e) s = ?v"
    using Cons.prems by (intro receive_line) simp_all
  have 2: "m_lines (fold AddReceivedChar (concat (map (\<lambda>l. l @ line_ending_bytes e) ls)) ?v) =
      keep_last MAX_LINES (m_lines ?v @ map (map char_of_u8) ls) \<and>
    m_current_line (fold AddReceivedChar (concat (map (\<lambda>l. l @ line_ending_bytes e) ls)) ?v) = []"
    using Cons.prems by (intro Cons.IH) (simp_all add: trim_lines_eq)
  have 3: "keep_last MAX_LINES (m_lines ?v @ map (map char_of_u8) ls) =
      keep_last MAX_LINES (m_lines s @ map (map char_of_u8) (l # ls))"
    using term_log.push_all [of "m_lines s" "map (map char_of_u8) (l # ls)"] Cons.prems
      term_log.push_all [of "m_lines ?v" "map (map char_of_u8) ls"]
    by (simp add: trim_lines_eq)
  have "fold AddReceivedChar (concat (map (\<lambda>l. l @ line_ending_bytes e) (l # ls))) s =
      fold AddReceivedChar (concat (map (\<lambda>l. l @ line_ending_bytes e) ls))
        (fold AddReceivedChar (l @ line_ending_bytes e) s)"
    by simp
  then show ?case unfolding 1 using 2 3 by (simp only:)
qed

definition terminal_receives :: "terminal \<Rightarrow> soft_uart \<Rightarrow> bool" where
  "terminal_receives s t \<longleftrightarrow> sane_config t \<and> m_data_bits t = 8 \<and> same_config (m_uart s) t \<and>
     rx_idle (m_uart s) \<and> \<not> m_hex_mode s \<and> length (m_lines s) \<le> MAX_LINES \<and>
     m_current_line s = [] \<and> \<not> m_last_was_cr s"

text \<open>C14: Received text. A peer UART that sends the printable lines \<open>ls\<close>, each with the same line
  ending (CR, LF or CRLF), makes the terminal (text mode, empty current line, same line format)
  show exactly those lines after the ones it had, trimmed to the newest 1000, whatever the
  terminal itself is sending; the byte counter advances by the bytes sent.\<close>

theorem terminal_shows_lines:
  assumes "terminal_receives s t" "m_tx_state t = TX_IDLE"
    and "m_tx_queue t = concat (map (\<lambda>l. l @ line_ending_bytes e) ls)"
    and "list_all (list_all printable) ls"
    and "pins = snd (tx_run t (length (m_tx_queue t) * frame_time t))"
  shows "m_lines (fst (term_run s pins)) = keep_last 1000 (m_lines s @ map (map char_of_u8) ls) \<and>
    m_current_line (fst (term_run s pins)) = [] \<and>
    m_rx_byte_count (fst (term_run s pins)) = m_rx_byte_count s + of_nat (length (m_tx_queue t))"
proof -
  have "snd (rx_run (m_uart s) pins) = map (\<lambda>b. (b, False)) (m_tx_queue t)"
    using uart_line.receive_stream [of t "m_uart s" "m_tx_queue t"] tx_drains [of t "m_tx_queue t"] assms
    by (auto simp: terminal_receives_def length_frames)
  then obtain v where v: "fst (term_run s pins) =
      (fold show_byte (map (\<lambda>b. (b, False)) (m_tx_queue t)) s)\<lparr>m_uart := v\<rparr>"
    using term_run_split [of s pins] by auto
  show ?thesis
    unfolding v using receive_lines [of s ls e] assms(1-4)
    by (simp add: screen_text_counts terminal_receives_def MAX_LINES_def)
qed

theorem terminal_shows_lines_witness:
  "m_lines (fst (term_run (UpdateConfigDirect 1 8 1 False False SimSerialTerminal_init)
     (snd (tx_run ((Configure 1 8 1 False False SoftUART_init)\<lparr>m_tx_queue := [0x48, 0x69, 0x0D, 0x0A]\<rparr>) 84)))) =
   [''[Serial terminal ready]'', map char_of_u8 [0x48, 0x69]]"
  using terminal_shows_lines [of "UpdateConfigDirect 1 8 1 False False SimSerialTerminal_init"
      "(Configure 1 8 1 False False SoftUART_init)\<lparr>m_tx_queue := [0x48, 0x69, 0x0D, 0x0A]\<rparr>" LE_CRLF "[[0x48, 0x69]]"]
  by (simp add: terminal_receives_def sane_config_def same_config_def rx_idle_def UpdateConfigDirect_def
      SimSerialTerminal_init_def Configure_def SoftUART_init_def line_ending_bytes_def MAX_LINES_def
      printable_def frame_time_def)

lemma enqueue_all:
  "fold enqueue_counted bs s = s\<lparr>m_uart := (m_uart s)\<lparr>m_tx_queue := m_tx_queue (m_uart s) @ bs\<rparr>,
     m_tx_byte_count := m_tx_byte_count s + of_nat (length bs)\<rparr>"
  by (induction bs arbitrary: s) (simp_all add: enqueue_counted_def TxEnqueue_def add.assoc)

lemma SendInput_eq:
  "SendInput s = s\<lparr>m_uart := (m_uart s)\<lparr>m_tx_queue := m_tx_queue (m_uart s) @ m_input_buf s @ line_ending_bytes (m_line_ending s)\<rparr>,
     m_tx_byte_count := m_tx_byte_count s + of_nat (length (m_input_buf s) + length (line_ending_bytes (m_line_ending s))),
     m_input_buf := []\<rparr>"
  by (cases s; cases "m_line_ending s")
    (simp_all add: SendInput_def enqueue_all enqueue_counted_def TxEnqueue_def line_ending_bytes_def Let_def add.assoc)

text \<open>C15: Typed text. Pressing Enter on an input field that holds \<open>txt\<close>, when the transmitter is idle,
  sends exactly \<open>txt\<close> and the selected line ending: a receiver of the same 8-bit format decodes those
  bytes from the pin samples the terminal returns, whatever arrives on its own input meanwhile.
  The field is cleared and the counter advanced by the bytes queued.\<close>

theorem terminal_sends_input:
  assumes "sane_config (m_uart s)" "m_data_bits (m_uart s) = 8" "\<not> TxBusy (m_uart s)"
    and "same_config r (m_uart s)" "rx_idle r"
    and "bs = m_input_buf s @ line_ending_bytes (m_line_ending s)"
    and "length pins = length bs * frame_time (m_uart s)"
  shows "snd (rx_run r (snd (term_run (SendInput s) pins))) = map (\<lambda>b. (b, False)) bs \<and>
    m_input_buf (SendInput s) = [] \<and>
    m_tx_byte_count (SendInput s) = m_tx_byte_count s + of_nat (length bs)"
proof -
  let ?u = "m_uart (SendInput s)"
  have q: "m_tx_queue ?u = bs" "m_tx_state ?u = TX_IDLE"
    using assms by (simp_all add: SendInput_eq TxBusy_def)
  have c: "sane_config ?u" "m_data_bits ?u = 8" "same_config r ?u" "frame_time ?u = frame_time (m_uart s)"
    using assms by (simp_all add: SendInput_eq sane_config_def same_config_def frame_time_def)
  have "snd (term_run (SendInput s) pins) = snd (tx_run ?u (length bs * frame_time ?u))"
    using term_run_split [of "SendInput s" pins] assms(7) c(4) by auto
  then have "snd (rx_run r (snd (term_run (SendInput s) pins))) = map (\<lambda>b. (b, False)) bs"
    using uart_line.receive_stream [of ?u r bs] tx_drains [OF c(1) q(2,1)] c assms(5)
    by (auto simp: length_frames)
  then show ?thesis using assms(6) by (simp add: SendInput_eq)
qed

theorem terminal_sends_input_witness:
  "snd (rx_run (Configure 1 8 1 False False SoftUART_init)
     (snd (term_run (SendInput ((UpdateConfigDirect 1 8 1 False False SimSerialTerminal_init)
       \<lparr>m_input_buf := [0x6C, 0x73]\<rparr>)) (replicate 63 True)))) = [(0x6C, False), (0x73, False), (0x0D, False)]"
  using terminal_sends_input [of "(UpdateConfigDirect 1 8 1 False False SimSerialTerminal_init)
       \<lparr>m_input_buf := [0x6C, 0x73]\<rparr>" "Configure 1 8 1 False False SoftUART_init" _ "replicate 63 True"]
  by (simp add: sane_config_def same_config_def rx_idle_def UpdateConfigDirect_def TxBusy_def
      SimSerialTerminal_init_def Configure_def SoftUART_init_def line_ending_bytes_def frame_time_def)

text \<open>The line buffer never grows beyond 1000 lines: received characters and frames of the window
  keep the bound, and the hexadecimal display keeps every open line within 72 characters, from any
  open line it starts on.\<close>

theorem terminal_bounded:
  "length (m_lines (AddReceivedChar c s)) \<le> 1000 \<and>
   (length (m_lines s) \<le> 1000 \<longrightarrow> length (m_lines (fst (Draw ui s))) \<le> 1000) \<and>
   length (m_current_line (AddReceivedChar c (s\<lparr>m_hex_mode := True\<rparr>))) \<le> 72"
proof (intro conjI impI)
  show "length (m_lines (AddReceivedChar c s)) \<le> 1000"
    using lines_bounded by (simp add: MAX_LINES_def)
  show "length (m_current_line (AddReceivedChar c (s\<lparr>m_hex_mode := True\<rparr>))) \<le> 72"
    by (simp add: AddReceivedChar_def add_hex_char_def Let_def)
  have "m_lines (SendInput x) = m_lines x" for x by (simp add: SendInput_eq)
  then show "length (m_lines (fst (Draw ui s))) \<le> 1000" if "length (m_lines s) \<le> 1000"
    using that by (simp add: Draw_def Let_def split: option.split)
qed

theorem terminal_bounded_witness:
  "length (m_lines (fst (Draw \<lparr>ui_begin = True, ui_clear = False, ui_hex = True, ui_auto_scroll = True,
      ui_at_bottom = True, ui_input = [], ui_enter = False, ui_line_ending = None\<rparr> SimSerialTerminal_init))) \<le> 1000"
  using terminal_bounded [of 0 SimSerialTerminal_init "\<lparr>ui_begin = True, ui_clear = False, ui_hex = True,
      ui_auto_scroll = True, ui_at_bottom = True, ui_input = [], ui_enter = False, ui_line_ending = None\<rparr>"]
  by (simp add: SimSerialTerminal_init_def)

end
