(* ===== verification/RomBus.thy ===== *)
theory RomBus
  imports Prelude
begin

text \<open>
  The download bus of \<open>verilator/sim/sim_bus.h\<close> and \<open>sim_bus.cpp\<close> (\<open>SimBus\<close>), through which the
  ROM images and floppy images reach the core: a queue of chunks, the file being sent, and the
  \<open>ioctl_*\<close> ports of the Verilated model, written before each evaluation. Files are byte lists
  read by \<open>fgetc\<close> with the end-of-file flag of \<open>stdio\<close>; the file system at the time of \<open>fopen\<close>
  is the argument \<open>fs\<close>. The core asserts \<open>ioctl_wait\<close> when it cannot take a word.
\<close>

section \<open>State\<close>

record download_chunk =
  dc_file :: string
  dc_index :: int
  dc_restart :: bool

text \<open>
  The constructors of \<open>SimBus_DownloadChunk\<close>. Members that a constructor does not set are
  arguments. The two-argument constructor builds a temporary in its body and leaves the object
  itself as default-initialised: its arguments are lost.
\<close>

definition DownloadChunk0 :: "bool \<Rightarrow> download_chunk" where
  "DownloadChunk0 any_restart = \<lparr>dc_file = '''', dc_index = -1, dc_restart = any_restart\<rparr>"

definition DownloadChunk2 :: "int \<Rightarrow> bool \<Rightarrow> string \<Rightarrow> int \<Rightarrow> download_chunk" where
  "DownloadChunk2 any_index any_restart file index =
     \<lparr>dc_file = '''', dc_index = any_index, dc_restart = any_restart\<rparr>"

definition DownloadChunk3 :: "string \<Rightarrow> int \<Rightarrow> bool \<Rightarrow> download_chunk" where
  "DownloadChunk3 file index restart = \<lparr>dc_file = file, dc_index = index, dc_restart = restart\<rparr>"

record bus_file =
  f_rest :: "u8 list"
  f_eof :: bool

definition fgetc :: "bus_file \<Rightarrow> int \<times> bus_file" where
  "fgetc f = (case f_rest f of [] \<Rightarrow> (-1, f\<lparr>f_eof := True\<rparr>) | b # bs \<Rightarrow> (uint b, f\<lparr>f_rest := bs\<rparr>))"

datatype bus_event = CannotOpen string | DownloadStart string int | DownloadComplete int

record rom_bus =
  downloadQueue :: "download_chunk list"
  currentDownload :: download_chunk
  ioctl_file :: "bus_file option"
  ioctl_next_addr :: int
  nextword :: int
  ioctl_addr :: u32
  ioctl_index :: u8
  ioctl_wait :: u8
  ioctl_download :: u8
  ioctl_wr :: u8
  ioctl_dout :: u16
  bus_log :: "bus_event list"

text \<open>The bus before its first use: the ports of a freshly built model are zero.\<close>

definition SimBus_init :: "bool \<Rightarrow> rom_bus" where
  "SimBus_init any_restart =
     \<lparr>downloadQueue = [], currentDownload = DownloadChunk0 any_restart, ioctl_file = None,
      ioctl_next_addr = 0, nextword = 0, ioctl_addr = 0, ioctl_index = 0, ioctl_wait = 0,
      ioctl_download = 0, ioctl_wr = 0, ioctl_dout = 0, bus_log = []\<rparr>"

section \<open>Operations\<close>

definition QueueDownload3 :: "string \<Rightarrow> int \<Rightarrow> bool \<Rightarrow> rom_bus \<Rightarrow> rom_bus" where
  "QueueDownload3 file index restart s =
     s\<lparr>downloadQueue := downloadQueue s @ [DownloadChunk3 file index restart]\<rparr>"

definition QueueDownload2 :: "int \<Rightarrow> bool \<Rightarrow> string \<Rightarrow> int \<Rightarrow> rom_bus \<Rightarrow> rom_bus" where
  "QueueDownload2 any_index any_restart file index s =
     s\<lparr>downloadQueue := downloadQueue s @ [DownloadChunk2 any_index any_restart file index]\<rparr>"

definition HasQueue :: "rom_bus \<Rightarrow> bool" where
  "HasQueue s \<longleftrightarrow> length (downloadQueue s) > 0"

definition pop_chunk :: "rom_bus \<Rightarrow> (download_chunk \<times> rom_bus) option" where
  "pop_chunk s = (case downloadQueue s of [] \<Rightarrow> None | c # q \<Rightarrow> Some (c, s\<lparr>downloadQueue := q\<rparr>))"

text \<open>The first half of \<open>BeforeEval\<close>: start the next queued download.\<close>

definition start_download :: "(string \<Rightarrow> u8 list option) \<Rightarrow> rom_bus \<Rightarrow> rom_bus" where
  "start_download fs s =
     (if ioctl_file s = None
      then
        (case pop_chunk s of
           None \<Rightarrow> s
         | Some (c, s) \<Rightarrow>
             (let s = s\<lparr>currentDownload := c\<rparr>;
                  s = (if dc_index c \<noteq> uint (ioctl_index s) then s\<lparr>ioctl_next_addr := 0\<rparr> else s);
                  s = (if dc_restart c then s\<lparr>ioctl_next_addr := 0\<rparr> else s);
                  s = s\<lparr>ioctl_addr := word_of_int (ioctl_next_addr s),
                        ioctl_index := word_of_int (dc_index c)\<rparr>
              in (case fs (dc_file c) of
                    None \<Rightarrow> s\<lparr>bus_log := bus_log s @ [CannotOpen (dc_file c)]\<rparr>
                  | Some bs \<Rightarrow> s\<lparr>ioctl_file := Some \<lparr>f_rest = bs, f_eof = False\<rparr>,
                      bus_log := bus_log s @ [DownloadStart (dc_file c) (ioctl_next_addr s)]\<rparr>)))
      else s)"

text \<open>The second half: close a finished file, or read two bytes and present a word.\<close>

definition send_word :: "bus_file \<Rightarrow> rom_bus \<Rightarrow> rom_bus" where
  "send_word f s =
     (let (byte1, f) = fgetc f
      in if f_eof f then s\<lparr>ioctl_file := Some f\<rparr>
         else
           (let (byte2, f) = fgetc f;
                byte2 = (if f_eof f then 0 else byte2);
                w = push_bit 8 byte1 OR (byte2 AND 0xFF)
            in s\<lparr>ioctl_file := Some f, nextword := w,
                 ioctl_addr := word_of_int (ioctl_next_addr s), ioctl_dout := word_of_int w,
                 ioctl_wr := 1, ioctl_next_addr := ioctl_next_addr s + 2\<rparr>))"

definition transfer :: "rom_bus \<Rightarrow> rom_bus" where
  "transfer s =
     (case ioctl_file s of
        Some f \<Rightarrow>
          (if ioctl_wait s = 0
           then
             (let s = s\<lparr>ioctl_download := 1\<rparr>
              in if f_eof f
                 then s\<lparr>ioctl_file := None, ioctl_download := 0, ioctl_wr := 0,
                        bus_log := bus_log s @ [DownloadComplete (ioctl_next_addr s)]\<rparr>
                 else send_word f s)
           else s)
      | None \<Rightarrow> s\<lparr>ioctl_download := 0, ioctl_wr := 0\<rparr>)"

definition bus_BeforeEval :: "(string \<Rightarrow> u8 list option) \<Rightarrow> rom_bus \<Rightarrow> rom_bus" where
  "bus_BeforeEval fs s = transfer (start_download fs s)"

interpretation chunk_fifo: fifo "\<lambda>(f, i, r). QueueDownload3 f i r"
    "\<lambda>s. map_option (map_prod (\<lambda>c. (dc_file c, dc_index c, dc_restart c)) id) (pop_chunk s)"
    "\<lambda>s. map (\<lambda>c. (dc_file c, dc_index c, dc_restart c)) (downloadQueue s)"
  by unfold_locales
    (auto simp: QueueDownload3_def DownloadChunk3_def pop_chunk_def split: list.splits)

section \<open>What the core receives\<close>

text \<open>
  An evaluation of the core with \<open>ioctl_wr\<close> high stores the word presented. \<open>bus_run\<close> runs the
  bus over a schedule of \<open>ioctl_wait\<close> values and collects what is stored.
\<close>

definition store_word :: "rom_bus \<Rightarrow> (u32 \<rightharpoonup> u16) \<Rightarrow> (u32 \<rightharpoonup> u16)" where
  "store_word s m = (if ioctl_wr s \<noteq> 0 then m(ioctl_addr s \<mapsto> ioctl_dout s) else m)"

fun bus_run :: "(string \<Rightarrow> u8 list option) \<Rightarrow> u8 list \<Rightarrow> rom_bus \<times> (u32 \<rightharpoonup> u16) \<Rightarrow> rom_bus \<times> (u32 \<rightharpoonup> u16)" where
  "bus_run fs [] sm = sm"
| "bus_run fs (w # ws) sm =
     (let s = bus_BeforeEval fs ((fst sm)\<lparr>ioctl_wait := w\<rparr>) in bus_run fs ws (s, store_word s (snd sm)))"

fun be_words :: "u8 list \<Rightarrow> u16 list" where
  "be_words (a # b # bs) = (push_bit 8 (ucast a) OR ucast b) # be_words bs"
| "be_words [a] = [push_bit 8 (ucast a)]"
| "be_words [] = []"

fun load_words :: "int \<Rightarrow> u16 list \<Rightarrow> (u32 \<rightharpoonup> u16) \<Rightarrow> (u32 \<rightharpoonup> u16)" where
  "load_words a [] m = m"
| "load_words a (w # ws) m = load_words (a + 2) ws (m(word_of_int a \<mapsto> w))"

lemma bus_run_append: "bus_run fs (xs @ ys) sm = bus_run fs ys (bus_run fs xs sm)"
  by (induction xs arbitrary: sm) (simp_all add: Let_def)

definition zeros :: "u8 list \<Rightarrow> nat" where
  "zeros ws = length (filter (\<lambda>w. w = 0) ws)"

lemma zeros_simps [simp]:
  "zeros [] = 0" "zeros (w # ws) = (if w = 0 then Suc (zeros ws) else zeros ws)"
  by (simp_all add: zeros_def)

text \<open>The word steps a file needs, with the step that closes it.\<close>

definition steps_needed :: "u8 list \<Rightarrow> nat" where
  "steps_needed bs = length (be_words bs) + (if even (length bs) then 2 else 1)"

lemma steps_needed_ge: "2 \<le> steps_needed bs"
  by (cases bs rule: be_words.cases) (simp_all add: steps_needed_def)

lemma load_words_append: "load_words a (xs @ ys) m = load_words (a + 2 * int (length xs)) ys (load_words a xs m)"
  by (induction xs arbitrary: a m) (simp_all add: algebra_simps)

lemma be_word_int:
  "word_of_int (push_bit 8 (uint (a :: u8)) OR (uint (b :: u8) AND 0xFF)) = (push_bit 8 (ucast a) OR ucast b :: u16)"
proof -
  have m: "(0xFF :: int) = mask 8" by (simp add: mask_eq_exp_minus_1)
  show ?thesis
    unfolding m
    by (rule bit_word_eqI)
      (auto simp: bit_word_of_int_iff bit_or_iff bit_push_bit_iff bit_push_bit_iff_int bit_and_iff
        bit_mask_iff bit_uint_iff bit_ucast_iff dest: bit_imp_le_length)
qed

lemma end_of_file:
  assumes "ioctl_file s = Some f" "f_eof f" "store_word s m = m" "zeros ws = 1" "last ws = 0" "ws \<noteq> []"
  shows "\<exists>s'. bus_run fs ws (s, m) = (s', m) \<and> ioctl_file s' = None \<and> ioctl_download s' = 0 \<and>
    ioctl_wr s' = 0 \<and> ioctl_next_addr s' = ioctl_next_addr s \<and> downloadQueue s' = downloadQueue s \<and>
    ioctl_index s' = ioctl_index s"
  using assms
proof (induction ws arbitrary: s)
  case Nil
  then show ?case by simp
next
  case (Cons w ws)
  show ?case
  proof (cases "w = 0")
    case True
    then have "ws = []" using Cons.prems by (cases ws) (auto simp: zeros_def filter_empty_conv split: if_splits)
    then show ?thesis
      using Cons.prems True
      by (simp add: bus_BeforeEval_def start_download_def transfer_def store_word_def Let_def)
  next
    case False
    let ?s = "s\<lparr>ioctl_wait := w\<rparr>"
    have "bus_BeforeEval fs ?s = ?s"
      using Cons.prems False by (simp add: bus_BeforeEval_def start_download_def transfer_def)
    moreover have sw: "store_word ?s m = m" using Cons.prems(3) by (simp add: store_word_def split: if_splits)
    moreover have "\<exists>s'. bus_run fs ws (?s, m) = (s', m) \<and> ioctl_file s' = None \<and> ioctl_download s' = 0 \<and>
      ioctl_wr s' = 0 \<and> ioctl_next_addr s' = ioctl_next_addr ?s \<and> downloadQueue s' = downloadQueue ?s \<and>
      ioctl_index s' = ioctl_index ?s"
      using Cons.prems False sw by (intro Cons.IH) (auto split: if_splits)
    ultimately show ?thesis by simp
  qed
qed

lemma send_file:
  assumes "ioctl_file s = Some \<lparr>f_rest = bs, f_eof = False\<rparr>" "store_word s m = m"
    and "zeros ws = steps_needed bs" "last ws = 0"
  shows "\<exists>s'. bus_run fs ws (s, m) = (s', load_words (ioctl_next_addr s) (be_words bs) m) \<and>
    ioctl_file s' = None \<and> ioctl_download s' = 0 \<and> ioctl_wr s' = 0 \<and>
    ioctl_next_addr s' = ioctl_next_addr s + 2 * int (length (be_words bs)) \<and>
    downloadQueue s' = downloadQueue s \<and> ioctl_index s' = ioctl_index s"
  using assms
proof (induction ws arbitrary: s m bs)
  case Nil
  then show ?case using steps_needed_ge [of bs] by simp
next
  case (Cons w ws)
  let ?s = "s\<lparr>ioctl_wait := w\<rparr>"
  have ws: "ws \<noteq> []" using Cons.prems(3) steps_needed_ge [of bs] by (auto split: if_splits)
  show ?case
  proof (cases "w = 0")
    case False
    have "bus_BeforeEval fs ?s = ?s"
      using Cons.prems False by (simp add: bus_BeforeEval_def start_download_def transfer_def)
    moreover have "store_word ?s m = m"
      using Cons.prems(2) by (simp add: store_word_def split: if_splits)
    ultimately show ?thesis
      using Cons.IH [of ?s bs m] Cons.prems False ws by (auto simp: Let_def)
  next
    case True
    show ?thesis
    proof (cases bs rule: be_words.cases)
      case (1 a b r)
      let ?t = "?s\<lparr>ioctl_download := 1, ioctl_file := Some \<lparr>f_rest = r, f_eof = False\<rparr>,
        nextword := push_bit 8 (uint a) OR (uint b AND 0xFF),
        ioctl_addr := word_of_int (ioctl_next_addr s), ioctl_dout := push_bit 8 (ucast a) OR ucast b,
        ioctl_wr := 1, ioctl_next_addr := ioctl_next_addr s + 2\<rparr>"
      have t: "bus_BeforeEval fs ?s = ?t"
        using Cons.prems(1) True
        by (simp add: 1 bus_BeforeEval_def start_download_def transfer_def send_word_def fgetc_def be_word_int)
      define m' where "m' = m(word_of_int (ioctl_next_addr s) \<mapsto> push_bit 8 (ucast a) OR ucast b)"
      have m: "store_word ?t m = m'" "store_word ?t m' = m'" by (simp_all add: store_word_def m'_def)
      have z: "zeros ws = steps_needed r" using Cons.prems(3) True 1 by (simp add: steps_needed_def)
      have l: "load_words (ioctl_next_addr s) (be_words bs) m =
          load_words (ioctl_next_addr s + 2) (be_words r) m'"
        by (simp add: 1 m'_def)
      show ?thesis
        unfolding l using Cons.IH [of ?t r m'] m z Cons.prems(4) ws
        by (simp add: t Let_def) (simp add: 1 algebra_simps)
    next
      case (2 a)
      let ?t = "?s\<lparr>ioctl_download := 1, ioctl_file := Some \<lparr>f_rest = [], f_eof = True\<rparr>,
        nextword := push_bit 8 (uint a),
        ioctl_addr := word_of_int (ioctl_next_addr s), ioctl_dout := push_bit 8 (ucast a),
        ioctl_wr := 1, ioctl_next_addr := ioctl_next_addr s + 2\<rparr>"
      have t: "bus_BeforeEval fs ?s = ?t"
        using Cons.prems(1) True be_word_int [of a 0]
        by (simp add: 2 bus_BeforeEval_def start_download_def transfer_def send_word_def fgetc_def)
      define m' where "m' = m(word_of_int (ioctl_next_addr s) \<mapsto> push_bit 8 (ucast a))"
      have m: "store_word ?t m = m'" "store_word ?t m' = m'" by (simp_all add: store_word_def m'_def)
      have z: "zeros ws = 1" using Cons.prems(3) True 2 by (simp add: steps_needed_def)
      have l: "load_words (ioctl_next_addr s) (be_words bs) m = m'"
        by (simp add: 2 m'_def)
      show ?thesis
        unfolding l using end_of_file [of ?t "\<lparr>f_rest = [], f_eof = True\<rparr>" m' ws fs] m z Cons.prems(4) ws
        by (simp add: t Let_def) (simp add: 2)
    next
      case 3
      let ?t = "?s\<lparr>ioctl_download := 1, ioctl_file := Some \<lparr>f_rest = [], f_eof = True\<rparr>\<rparr>"
      have t: "bus_BeforeEval fs ?s = ?t"
        using Cons.prems(1) True
        by (simp add: 3 bus_BeforeEval_def start_download_def transfer_def send_word_def fgetc_def)
      have m: "store_word ?t m = m"
        using Cons.prems(2) by (simp add: store_word_def split: if_splits)
      have "zeros ws = 1" using Cons.prems(3) True 3 by (simp add: steps_needed_def)
      then show ?thesis
        using end_of_file [of ?t "\<lparr>f_rest = [], f_eof = True\<rparr>" m ws fs] m Cons.prems ws 3
        by (auto simp: t Let_def)
    qed
  qed
qed

section \<open>Properties\<close>

definition start_addr :: "download_chunk \<Rightarrow> rom_bus \<Rightarrow> int" where
  "start_addr c s = (if dc_index c \<noteq> uint (ioctl_index s) \<or> dc_restart c then 0 else ioctl_next_addr s)"

lemma download_delivers_file_lemma:
  assumes "ioctl_file s = None" "ioctl_wr s = 0" "downloadQueue s = c # q" "fs (dc_file c) = Some bs"
    and "zeros ws = steps_needed bs" "last ws = 0"
  shows "\<exists>s'. bus_run fs ws (s, m) = (s', load_words (start_addr c s) (be_words bs) m) \<and>
    ioctl_file s' = None \<and> ioctl_download s' = 0 \<and> ioctl_wr s' = 0 \<and>
    ioctl_next_addr s' = start_addr c s + 2 * int (length (be_words bs)) \<and>
    downloadQueue s' = q \<and> ioctl_index s' = word_of_int (dc_index c)"
proof -
  let ?a = "start_addr c s"
  let ?t = "s\<lparr>downloadQueue := q, currentDownload := c, ioctl_next_addr := ?a,
    ioctl_addr := word_of_int ?a, ioctl_index := word_of_int (dc_index c),
    ioctl_file := Some \<lparr>f_rest = bs, f_eof = False\<rparr>, bus_log := bus_log s @ [DownloadStart (dc_file c) ?a]\<rparr>"
  obtain w ws' where ws: "ws = w # ws'" using assms(5) steps_needed_ge [of bs] by (cases ws) auto
  have "start_download fs (s\<lparr>ioctl_wait := w\<rparr>) = start_download fs (?t\<lparr>ioctl_wait := w\<rparr>)"
    using assms by (cases s) (simp add: start_download_def pop_chunk_def start_addr_def Let_def)
  then have "bus_run fs ws (s, m) = bus_run fs ws (?t, m)"
    by (simp add: ws bus_BeforeEval_def)
  moreover have "store_word ?t m = m" using assms(2) by (simp add: store_word_def)
  ultimately show ?thesis
    using send_file [of ?t bs m ws fs] assms(5,6) by auto
qed

text \<open>C7: ROM delivery. With the bus idle and a chunk whose file holds \<open>bs\<close> at the head of the
  queue, any schedule of wait states that ends with the last of the \<open>steps_needed bs\<close> free cycles
  leaves in the core's memory exactly the big-endian 16-bit words of the file (an odd last
  byte padded with zero) from the start address on, once the download flag and the write strobe
  have dropped; the next address and the rest of the queue are ready for the next chunk. The
  start address is 0 after a change of index or a restart, else the running address.\<close>

theorem download_delivers_file:
  assumes "ioctl_file s = None" "ioctl_wr s = 0" "downloadQueue s = c # q" "fs (dc_file c) = Some bs"
    and "zeros ws = steps_needed bs" "last ws = 0"
  shows "\<exists>s'. bus_run fs ws (s, m) = (s', load_words (start_addr c s) (be_words bs) m) \<and>
    ioctl_file s' = None \<and> ioctl_download s' = 0 \<and> ioctl_wr s' = 0 \<and>
    ioctl_next_addr s' = start_addr c s + 2 * int (length (be_words bs)) \<and>
    downloadQueue s' = q \<and> ioctl_index s' = word_of_int (dc_index c)"
  using assms by (rule download_delivers_file_lemma)

theorem download_delivers_file_witness:
  "\<exists>s'. bus_run (\<lambda>_. Some [0x12, 0x34, 0x56]) [0, 1, 0, 0]
      (QueueDownload3 ''boot0.rom'' 0 True (SimBus_init False), Map.empty) =
      (s', [0 \<mapsto> 0x1234, 2 \<mapsto> 0x5600]) \<and> ioctl_file s' = None \<and> ioctl_next_addr s' = 4"
  using download_delivers_file [of "QueueDownload3 ''boot0.rom'' 0 True (SimBus_init False)"
      "DownloadChunk3 ''boot0.rom'' 0 True" "[]" "\<lambda>_. Some [0x12, 0x34, 0x56]" "[0x12, 0x34, 0x56]" "[0, 1, 0, 0]" Map.empty]
  by (auto simp: QueueDownload3_def DownloadChunk3_def SimBus_init_def steps_needed_def start_addr_def)

text \<open>Sequential ROMs. Two files queued under one index, the second without restart, arrive as
  one image: the words of the second follow those of the first without a gap.\<close>

theorem downloads_concatenate:
  assumes "ioctl_file s = None" "ioctl_wr s = 0" "downloadQueue s = [c, d]"
    and "fs (dc_file c) = Some bs" "fs (dc_file d) = Some cs"
    and "dc_restart c" "\<not> dc_restart d" "dc_index d = dc_index c" "0 \<le> dc_index c" "dc_index c < 256"
    and "zeros ws = steps_needed bs" "last ws = 0" "zeros vs = steps_needed cs" "last vs = 0"
  shows "\<exists>s'. bus_run fs (ws @ vs) (s, m) = (s', load_words 0 (be_words bs @ be_words cs) m) \<and>
    \<not> HasQueue s' \<and> ioctl_file s' = None \<and>
    ioctl_next_addr s' = 2 * int (length (be_words bs) + length (be_words cs))"
proof -
  obtain t where t: "bus_run fs ws (s, m) = (t, load_words 0 (be_words bs) m)" "ioctl_file t = None"
    "ioctl_wr t = 0" "ioctl_next_addr t = 2 * int (length (be_words bs))" "downloadQueue t = [d]"
    "ioctl_index t = word_of_int (dc_index c)"
    using download_delivers_file_lemma [of s c "[d]" fs bs ws m] assms by (auto simp: start_addr_def)
  have "uint (word_of_int (dc_index c) :: u8) = dc_index c"
    using assms by (simp add: uint_word_of_int mod_pos_pos_trivial)
  then have a: "start_addr d t = 2 * int (length (be_words bs))"
    using t assms by (simp add: start_addr_def)
  show ?thesis
    using download_delivers_file_lemma [of t d "[]" fs cs vs "load_words 0 (be_words bs) m"] t assms(5,13,14)
    by (auto simp: bus_run_append a load_words_append HasQueue_def)
qed

theorem downloads_concatenate_witness:
  "\<exists>s'. bus_run (\<lambda>f. if f = ''a'' then Some [1, 2] else Some [3, 4]) ([0, 0, 0] @ [0, 0, 0])
      (QueueDownload3 ''b'' 1 False (QueueDownload3 ''a'' 1 True (SimBus_init False)), Map.empty) =
      (s', [0 \<mapsto> 0x0102, 2 \<mapsto> 0x0304]) \<and> ioctl_next_addr s' = 4"
  using downloads_concatenate [of "QueueDownload3 ''b'' 1 False (QueueDownload3 ''a'' 1 True (SimBus_init False))"
      "DownloadChunk3 ''a'' 1 True" "DownloadChunk3 ''b'' 1 False" "\<lambda>f. if f = ''a'' then Some [1, 2] else Some [3, 4]"
      "[1, 2]" "[3, 4]" "[0, 0, 0]" "[0, 0, 0]" Map.empty]
  by (auto simp: QueueDownload3_def DownloadChunk3_def SimBus_init_def steps_needed_def)

text \<open>The two-argument \<open>QueueDownload\<close> loses its file: whatever it is given, the chunk it queues
  names the empty file, so when that chunk is popped on an idle bus no file is opened and nothing
  is sent.\<close>

theorem QueueDownload2_sends_nothing:
  assumes "ioctl_file s = None" "downloadQueue s = []" "fs '''' = None"
  shows "ioctl_file (bus_BeforeEval fs (QueueDownload2 i r file index s)) = None \<and>
    ioctl_wr (bus_BeforeEval fs (QueueDownload2 i r file index s)) = 0 \<and>
    \<not> HasQueue (bus_BeforeEval fs (QueueDownload2 i r file index s))"
  using assms
  by (simp add: QueueDownload2_def DownloadChunk2_def bus_BeforeEval_def start_download_def
      pop_chunk_def transfer_def HasQueue_def Let_def)

theorem QueueDownload2_sends_nothing_witness:
  "ioctl_file (bus_BeforeEval (\<lambda>f. if f = ''boot0.rom'' then Some [1, 2] else None)
     (QueueDownload2 7 True ''boot0.rom'' 0 (SimBus_init False))) = None"
  using QueueDownload2_sends_nothing [of "SimBus_init False" "\<lambda>f. if f = ''boot0.rom'' then Some [1, 2] else None"]
  by (simp add: SimBus_init_def)

end
