(* ===== verification/BlockDevice.thy ===== *)
theory BlockDevice
  imports RomBus
begin

text \<open>
  The disk service of \<open>verilator/sim/sim_blkdevice.h\<close> and \<open>sim_blkdevice.cpp\<close>
  (\<open>SimBlockDevice\<close>): ten image files, the mount handshake and the sector transfers over the
  \<open>sd_*\<close> ports, one call of \<open>BeforeEval\<close> per system clock. Each drive's slice of a call is split
  into the four parts the code's loop body has. A file is the \<open>std::fstream\<close> of the standard
  library: its bytes, one position and the failure flag. \<open>Verilated::commandArgsPlusMatch\<close> is
  outside the repository and is the argument \<open>args\<close> (\<open>None\<close> for a null pointer).
\<close>

section \<open>Streams\<close>

record stream =
  st_bytes :: "u8 list"
  st_pos :: int
  st_writable :: bool
  st_fail :: bool

text \<open>A closed \<open>fstream\<close> is \<open>None\<close>: reads yield end of file and writes are lost.\<close>

definition st_get :: "stream option \<Rightarrow> int \<times> stream option" where
  "st_get d = (case d of
       None \<Rightarrow> (-1, None)
     | Some f \<Rightarrow>
         (if st_fail f then (-1, d)
          else if 0 \<le> st_pos f \<and> st_pos f < int (length (st_bytes f))
          then (uint (st_bytes f ! nat (st_pos f)), Some (f\<lparr>st_pos := st_pos f + 1\<rparr>))
          else (-1, Some (f\<lparr>st_fail := True\<rparr>))))"

definition st_put :: "u8 \<Rightarrow> stream option \<Rightarrow> stream option" where
  "st_put b d = (case d of
       None \<Rightarrow> None
     | Some f \<Rightarrow>
         (if st_fail f then d
          else if \<not> st_writable f then Some (f\<lparr>st_fail := True\<rparr>)
          else
            (let p = nat (st_pos f);
                 bs = st_bytes f @ replicate (Suc p - length (st_bytes f)) 0
             in Some (f\<lparr>st_bytes := bs[p := b], st_pos := st_pos f + 1\<rparr>))))"

definition st_clear :: "stream option \<Rightarrow> stream option" where
  "st_clear = map_option (\<lambda>f. f\<lparr>st_fail := False\<rparr>)"

definition st_seek :: "int \<Rightarrow> stream option \<Rightarrow> stream option" where
  "st_seek p = map_option (\<lambda>f. if st_fail f then f
     else if p < 0 then f\<lparr>st_fail := True\<rparr> else f\<lparr>st_pos := p\<rparr>)"

section \<open>State\<close>

definition kVDNUM :: nat where "kVDNUM = 10"

definition kBLKSZ :: int where "kBLKSZ = 512"

text \<open>The port arrays have one entry per drive; the simulator connects the first two.\<close>

record blkdev =
  sd_lba :: "u32 list"
  sd_rd :: u8
  sd_wr :: u8
  sd_ack :: u8
  sd_buff_addr :: u8
  sd_buff_dout :: u16
  sd_buff_din :: "u16 list"
  sd_buff_wr :: u8
  img_mounted :: u8
  img_readonly :: "u8 option"
  img_size :: u64
  bytecnt :: int
  disk_size :: "int list"
  reading :: bool
  writing :: bool
  ack_delay :: int
  current_disk :: int
  mountQueue :: "bool list"
  disk :: "stream option list"

definition SimBlockDevice_init :: blkdev where
  "SimBlockDevice_init =
     \<lparr>sd_lba = replicate kVDNUM 0, sd_rd = 0, sd_wr = 0, sd_ack = 0, sd_buff_addr = 0,
      sd_buff_dout = 0, sd_buff_din = replicate kVDNUM 0, sd_buff_wr = 0, img_mounted = 0,
      img_readonly = None, img_size = 0, bytecnt = 0, disk_size = replicate kVDNUM 0,
      reading = False, writing = False, ack_delay = 0, current_disk = -1,
      mountQueue = replicate kVDNUM False, disk = replicate kVDNUM None\<rparr>"

text \<open>\<open>+blkdev_latency=\<close>: the argument is the number \<open>atoi\<close> reads, if the option is given.\<close>

definition blkdev_read_latency :: "int option \<Rightarrow> int" where
  "blkdev_read_latency arg = (case arg of None \<Rightarrow> 16000 | Some v \<Rightarrow> v)"

text \<open>
  \<open>MountDisk\<close>: \<open>fs\<close> gives the contents of a file and whether it can be opened for writing.
  Opening a stream that is already open fails and leaves it open. An index outside the array
  is undefined in C++ and is \<open>None\<close> here.
\<close>

definition MountDisk :: "(string \<Rightarrow> (u8 list \<times> bool) option) \<Rightarrow> string \<Rightarrow> nat \<Rightarrow> blkdev \<Rightarrow> blkdev option" where
  "MountDisk fs file index s =
     (if index \<ge> kVDNUM then None
      else Some
        (case (disk s ! index, fs file) of
           (None, Some (bs, w)) \<Rightarrow>
             s\<lparr>disk := (disk s)[index := Some \<lparr>st_bytes = bs, st_pos = 0, st_writable = w, st_fail = False\<rparr>],
               disk_size := (disk_size s)[index := int (length bs)],
               mountQueue := (mountQueue s)[index := True]\<rparr>
         | (None, None) \<Rightarrow> s
         | (Some f, _) \<Rightarrow> s\<lparr>disk := (disk s)[index := Some (f\<lparr>st_fail := True\<rparr>)]\<rparr>))"

text \<open>
  The run-time of Verilator that the repository vendors (\<open>verilated.cpp\<close>): the first argument
  that starts with a plus sign and the prefix, or the empty string. It never returns null.
\<close>

fun argPlusMatch :: "string list \<Rightarrow> string \<Rightarrow> string" where
  "argPlusMatch [] pre = ''''"
| "argPlusMatch (a # as) pre =
     (case a of [] \<Rightarrow> argPlusMatch as pre
      | c # r \<Rightarrow> if c = CHR ''+'' \<and> prefix pre r then a else argPlusMatch as pre)"

definition VL_VALUE_STRING_MAX_WIDTH :: nat where "VL_VALUE_STRING_MAX_WIDTH = 8192"

definition commandArgsPlusMatch :: "string list \<Rightarrow> string \<Rightarrow> string option" where
  "commandArgsPlusMatch argv pre = Some (take (VL_VALUE_STRING_MAX_WIDTH - 2) (argPlusMatch argv pre))"

section \<open>One drive's slice of a call\<close>

text \<open>Move one word of the transfer in progress on drive \<open>i\<close>.\<close>

definition serve :: "(string \<Rightarrow> string option) \<Rightarrow> nat \<Rightarrow> blkdev \<Rightarrow> blkdev" where
  "serve args i s =
     (if current_disk s \<noteq> int i then s
      else if ack_delay s \<noteq> 1 then s\<lparr>sd_buff_wr := 0\<rparr>
      else if reading s \<and> sd_buff_wr s = 0 \<and> bytecnt s < kBLKSZ
      then
        (let (byte1, d) = st_get (disk s ! i); (byte2, d) = st_get d
         in s\<lparr>disk := (disk s)[i := d],
              sd_buff_dout := word_of_int (push_bit 8 byte1 OR (byte2 AND 0xFF)),
              sd_buff_addr := word_of_int (bytecnt s div 2),
              bytecnt := bytecnt s + 2, sd_buff_wr := 1\<rparr>)
      else if writing s \<and> bytecnt s < kBLKSZ
      then
        (let w = sd_buff_din s ! i;
             d = (if args ''ignore_scsi_writes'' = None
                  then st_put (ucast w) (st_put (ucast (drop_bit 8 w)) (disk s ! i))
                  else disk s ! i);
             n = bytecnt s + 2
         in s\<lparr>disk := (disk s)[i := d], bytecnt := n,
              sd_buff_addr := (if n < kBLKSZ then word_of_int (n div 2) else 0)\<rparr>)
      else if writing s then s\<lparr>sd_buff_addr := 0, writing := False\<rparr>
      else
        (let s = s\<lparr>sd_buff_wr := 0\<rparr>
         in if reading s \<and> bytecnt s \<ge> kBLKSZ then s\<lparr>reading := False\<rparr> else s))"

text \<open>Announce a queued image, end its announcement, or let the delay run.\<close>

definition mount_or_wait :: "nat \<Rightarrow> blkdev \<Rightarrow> blkdev" where
  "mount_or_wait i s =
     (if \<not> reading s \<and> \<not> writing s \<and> mountQueue s ! i \<and> img_mounted s = 0
      then s\<lparr>mountQueue := (mountQueue s)[i := False], img_size := word_of_int (disk_size s ! i),
             img_readonly := map_option (\<lambda>_. 1) (img_readonly s),
             disk := (disk s)[i := st_seek 0 (disk s ! i)],
             img_mounted := bitset (img_mounted s) i, ack_delay := 1200\<rparr>
      else if ack_delay s = 1 \<and> bitcheck (img_mounted s) i
      then s\<lparr>img_mounted := bitclear (img_mounted s) i\<rparr>
      else if \<not> reading s \<and> \<not> writing s \<and> ack_delay s > 0
      then s\<lparr>ack_delay := ack_delay s - 1\<rparr>
      else s)"

text \<open>Take a request of drive \<open>i\<close>; \<open>lba\<close> is an \<open>int\<close> in the code.\<close>

definition accept :: "int \<Rightarrow> nat \<Rightarrow> blkdev \<Rightarrow> blkdev" where
  "accept latency i s =
     (if (current_disk s = -1 \<or> current_disk s = int i) \<and> (bitcheck (sd_rd s) i \<or> bitcheck (sd_wr s) i)
      then
        (let s = s\<lparr>current_disk := int i\<rparr>
         in if ack_delay s = 0
            then
              (let lba = sint (sd_lba s ! i)
               in s\<lparr>reading := (reading s \<or> bitcheck (sd_rd s) i),
                    writing := (writing s \<or> bitcheck (sd_wr s) i),
                    disk := (disk s)[i := st_seek (lba * kBLKSZ) (st_clear (disk s ! i))],
                    bytecnt := 0, sd_buff_addr := 0, ack_delay := latency\<rparr>)
            else s)
      else s)"

definition acknowledge :: "nat \<Rightarrow> blkdev \<Rightarrow> blkdev" where
  "acknowledge i s =
     (if current_disk s = int i
      then
        (let s = (if ack_delay s = 1 then s\<lparr>sd_ack := bitset (sd_ack s) i\<rparr>
                  else s\<lparr>sd_ack := bitclear (sd_ack s) i\<rparr>);
             s = (if ack_delay s > 1 \<or> (ack_delay s = 1 \<and> \<not> reading s \<and> \<not> writing s)
                  then s\<lparr>ack_delay := ack_delay s - 1\<rparr> else s)
         in if ack_delay s = 0 \<and> \<not> reading s \<and> \<not> writing s then s\<lparr>current_disk := -1\<rparr> else s)
      else s)"

definition drive_step :: "(string \<Rightarrow> string option) \<Rightarrow> int \<Rightarrow> nat \<Rightarrow> blkdev \<Rightarrow> blkdev" where
  "drive_step args latency i s = acknowledge i (accept latency i (mount_or_wait i (serve args i s)))"

definition blk_BeforeEval :: "(string \<Rightarrow> string option) \<Rightarrow> int \<Rightarrow> int \<Rightarrow> blkdev \<Rightarrow> blkdev" where
  "blk_BeforeEval args latency cycles s =
     (if cycles < 2000 then s else fold (drive_step args latency) [0..<kVDNUM] s)"


section \<open>A run of calls\<close>

text \<open>What the core drives in one call, and what it sees: a word is presented while the write
  strobe is high.\<close>

record blk_in =
  in_cycles :: int
  in_rd :: u8
  in_wr :: u8
  in_lba :: "u32 list"
  in_din :: "u16 list"

definition blk_call :: "(string \<Rightarrow> string option) \<Rightarrow> int \<Rightarrow> blk_in \<Rightarrow> blkdev \<Rightarrow> blkdev" where
  "blk_call args latency x s = blk_BeforeEval args latency (in_cycles x)
     (s\<lparr>sd_rd := in_rd x, sd_wr := in_wr x, sd_lba := in_lba x, sd_buff_din := in_din x\<rparr>)"

definition presented :: "blkdev \<Rightarrow> (u8 \<times> u16) list" where
  "presented s = (if sd_buff_wr s = 0 then [] else [(sd_buff_addr s, sd_buff_dout s)])"

fun blk_run :: "(string \<Rightarrow> string option) \<Rightarrow> int \<Rightarrow> blk_in list \<Rightarrow> blkdev \<Rightarrow> blkdev \<times> (u8 \<times> u16) list" where
  "blk_run args latency [] s = (s, [])"
| "blk_run args latency (x # xs) s =
     (let s1 = blk_call args latency x s; (s2, out) = blk_run args latency xs s1
      in (s2, presented s1 @ out))"

lemma blk_run_append:
  "blk_run args l (xs @ ys) s =
     (let (s1, o1) = blk_run args l xs s; (s2, o2) = blk_run args l ys s1 in (s2, o1 @ o2))"
  by (induction xs arbitrary: s) (auto split: prod.splits simp: Let_def)

lemma fold_fixed: "(\<And>j. j \<in> set js \<Longrightarrow> f j t = t) \<Longrightarrow> fold f js t = t"
  by (induction js) simp_all

lemma fold_only:
  assumes "i < n" "\<And>j. j < i \<Longrightarrow> f j s = s" "\<And>j. i < j \<Longrightarrow> j < n \<Longrightarrow> f j (f i s) = f i s"
  shows "fold f [0..<n] s = f i s"
proof -
  have "[0..<n] = [0..<i] @ i # [Suc i..<n]"
    using assms(1) upt_append [of 0 i n] by (simp add: upt_conv_Cons)
  moreover have "fold f [0..<i] s = s" by (rule fold_fixed) (simp add: assms)
  moreover have "fold f [Suc i..<n] (f i s) = f i s" by (rule fold_fixed) (simp add: assms)
  ultimately show ?thesis by simp
qed

text \<open>No drive has an image to announce, and none is announced.\<close>

definition mounts_done :: "blkdev \<Rightarrow> bool" where
  "mounts_done s \<longleftrightarrow> img_mounted s = 0 \<and> (\<forall>j<kVDNUM. \<not> mountQueue s ! j)"

definition sizes_ok :: "blkdev \<Rightarrow> bool" where
  "sizes_ok s \<longleftrightarrow> length (disk s) = kVDNUM \<and> length (mountQueue s) = kVDNUM \<and>
     length (disk_size s) = kVDNUM"

definition busy_with :: "nat \<Rightarrow> blkdev \<Rightarrow> bool" where
  "busy_with i s \<longleftrightarrow> current_disk s = int i \<and> (reading s \<or> writing s) \<and> mounts_done s"

definition blk_idle :: "blkdev \<Rightarrow> bool" where
  "blk_idle s \<longleftrightarrow> current_disk s = -1 \<and> \<not> reading s \<and> \<not> writing s \<and> ack_delay s = 0 \<and> mounts_done s"

lemma bitcheck_0 [simp]: "\<not> bitcheck 0 i"
  by (simp add: bitcheck_iff_bit)

lemma serve_elsewhere: "current_disk s \<noteq> int j \<Longrightarrow> serve args j s = s"
  by (simp add: serve_def)

lemma acknowledge_elsewhere: "current_disk s \<noteq> int j \<Longrightarrow> acknowledge j s = s"
  by (simp add: acknowledge_def)

lemma accept_elsewhere:
  "current_disk s \<noteq> -1 \<Longrightarrow> current_disk s \<noteq> int j \<Longrightarrow> accept l j s = s"
  by (simp add: accept_def)

lemma accept_unasked: "\<not> bitcheck (sd_rd s) j \<Longrightarrow> \<not> bitcheck (sd_wr s) j \<Longrightarrow> accept l j s = s"
  by (simp add: accept_def)

lemma mount_or_wait_busy:
  "mounts_done s \<Longrightarrow> reading s \<or> writing s \<Longrightarrow> mount_or_wait j s = s"
  by (auto simp: mount_or_wait_def mounts_done_def)

lemma mount_or_wait_idle:
  "mounts_done s \<Longrightarrow> ack_delay s = 0 \<Longrightarrow> j < kVDNUM \<Longrightarrow> mount_or_wait j s = s"
  by (simp add: mount_or_wait_def mounts_done_def)

lemma drive_step_other:
  assumes "busy_with i s" "j \<noteq> i"
  shows "drive_step args l j s = s"
proof -
  have "current_disk s \<noteq> int j" "current_disk s \<noteq> -1" using assms by (simp_all add: busy_with_def)
  then show ?thesis
    using assms(1)
    by (simp add: drive_step_def busy_with_def serve_elsewhere accept_elsewhere acknowledge_elsewhere mount_or_wait_busy)
qed

lemma drive_step_idle:
  assumes "blk_idle s" "\<not> bitcheck (sd_rd s) j" "\<not> bitcheck (sd_wr s) j" "j < kVDNUM"
  shows "drive_step args l j s = s"
proof -
  have "current_disk s \<noteq> int j" using assms by (simp add: blk_idle_def)
  then show ?thesis
    using assms
    by (simp add: drive_step_def blk_idle_def serve_elsewhere accept_unasked acknowledge_elsewhere mount_or_wait_idle)
qed

lemma call_one_drive:
  assumes "i < kVDNUM" "2000 \<le> cycles"
    and "busy_with i s \<or> (blk_idle s \<and> (\<forall>j<i. \<not> bitcheck (sd_rd s) j \<and> \<not> bitcheck (sd_wr s) j))"
    and "busy_with i (drive_step args l i s) \<or>
      (blk_idle (drive_step args l i s) \<and> sd_rd (drive_step args l i s) = 0 \<and> sd_wr (drive_step args l i s) = 0)"
  shows "blk_BeforeEval args l cycles s = drive_step args l i s"
proof -
  have "drive_step args l j s = s" if "j < i" for j
    using assms(1,3) that drive_step_other [of i s j] drive_step_idle [of s j] by auto
  moreover have "drive_step args l j (drive_step args l i s) = drive_step args l i s" if "i < j" "j < kVDNUM" for j
    using assms(4) that drive_step_other [of i "drive_step args l i s" j] drive_step_idle [of "drive_step args l i s" j]
    by auto
  ultimately show ?thesis
    using assms(1,2) by (simp add: blk_BeforeEval_def fold_only)
qed

section \<open>Reading a sector\<close>

text \<open>Drive \<open>i\<close> is transferring the sector that starts at byte \<open>p\<close> of \<open>bs\<close>, with \<open>n\<close> bytes done:
  towards the core when \<open>rd\<close>, else from it.\<close>

definition engaged :: "bool \<Rightarrow> nat \<Rightarrow> u8 list \<Rightarrow> int \<Rightarrow> int \<Rightarrow> int \<Rightarrow> blkdev \<Rightarrow> bool" where
  "engaged rd i bs p delay n s \<longleftrightarrow> current_disk s = int i \<and> reading s = rd \<and> writing s = (\<not> rd) \<and> mounts_done s \<and>
     ack_delay s = delay \<and> bytecnt s = n \<and> length (disk s) = kVDNUM \<and>
     (\<exists>w. (rd \<or> w) \<and> disk s ! i = Some \<lparr>st_bytes = bs, st_pos = p + n, st_writable = w, st_fail = False\<rparr>)"

lemma engaged_busy: "engaged rd i bs p d n s \<Longrightarrow> busy_with i s"
  by (auto simp: engaged_def busy_with_def)

lemma accept_engaged: "engaged rd i bs p d n s \<Longrightarrow> d \<noteq> 0 \<Longrightarrow> accept l i s = s"
  by (simp add: accept_def engaged_def)

lemma wait_engaged: "engaged rd i bs p d n s \<Longrightarrow> mount_or_wait i s = s"
  by (auto simp: engaged_def intro: mount_or_wait_busy)

lemma engaged_ports [simp]:
  "engaged rd i bs p d n (s\<lparr>sd_rd := a, sd_wr := b, sd_lba := c, sd_buff_din := e\<rparr>) = engaged rd i bs p d n s"
  "engaged rd i bs p d n (s\<lparr>sd_buff_wr := w\<rparr>) = engaged rd i bs p d n s"
  "engaged rd i bs p d n (s\<lparr>sd_ack := k\<rparr>) = engaged rd i bs p d n s"
  by (simp_all add: engaged_def mounts_done_def)

text \<open>Waiting for the medium: the strobe stays low and the acknowledge is withheld.\<close>

lemma step_delay:
  assumes "engaged rd i bs p d n s" "1 < d"
  shows "drive_step args l i s = s\<lparr>sd_buff_wr := 0, sd_ack := bitclear (sd_ack s) i, ack_delay := d - 1\<rparr>"
proof -
  have 1: "serve args i s = s\<lparr>sd_buff_wr := 0\<rparr>" (is "_ = ?t")
    using assms by (simp add: serve_def engaged_def)
  have t: "engaged rd i bs p d n ?t" using assms by simp
  have 2: "mount_or_wait i ?t = ?t" "accept l i ?t = ?t"
    using wait_engaged [OF t] accept_engaged [OF t] assms(2) by simp_all
  show ?thesis
    unfolding drive_step_def 1 2 using assms by (simp add: acknowledge_def engaged_def)
qed

lemma engaged_delay:
  "engaged rd i bs p d n s \<Longrightarrow> engaged rd i bs p (d - 1) n (s\<lparr>sd_buff_wr := 0, sd_ack := k, ack_delay := d - 1\<rparr>)"
  by (simp add: engaged_def mounts_done_def)

text \<open>The two calls that send a word: one raises the strobe, the next lowers it.\<close>

definition sector_word :: "u8 list \<Rightarrow> int \<Rightarrow> nat \<Rightarrow> u16" where
  "sector_word bs p k = push_bit 8 (ucast (bs ! nat (p + 2 * int k))) OR ucast (bs ! nat (p + 2 * int k + 1))"

lemma step_word:
  assumes "engaged True i bs p 1 (2 * int k) s" "k < 256" "sd_buff_wr s = 0" "i < kVDNUM"
    and "0 \<le> p" "p + kBLKSZ \<le> int (length bs)"
  shows "engaged True i bs p 1 (2 * int k + 2) (drive_step args l i s) \<and> (i < 8 \<longrightarrow> bitcheck (sd_ack (drive_step args l i s)) i) \<and>
    sd_buff_wr (drive_step args l i s) = 1 \<and> sd_buff_addr (drive_step args l i s) = of_nat k \<and>
    sd_buff_dout (drive_step args l i s) = sector_word bs p k"
proof -
  obtain w where f: "disk s ! i = Some \<lparr>st_bytes = bs, st_pos = p + 2 * int k, st_writable = w, st_fail = False\<rparr>"
    using assms(1) by (auto simp: engaged_def)
  let ?d = "Some \<lparr>st_bytes = bs, st_pos = p + (2 * int k + 2), st_writable = w, st_fail = False\<rparr>"
  let ?t = "s\<lparr>disk := (disk s)[i := ?d], sd_buff_dout := sector_word bs p k,
    sd_buff_addr := of_nat k, bytecnt := 2 * int k + 2, sd_buff_wr := 1\<rparr>"
  have b: "p + 2 * int k + 1 < int (length bs)" using assms(2,6) by (simp add: kBLKSZ_def)
  have g: "st_get (disk s ! i) = (uint (bs ! nat (p + 2 * int k)),
      Some \<lparr>st_bytes = bs, st_pos = p + 2 * int k + 1, st_writable = w, st_fail = False\<rparr>)"
    using b assms(5) by (simp add: f st_get_def)
  have h: "st_get (Some \<lparr>st_bytes = bs, st_pos = p + 2 * int k + 1, st_writable = w, st_fail = False\<rparr>) =
      (uint (bs ! nat (p + 2 * int k + 1)), ?d)"
    using b assms(5) by (simp add: st_get_def)
  have 1: "serve args i s = ?t"
    using assms(1-3)
    by (simp add: serve_def engaged_def g h be_word_int sector_word_def kBLKSZ_def)
  have t: "engaged True i bs p 1 (2 * int k + 2) ?t"
    using assms(1,4) by (simp add: engaged_def mounts_done_def)
  have 2: "mount_or_wait i ?t = ?t" "accept l i ?t = ?t"
    using wait_engaged [OF t] accept_engaged [OF t] by simp_all
  have 3: "drive_step args l i s = ?t\<lparr>sd_ack := bitset (sd_ack ?t) i\<rparr>"
    unfolding drive_step_def 1 2 using t by (simp add: acknowledge_def engaged_def)
  show ?thesis
    unfolding 3 using t by auto
qed

lemma step_gap:
  assumes "engaged True i bs p 1 n s" "n < kBLKSZ" "sd_buff_wr s = 1"
  shows "engaged True i bs p 1 n (drive_step args l i s) \<and> sd_buff_wr (drive_step args l i s) = 0"
proof -
  have 1: "serve args i s = s\<lparr>sd_buff_wr := 0\<rparr>" (is "_ = ?t")
    using assms by (simp add: serve_def engaged_def)
  have t: "engaged True i bs p 1 n ?t" using assms by simp
  have 2: "mount_or_wait i ?t = ?t" "accept l i ?t = ?t"
    using wait_engaged [OF t] accept_engaged [OF t] by simp_all
  have "drive_step args l i s = ?t\<lparr>sd_ack := bitset (sd_ack ?t) i\<rparr>"
    unfolding drive_step_def 1 2 using t by (simp add: acknowledge_def engaged_def)
  then show ?thesis using t by simp
qed

lemma step_done:
  assumes "engaged True i bs p 1 kBLKSZ s" "sd_buff_wr s = 1" "sd_rd s = 0" "sd_wr s = 0" "i < kVDNUM"
  shows "blk_idle (drive_step args l i s) \<and> sd_buff_wr (drive_step args l i s) = 0 \<and>
    \<not> bitcheck (sd_ack (drive_step args l i s)) i \<and>
    sd_rd (drive_step args l i s) = 0 \<and> sd_wr (drive_step args l i s) = 0 \<and>
    map_option st_bytes (disk (drive_step args l i s) ! i) = Some bs"
proof -
  have 1: "serve args i s = s\<lparr>sd_buff_wr := 0, reading := False\<rparr>" (is "_ = ?t")
    using assms by (simp add: serve_def engaged_def)
  have 2: "mount_or_wait i ?t = ?t\<lparr>ack_delay := 0\<rparr>" (is "_ = ?u")
    using assms(1,5) by (auto simp: engaged_def mount_or_wait_def mounts_done_def)
  have 3: "accept l i ?u = ?u"
    using assms by (simp add: accept_def)
  have 4: "drive_step args l i s = ?u\<lparr>sd_ack := bitclear (sd_ack ?u) i, current_disk := -1\<rparr>"
    unfolding drive_step_def 1 2 3 using assms(1) by (simp add: acknowledge_def engaged_def)
  show ?thesis
    unfolding 4 using assms by (auto simp: engaged_def blk_idle_def mounts_done_def)
qed


text \<open>The same steps as whole calls, whatever the request lines carry while the drive is busy.\<close>

definition awake :: "blk_in \<Rightarrow> bool" where
  "awake x \<longleftrightarrow> 2000 \<le> in_cycles x"

definition ported :: "blk_in \<Rightarrow> blkdev \<Rightarrow> blkdev" where
  "ported x s = s\<lparr>sd_rd := in_rd x, sd_wr := in_wr x, sd_lba := in_lba x, sd_buff_din := in_din x\<rparr>"

lemma ported_simps [simp]:
  "engaged rd i bs p d n (ported x s) = engaged rd i bs p d n s"
  "sd_buff_wr (ported x s) = sd_buff_wr s" "sd_rd (ported x s) = in_rd x" "sd_wr (ported x s) = in_wr x"
  "sd_ack (ported x s) = sd_ack s" "sd_lba (ported x s) = in_lba x" "sd_buff_din (ported x s) = in_din x"
  "disk (ported x s) = disk s" "ack_delay (ported x s) = ack_delay s" "current_disk (ported x s) = current_disk s"
  "reading (ported x s) = reading s" "writing (ported x s) = writing s" "blk_idle (ported x s) = blk_idle s"
  "mounts_done (ported x s) = mounts_done s" "img_mounted (ported x s) = img_mounted s"
  "mountQueue (ported x s) = mountQueue s" "bytecnt (ported x s) = bytecnt s" "sd_buff_addr (ported x s) = sd_buff_addr s"
  by (simp_all add: ported_def blk_idle_def mounts_done_def)

lemma blk_call_last:
  assumes "i < kVDNUM" "awake x" "busy_with i (ported x s)" "blk_idle (drive_step args l i (ported x s))"
    and "sd_rd (drive_step args l i (ported x s)) = 0" "sd_wr (drive_step args l i (ported x s)) = 0"
  shows "blk_call args l x s = drive_step args l i (ported x s)"
  using assms call_one_drive [of i "in_cycles x" "ported x s" args l]
  by (simp add: blk_call_def awake_def flip: ported_def)

lemma blk_call_engaged:
  assumes "engaged rd i bs p d n s" "i < kVDNUM" "awake x"
    and "engaged rd i bs' p d' n' (drive_step args l i (ported x s))"
  shows "blk_call args l x s = drive_step args l i (ported x s)"
  using assms call_one_drive [of i "in_cycles x" "ported x s" args l]
    engaged_busy [of rd i bs p d n "ported x s"] engaged_busy [OF assms(4)]
  by (simp add: blk_call_def awake_def flip: ported_def)

lemma run_delay:
  assumes "engaged rd i bs p (int (Suc k)) n s" "i < kVDNUM" "list_all awake xs" "length xs = k" "sd_buff_wr s = 0"
  shows "\<exists>s'. blk_run args l xs s = (s', []) \<and> engaged rd i bs p 1 n s' \<and> sd_buff_wr s' = 0"
  using assms
proof (induction xs arbitrary: s k)
  case Nil
  then show ?case by simp
next
  case (Cons x xs)
  then obtain m where k: "k = Suc m" by (cases k) auto
  let ?t = "ported x s"
  have t: "engaged rd i bs p (int (Suc k)) n ?t" using Cons.prems by simp
  have st: "drive_step args l i ?t = ?t\<lparr>sd_buff_wr := 0, sd_ack := bitclear (sd_ack ?t) i, ack_delay := int (Suc m)\<rparr>"
    (is "_ = ?v") using step_delay [OF t] k by simp
  have v: "engaged rd i bs p (int (Suc m)) n ?v"
    using engaged_delay [OF t] k by simp
  have c: "blk_call args l x s = ?v"
    using blk_call_engaged [OF Cons.prems(1,2), of x bs "int (Suc m)" n args l] Cons.prems(3) v st by simp
  obtain s' where "blk_run args l xs ?v = (s', [])" "engaged rd i bs p 1 n s'" "sd_buff_wr s' = 0"
    using Cons.IH [of m ?v] v Cons.prems k by auto
  then show ?case by (simp add: c presented_def)
qed

definition sector_out :: "u8 list \<Rightarrow> int \<Rightarrow> nat \<Rightarrow> u8 \<times> u16" where
  "sector_out bs p k = (of_nat k, sector_word bs p k)"

lemma run_words:
  assumes "engaged True i bs p 1 (2 * int k) s" "sd_buff_wr s = 0" "i < kVDNUM" "k + n < 256"
    and "0 \<le> p" "p + kBLKSZ \<le> int (length bs)"
    and "list_all awake xs" "length xs = 2 * n"
  shows "\<exists>s'. blk_run args l xs s = (s', map (sector_out bs p) [k..<k + n]) \<and>
    engaged True i bs p 1 (2 * int (k + n)) s' \<and> sd_buff_wr s' = 0"
  using assms
proof (induction n arbitrary: s k xs)
  case 0
  then show ?case by simp
next
  case (Suc n)
  then obtain x y ys where xs: "xs = x # y # ys" by (cases xs rule: remdups_adj.cases) auto
  let ?t = "ported x s" let ?u = "drive_step args l i ?t"
  have t: "engaged True i bs p 1 (2 * int k) ?t" "sd_buff_wr ?t = 0" using Suc.prems by simp_all
  have u: "engaged True i bs p 1 (2 * int k + 2) ?u" "sd_buff_wr ?u = 1" "sd_buff_addr ?u = of_nat k"
    "sd_buff_dout ?u = sector_word bs p k"
    using step_word [OF t(1) _ t(2) Suc.prems(3,5,6), of args l] Suc.prems(4) by auto
  have c1: "blk_call args l x s = ?u"
    using blk_call_engaged [OF Suc.prems(1,3) _ u(1)] Suc.prems(7) xs by simp
  let ?v = "ported y ?u" let ?w = "drive_step args l i ?v"
  have w: "engaged True i bs p 1 (2 * int k + 2) ?w" "sd_buff_wr ?w = 0"
    using step_gap [of i bs p "2 * int k + 2" ?v args l] u Suc.prems(4) by (auto simp: kBLKSZ_def)
  have c2: "blk_call args l y ?u = ?w"
    using blk_call_engaged [OF u(1) Suc.prems(3) _ w(1)] Suc.prems(7) xs by simp
  have "2 * int (Suc k) = 2 * int k + 2" by simp
  then have w': "engaged True i bs p 1 (2 * int (Suc k)) ?w" using w(1) by (simp only:)
  obtain s' where s': "blk_run args l ys ?w = (s', map (sector_out bs p) [Suc k..<Suc k + n])"
    "engaged True i bs p 1 (2 * int (Suc k + n)) s'" "sd_buff_wr s' = 0"
    using Suc.IH [OF w' w(2) Suc.prems(3) _ Suc.prems(5,6), of ys] Suc.prems(4,7,8) xs by auto
  have "[k..<k + Suc n] = k # [Suc k..<Suc k + n]" by (simp add: upt_conv_Cons del: upt_Suc)
  then show ?case
    using s' u w(2) by (simp add: xs c1 c2 Let_def presented_def sector_out_def del: upt_Suc)
qed


definition requests_only :: "nat \<Rightarrow> blk_in \<Rightarrow> bool" where
  "requests_only i x \<longleftrightarrow> (\<forall>j<i. \<not> bitcheck (in_rd x) j \<and> \<not> bitcheck (in_wr x) j)"

lemma start_transfer:
  assumes "blk_idle s" "i < kVDNUM" "awake x" "requests_only i x" "bitcheck (in_rd x) i = rd" "bitcheck (in_wr x) i = (\<not> rd)"
    and "2 \<le> l" "sint (in_lba x ! i) = lba" "0 \<le> lba" "disk s ! i = Some f" "length (disk s) = kVDNUM"
    and "rd \<or> st_writable f"
  shows "engaged rd i (st_bytes f) (lba * kBLKSZ) (l - 1) 0 (blk_call args l x s) \<and>
    sd_buff_wr (blk_call args l x s) = sd_buff_wr s \<and> sd_buff_addr (blk_call args l x s) = 0"
proof -
  let ?t = "ported x s"
  let ?d = "f\<lparr>st_fail := False, st_pos := lba * kBLKSZ\<rparr>"
  have t: "blk_idle ?t" "current_disk ?t \<noteq> int i" using assms(1) by (simp_all add: blk_idle_def)
  have 1: "serve args i ?t = ?t" "mount_or_wait i ?t = ?t"
    using t assms(2) by (simp_all add: serve_elsewhere mount_or_wait_idle blk_idle_def)
  have a: "accept l i ?t = ?t\<lparr>current_disk := int i, reading := rd, writing := (\<not> rd), disk := (disk s)[i := Some ?d],
      bytecnt := 0, sd_buff_addr := 0, ack_delay := l\<rparr>" (is "_ = ?u")
    using assms t by (cases s; cases rd) (simp_all add: accept_def st_clear_def st_seek_def blk_idle_def ported_def kBLKSZ_def)
  have d: "drive_step args l i ?t = ?u\<lparr>sd_ack := bitclear (sd_ack ?u) i, ack_delay := l - 1\<rparr>" (is "_ = ?v")
    unfolding drive_step_def 1 a using assms(7) by (simp add: acknowledge_def)
  have v: "engaged rd i (st_bytes f) (lba * kBLKSZ) (l - 1) 0 ?v"
    using assms(1,2,11,12) by (cases f) (simp add: engaged_def blk_idle_def mounts_done_def)
  have "blk_call args l x s = ?v"
    using call_one_drive [of i "in_cycles x" ?t args l] assms(2-4) t(1) engaged_busy [OF v] d
    by (simp add: blk_call_def awake_def requests_only_def flip: ported_def)
  then show ?thesis using v by simp
qed

lemma finish_read:
  assumes "engaged True i bs p 1 (2 * 255) s" "sd_buff_wr s = 0" "i < kVDNUM" "0 \<le> p" "p + kBLKSZ \<le> int (length bs)"
    and "awake x" "awake z" "in_rd z = 0" "in_wr z = 0"
  shows "\<exists>s'. blk_run args l [x, z] s = (s', [sector_out bs p 255]) \<and> blk_idle s' \<and>
    sd_buff_wr s' = 0 \<and> \<not> bitcheck (sd_ack s') i \<and> map_option st_bytes (disk s' ! i) = Some bs"
proof -
  let ?t = "ported x s" let ?u = "drive_step args l i ?t"
  have t: "engaged True i bs p 1 (2 * int 255) ?t" "sd_buff_wr ?t = 0" using assms by simp_all
  have u: "engaged True i bs p 1 kBLKSZ ?u" "sd_buff_wr ?u = 1" "sd_buff_addr ?u = of_nat 255"
    "sd_buff_dout ?u = sector_word bs p 255"
    using step_word [OF t(1) _ t(2) assms(3,4,5), of args l] by (auto simp: kBLKSZ_def)
  have c1: "blk_call args l x s = ?u"
    using blk_call_engaged [OF assms(1,3,6) u(1)] by simp
  let ?v = "ported z ?u" let ?w = "drive_step args l i ?v"
  have w: "blk_idle ?w" "sd_buff_wr ?w = 0" "\<not> bitcheck (sd_ack ?w) i" "sd_rd ?w = 0" "sd_wr ?w = 0"
    "map_option st_bytes (disk ?w ! i) = Some bs"
    using step_done [of i bs p ?v args l] u(1,2) assms(3,8,9) by auto
  have c2: "blk_call args l z ?u = ?w"
    using engaged_busy [of True i bs p 1 kBLKSZ ?v] u(1) w assms(3,7) by (intro blk_call_last) simp_all
  show ?thesis
    using u w by (simp add: c1 c2 presented_def sector_out_def)
qed

text \<open>The words of the sector, as the download bus would make them of its bytes.\<close>

lemma be_words_take:
  "nat p + 2 * n \<le> length bs \<Longrightarrow> 0 \<le> p \<Longrightarrow>
   map (sector_word bs p) [0..<n] = be_words (take (2 * n) (drop (nat p) bs))"
proof (induction n arbitrary: p)
  case 0
  then show ?case by simp
next
  case (Suc n)
  have d: "drop (nat p) bs = bs ! nat p # bs ! Suc (nat p) # drop (nat (p + 2)) bs"
    using Suc.prems by (simp add: Cons_nth_drop_Suc nat_add_distrib)
  have "[0..<Suc n] = 0 # map Suc [0..<n]" by (simp add: map_Suc_upt upt_conv_Cons del: upt_Suc)
  moreover have "sector_word bs p (Suc k) = sector_word bs (p + 2) k" for k
    by (simp add: sector_word_def algebra_simps)
  moreover have "sector_word bs p 0 = push_bit 8 (ucast (bs ! nat p)) OR ucast (bs ! Suc (nat p))"
    using Suc.prems(2) by (simp add: sector_word_def nat_add_distrib)
  ultimately show ?case
    using Suc.IH [of "p + 2"] Suc.prems by (simp add: d nat_add_distrib o_def del: upt_Suc)
qed

lemma split_run:
  assumes "length xs = k + 511"
  shows "\<exists>as bs y. xs = as @ bs @ [y] \<and> length as = k \<and> length bs = 510"
proof -
  obtain zs y where z: "xs = zs @ [y]" using assms by (cases xs rule: rev_cases) auto
  have "xs = take k zs @ drop k zs @ [y]" using z by simp
  moreover have "length (take k zs) = k" "length (drop k zs) = 510" using assms z by auto
  ultimately show ?thesis by blast
qed

lemma read_sector_run:
  assumes "blk_idle s" "sd_buff_wr s = 0" "i < kVDNUM" "length (disk s) = kVDNUM" "disk s ! i = Some f"
    and "awake x" "requests_only i x" "bitcheck (in_rd x) i" "\<not> bitcheck (in_wr x) i"
    and "sint (in_lba x ! i) = lba" "0 \<le> lba" "(lba + 1) * 512 \<le> int (length (st_bytes f))"
    and "2 \<le> l" "list_all awake xs" "int (length xs) = l + 509" "awake z" "in_rd z = 0" "in_wr z = 0"
  shows "\<exists>s'. blk_run args l (x # xs @ [z]) s =
      (s', map (sector_out (st_bytes f) (lba * 512)) [0..<256]) \<and> blk_idle s' \<and>
    sd_buff_wr s' = 0 \<and> \<not> bitcheck (sd_ack s') i \<and> map_option st_bytes (disk s' ! i) = Some (st_bytes f)"
proof -
  let ?bs = "st_bytes f" and ?p = "lba * kBLKSZ"
  obtain k where "l - 2 = int k" using assms(13) zero_le_imp_eq_int [of "l - 2"] by auto
  then have k: "l - 1 = int (Suc k)" by simp
  have p: "0 \<le> ?p" "?p + kBLKSZ \<le> int (length ?bs)" using assms(11,12) by (simp_all add: kBLKSZ_def algebra_simps)
  have n: "length xs = k + 511" using assms(15) k by simp
  obtain as bs y where xs: "xs = as @ bs @ [y]" "length as = k" "length bs = 510"
    using split_run [OF n] by blast
  then have la: "length as = k" "length bs = 2 * 255" "list_all awake as" "list_all awake bs" "awake y"
    using assms(14) by auto
  let ?s1 = "blk_call args l x s"
  have s1: "engaged True i ?bs ?p (int (Suc k)) 0 ?s1" "sd_buff_wr ?s1 = 0"
    using start_transfer [of s i x True l lba f args] assms k by auto
  obtain s2 where s2: "blk_run args l as ?s1 = (s2, [])" "engaged True i ?bs ?p 1 0 s2" "sd_buff_wr s2 = 0"
    using run_delay [OF s1(1) assms(3) la(3,1) s1(2)] by blast
  have s2': "engaged True i ?bs ?p 1 (2 * int 0) s2" using s2(2) by simp
  obtain s3 where s3: "blk_run args l bs s2 = (s3, map (sector_out ?bs ?p) [0..<255])"
    "engaged True i ?bs ?p 1 (2 * 255) s3" "sd_buff_wr s3 = 0"
    using run_words [OF s2' s2(3) assms(3) _ p la(4), of 255] la(2) by (auto simp del: upt_Suc)
  obtain s4 where s4: "blk_run args l [y, z] s3 = (s4, [sector_out ?bs ?p 255])" "blk_idle s4"
    "sd_buff_wr s4 = 0" "\<not> bitcheck (sd_ack s4) i" "map_option st_bytes (disk s4 ! i) = Some ?bs"
    using finish_read [OF s3(2,3) assms(3) p la(5) assms(16-18)] by blast
  have "Suc 255 = 256" by simp
  then have u: "[0..<256] = [0..<255] @ [255]" using upt_Suc_append [of 0 255] by (simp only: le0 simp_thms)
  have e: "x # xs @ [z] = [x] @ as @ bs @ [y, z]" by (simp add: xs)
  have "presented ?s1 = []" using s1(2) by (simp add: presented_def)
  then have "blk_run args l (x # xs @ [z]) s = (s4, map (sector_out ?bs ?p) [0..<255] @ [sector_out ?bs ?p 255])"
    unfolding e blk_run_append using s2(1) s3(1) s4(1) by (simp add: Let_def del: blk_run.simps(2)) simp
  then show ?thesis using s4 by (simp only: u map_append list.map) (simp add: kBLKSZ_def del: upt_Suc)
qed



section \<open>Writing a sector\<close>

text \<open>
  The core answers the address the device put on \<open>sd_buff_addr\<close> in the call before with the word
  its sector buffer holds there.
\<close>

definition answer :: "(u8 \<Rightarrow> u16) \<Rightarrow> blkdev \<Rightarrow> blk_in \<Rightarrow> blk_in" where
  "answer buf s x = x\<lparr>in_din := replicate kVDNUM (buf (sd_buff_addr s))\<rparr>"

fun blk_run_core :: "(u8 \<Rightarrow> u16) \<Rightarrow> (string \<Rightarrow> string option) \<Rightarrow> int \<Rightarrow> blk_in list \<Rightarrow> blkdev \<Rightarrow> blkdev" where
  "blk_run_core buf args l [] s = s"
| "blk_run_core buf args l (x # xs) s = blk_run_core buf args l xs (blk_call args l (answer buf s x) s)"

lemma blk_run_core_append:
  "blk_run_core buf args l (xs @ ys) s = blk_run_core buf args l ys (blk_run_core buf args l xs s)"
  by (induction xs arbitrary: s) simp_all

lemma answer_simps [simp]:
  "awake (answer buf s x) = awake x" "in_cycles (answer buf s x) = in_cycles x"
  by (simp_all add: awake_def answer_def)

definition word_bytes :: "u16 \<Rightarrow> u8 list" where
  "word_bytes w = [ucast (drop_bit 8 w), ucast w]"

lemma be_words_of_words: "be_words (concat (map word_bytes ws)) = ws"
proof (induction ws)
  case Nil
  then show ?case by simp
next
  case (Cons w ws)
  have "push_bit 8 (ucast (ucast (drop_bit 8 w) :: u8)) OR ucast (ucast w :: u8) = w"
    by (rule bit_word_eqI) (auto simp: bit_simps dest: bit_imp_le_length)
  with Cons show ?case by (simp add: word_bytes_def)
qed

text \<open>The image with the words \<open>ws\<close> stored from byte \<open>p\<close> on.\<close>

definition stored :: "u8 list \<Rightarrow> nat \<Rightarrow> u16 list \<Rightarrow> u8 list" where
  "stored bs p ws = take p bs @ concat (map word_bytes ws) @ drop (p + 2 * length ws) bs"

lemma length_word_bytes [simp]: "length (concat (map word_bytes ws)) = 2 * length ws"
  by (induction ws) (simp_all add: word_bytes_def)

lemma length_stored: "p + 2 * length ws \<le> length bs \<Longrightarrow> length (stored bs p ws) = length bs"
  by (simp add: stored_def)

lemma stored_snoc:
  assumes "p + 2 * length ws + 2 \<le> length bs"
  shows "(stored bs p ws)[p + 2 * length ws := ucast (drop_bit 8 w), p + 2 * length ws + 1 := ucast w] =
    stored bs p (ws @ [w])"
proof -
  have "drop (p + 2 * length ws) bs = bs ! (p + 2 * length ws) # bs ! Suc (p + 2 * length ws) #
      drop (p + 2 * length ws + 2) bs"
    using assms by (simp add: Cons_nth_drop_Suc)
  then show ?thesis
    using assms by (simp add: stored_def word_bytes_def list_update_append)
qed

definition stored_at :: "u8 list \<Rightarrow> int \<Rightarrow> (u8 \<Rightarrow> u16) \<Rightarrow> nat \<Rightarrow> u8 list" where
  "stored_at bs p buf k = stored bs (nat p) (map (\<lambda>j. buf (of_nat j)) [0..<k])"

lemma step_store:
  assumes "engaged False i (stored_at bs p buf k) p 1 (2 * int k) s" "k < 256" "i < kVDNUM"
    and "0 \<le> p" "p + kBLKSZ \<le> int (length bs)" "args ''ignore_scsi_writes'' = None"
    and "sd_buff_din s ! i = buf (of_nat k)"
  shows "engaged False i (stored_at bs p buf (Suc k)) p 1 (2 * int (Suc k)) (drive_step args l i s) \<and>
    sd_buff_addr (drive_step args l i s) = (if k < 255 then of_nat (Suc k) else 0) \<and>
    sd_buff_wr (drive_step args l i s) = sd_buff_wr s"
proof -
  let ?w = "buf (of_nat k)" and ?bs = "stored_at bs p buf k"
  let ?q = "nat (p + 2 * int k)"
  have le: "nat p + 2 * k + 2 \<le> length bs" using assms(2,4,5) by (simp add: kBLKSZ_def)
  have len: "length ?bs = length bs" using le by (simp add: stored_at_def length_stored)
  have q: "?q = nat p + 2 * k" "nat (p + 2 * int k + 1) = nat p + 2 * k + 1" using assms(4) by simp_all
  have f: "disk s ! i = Some \<lparr>st_bytes = ?bs, st_pos = p + 2 * int k, st_writable = True, st_fail = False\<rparr>"
    using assms(1) by (auto simp: engaged_def)
  have up: "?bs[nat p + 2 * k := ucast (drop_bit 8 ?w), nat p + 2 * k + 1 := ucast ?w] = stored_at bs p buf (Suc k)"
    using stored_snoc [of "nat p" "map (\<lambda>j. buf (of_nat j)) [0..<k]" bs ?w] le by (simp add: stored_at_def)
  let ?d = "Some \<lparr>st_bytes = stored_at bs p buf (Suc k), st_pos = p + 2 * int k + 2, st_writable = True, st_fail = False\<rparr>"
  have put: "st_put (ucast ?w) (st_put (ucast (drop_bit 8 ?w)) (disk s ! i)) = ?d"
    using le len up q by (simp add: f st_put_def)
  let ?a = "if k < 255 then of_nat (Suc k) else 0 :: u8"
  let ?t = "s\<lparr>disk := (disk s)[i := ?d], bytecnt := 2 * int k + 2, sd_buff_addr := ?a\<rparr>"
  have a: "(if 2 * int k + 2 < kBLKSZ then word_of_int ((2 * int k + 2) div 2) else 0) = ?a"
    using assms(2) by (auto simp: kBLKSZ_def add.commute)
  have 1: "serve args i s = ?t"
    using assms(1,2,6,7) put a by (simp add: serve_def engaged_def kBLKSZ_def)
  have t: "engaged False i (stored_at bs p buf (Suc k)) p 1 (2 * int (Suc k)) ?t"
    using assms(1,3) by (auto simp: engaged_def mounts_done_def algebra_simps)
  have 2: "mount_or_wait i ?t = ?t" "accept l i ?t = ?t"
    using wait_engaged [OF t] accept_engaged [OF t] by simp_all
  have 3: "drive_step args l i s = ?t\<lparr>sd_ack := bitset (sd_ack ?t) i\<rparr>"
    unfolding drive_step_def 1 2 using t by (simp add: acknowledge_def engaged_def)
  show ?thesis
    unfolding 3 using t by simp
qed

lemma step_flush:
  assumes "engaged False i bs p 1 kBLKSZ s" "sd_rd s = 0" "sd_wr s = 0" "i < kVDNUM"
  shows "blk_idle (drive_step args l i s) \<and> \<not> bitcheck (sd_ack (drive_step args l i s)) i \<and>
    sd_rd (drive_step args l i s) = 0 \<and> sd_wr (drive_step args l i s) = 0 \<and>
    sd_buff_wr (drive_step args l i s) = sd_buff_wr s \<and>
    disk (drive_step args l i s) = disk s"
proof -
  have 1: "serve args i s = s\<lparr>sd_buff_addr := 0, writing := False\<rparr>" (is "_ = ?t")
    using assms by (simp add: serve_def engaged_def kBLKSZ_def)
  have 2: "mount_or_wait i ?t = ?t\<lparr>ack_delay := 0\<rparr>" (is "_ = ?u")
    using assms(1,4) by (auto simp: engaged_def mount_or_wait_def mounts_done_def)
  have 3: "accept l i ?u = ?u"
    using assms by (simp add: accept_def)
  have 4: "drive_step args l i s = ?u\<lparr>sd_ack := bitclear (sd_ack ?u) i, current_disk := -1\<rparr>"
    unfolding drive_step_def 1 2 3 using assms(1) by (simp add: acknowledge_def engaged_def)
  show ?thesis
    unfolding 4 using assms by (auto simp: engaged_def blk_idle_def mounts_done_def)
qed

lemma core_delay:
  assumes "engaged rd i bs p (int (Suc k)) n s" "i < kVDNUM" "list_all awake xs" "length xs = k" "sd_buff_wr s = 0"
  shows "engaged rd i bs p 1 n (blk_run_core buf args l xs s) \<and> sd_buff_wr (blk_run_core buf args l xs s) = 0 \<and>
    sd_buff_addr (blk_run_core buf args l xs s) = sd_buff_addr s"
  using assms
proof (induction xs arbitrary: s k)
  case Nil
  then show ?case by simp
next
  case (Cons x xs)
  then obtain m where k: "k = Suc m" by (cases k) auto
  let ?t = "ported (answer buf s x) s"
  have t: "engaged rd i bs p (int (Suc k)) n ?t" using Cons.prems by simp
  have st: "drive_step args l i ?t = ?t\<lparr>sd_buff_wr := 0, sd_ack := bitclear (sd_ack ?t) i, ack_delay := int (Suc m)\<rparr>"
    (is "_ = ?v") using step_delay [OF t] k by simp
  have v: "engaged rd i bs p (int (Suc m)) n ?v"
    using engaged_delay [OF t] k by simp
  have c: "blk_call args l (answer buf s x) s = ?v"
    using blk_call_engaged [OF Cons.prems(1,2), of "answer buf s x" bs "int (Suc m)" n args l] Cons.prems(3) v st by simp
  show ?case using Cons.IH [of m ?v] v Cons.prems k by (simp add: c)
qed

lemma core_store:
  assumes "engaged False i (stored_at bs p buf k) p 1 (2 * int k) s" "i < kVDNUM" "k + n \<le> 256"
    and "0 \<le> p" "p + kBLKSZ \<le> int (length bs)" "args ''ignore_scsi_writes'' = None"
    and "sd_buff_addr s = of_nat k \<or> n = 0" "list_all awake xs" "length xs = n"
  shows "engaged False i (stored_at bs p buf (k + n)) p 1 (2 * int (k + n)) (blk_run_core buf args l xs s) \<and>
    sd_buff_wr (blk_run_core buf args l xs s) = sd_buff_wr s"
  using assms
proof (induction xs arbitrary: s k n)
  case Nil
  then show ?case by simp
next
  case (Cons x xs)
  then obtain m where n: "n = Suc m" by (cases n) auto
  let ?t = "ported (answer buf s x) s" let ?u = "drive_step args l i ?t"
  have t: "engaged False i (stored_at bs p buf k) p 1 (2 * int k) ?t" using Cons.prems by simp
  have d: "sd_buff_din ?t ! i = buf (of_nat k)"
    using Cons.prems(2,7) n by (simp add: answer_def)
  have u: "engaged False i (stored_at bs p buf (Suc k)) p 1 (2 * int (Suc k)) ?u"
    "sd_buff_addr ?u = (if k < 255 then of_nat (Suc k) else 0)" "sd_buff_wr ?u = sd_buff_wr s"
    using step_store [of i bs p buf k ?t args l] t d Cons.prems(2-6) n by auto
  have c: "blk_call args l (answer buf s x) s = ?u"
    by (rule blk_call_engaged [OF Cons.prems(1,2) _ u(1)]) (use Cons.prems in simp)
  have "engaged False i (stored_at bs p buf (Suc k + m)) p 1 (2 * int (Suc k + m)) (blk_run_core buf args l xs ?u) \<and>
    sd_buff_wr (blk_run_core buf args l xs ?u) = sd_buff_wr ?u"
    using Cons.prems n u by (intro Cons.IH) auto
  with u(3) show ?case by (simp add: c n)
qed


lemma write_sector_run:
  assumes "blk_idle s" "sd_buff_wr s = 0" "i < kVDNUM" "length (disk s) = kVDNUM" "disk s ! i = Some f" "st_writable f"
    and "awake x" "requests_only i x" "\<not> bitcheck (in_rd x) i" "bitcheck (in_wr x) i"
    and "sint (in_lba x ! i) = lba" "0 \<le> lba" "(lba + 1) * 512 \<le> int (length (st_bytes f))"
    and "2 \<le> l" "list_all awake xs" "int (length xs) = l + 254" "awake z" "in_rd z = 0" "in_wr z = 0"
    and "args ''ignore_scsi_writes'' = None"
  shows "blk_idle (blk_run_core buf args l (x # xs @ [z]) s) \<and>
    sd_buff_wr (blk_run_core buf args l (x # xs @ [z]) s) = 0 \<and>
    length (disk (blk_run_core buf args l (x # xs @ [z]) s)) = kVDNUM \<and>
    map_option st_bytes (disk (blk_run_core buf args l (x # xs @ [z]) s) ! i) =
      Some (stored_at (st_bytes f) (lba * 512) buf 256)"
proof -
  let ?bs = "st_bytes f" and ?p = "lba * kBLKSZ"
  obtain k where "l - 2 = int k" using assms(14) zero_le_imp_eq_int [of "l - 2"] by auto
  then have k: "l - 1 = int (Suc k)" by simp
  have p: "0 \<le> ?p" "?p + kBLKSZ \<le> int (length ?bs)" using assms(12,13) by (simp_all add: kBLKSZ_def algebra_simps)
  define as bs where "as = take k xs" and "bs = drop k xs"
  have xs: "xs = as @ bs" "length as = k" "length bs = 256" "list_all awake as" "list_all awake bs"
    using assms(15,16) k append_take_drop_id [of k xs]
    by (auto simp: as_def bs_def list_all_iff dest: in_set_takeD in_set_dropD)
  let ?x = "answer buf s x"
  let ?s1 = "blk_call args l ?x s"
  have r: "requests_only i ?x" "bitcheck (in_wr ?x) i" "\<not> bitcheck (in_rd ?x) i" "in_lba ?x = in_lba x"
    using assms by (simp_all add: requests_only_def answer_def)
  have s1: "engaged False i ?bs ?p (int (Suc k)) 0 ?s1" "sd_buff_wr ?s1 = 0" "sd_buff_addr ?s1 = 0"
    using start_transfer [of s i ?x False l lba f args] r assms k by auto
  let ?s2 = "blk_run_core buf args l as ?s1"
  have s2: "engaged False i ?bs ?p 1 0 ?s2" "sd_buff_wr ?s2 = 0" "sd_buff_addr ?s2 = 0"
    using core_delay [OF s1(1) assms(3) xs(4,2) s1(2), of buf args l] s1 by simp_all
  have b0: "?bs = stored_at ?bs ?p buf 0" by (simp add: stored_at_def stored_def)
  then have s2': "engaged False i (stored_at ?bs ?p buf 0) ?p 1 (2 * int 0) ?s2" using s2(1) by simp
  let ?s3 = "blk_run_core buf args l bs ?s2"
  have s3: "engaged False i (stored_at ?bs ?p buf (0 + 256)) ?p 1 (2 * int (0 + 256)) ?s3 \<and>
    sd_buff_wr ?s3 = sd_buff_wr ?s2"
    using core_store [of i ?bs ?p buf 0 ?s2 256 args bs l] s2' assms(3,20) p xs(5,3) s2 by simp
  then have s3': "engaged False i (stored_at ?bs ?p buf 256) ?p 1 kBLKSZ ?s3" by (simp add: kBLKSZ_def)
  let ?t = "ported (answer buf ?s3 z) ?s3" let ?w = "drive_step args l i ?t"
  have t: "engaged False i (stored_at ?bs ?p buf 256) ?p 1 kBLKSZ ?t" using s3' by simp
  have z: "sd_rd ?t = 0" "sd_wr ?t = 0" using assms(18,19) by (simp_all add: answer_def)
  have w: "blk_idle ?w" "sd_rd ?w = 0" "sd_wr ?w = 0" "sd_buff_wr ?w = 0" "disk ?w = disk ?s3"
    using step_flush [OF t z assms(3), of args l] s3 s2 by simp_all
  have c: "blk_call args l (answer buf ?s3 z) ?s3 = ?w"
    using engaged_busy [OF t] w assms(3,17) by (intro blk_call_last) simp_all
  have "blk_run_core buf args l (x # xs @ [z]) s = ?w"
    using c by (simp add: xs(1) blk_run_core_append)
  moreover have "length (disk ?s3) = kVDNUM" "map_option st_bytes (disk ?s3 ! i) = Some (stored_at ?bs ?p buf 256)"
    using s3' by (auto simp: engaged_def)
  ultimately show ?thesis using w by (simp add: kBLKSZ_def)
qed

section \<open>What no call ever changes\<close>

definition images :: "blkdev \<Rightarrow> u8 list option list" where
  "images s = map (map_option st_bytes) (disk s)"

lemma bytes_get: "map_option st_bytes (snd (st_get d)) = map_option st_bytes d"
  by (auto simp: st_get_def split: option.splits)

lemma bytes_seek: "map_option st_bytes (st_seek p d) = map_option st_bytes d"
  by (cases d) (auto simp: st_seek_def)

lemma bytes_clear: "map_option st_bytes (st_clear d) = map_option st_bytes d"
  by (cases d) (auto simp: st_clear_def)

lemma map_update_same: "f v = f (xs ! i) \<Longrightarrow> map f (xs[i := v]) = map f xs"
  by (cases "i < length xs") (simp_all add: map_update list_update_same_conv list_update_beyond)

lemma images_update:
  "disk s' = (disk s)[i := d] \<Longrightarrow> map_option st_bytes d = map_option st_bytes (disk s ! i) \<Longrightarrow> images s' = images s"
  by (simp add: images_def map_update_same)

lemma images_serve:
  assumes "args ''ignore_scsi_writes'' \<noteq> None"
  shows "images (serve args i s) = images s"
proof -
  obtain b1 d1 where 1: "st_get (disk s ! i) = (b1, d1)" by fastforce
  obtain b2 d2 where 2: "st_get d1 = (b2, d2)" by fastforce
  have "map_option st_bytes d2 = map_option st_bytes (disk s ! i)"
    using bytes_get [of "disk s ! i"] bytes_get [of d1] 1 2 by simp
  then show ?thesis
    using assms by (auto simp: serve_def images_def Let_def 1 2 map_update_same)
qed

lemma images_drive_step:
  assumes "args ''ignore_scsi_writes'' \<noteq> None"
  shows "images (drive_step args l i s) = images s"
proof -
  have "images (mount_or_wait i x) = images x" for x
    by (auto simp: mount_or_wait_def images_def map_update_same bytes_seek)
  moreover have "images (accept l i x) = images x" for x
    by (auto simp: accept_def images_def Let_def map_update_same bytes_seek bytes_clear)
  moreover have "images (acknowledge i x) = images x" for x
    by (auto simp: acknowledge_def images_def Let_def)
  ultimately show ?thesis using images_serve [of args i s, OF assms] by (simp add: drive_step_def)
qed

section \<open>Announcing an image\<close>

definition announcing :: "nat \<Rightarrow> int \<Rightarrow> blkdev \<Rightarrow> bool" where
  "announcing i d s \<longleftrightarrow> current_disk s = -1 \<and> \<not> reading s \<and> \<not> writing s \<and> ack_delay s = d \<and>
     img_mounted s = bitset 0 i \<and> sd_rd s = 0 \<and> sd_wr s = 0 \<and> (\<forall>j<kVDNUM. \<not> mountQueue s ! j)"

lemma bitset_0_nonzero: "i < 8 \<Longrightarrow> bitset 0 i \<noteq> 0"
  by (metis bitcheck_0 bitcheck_bitset)

lemma announcing_step:
  assumes "announcing i d s" "1 < d" "i < 8" "j < kVDNUM"
  shows "announcing i (d - 1) (drive_step args l j s) \<and> img_size (drive_step args l j s) = img_size s"
proof -
  have "mount_or_wait j s = s\<lparr>ack_delay := d - 1\<rparr>"
    using assms bitset_0_nonzero [of i] by (simp add: announcing_def mount_or_wait_def)
  then have "drive_step args l j s = s\<lparr>ack_delay := d - 1\<rparr>"
    using assms(1) by (simp add: announcing_def drive_step_def serve_def accept_def acknowledge_def)
  then show ?thesis using assms(1) by (simp add: announcing_def)
qed

lemma announcing_steps:
  assumes "announcing i d s" "int (length js) < d" "i < 8" "\<forall>j\<in>set js. j < kVDNUM"
  shows "announcing i (d - int (length js)) (fold (drive_step args l) js s) \<and>
    img_size (fold (drive_step args l) js s) = img_size s"
  using assms
proof (induction js arbitrary: s d)
  case Nil
  then show ?case by simp
next
  case (Cons j js)
  have a: "announcing i (d - 1) (drive_step args l j s)" "img_size (drive_step args l j s) = img_size s"
    using announcing_step [OF Cons.prems(1) _ Cons.prems(3), of j args l] Cons.prems by auto
  show ?case using Cons.IH [OF a(1)] Cons.prems a(2) by (simp add: algebra_simps)
qed

definition quiet :: "blk_in \<Rightarrow> bool" where
  "quiet x \<longleftrightarrow> 2000 \<le> in_cycles x \<and> in_rd x = 0 \<and> in_wr x = 0"

lemma quiet_call:
  assumes "quiet x" "announcing i d s"
  shows "blk_call args l x s = fold (drive_step args l) [0..<kVDNUM] (ported x s) \<and> announcing i d (ported x s)"
  using assms by (simp add: quiet_def blk_call_def blk_BeforeEval_def announcing_def ported_def)

lemma announcing_calls:
  assumes "announcing i d s" "10 * int (length xs) < d" "i < 8" "list_all quiet xs"
  shows "announcing i (d - 10 * int (length xs)) (fst (blk_run args l xs s)) \<and>
    img_size (fst (blk_run args l xs s)) = img_size s"
  using assms
proof (induction xs arbitrary: s d)
  case Nil
  then show ?case by simp
next
  case (Cons x xs)
  have q: "blk_call args l x s = fold (drive_step args l) [0..<kVDNUM] (ported x s)" "announcing i d (ported x s)"
    using quiet_call [of x i d s args l] Cons.prems by auto
  have a: "announcing i (d - 10) (blk_call args l x s)" "img_size (blk_call args l x s) = img_size s"
    using announcing_steps [OF q(2), of "[0..<kVDNUM]" args l] Cons.prems(2,3) q(1)
    by (simp_all add: kVDNUM_def ported_def)
  show ?case
    using Cons.IH [OF a(1)] Cons.prems a(2) by (simp add: case_prod_beta Let_def algebra_simps)
qed

text \<open>The call in which the queued image is announced, and the call that ends the announcement.\<close>

definition mount_pending :: "nat \<Rightarrow> blkdev \<Rightarrow> bool" where
  "mount_pending i s \<longleftrightarrow> current_disk s = -1 \<and> \<not> reading s \<and> \<not> writing s \<and> ack_delay s = 0 \<and>
     img_mounted s = 0 \<and> length (mountQueue s) = kVDNUM \<and> (\<forall>j<kVDNUM. mountQueue s ! j \<longleftrightarrow> j = i)"

lemma upt_drives: "i < kVDNUM \<Longrightarrow> [0..<kVDNUM] = [0..<i] @ i # [Suc i..<kVDNUM]"
  using upt_append [of 0 i kVDNUM] by (simp add: upt_conv_Cons)

lemma announce_call:
  assumes "mount_pending i s" "quiet x" "i < 8"
  shows "announcing i (1200 - (9 - int i)) (blk_call args l x s) \<and>
    img_size (blk_call args l x s) = word_of_int (disk_size s ! i)"
proof -
  have i: "i < kVDNUM" using assms(3) by (simp add: kVDNUM_def)
  let ?t = "ported x s"
  have t: "mount_pending i ?t" "sd_rd ?t = 0" "sd_wr ?t = 0" "disk_size ?t = disk_size s"
    using assms by (simp_all add: mount_pending_def quiet_def ported_def)
  have low: "drive_step args l j ?t = ?t" if "j < i" for j
    using t that i by (simp add: mount_pending_def drive_step_def serve_def mount_or_wait_def accept_def acknowledge_def)
  then have 1: "fold (drive_step args l) [0..<i] ?t = ?t" by (intro fold_fixed) simp
  let ?u = "drive_step args l i ?t"
  have "mount_or_wait i ?t = ?t\<lparr>mountQueue := (mountQueue ?t)[i := False], img_size := word_of_int (disk_size ?t ! i),
             img_readonly := map_option (\<lambda>_. 1) (img_readonly ?t),
             disk := (disk ?t)[i := st_seek 0 (disk ?t ! i)],
             img_mounted := bitset 0 i, ack_delay := 1200\<rparr>" (is "_ = ?v")
    using t i by (simp add: mount_pending_def mount_or_wait_def)
  moreover have "serve args i ?t = ?t" using t by (simp add: mount_pending_def serve_def)
  moreover have "accept l i ?v = ?v" "acknowledge i ?v = ?v"
    using t by (simp_all add: mount_pending_def accept_def acknowledge_def)
  ultimately have u: "?u = ?v" by (simp add: drive_step_def)
  have "(mountQueue ?t)[i := False] ! j \<longleftrightarrow> False" if "j < kVDNUM" for j
    using t(1) that by (cases "j = i") (simp_all add: mount_pending_def)
  then have a: "announcing i 1200 ?u"
    unfolding u announcing_def using t by (simp add: mount_pending_def)
  have "blk_call args l x s = fold (drive_step args l) [Suc i..<kVDNUM] ?u"
    unfolding blk_call_def blk_BeforeEval_def ported_def [symmetric] upt_drives [OF i]
    using assms(2) 1 by (simp add: quiet_def)
  moreover have "int (length [Suc i..<kVDNUM]) = 9 - int i" using assms(3) by (simp add: kVDNUM_def)
  ultimately show ?thesis
    using announcing_steps [OF a _ assms(3), of "[Suc i..<kVDNUM]" args l] u t(4) assms(3)
    by (simp add: kVDNUM_def)
qed

lemma announce_end:
  assumes "announcing i (1 + int i) s" "quiet x" "i < 8"
  shows "blk_idle (blk_call args l x s) \<and> img_mounted (blk_call args l x s) = 0"
proof -
  have i: "i < kVDNUM" using assms(3) by (simp add: kVDNUM_def)
  let ?t = "ported x s"
  have q: "blk_call args l x s = fold (drive_step args l) [0..<kVDNUM] ?t" "announcing i (1 + int i) ?t"
    using quiet_call [OF assms(2,1), of args l] by auto
  let ?u = "fold (drive_step args l) [0..<i] ?t"
  have u: "announcing i 1 ?u"
    using announcing_steps [OF q(2), of "[0..<i]" args l] assms(3) by (simp add: kVDNUM_def)
  have z: "bitclear (bitset 0 i) i = 0" by simp
  let ?v = "drive_step args l i ?u"
  have "mount_or_wait i ?u = ?u\<lparr>img_mounted := 0\<rparr>" (is "_ = ?v1")
    using u i assms(3) by (simp add: announcing_def mount_or_wait_def)
  moreover have "serve args i ?u = ?u" using u by (simp add: announcing_def serve_def)
  moreover have "accept l i ?v1 = ?v1" "acknowledge i ?v1 = ?v1"
    using u by (simp_all add: announcing_def accept_def acknowledge_def)
  ultimately have v: "?v = ?v1" by (simp add: drive_step_def)
  define P where "P w \<longleftrightarrow> current_disk w = -1 \<and> \<not> reading w \<and> \<not> writing w \<and> mounts_done w \<and> sd_rd w = 0 \<and> sd_wr w = 0" for w
  have P: "P ?v" unfolding v P_def mounts_done_def using u by (simp add: announcing_def)
  have step: "drive_step args l j w = (if 0 < ack_delay w then w\<lparr>ack_delay := ack_delay w - 1\<rparr> else w)"
    if "P w" "j < kVDNUM" for j w
    using that by (simp add: P_def mounts_done_def drive_step_def serve_def mount_or_wait_def accept_def acknowledge_def)
  have fin: "P (fold (drive_step args l) js w) \<and> ack_delay (fold (drive_step args l) js w) = 0"
    if "P w" "0 \<le> ack_delay w" "ack_delay w \<le> int (length js)" "\<forall>j\<in>set js. j < kVDNUM" for js w
    using that
  proof (induction js arbitrary: w)
    case Nil
    then show ?case by simp
  next
    case (Cons j js)
    then have "P (drive_step args l j w)" by (simp add: step) (simp add: P_def mounts_done_def)
    with Cons show ?case by (simp add: step)
  qed
  have "ack_delay ?v = 1" using v u by (simp add: announcing_def)
  then have "P (fold (drive_step args l) [Suc i..<kVDNUM] ?v) \<and> ack_delay (fold (drive_step args l) [Suc i..<kVDNUM] ?v) = 0"
    using P assms(3) by (intro fin) (simp_all add: kVDNUM_def)
  then show ?thesis
    unfolding q(1) upt_drives [OF i] by (simp add: P_def blk_idle_def mounts_done_def)
qed


section \<open>Properties\<close>





text \<open>C11: No write ever reaches an image. The test of the plusarg is for a null pointer, which the
  Verilator run-time never returns: whatever the command line, the ports and the state, a call
  leaves the bytes of every image as they were.\<close>

theorem images_never_written:
  "images (blk_BeforeEval (commandArgsPlusMatch argv) latency cycles s) = images s"
proof -
  have "images (fold (drive_step (commandArgsPlusMatch argv) latency) js t) = images t" for js t
    by (induction js arbitrary: t) (simp_all add: images_drive_step commandArgsPlusMatch_def)
  then show ?thesis by (simp add: blk_BeforeEval_def)
qed

text \<open>Announcing an image. A disk mounted on the idle device (drive below 8, no requests) is
  announced by the first call: its mounted bit is up and \<open>img_size\<close> is the file's length for
  exactly 120 calls; the 121st takes the bit down and leaves the device idle.\<close>

theorem mount_announced:
  assumes "mount_pending i s" "i < 8" "list_all quiet (x # xs)" "length xs \<le> 120"
  shows "if length xs < 120
    then img_mounted (fst (blk_run args l (x # xs) s)) = bitset 0 i \<and>
      img_size (fst (blk_run args l (x # xs) s)) = word_of_int (disk_size s ! i)
    else img_mounted (fst (blk_run args l (x # xs) s)) = 0 \<and> blk_idle (fst (blk_run args l (x # xs) s))"
proof -
  let ?s1 = "blk_call args l x s"
  have s1: "announcing i (1200 - (9 - int i)) ?s1" "img_size ?s1 = word_of_int (disk_size s ! i)"
    using announce_call [OF assms(1) _ assms(2), of x args l] assms(3) by simp_all
  have run: "fst (blk_run args l (x # ys) s) = fst (blk_run args l ys ?s1)" for ys
    by (simp add: Let_def case_prod_beta)
  show ?thesis
  proof (cases "length xs < 120")
    case True
    then show ?thesis
      using announcing_calls [OF s1(1) _ assms(2), of xs args l] assms(3) s1(2) run
      by (simp add: announcing_def)
  next
    case False
    then obtain ys y where xs: "xs = ys @ [y]" "length ys = 119" using assms(4)
      by (cases xs rule: rev_cases) auto
    have "announcing i (1 + int i) (fst (blk_run args l ys ?s1))"
      using announcing_calls [OF s1(1) _ assms(2), of ys args l] assms(3) xs by (simp add: algebra_simps)
    moreover have "fst (blk_run args l xs ?s1) = blk_call args l y (fst (blk_run args l ys ?s1))"
      by (simp add: xs blk_run_append Let_def case_prod_beta)
    ultimately show ?thesis
      using announce_end [of i "fst (blk_run args l ys ?s1)" y args l] assms(2,3) False run xs by simp
  qed
qed

theorem mount_announced_witness:
  "\<exists>s. MountDisk (\<lambda>_. Some ([1, 2, 3, 4], True)) ''hd.img'' 1 SimBlockDevice_init = Some s \<and>
     img_mounted (fst (blk_run (commandArgsPlusMatch []) 16000
       [\<lparr>in_cycles = 2000, in_rd = 0, in_wr = 0, in_lba = [], in_din = []\<rparr>] s)) = 2"
  using mount_announced [of 1 "the (MountDisk (\<lambda>_. Some ([1, 2, 3, 4], True)) ''hd.img'' 1 SimBlockDevice_init)"
      "\<lparr>in_cycles = 2000, in_rd = 0, in_wr = 0, in_lba = [], in_din = []\<rparr>" "[]" "commandArgsPlusMatch []" 16000]
  by (simp add: MountDisk_def SimBlockDevice_init_def mount_pending_def kVDNUM_def nth_list_update quiet_def
      less_Suc_eq numeral_eq_Suc bitset_def)

end
