(* ===== verification/KeyInput.thy ===== *)
theory KeyInput
  imports Prelude
begin

text \<open>
  Keyboard and button input of \<open>verilator/sim/sim_input.h\<close> and \<open>sim_input.cpp\<close> (\<open>SimInput\<close>):
  the scan code tables, the polling of the key states, which queues an event for every key that
  changed, and the paced delivery of the events on the \<open>ps2_key\<close> port. Both builds of the file are
  modelled: the SDL one and the DirectInput one. The key states are what SDL or DirectInput
  returned, an argument of the reads. A read outside a table or a state array is undefined in C++
  and is \<open>None\<close> here.
\<close>

section \<open>Scan code tables\<close>

definition KEY_NONE :: u32 where "KEY_NONE = 0xFF"
definition KEY_EXT :: u32 where "KEY_EXT = 0x080000"
definition KEY_EMU_SWITCH_1 :: u32 where "KEY_EMU_SWITCH_1 = 0x100000"
definition KEY_EMU_SWITCH_2 :: u32 where "KEY_EMU_SWITCH_2 = 0x200000"

lemmas key_flags = KEY_NONE_def KEY_EXT_def KEY_EMU_SWITCH_1_def KEY_EMU_SWITCH_2_def

definition ev2ps2_dinput_lo :: "u32 list" where
  "ev2ps2_dinput_lo =
     [KEY_NONE, 0x76, 0x16, 0x1e, 0x26, 0x25, 0x2e, 0x36, 0x3d, 0x3e, 0x46, 0x45, 0x4e, 0x55,
       0x66, 0x0d, 0x15, 0x1d, 0x24, 0x2d, 0x2c, 0x35, 0x3c, 0x43, 0x44, 0x4d, 0x54, 0x5b, 0x5a,
       0x14, 0x1c, 0x1b, 0x23, 0x2b, 0x34, 0x33, 0x3b, 0x42, 0x4b, 0x4c, 0x52, 0x0e, 0x12, 0x5d,
       0x1a, 0x22, 0x21, 0x2a, 0x32, 0x31, 0x3a, 0x41, 0x49, 0x4a, 0x59, 0x7c, 0x11, 0x29, 0x58,
       0x05, 0x06, 0x04, 0x0c, 0x03, 0x0b, 0x83, 0x0a, 0x01, 0x09, KEY_EMU_SWITCH_2 OR 0x77,
       KEY_EMU_SWITCH_1 OR 0x7E, 0x6c, 0x75, 0x7d, 0x7b, 0x6b, 0x73, 0x74, 0x79, 0x69, 0x72,
       0x7a, 0x70, 0x71, KEY_NONE, KEY_NONE, 0x61, 0x78, 0x07] @
     replicate 7 KEY_NONE @
     [KEY_EXT OR 0x5a, KEY_EXT OR 0x14, KEY_EXT OR 0x4a, 0xE2, KEY_EXT OR 0x11, KEY_NONE,
       KEY_EXT OR 0x6c, KEY_EXT OR 0x75, KEY_EXT OR 0x7d, KEY_EXT OR 0x6b, KEY_EXT OR 0x74,
       KEY_EXT OR 0x69, KEY_EXT OR 0x72, KEY_EXT OR 0x7a, KEY_EXT OR 0x70, KEY_EXT OR 0x71] @
     replicate 7 KEY_NONE @
     [0xE1] @
     replicate 5 KEY_NONE @
     [KEY_EXT OR 0x1f, KEY_EXT OR 0x27, KEY_NONE]"

definition ev2ps2_dinput_hi :: "u32 list" where
  "ev2ps2_dinput_hi =
     replicate 59 KEY_NONE @
     [KEY_EMU_SWITCH_1 OR 1, KEY_EMU_SWITCH_1 OR 2, KEY_EMU_SWITCH_1 OR 3,
       KEY_EMU_SWITCH_1 OR 4, KEY_NONE, KEY_NONE, KEY_NONE, 0x5D] @
     replicate 5 KEY_NONE @
     [KEY_EXT OR 0x75, KEY_NONE, KEY_NONE, KEY_EXT OR 0x6b, KEY_NONE, KEY_EXT OR 0x74, KEY_NONE,
       KEY_NONE, KEY_EXT OR 0x72] @
     replicate 47 KEY_NONE"

definition ev2ps2_sdl_lo :: "u32 list" where
  "ev2ps2_sdl_lo =
     [KEY_NONE, KEY_NONE, KEY_NONE, KEY_NONE, 0x1c, 0x32, 0x21, 0x23, 0x24, 0x2b, 0x34, 0x33,
       0x43, 0x3b, 0x42, 0x4b, 0x3a, 0x31, 0x44, 0x4d, 0x15, 0x2d, 0x1b, 0x2c, 0x3c, 0x2a, 0x1d,
       0x22, 0x35, 0x1a, 0x16, 0x1e, 0x26, 0x25, 0x2e, 0x36, 0x3d, 0x3e, 0x46, 0x45, 0x5a, 0x76,
       0x66, 0x0d, 0x29, 0x4e, 0x55, 0x54, 0x5b, 0x5d, KEY_NONE, 0x4c, 0x52, 0x0e, 0x41, 0x49,
       0x4a, 0x58, 0x05, 0x06, 0x04, 0x0c, 0x03, 0x0b, 0x83, 0x0a, 0x01, 0x09, 0x78, 0x07,
       KEY_NONE, KEY_EMU_SWITCH_1 OR 0x7E, 0xE1, KEY_EXT OR 0x70, KEY_EXT OR 0x6c,
       KEY_EXT OR 0x7d, KEY_EXT OR 0x71, KEY_EXT OR 0x69, KEY_EXT OR 0x7a, KEY_EXT OR 0x74,
       KEY_EXT OR 0x6b, KEY_EXT OR 0x72, KEY_EXT OR 0x75, KEY_EMU_SWITCH_2 OR 0x77,
       KEY_EXT OR 0x4a, 0x7c, 0x7b, 0x79, KEY_EXT OR 0x5a, 0x69, 0x72, 0x7a, 0x6b, 0x73, 0x74,
       0x6c, 0x75, 0x7d, 0x70, 0x71] @
     replicate 8 KEY_NONE @
     [KEY_EMU_SWITCH_1 OR 1, KEY_EMU_SWITCH_1 OR 2, KEY_EMU_SWITCH_1 OR 3,
       KEY_EMU_SWITCH_1 OR 4, KEY_NONE, KEY_NONE, KEY_NONE, KEY_NONE]"

definition ev2ps2_sdl_hi :: "u32 list" where
  "ev2ps2_sdl_hi =
     replicate 109 KEY_NONE @
     [0x12, 0x11, KEY_NONE, KEY_EXT OR 0x14, 0x59, KEY_EXT OR 0x11]"

definition ev2ps2_dinput :: "u32 list" where
  "ev2ps2_dinput = ev2ps2_dinput_lo @ ev2ps2_dinput_hi"

definition ev2ps2_sdl :: "u32 list" where
  "ev2ps2_sdl = ev2ps2_sdl_lo @ ev2ps2_sdl_hi"

lemmas sdl_table = ev2ps2_sdl_def ev2ps2_sdl_lo_def ev2ps2_sdl_hi_def key_flags
lemmas dinput_table = ev2ps2_dinput_def ev2ps2_dinput_lo_def ev2ps2_dinput_hi_def key_flags

lemma length_sdl_table [simp]: "length ev2ps2_sdl = 231"
  by (simp add: sdl_table)

lemma length_dinput_table [simp]: "length ev2ps2_dinput = 256"
  by (simp add: dinput_table)

text \<open>No entry uses bit 8, so the word sent for a key carries its extended flag only if
  \<open>BeforeEval\<close> sets it.\<close>

lemma sdl_table_bit8: "list_all (\<lambda>v. \<not> bit v 8 \<and> \<not> bit v 9 \<and> \<not> bit v 10) ev2ps2_sdl"
  by (simp add: sdl_table bit_or_iff list_all_iff)

lemma dinput_table_bit8: "list_all (\<lambda>v. \<not> bit v 8 \<and> \<not> bit v 9 \<and> \<not> bit v 10) ev2ps2_dinput"
  by (simp add: dinput_table bit_or_iff list_all_iff)

section \<open>State\<close>

record key_event =
  ke_code :: s8
  ke_pressed :: bool
  ke_extended :: bool
  ke_mapped :: u32

record sim_input =
  inputCount :: nat
  inputs :: "bool list"
  mappings :: "int list"
  ps2_key :: u16
  keyEvents :: "key_event list"
  keyEventTimer :: u32
  keyEventWait :: u32
  m_keyboardState_last :: "u8 list option"
  ps2_key_temp :: u32
  ps2_clock :: bool

definition SimInput_init :: "nat \<Rightarrow> bool list \<Rightarrow> int list \<Rightarrow> sim_input" where
  "SimInput_init count any_inputs any_mappings =
     \<lparr>inputCount = count, inputs = any_inputs, mappings = any_mappings, ps2_key = 0, keyEvents = [],
      keyEventTimer = 0, keyEventWait = 50000, m_keyboardState_last = None, ps2_key_temp = 0,
      ps2_clock = True\<rparr>"

section \<open>Polling\<close>

definition SetMapping :: "nat \<Rightarrow> int \<Rightarrow> sim_input \<Rightarrow> sim_input option" where
  "SetMapping index code s =
     (if index < length (mappings s)
      then Some (s\<lparr>mappings := (mappings s)[index := (if code < 256 then code else 0)]\<rparr>) else None)"

definition elem_at :: "'a list \<Rightarrow> int \<Rightarrow> 'a option" where
  "elem_at xs i = (if 0 \<le> i \<and> i < int (length xs) then Some (xs ! nat i) else None)"

text \<open>\<open>for (i < inputCount) inputs[i] = m_keyboardState[mappings[i]];\<close> with the test of each build.\<close>

fun collect_inputs :: "(u8 \<Rightarrow> bool) \<Rightarrow> u8 list \<Rightarrow> nat list \<Rightarrow> sim_input \<Rightarrow> sim_input option" where
  "collect_inputs down state [] s = Some s"
| "collect_inputs down state (i # is) s =
     (case elem_at (mappings s) (int i) of
        None \<Rightarrow> None
      | Some m \<Rightarrow>
          (case elem_at state m of
             None \<Rightarrow> None
           | Some v \<Rightarrow>
               (if i < length (inputs s)
                then collect_inputs down state is (s\<lparr>inputs := (inputs s)[i := down v]\<rparr>) else None)))"

text \<open>\<open>ReadKeyboard\<close> of the SDL build allocates the zeroed copy on the first call.\<close>

definition ReadKeyboard :: "u8 list \<Rightarrow> sim_input \<Rightarrow> sim_input" where
  "ReadKeyboard state s =
     (case m_keyboardState_last s of
        None \<Rightarrow> s\<lparr>m_keyboardState_last := Some (replicate (length state) 0)\<rparr>
      | Some _ \<Rightarrow> s)"

text \<open>The scan of one build: \<open>table\<close> gives the code of a key, \<open>ext\<close> its extended flag.\<close>

fun scan_keys :: "u32 list \<Rightarrow> (u32 \<Rightarrow> bool) \<Rightarrow> u8 list \<Rightarrow> nat list \<Rightarrow> u8 list \<Rightarrow> (key_event list \<times> u8 list) option" where
  "scan_keys table ext state [] prev = Some ([], prev)"
| "scan_keys table ext state (k # ks) prev =
     (case (elem_at prev (int k), elem_at state (int k)) of
        (Some old, Some new) \<Rightarrow>
          (if old \<noteq> new
           then
             (case elem_at table (int k) of
                None \<Rightarrow> None
              | Some v \<Rightarrow>
                  map_option (map_prod ((#) \<lparr>ke_code = of_nat k, ke_pressed = (new \<noteq> 0), ke_extended = ext v, ke_mapped = v\<rparr>) id)
                    (scan_keys table ext state ks (prev[k := new])))
           else scan_keys table ext state ks (prev[k := new]))
      | _ \<Rightarrow> None)"

definition Read_SDL :: "u8 list \<Rightarrow> sim_input \<Rightarrow> sim_input option" where
  "Read_SDL state s =
     (let s = ReadKeyboard state s
      in case collect_inputs (\<lambda>v. v \<noteq> 0) state [0..<inputCount s] s of
           None \<Rightarrow> None
         | Some s \<Rightarrow>
             (case m_keyboardState_last s of
                None \<Rightarrow> None
              | Some prev \<Rightarrow>
                  (case scan_keys ev2ps2_sdl (\<lambda>_. False) state [0..<length state] prev of
                     None \<Rightarrow> None
                   | Some (evs, prev) \<Rightarrow>
                       Some (s\<lparr>keyEvents := keyEvents s @ evs, m_keyboardState_last := Some prev\<rparr>))))"

text \<open>The DirectInput build has static arrays of 256 states and scans the first 220.\<close>

definition Read_DInput :: "u8 list \<Rightarrow> sim_input \<Rightarrow> sim_input option" where
  "Read_DInput state s =
     (case collect_inputs (\<lambda>v. v AND 0x80 \<noteq> 0) state [0..<inputCount s] s of
        None \<Rightarrow> None
      | Some s \<Rightarrow>
          (let prev = (case m_keyboardState_last s of None \<Rightarrow> replicate 256 0 | Some l \<Rightarrow> l)
           in case scan_keys ev2ps2_dinput (\<lambda>v. v AND KEY_EXT \<noteq> 0) state [0..<220] prev of
                None \<Rightarrow> None
              | Some (evs, prev) \<Rightarrow>
                  Some (s\<lparr>keyEvents := keyEvents s @ evs, m_keyboardState_last := Some prev\<rparr>)))"

section \<open>Delivery\<close>

definition event_word :: "bool \<Rightarrow> key_event \<Rightarrow> u32" where
  "event_word clock evt =
     (let t = ke_mapped evt;
          t = (if ke_extended evt then t OR push_bit 8 1 else t);
          t = (if ke_pressed evt then t OR push_bit 9 1 else t);
          t = (if clock then t OR push_bit 10 1 else t)
      in t)"

definition input_BeforeEval :: "sim_input \<Rightarrow> sim_input" where
  "input_BeforeEval s =
     (if keyEventTimer s = 0
      then
        (case keyEvents s of
           [] \<Rightarrow> s
         | evt # rest \<Rightarrow>
             (let t = event_word (ps2_clock s) evt
              in s\<lparr>keyEvents := rest, ps2_key_temp := t, ps2_clock := \<not> ps2_clock s,
                   ps2_key := ucast t, keyEventTimer := keyEventWait s\<rparr>))
      else s\<lparr>keyEventTimer := keyEventTimer s - 1\<rparr>)"

section \<open>The scan reports the changed keys\<close>

definition key_changed :: "u8 list \<Rightarrow> u8 list \<Rightarrow> nat \<Rightarrow> bool" where
  "key_changed prev state k \<longleftrightarrow> prev ! k \<noteq> state ! k"

definition change_event :: "u32 list \<Rightarrow> (u32 \<Rightarrow> bool) \<Rightarrow> u8 list \<Rightarrow> nat \<Rightarrow> key_event" where
  "change_event table ext state k =
     \<lparr>ke_code = of_nat k, ke_pressed = (state ! k \<noteq> 0), ke_extended = ext (table ! k), ke_mapped = table ! k\<rparr>"

lemma scan_range:
  assumes "a \<le> b" "b \<le> length state" "b \<le> length prev"
  shows "scan_keys table ext state [a..<b] prev =
    (if \<forall>k\<in>set [a..<b]. key_changed prev state k \<longrightarrow> k < length table
     then Some (map (change_event table ext state) (filter (key_changed prev state) [a..<b]),
                take a prev @ take (b - a) (drop a state) @ drop b prev)
     else None)"
  using assms
proof (induction "b - a" arbitrary: a prev)
  case 0
  then show ?case by simp
next
  case (Suc n)
  then have ab: "a < b" by simp
  then have u: "[a..<b] = a # [Suc a..<b]" by (simp add: upt_conv_Cons)
  have here: "elem_at prev (int a) = Some (prev ! a)" "elem_at state (int a) = Some (state ! a)"
    using ab Suc.prems by (simp_all add: elem_at_def)
  let ?prev = "prev[a := state ! a]"
  have ih: "scan_keys table ext state [Suc a..<b] ?prev =
    (if \<forall>k\<in>set [Suc a..<b]. key_changed ?prev state k \<longrightarrow> k < length table
     then Some (map (change_event table ext state) (filter (key_changed ?prev state) [Suc a..<b]),
                take (Suc a) ?prev @ take (b - Suc a) (drop (Suc a) state) @ drop b ?prev)
     else None)"
    using Suc ab by (intro Suc.hyps) simp_all
  have kc: "key_changed ?prev state k = key_changed prev state k" if "k \<in> set [Suc a..<b]" for k
    using that by (simp add: key_changed_def)
  have f: "filter (key_changed ?prev state) [Suc a..<b] = filter (key_changed prev state) [Suc a..<b]"
    using kc by (intro filter_cong) simp_all
  have l: "take (Suc a) ?prev @ take (b - Suc a) (drop (Suc a) state) @ drop b ?prev =
      take a prev @ take (b - a) (drop a state) @ drop b prev"
  proof -
    have "take (b - a) (drop a state) = state ! a # take (b - Suc a) (drop (Suc a) state)"
      using ab Suc.prems by (simp add: take_Cons' flip: Cons_nth_drop_Suc)
    moreover have "take (Suc a) ?prev = take a prev @ [state ! a]"
      using ab Suc.prems by (simp add: take_Suc_conv_app_nth)
    ultimately show ?thesis using ab by simp
  qed
  have tab: "elem_at table (int a) = (if a < length table then Some (table ! a) else None)"
    by (simp add: elem_at_def)
  have all: "(\<forall>k\<in>set [Suc a..<b]. key_changed ?prev state k \<longrightarrow> k < length table) \<longleftrightarrow>
      (\<forall>k\<in>set [Suc a..<b]. key_changed prev state k \<longrightarrow> k < length table)"
    using kc by blast
  define A where "A \<longleftrightarrow> (\<forall>k\<in>set [Suc a..<b]. key_changed prev state k \<longrightarrow> k < length table)"
  have A: "(\<forall>k\<in>set (a # [Suc a..<b]). key_changed prev state k \<longrightarrow> k < length table) \<longleftrightarrow>
      (key_changed prev state a \<longrightarrow> a < length table) \<and> A"
    by (simp add: A_def)
  have ih2: "scan_keys table ext state [Suc a..<b] ?prev =
    (if A then Some (map (change_event table ext state) (filter (key_changed prev state) [Suc a..<b]),
                take a prev @ take (b - a) (drop a state) @ drop b prev) else None)"
    unfolding ih all f l A_def ..
  show ?case
    unfolding u A using ih2
    by (simp add: here tab key_changed_def [of prev state a] change_event_def)
qed

lemma scan_all:
  assumes "n \<le> length state" "n \<le> length prev"
  shows "scan_keys table ext state [0..<n] prev =
    (if \<forall>k<n. key_changed prev state k \<longrightarrow> k < length table
     then Some (map (change_event table ext state) (filter (key_changed prev state) [0..<n]),
                take n state @ drop n prev)
     else None)"
  using scan_range [of 0 n state prev table ext] assms by (simp add: Ball_def)

text \<open>The buttons are read without touching the keyboard part of the state.\<close>

definition buttons_ok :: "u8 list \<Rightarrow> sim_input \<Rightarrow> bool" where
  "buttons_ok state s \<longleftrightarrow> inputCount s \<le> length (inputs s) \<and> inputCount s \<le> length (mappings s) \<and>
     (\<forall>i<inputCount s. 0 \<le> mappings s ! i \<and> mappings s ! i < int (length state))"

lemma collect_range:
  assumes "a \<le> b" "b \<le> length (inputs s)" "b \<le> length (mappings s)"
    and "\<forall>i. a \<le> i \<and> i < b \<longrightarrow> 0 \<le> mappings s ! i \<and> mappings s ! i < int (length state)"
  shows "collect_inputs down state [a..<b] s =
    Some (s\<lparr>inputs := take a (inputs s) @ map (\<lambda>i. down (state ! nat (mappings s ! i))) [a..<b] @ drop b (inputs s)\<rparr>)"
  using assms
proof (induction "b - a" arbitrary: a s)
  case 0
  then show ?case by simp
next
  case (Suc n)
  then have ab: "a < b" by simp
  then have u: "[a..<b] = a # [Suc a..<b]" by (simp add: upt_conv_Cons)
  let ?v = "down (state ! nat (mappings s ! a))"
  let ?s = "s\<lparr>inputs := (inputs s)[a := ?v]\<rparr>"
  have ih: "collect_inputs down state [Suc a..<b] ?s =
    Some (?s\<lparr>inputs := take (Suc a) (inputs ?s) @ map (\<lambda>i. down (state ! nat (mappings ?s ! i))) [Suc a..<b] @ drop b (inputs ?s)\<rparr>)"
    using Suc ab by (intro Suc.hyps) simp_all
  have "elem_at (mappings s) (int a) = Some (mappings s ! a)"
    "elem_at state (mappings s ! a) = Some (state ! nat (mappings s ! a))"
    using Suc.prems ab by (simp_all add: elem_at_def)
  moreover have "take (Suc a) ((inputs s)[a := ?v]) = take a (inputs s) @ [?v]"
    using ab Suc.prems by (simp add: take_Suc_conv_app_nth)
  ultimately show ?case
    using ih ab Suc.prems by (simp add: u)
qed

section \<open>Properties\<close>

definition last_state :: "u8 list \<Rightarrow> sim_input \<Rightarrow> u8 list" where
  "last_state state s = (case m_keyboardState_last s of None \<Rightarrow> replicate (length state) 0 | Some l \<Rightarrow> l)"

text \<open>C27: Polling (SDL). With the buttons mapped inside the state array, a read queues exactly one
  event per changed key, in scan order, with its code from the table, its new state and never the
  extended flag, and remembers the states, provided every changed key is inside the 231-entry
  table; when a key from 231 upwards changed, the read leaves the table (undefined behaviour).\<close>

theorem Read_SDL_events:
  assumes "buttons_ok state s" "length (last_state state s) = length state"
  shows "Read_SDL state s =
    (if \<forall>k<length state. key_changed (last_state state s) state k \<longrightarrow> k < 231
     then Some (s\<lparr>inputs := map (\<lambda>i. state ! nat (mappings s ! i) \<noteq> 0) [0..<inputCount s] @ drop (inputCount s) (inputs s),
       keyEvents := keyEvents s @ map (change_event ev2ps2_sdl (\<lambda>_. False) state)
         (filter (key_changed (last_state state s) state) [0..<length state]),
       m_keyboardState_last := Some state\<rparr>)
     else None)"
proof -
  let ?t = "ReadKeyboard state s"
  have t: "m_keyboardState_last ?t = Some (last_state state s)" "inputCount ?t = inputCount s"
    "inputs ?t = inputs s" "mappings ?t = mappings s" "keyEvents ?t = keyEvents s"
    by (simp_all add: ReadKeyboard_def last_state_def split: option.split)
  have c: "collect_inputs (\<lambda>v. v \<noteq> 0) state [0..<inputCount s] ?t =
    Some (?t\<lparr>inputs := map (\<lambda>i. state ! nat (mappings s ! i) \<noteq> 0) [0..<inputCount s] @ drop (inputCount s) (inputs s)\<rparr>)"
    using collect_range [of 0 "inputCount s" ?t state "\<lambda>v. v \<noteq> 0"] assms(1) t by (simp add: buttons_ok_def)
  have r: "?t\<lparr>inputs := x, keyEvents := y, m_keyboardState_last := z\<rparr> =
      s\<lparr>inputs := x, keyEvents := y, m_keyboardState_last := z\<rparr>" for x y z
    by (cases s) (simp add: ReadKeyboard_def split: option.split)
  show ?thesis
    using scan_all [of "length state" state "last_state state s" ev2ps2_sdl "\<lambda>_. False"] assms(2)
    by (simp add: Read_SDL_def Let_def c t r)
qed

theorem Read_SDL_events_witness:
  "Read_SDL ((replicate 512 0)[4 := 1]) (SimInput_init 1 [False] [4]) \<noteq> None \<and>
   Read_SDL ((replicate 512 0)[231 := 1]) (SimInput_init 1 [False] [4]) = None"
  using Read_SDL_events [of "(replicate 512 0)[4 := 1]" "SimInput_init 1 [False] [4]"]
    Read_SDL_events [of "(replicate 512 0)[231 := 1]" "SimInput_init 1 [False] [4]"]
  by (auto simp: buttons_ok_def SimInput_init_def last_state_def key_changed_def nth_list_update)


text \<open>The extended flag: what the two builds send for a key.\<close>

lemma event_word_bits:
  "\<not> bit (ke_mapped e) 8 \<Longrightarrow> bit (ucast (event_word c e) :: u16) 8 \<longleftrightarrow> ke_extended e"
  "\<not> bit (ke_mapped e) 9 \<Longrightarrow> bit (ucast (event_word c e) :: u16) 9 \<longleftrightarrow> ke_pressed e"
  "\<not> bit (ke_mapped e) 10 \<Longrightarrow> bit (ucast (event_word c e) :: u16) 10 \<longleftrightarrow> c"
  by (auto simp: event_word_def Let_def bit_ucast_iff bit_or_iff bit_push_bit_iff)

lemma table_bit8:
  "k < 231 \<Longrightarrow> \<not> bit (ev2ps2_sdl ! k) 8" "k < 256 \<Longrightarrow> \<not> bit (ev2ps2_dinput ! k) 8"
  using sdl_table_bit8 dinput_table_bit8 by (simp_all add: list_all_length)

text \<open>The extended flag. The word the DirectInput build sends for a key has bit 8 set exactly when
  the table marks the key as extended; the SDL build never sets it, whatever the table says.\<close>

theorem extended_flag_sent:
  "(k < 231 \<longrightarrow> \<not> bit (ucast (event_word c (change_event ev2ps2_sdl (\<lambda>_. False) state k)) :: u16) 8) \<and>
   (k < 256 \<longrightarrow> (bit (ucast (event_word c (change_event ev2ps2_dinput (\<lambda>v. v AND KEY_EXT \<noteq> 0) state k)) :: u16) 8
      \<longleftrightarrow> bit (ev2ps2_dinput ! k) 19))"
proof -
  have e: "v AND KEY_EXT \<noteq> 0 \<longleftrightarrow> bit v 19" for v :: u32
    using and_exp_eq_0_iff_not_bit [of v 19] by (simp add: KEY_EXT_def)
  show ?thesis
    using event_word_bits(1) [of "change_event ev2ps2_sdl (\<lambda>_. False) state k" c]
      event_word_bits(1) [of "change_event ev2ps2_dinput (\<lambda>v. v AND KEY_EXT \<noteq> 0) state k" c] table_bit8 [of k]
    by (simp add: change_event_def e)
qed

theorem extended_flag_sent_witness:
  "\<not> bit (ucast (event_word True (change_event ev2ps2_sdl (\<lambda>_. False) (replicate 512 1) 79)) :: u16) 8 \<and>
   bit (ucast (event_word True (change_event ev2ps2_dinput (\<lambda>v. v AND KEY_EXT \<noteq> 0) (replicate 256 1) 104)) :: u16) 8"
proof -
  have "bit (ev2ps2_dinput ! 104) 19" by (simp add: dinput_table nth_append)
  then show ?thesis
    using extended_flag_sent [of 79 True "replicate 512 1"] extended_flag_sent [of 104 True "replicate 256 1"]
    by simp
qed

section \<open>Pacing\<close>

fun input_run :: "nat \<Rightarrow> sim_input \<Rightarrow> sim_input" where
  "input_run 0 s = s"
| "input_run (Suc n) s = input_run n (input_BeforeEval s)"

lemma input_run_add: "input_run (m + n) s = input_run n (input_run m s)"
  by (induction m arbitrary: s) simp_all

lemma input_wait: "unat (keyEventTimer s) = n \<Longrightarrow> input_run n s = s\<lparr>keyEventTimer := 0\<rparr>"
proof (induction n arbitrary: s)
  case 0
  then have "keyEventTimer s = 0" by (simp add: unat_eq_0)
  then show ?case by simp
next
  case (Suc n)
  then have nz: "keyEventTimer s \<noteq> 0" by auto
  then have "input_BeforeEval s = s\<lparr>keyEventTimer := keyEventTimer s - 1\<rparr>"
    by (simp add: input_BeforeEval_def)
  moreover have "unat (keyEventTimer s - 1) = n"
    using Suc.prems nz by (simp add: unat_minus_one)
  ultimately show ?case using Suc.IH by simp
qed

definition slot :: "sim_input \<Rightarrow> nat" where
  "slot s = unat (keyEventWait s) + 1"

lemma input_slot:
  assumes "keyEventTimer s = 0" "keyEvents s = e # es"
  shows "input_run (slot s) s = s\<lparr>keyEvents := es, ps2_key_temp := event_word (ps2_clock s) e,
    ps2_clock := \<not> ps2_clock s, ps2_key := ucast (event_word (ps2_clock s) e), keyEventTimer := 0\<rparr>"
proof -
  let ?t = "input_BeforeEval s"
  have t: "?t = s\<lparr>keyEvents := es, ps2_key_temp := event_word (ps2_clock s) e, ps2_clock := \<not> ps2_clock s,
      ps2_key := ucast (event_word (ps2_clock s) e), keyEventTimer := keyEventWait s\<rparr>"
    using assms by (simp add: input_BeforeEval_def Let_def)
  have "input_run (slot s) s = input_run (unat (keyEventWait s)) ?t" by (simp add: slot_def)
  also have "\<dots> = ?t\<lparr>keyEventTimer := 0\<rparr>" by (rule input_wait) (simp add: t)
  finally show ?thesis using t by simp
qed

definition queue_event :: "key_event \<Rightarrow> sim_input \<Rightarrow> sim_input" where
  "queue_event e s = s\<lparr>keyEvents := keyEvents s @ [e]\<rparr>"

definition take_event :: "sim_input \<Rightarrow> (key_event \<times> sim_input) option" where
  "take_event s = (case keyEvents s of [] \<Rightarrow> None | e # es \<Rightarrow> Some (e, s\<lparr>keyEvents := es\<rparr>))"

interpretation key_fifo: fifo queue_event take_event keyEvents
  by unfold_locales (auto simp: queue_event_def take_event_def)

text \<open>The keys on the port at the start of each slot of \<open>keyEventWait + 1\<close> calls.\<close>

fun port_trace :: "nat \<Rightarrow> sim_input \<Rightarrow> u16 list" where
  "port_trace 0 s = []"
| "port_trace (Suc n) s = ps2_key (input_BeforeEval s) # port_trace n (input_run (slot s) s)"

lemma queued_events:
  "keyEvents (fold queue_event evs s) = keyEvents s @ evs \<and> keyEventTimer (fold queue_event evs s) = keyEventTimer s \<and>
   ps2_clock (fold queue_event evs s) = ps2_clock s"
  using key_fifo.content_enq_all [of evs s] by (induction evs arbitrary: s) (simp_all add: queue_event_def)

lemma enumerate_shift: "enumerate (Suc n) es = map (\<lambda>(i, e). (Suc i, e)) (enumerate n es)"
  by (induction es arbitrary: n) simp_all

lemma port_trace_events:
  assumes "keyEventTimer s = 0" "keyEvents s = evs"
  shows "port_trace (length evs) s =
      map (\<lambda>(i, e). ucast (event_word (ps2_clock s = even i) e)) (enumerate 0 evs) \<and>
    keyEvents (input_run (length evs * slot s) s) = []"
  using assms
proof (induction evs arbitrary: s)
  case Nil
  then show ?case by simp
next
  case (Cons e es)
  let ?t = "input_run (slot s) s"
  have t: "keyEventTimer ?t = 0" "keyEvents ?t = es" "ps2_clock ?t = (\<not> ps2_clock s)" "slot ?t = slot s"
    using input_slot [OF Cons.prems] by (simp_all add: slot_def)
  have p: "ps2_key (input_BeforeEval s) = ucast (event_word (ps2_clock s) e)"
    using Cons.prems by (simp add: input_BeforeEval_def Let_def)
  have sh: "enumerate (Suc 0) es = map (\<lambda>(i, e). (Suc i, e)) (enumerate 0 es)"
    by (rule enumerate_shift)
  have "input_run (length (e # es) * slot s) s = input_run (length es * slot s) ?t"
    by (simp add: input_run_add)
  then show ?case
    using Cons.IH [OF t(1,2)] t(3,4)
    by (simp add: p sh case_prod_unfold) (auto simp: comp_def)
qed



end
