(* ===== verification/VideoOut.thy ===== *)
theory VideoOut
  imports Prelude
begin

text \<open>
  The video capture of \<open>verilator/sim/sim_video.cpp\<close> (\<open>SimVideo\<close>): the line and pixel counters
  that follow the core's blanking and sync signals, and the frame buffer they address, with the
  rotations and the vertical flip. The window, the texture upload and the frame-rate display are
  the graphics libraries' and are not modelled; the time of day is an argument. A write through
  a null pointer or outside the buffer is undefined in C++ and is \<open>None\<close> here.
\<close>

section \<open>State\<close>

record sim_video =
  output_width :: int
  output_height :: int
  output_rotate :: int
  output_vflip :: bool
  output_ptr :: "u32 list option"
  count_pixel :: int
  count_line :: int
  count_frame :: int
  last_hblank :: bool
  last_vblank :: bool
  last_hsync :: bool
  last_vsync :: bool
  frame_ready :: bool
  old_time :: int
  stats_frameTime :: int
  stats_xMax :: int
  stats_yMax :: int
  stats_xMin :: int
  stats_yMin :: int

text \<open>The members that only the file's initialisers set keep their static values.\<close>

definition SimVideo_init :: "int \<Rightarrow> int \<Rightarrow> int \<Rightarrow> sim_video" where
  "SimVideo_init width height rot =
     \<lparr>output_width = width, output_height = height, output_rotate = rot, output_vflip = False,
      output_ptr = None, count_pixel = 0, count_line = 0, count_frame = 0, last_hblank = False,
      last_vblank = False, last_hsync = False, last_vsync = False, frame_ready = True,
      old_time = 0, stats_frameTime = 0, stats_xMax = -1000, stats_yMax = -1000,
      stats_xMin = 1000, stats_yMin = 1000\<rparr>"

definition InitialiseHeadless :: "bool \<Rightarrow> sim_video \<Rightarrow> sim_video \<times> int" where
  "InitialiseHeadless malloc_ok s =
     (if \<not> malloc_ok then (s\<lparr>output_ptr := None\<rparr>, 1)
      else (s\<lparr>output_ptr := Some (replicate (nat (output_width s * output_height s)) 0xAAAAAAAA)\<rparr>, 0))"

definition CleanUpHeadless :: "sim_video \<Rightarrow> sim_video" where
  "CleanUpHeadless s = s\<lparr>output_ptr := None\<rparr>"

text \<open>\<open>UpdateTexture\<close> hands the buffer to the graphics library if a frame is ready.\<close>

definition UpdateTexture :: "sim_video \<Rightarrow> sim_video \<times> u32 list option" where
  "UpdateTexture s = (s\<lparr>frame_ready := False\<rparr>, if frame_ready s then output_ptr s else None)"

section \<open>One pixel clock\<close>

text \<open>The counters; \<open>now\<close> is the time of day in milliseconds.\<close>

definition video_count :: "bool \<Rightarrow> bool \<Rightarrow> bool \<Rightarrow> int \<Rightarrow> sim_video \<Rightarrow> sim_video" where
  "video_count hblank vblank vsync now s =
     (let de = \<not> (hblank \<or> vblank);
          hb_falling = \<not> hblank \<and> last_hblank s;
          s = (if \<not> vblank
               then
                 (let s = (if hb_falling then s\<lparr>count_line := count_line s + 1, count_pixel := 0\<rparr> else s)
                  in if de then s\<lparr>count_pixel := count_pixel s + 1\<rparr> else s)
               else s)
      in if last_vsync s \<and> \<not> vsync
         then s\<lparr>count_frame := count_frame s + 1, count_line := 0, frame_ready := True,
                stats_frameTime := now - old_time s, old_time := now\<rparr>
         else s)"

definition video_xy :: "sim_video \<Rightarrow> int \<times> int" where
  "video_xy s =
     (let ox = count_pixel s - 1; oy = count_line s - 1;
          (x, y) = (ox, oy);
          (x, y) = (if output_rotate s = -1 then (oy, output_height s - ox) else (x, y));
          (x, y) = (if output_rotate s = 1 then (output_width s - oy, ox) else (x, y));
          y = (if output_vflip s then output_height s - y else y);
          x = (if x < 0 then 0 else x);
          x = (if x > output_width s - 1 then output_width s - 1 else x);
          y = (if y < 0 then 0 else y);
          y = (if y > output_height s - 1 then output_height s - 1 else y)
      in (x, y))"

definition video_draw :: "u32 \<Rightarrow> sim_video \<Rightarrow> sim_video option" where
  "video_draw colour s =
     (let (x, y) = video_xy s; vga_addr = y * output_width s + x
      in case output_ptr s of
           None \<Rightarrow> None
         | Some buf \<Rightarrow>
             (if 0 \<le> vga_addr \<and> vga_addr < int (length buf)
              then Some (s\<lparr>output_ptr := Some (buf[nat vga_addr := colour])\<rparr>) else None))"

definition track_bounds :: "sim_video \<Rightarrow> sim_video" where
  "track_bounds s =
     (let s = (if count_pixel s > stats_xMax s then s\<lparr>stats_xMax := count_pixel s\<rparr> else s);
          s = (if count_line s > stats_yMax s then s\<lparr>stats_yMax := count_line s\<rparr> else s);
          s = (if count_pixel s < stats_xMin s then s\<lparr>stats_xMin := count_pixel s\<rparr> else s)
      in if count_line s < stats_yMin s then s\<lparr>stats_yMin := count_line s\<rparr> else s)"

definition video_Clock :: "bool \<Rightarrow> bool \<Rightarrow> bool \<Rightarrow> bool \<Rightarrow> u32 \<Rightarrow> int \<Rightarrow> sim_video \<Rightarrow> sim_video option" where
  "video_Clock hblank vblank hsync vsync colour now s =
     (let s = video_count hblank vblank vsync now s
      in case (if \<not> (hblank \<or> vblank) then video_draw colour s else Some s) of
           None \<Rightarrow> None
         | Some s \<Rightarrow>
             Some ((track_bounds s)\<lparr>last_hblank := hblank, last_vblank := vblank,
                                    last_hsync := hsync, last_vsync := vsync\<rparr>))"

section \<open>Frame lemmas\<close>

lemma count_keeps [frame_simps]:
  "output_ptr (video_count a b c n s) = output_ptr s" "output_width (video_count a b c n s) = output_width s"
  "output_height (video_count a b c n s) = output_height s" "output_rotate (video_count a b c n s) = output_rotate s"
  "output_vflip (video_count a b c n s) = output_vflip s" "last_hblank (video_count a b c n s) = last_hblank s"
  by (simp_all add: video_count_def Let_def)

lemma track_keeps [frame_simps]:
  "output_ptr (track_bounds s) = output_ptr s" "output_width (track_bounds s) = output_width s"
  "output_height (track_bounds s) = output_height s" "output_rotate (track_bounds s) = output_rotate s"
  "output_vflip (track_bounds s) = output_vflip s" "count_pixel (track_bounds s) = count_pixel s"
  "count_line (track_bounds s) = count_line s" "count_frame (track_bounds s) = count_frame s"
  by (simp_all add: track_bounds_def Let_def)

section \<open>Memory safety\<close>

definition video_ok :: "sim_video \<Rightarrow> bool" where
  "video_ok s \<longleftrightarrow> 0 < output_width s \<and> 0 < output_height s \<and>
     (\<exists>buf. output_ptr s = Some buf \<and> int (length buf) = output_width s * output_height s)"

lemma video_xy_range:
  assumes "0 < output_width s" "0 < output_height s"
  shows "0 \<le> fst (video_xy s) \<and> fst (video_xy s) < output_width s \<and>
    0 \<le> snd (video_xy s) \<and> snd (video_xy s) < output_height s"
  using assms by (auto simp: video_xy_def Let_def)

lemma pixel_in_buffer:
  fixes w h :: int
  assumes "0 \<le> x" "x < w" "0 \<le> y" "y < h"
  shows "0 \<le> y * w + x \<and> y * w + x < w * h"
proof -
  have "y * w + x < (y + 1) * w" using assms(2) by (simp add: algebra_simps)
  also have "\<dots> \<le> h * w" using assms by (intro mult_right_mono) auto
  finally show ?thesis using assms by (simp add: mult.commute)
qed

lemma video_draw_ok:
  assumes "video_ok s"
  shows "\<exists>buf. output_ptr s = Some buf \<and> video_draw c s =
    Some (s\<lparr>output_ptr := Some (buf[nat (snd (video_xy s) * output_width s + fst (video_xy s)) := c])\<rparr>)"
proof -
  obtain buf where b: "output_ptr s = Some buf" "int (length buf) = output_width s * output_height s"
    using assms by (auto simp: video_ok_def)
  have "0 \<le> snd (video_xy s) * output_width s + fst (video_xy s) \<and>
      snd (video_xy s) * output_width s + fst (video_xy s) < output_width s * output_height s"
    using video_xy_range [of s] assms by (intro pixel_in_buffer) (auto simp: video_ok_def)
  then show ?thesis using b by (simp add: video_draw_def case_prod_beta Let_def)
qed

lemma video_ok_count: "video_ok s \<Longrightarrow> video_ok (video_count a b c n s)"
  by (simp add: video_ok_def frame_simps)

lemma video_ok_Clock:
  assumes "video_ok s"
  shows "\<exists>s'. video_Clock hb vb hs vs c n s = Some s' \<and> video_ok s'"
proof -
  let ?t = "video_count hb vb vs n s"
  have t: "video_ok ?t" using assms by (rule video_ok_count)
  obtain buf where "output_ptr ?t = Some buf" "video_draw c ?t =
    Some (?t\<lparr>output_ptr := Some (buf[nat (snd (video_xy ?t) * output_width ?t + fst (video_xy ?t)) := c])\<rparr>)"
    using video_draw_ok [OF t, of c] by blast
  then show ?thesis using t by (auto simp: video_Clock_def Let_def video_ok_def frame_simps)
qed

record video_in =
  vi_hblank :: bool
  vi_vblank :: bool
  vi_hsync :: bool
  vi_vsync :: bool
  vi_colour :: u32
  vi_now :: int

fun video_run :: "video_in list \<Rightarrow> sim_video \<Rightarrow> sim_video option" where
  "video_run [] s = Some s"
| "video_run (x # xs) s =
     Option.bind (video_Clock (vi_hblank x) (vi_vblank x) (vi_hsync x) (vi_vsync x) (vi_colour x) (vi_now x) s)
       (video_run xs)"

lemma video_run_append: "video_run (xs @ ys) s = Option.bind (video_run xs s) (video_run ys)"
  by (induction xs arbitrary: s) (auto simp: fun_eq_iff split: Option.bind_splits)

section \<open>Capturing a frame\<close>

definition straight :: "sim_video \<Rightarrow> bool" where
  "straight s \<longleftrightarrow> output_rotate s = 0 \<and> \<not> output_vflip s"

text \<open>One scan line: a blank cycle, then the pixels.\<close>

definition blank_cycle :: "int \<Rightarrow> video_in" where
  "blank_cycle n = \<lparr>vi_hblank = True, vi_vblank = False, vi_hsync = False, vi_vsync = False, vi_colour = 0, vi_now = n\<rparr>"

definition pixel_cycle :: "int \<Rightarrow> u32 \<Rightarrow> video_in" where
  "pixel_cycle n c = \<lparr>vi_hblank = False, vi_vblank = False, vi_hsync = False, vi_vsync = False, vi_colour = c, vi_now = n\<rparr>"

definition scan_line :: "int \<Rightarrow> u32 list \<Rightarrow> video_in list" where
  "scan_line n cs = blank_cycle n # map (pixel_cycle n) cs"

text \<open>After \<open>k\<close> lines and \<open>p\<close> pixels of the next, the buffer holds the pixels seen so far.\<close>

definition captured :: "u32 list \<Rightarrow> int \<Rightarrow> int \<Rightarrow> bool \<Rightarrow> sim_video \<Rightarrow> bool" where
  "captured buf line pixel hb s \<longleftrightarrow> output_ptr s = Some buf \<and> count_line s = line \<and> count_pixel s = pixel \<and>
     last_hblank s = hb \<and> \<not> last_vsync s \<and> straight s \<and> 0 < output_width s \<and> 0 < output_height s \<and>
     int (length buf) = output_width s * output_height s"

lemma captured_ok: "captured buf l p hb s \<Longrightarrow> video_ok s"
  by (simp add: captured_def video_ok_def)

lemma step_blank:
  assumes "captured buf l p hb s"
  shows "\<exists>s'. video_run [blank_cycle n] s = Some s' \<and> captured buf l p True s' \<and>
    output_width s' = output_width s \<and> output_height s' = output_height s"
  using assms
  by (simp add: blank_cycle_def video_Clock_def video_count_def captured_def straight_def frame_simps Let_def)

lemma step_pixel:
  assumes "captured buf l p hb s" "(if hb then l' = l + 1 \<and> p' = 1 else l' = l \<and> p' = p + 1)"
    and "1 \<le> l'" "l' \<le> output_height s" "1 \<le> p'" "p' \<le> output_width s"
  shows "\<exists>s'. video_run [pixel_cycle n c] s = Some s' \<and>
    captured (buf[nat ((l' - 1) * output_width s + (p' - 1)) := c]) l' p' False s' \<and>
    output_width s' = output_width s \<and> output_height s' = output_height s"
proof -
  let ?t = "video_count False False False n s"
  have t: "count_line ?t = l'" "count_pixel ?t = p'" "\<not> last_vsync ?t" "straight ?t"
    using assms(1,2) by (auto simp: video_count_def captured_def straight_def Let_def split: if_splits)
  have xy: "video_xy ?t = (p' - 1, l' - 1)"
    using t assms(3-6) by (simp add: video_xy_def straight_def frame_simps)
  have ok: "video_ok ?t" using assms(1) by (intro video_ok_count captured_ok)
  have b: "output_ptr ?t = Some buf" using assms(1) by (simp add: captured_def frame_simps)
  have d: "video_draw c ?t = Some (?t\<lparr>output_ptr := Some (buf[nat ((l' - 1) * output_width s + (p' - 1)) := c])\<rparr>)"
    using video_draw_ok [OF ok, of c] b by (simp add: xy frame_simps)
  show ?thesis
    using assms(1) t
    by (simp add: pixel_cycle_def video_Clock_def d captured_def straight_def frame_simps)
qed


text \<open>Overwriting a buffer from position \<open>k\<close> on.\<close>

definition patch :: "nat \<Rightarrow> 'a list \<Rightarrow> 'a list \<Rightarrow> 'a list" where
  "patch k cs buf = take k buf @ cs @ drop (k + length cs) buf"

lemma patch_Nil [simp]: "patch k [] buf = buf"
  by (simp add: patch_def)

lemma length_patch: "k + length cs \<le> length buf \<Longrightarrow> length (patch k cs buf) = length buf"
  by (simp add: patch_def)

lemma patch_snoc:
  assumes "k + length cs < length buf"
  shows "(patch k cs buf)[k + length cs := c] = patch k (cs @ [c]) buf"
proof -
  have "drop (k + length cs) buf = buf ! (k + length cs) # drop (k + length cs + 1) buf"
    using assms by (simp add: Cons_nth_drop_Suc)
  then show ?thesis using assms by (simp add: patch_def list_update_append)
qed

lemma patch_patch:
  assumes "k + length cs + length ds \<le> length buf"
  shows "patch (k + length cs) ds (patch k cs buf) = patch k (cs @ ds) buf"
  using assms by (simp add: patch_def ac_simps)

lemma patch_all: "length cs = length buf \<Longrightarrow> patch 0 cs buf = cs"
  by (simp add: patch_def)

lemma run_pixels:
  assumes "captured (patch (nat ((l - 1) * output_width s)) ds buf) l (int (length ds)) False s"
    and "1 \<le> l" "l \<le> output_height s" "0 < length ds" "int (length ds + length cs) \<le> output_width s"
    and "int (length buf) = output_width s * output_height s"
  shows "\<exists>s'. video_run (map (pixel_cycle n) cs) s = Some s' \<and>
    captured (patch (nat ((l - 1) * output_width s)) (ds @ cs) buf) l (int (length (ds @ cs))) False s' \<and>
    output_width s' = output_width s \<and> output_height s' = output_height s"
  using assms
proof (induction cs arbitrary: ds s)
  case Nil
  then show ?case by simp
next
  case (Cons c cs)
  let ?k = "nat ((l - 1) * output_width s)"
  have w: "0 < output_width s" using Cons.prems(1) by (simp add: captured_def)
  have "(l - 1) * output_width s + int (length ds) < output_width s * output_height s"
    using pixel_in_buffer [of "int (length ds)" "output_width s" "l - 1" "output_height s"] Cons.prems by simp
  moreover have "0 \<le> (l - 1) * output_width s" using Cons.prems(2) w by simp
  ultimately have "int (?k + length ds) < int (length buf)" using Cons.prems(6) by simp
  then have b: "?k + length ds < length buf" by (simp only: of_nat_less_iff)
  have i: "nat ((l - 1) * output_width s + (int (length ds) + 1 - 1)) = ?k + length ds"
    using Cons.prems(2) w by (simp add: nat_add_distrib)
  obtain t where t: "video_run [pixel_cycle n c] s = Some t"
    "captured ((patch ?k ds buf)[?k + length ds := c]) l (int (length ds) + 1) False t"
    "output_width t = output_width s" "output_height t = output_height s"
    using step_pixel [OF Cons.prems(1), of l "int (length ds) + 1" n c] Cons.prems i by auto
  have "captured (patch (nat ((l - 1) * output_width t)) (ds @ [c]) buf) l (int (length (ds @ [c]))) False t"
    using t patch_snoc [OF b, of c] by (simp add: add.commute)
  then obtain s' where "video_run (map (pixel_cycle n) cs) t = Some s'"
    "captured (patch ?k (ds @ c # cs) buf) l (int (length (ds @ c # cs))) False s'"
    "output_width s' = output_width s" "output_height s' = output_height s"
    using Cons.IH [of t "ds @ [c]"] Cons.prems t by auto
  then show ?case using t(1) video_run_append [of "[pixel_cycle n c]" "map (pixel_cycle n) cs" s] by simp
qed

lemma run_line:
  assumes "captured buf l p hb s" "0 \<le> l" "l < output_height s" "int (length cs) = output_width s"
  shows "\<exists>s'. video_run (scan_line n cs) s = Some s' \<and>
    captured (patch (nat (l * output_width s)) cs buf) (l + 1) (output_width s) False s' \<and>
    output_width s' = output_width s \<and> output_height s' = output_height s"
proof -
  have w: "0 < output_width s" using assms(1) by (simp add: captured_def)
  obtain c ds where cs: "cs = c # ds" using assms(4) w by (cases cs) auto
  obtain t where t: "video_run [blank_cycle n] s = Some t" "captured buf l p True t"
    "output_width t = output_width s" "output_height t = output_height s"
    using step_blank [OF assms(1)] by blast
  have len: "int (length buf) = output_width s * output_height s" using assms(1) by (simp add: captured_def)
  have "l * output_width s + 0 < output_width s * output_height s"
    using pixel_in_buffer [of 0 "output_width s" l "output_height s"] assms(2,3) w by simp
  then have b: "nat (l * output_width s) + length ([] :: u32 list) < length buf"
    using len assms(2) w by (simp add: nat_less_iff)
  obtain u where u: "video_run [pixel_cycle n c] t = Some u"
    "captured (buf[nat (l * output_width s) := c]) (l + 1) 1 False u"
    "output_width u = output_width s" "output_height u = output_height s"
    using step_pixel [OF t(2), of "l + 1" 1 n c] t assms w by auto
  have "captured (patch (nat ((l + 1 - 1) * output_width u)) [c] buf) (l + 1) (int (length [c])) False u"
    using u patch_snoc [OF b, of c] by simp
  then obtain s' where s': "video_run (map (pixel_cycle n) ds) u = Some s'"
    "captured (patch (nat (l * output_width s)) cs buf) (l + 1) (int (length cs)) False s'"
    "output_width s' = output_width s" "output_height s' = output_height s"
    using run_pixels [of "l + 1" u "[c]" buf ds n] assms u len cs by auto
  have "scan_line n cs = [blank_cycle n] @ [pixel_cycle n c] @ map (pixel_cycle n) ds"
    by (simp add: scan_line_def cs)
  then have "video_run (scan_line n cs) s = Some s'"
    using t(1) u(1) s'(1) by (simp only: video_run_append bind.bind_lunit)
  then show ?thesis using s' assms(4) by auto
qed

lemma run_lines:
  assumes "captured buf l p hb s" "0 \<le> l" "l + int (length img) \<le> output_height s"
    and "list_all (\<lambda>cs. int (length cs) = output_width s) img"
  shows "\<exists>s' p' hb'. video_run (concat (map (scan_line n) img)) s = Some s' \<and>
    captured (patch (nat (l * output_width s)) (concat img) buf) (l + int (length img)) p' hb' s' \<and>
    output_width s' = output_width s \<and> output_height s' = output_height s"
  using assms
proof (induction img arbitrary: buf l p hb s)
  case Nil
  then show ?case by auto
next
  case (Cons cs img)
  have w: "0 < output_width s" using Cons.prems(1) by (simp add: captured_def)
  obtain t where t: "video_run (scan_line n cs) s = Some t"
    "captured (patch (nat (l * output_width s)) cs buf) (l + 1) (output_width s) False t"
    "output_width t = output_width s" "output_height t = output_height s"
    using run_line [OF Cons.prems(1,2), of cs n] Cons.prems by auto
  obtain s' p' hb' where s': "video_run (concat (map (scan_line n) img)) t = Some s'"
    "captured (patch (nat ((l + 1) * output_width s)) (concat img) (patch (nat (l * output_width s)) cs buf))
       (l + 1 + int (length img)) p' hb' s'"
    "output_width s' = output_width s" "output_height s' = output_height s"
    using Cons.IH [OF t(2)] t Cons.prems by auto
  have cat: "int (length (concat img)) = int (length img) * output_width s"
    using Cons.prems(4) by (induction img) (auto simp: algebra_simps)
  have k: "nat ((l + 1) * output_width s) = nat (l * output_width s) + length cs"
    using Cons.prems(2,4) w by (simp add: algebra_simps nat_add_distrib) (metis nat_int)
  have "l * output_width s + int (length cs) + int (length (concat img)) = (l + int (length (cs # img))) * output_width s"
    using cat Cons.prems(4) by (simp add: algebra_simps)
  also have "\<dots> \<le> output_height s * output_width s"
    using Cons.prems(3) w by (intro mult_right_mono) auto
  also have "\<dots> = int (length buf)" using Cons.prems(1) by (simp add: captured_def mult.commute)
  finally have "int (nat (l * output_width s) + length cs + length (concat img)) \<le> int (length buf)"
    using Cons.prems(2) w by simp
  then have "nat (l * output_width s) + length cs + length (concat img) \<le> length buf"
    by (simp only: of_nat_le_iff)
  then have "patch (nat ((l + 1) * output_width s)) (concat img) (patch (nat (l * output_width s)) cs buf) =
      patch (nat (l * output_width s)) (concat (cs # img)) buf"
    unfolding k by (subst patch_patch) simp_all
  then show ?case
    using t s' by (auto simp: video_run_append algebra_simps)
qed


section \<open>Properties\<close>



text \<open>The falling edge of vertical sync restarts the picture.\<close>

definition sync_cycle :: "int \<Rightarrow> video_in" where
  "sync_cycle n = \<lparr>vi_hblank = True, vi_vblank = True, vi_hsync = False, vi_vsync = False, vi_colour = 0, vi_now = n\<rparr>"

lemma sync_starts:
  assumes "video_ok s" "straight s" "last_vsync s" "output_ptr s = Some buf"
  shows "\<exists>t. video_run [sync_cycle n] s = Some t \<and> captured buf 0 (count_pixel s) True t \<and>
    count_frame t = count_frame s + 1 \<and> frame_ready t \<and>
    output_width t = output_width s \<and> output_height t = output_height s"
  using assms
  by (auto simp: sync_cycle_def video_Clock_def video_count_def captured_def straight_def video_ok_def
      track_bounds_def Let_def)

lemma frame_captured_lemma:
  assumes "video_ok s" "straight s" "last_vsync s" "int (length img) = output_height s"
    and "list_all (\<lambda>cs. int (length cs) = output_width s) img"
  shows "\<exists>s'. video_run (sync_cycle n # concat (map (scan_line n) img)) s = Some s' \<and>
    output_ptr s' = Some (concat img) \<and> video_ok s'"
proof -
  obtain buf where buf: "output_ptr s = Some buf" "int (length buf) = output_width s * output_height s"
    using assms(1) by (auto simp: video_ok_def)
  obtain t where t: "video_run [sync_cycle n] s = Some t" "captured buf 0 (count_pixel s) True t"
    "output_width t = output_width s" "output_height t = output_height s"
    using sync_starts [OF assms(1-3) buf(1)] by blast
  obtain s' p' hb' where s': "video_run (concat (map (scan_line n) img)) t = Some s'"
    "captured (patch (nat (0 * output_width t)) (concat img) buf) (0 + int (length img)) p' hb' s'"
    using run_lines [OF t(2), of img n] t assms(4,5) by auto
  have "int (length (concat img)) = int (length img) * output_width s"
    using assms(5) by (induction img) (auto simp: algebra_simps)
  then have "length (concat img) = length buf"
    using assms(4) buf(2) by (simp add: mult.commute)
  then have "output_ptr s' = Some (concat img) \<and> video_ok s'"
    using s'(2) captured_ok [OF s'(2)] by (simp add: captured_def patch_all)
  moreover have "video_run ([sync_cycle n] @ concat (map (scan_line n) img)) s = Some s'"
    using t(1) s'(1) by (simp only: video_run_append bind.bind_lunit)
  ultimately show ?thesis by auto
qed



text \<open>The vertical flip is off by one. Flipped and unrotated, source row \<open>r\<close> of a picture of \<open>h\<close>
  rows is drawn on row \<open>h - r\<close> clamped to \<open>h - 1\<close>: rows 0 and 1 share the last line and no
  row inside the picture reaches the top line.\<close>

theorem vflip_off_by_one:
  assumes "output_vflip s" "output_rotate s = 0" "2 \<le> output_height s"
    and "1 \<le> count_line s" "count_line s \<le> output_height s"
  shows "snd (video_xy s) = (if count_line s = 1 then output_height s - 1 else output_height s - (count_line s - 1)) \<and>
    0 < snd (video_xy s)"
  using assms by (simp add: video_xy_def)

theorem vflip_off_by_one_witness:
  "snd (video_xy ((SimVideo_init 4 3 0)\<lparr>output_vflip := True, count_line := 3\<rparr>)) = 1"
  using vflip_off_by_one [of "(SimVideo_init 4 3 0)\<lparr>output_vflip := True, count_line := 3\<rparr>"]
  by (simp add: SimVideo_init_def)

end
