(* ===== verification/DebugConsole.thy ===== *)
theory DebugConsole
  imports Prelude
begin

text \<open>
  The console window of \<open>verilator/sim/sim_console.cpp\<close> (\<open>DebugConsole\<close>): the log of the last
  hundred messages, the command line with its history and completion. Its vectors are globals of
  the file, shared by every console object; they are one record here. Strings are C strings
  without their terminator, characters ASCII; formatting is done by the caller of \<open>AddLog\<close>.
  The ImGui widgets are outside the program: the results of a frame are an argument of \<open>Draw\<close>,
  and the edit buffer of \<open>TextEditCallback\<close> is modelled by its two documented operations.
  Erasing from an empty vector is undefined and is \<open>None\<close>.
\<close>

section \<open>State\<close>

record console =
  Items :: "string list"
  History :: "string list"
  HistoryPos :: int
  Commands :: "string list"
  InputBuf :: string
  AutoScroll :: bool
  ScrollToBottom :: bool

fun trim_items :: "string list \<Rightarrow> string list" where
  "trim_items [] = []"
| "trim_items (x # xs) = (if length (x # xs) > 100 then trim_items xs else x # xs)"

definition push_item :: "string \<Rightarrow> console \<Rightarrow> console" where
  "push_item m c = c\<lparr>Items := trim_items (Items c @ [m])\<rparr>"

text \<open>The message buffer holds 1023 characters and a terminator.\<close>

definition AddLog :: "string \<Rightarrow> console \<Rightarrow> console" where
  "AddLog msg c = push_item (take 1023 msg) c"

definition ClearLog :: "console \<Rightarrow> console" where
  "ClearLog c = c\<lparr>Items := []\<rparr>"

fun ClearLogTop :: "nat \<Rightarrow> console \<Rightarrow> console option" where
  "ClearLogTop 0 c = Some c"
| "ClearLogTop (Suc n) c =
     (case Items c of [] \<Rightarrow> None | x # xs \<Rightarrow> ClearLogTop n (c\<lparr>Items := xs\<rparr>))"

text \<open>The constructor runs on the shared vectors: each console object adds the commands again.\<close>

definition DebugConsole_init :: "console \<Rightarrow> console" where
  "DebugConsole_init c =
     (let c = ClearLog c;
          c = c\<lparr>InputBuf := '''', HistoryPos := -1,
                Commands := Commands c @ [''HELP'', ''HISTORY'', ''CLEAR''],
                AutoScroll := True, ScrollToBottom := False\<rparr>
      in AddLog '''' (AddLog ''Sim start'' c))"

definition DebugConsole_destroy :: "console \<Rightarrow> console" where
  "DebugConsole_destroy c = ClearLog c"

definition console_zero :: console where
  "console_zero = \<lparr>Items = [], History = [], HistoryPos = 0, Commands = [], InputBuf = '''',
     AutoScroll = False, ScrollToBottom = False\<rparr>"

section \<open>Portable helpers\<close>

definition up :: "char \<Rightarrow> int" where
  "up c = (let n = of_char c in if 97 \<le> n \<and> n \<le> 122 then n - 32 else n)"

fun Stricmp :: "string \<Rightarrow> string \<Rightarrow> int" where
  "Stricmp [] [] = 0"
| "Stricmp [] (b # bs) = up b"
| "Stricmp (a # as) [] = - up a"
| "Stricmp (a # as) (b # bs) = (let d = up b - up a in if d = 0 then Stricmp as bs else d)"

fun Strnicmp :: "string \<Rightarrow> string \<Rightarrow> nat \<Rightarrow> int" where
  "Strnicmp s t 0 = 0"
| "Strnicmp [] [] (Suc n) = 0"
| "Strnicmp [] (b # bs) (Suc n) = up b"
| "Strnicmp (a # as) [] (Suc n) = - up a"
| "Strnicmp (a # as) (b # bs) (Suc n) = (let d = up b - up a in if d = 0 then Strnicmp as bs n else d)"

definition Strtrim :: "string \<Rightarrow> string" where
  "Strtrim s = rev (dropWhile (\<lambda>c. c = CHR '' '') (rev s))"

section \<open>Commands\<close>

text \<open>Erase the last entry of the history that equals the command up to case.\<close>

definition forget :: "string \<Rightarrow> string list \<Rightarrow> string list" where
  "forget cmd h =
     (case filter (\<lambda>i. Stricmp (h ! i) cmd = 0) (rev [0..<length h]) of
        [] \<Rightarrow> h
      | i # _ \<Rightarrow> take i h @ drop (Suc i) h)"

text \<open>The number of the \<open>"%3d: %s"\<close> lines is an argument, as all formatting is.\<close>

definition ExecCommand :: "(nat \<Rightarrow> string \<Rightarrow> string) \<Rightarrow> string \<Rightarrow> console \<Rightarrow> console" where
  "ExecCommand numbered cmd c =
     (let c = AddLog (''# '' @ cmd @ [CHR 0x0A]) c;
          c = c\<lparr>HistoryPos := -1, History := forget cmd (History c) @ [cmd]\<rparr>;
          c = (if Stricmp cmd ''CLEAR'' = 0 then ClearLog c
               else if Stricmp cmd ''HELP'' = 0
               then fold (\<lambda>k c. AddLog (''- '' @ k) c) (Commands c) (AddLog ''Commands:'' c)
               else if Stricmp cmd ''HISTORY'' = 0
               then
                 (let first = int (length (History c)) - 10
                  in fold (\<lambda>i c. AddLog (numbered i (History c ! i)) c)
                       [nat (if first > 0 then first else 0)..<length (History c)] c)
               else AddLog (''Unknown command: '' @ [CHR 0x27] @ cmd @ [CHR 0x27, CHR 0x0A]) c)
      in c\<lparr>ScrollToBottom := True\<rparr>)"

section \<open>The edit buffer and its callbacks\<close>

record edit_data =
  Buf :: string
  CursorPos :: nat
  BufSize :: nat

definition DeleteChars :: "nat \<Rightarrow> nat \<Rightarrow> edit_data \<Rightarrow> edit_data" where
  "DeleteChars pos n d =
     d\<lparr>Buf := take pos (Buf d) @ drop (pos + n) (Buf d),
       CursorPos := (if CursorPos d \<ge> pos + n then CursorPos d - n
                     else if CursorPos d \<ge> pos then pos else CursorPos d)\<rparr>"

definition InsertChars :: "nat \<Rightarrow> string \<Rightarrow> edit_data \<Rightarrow> edit_data" where
  "InsertChars pos text d =
     (if length (Buf d) + length text \<ge> BufSize d then d
      else d\<lparr>Buf := take pos (Buf d) @ text @ drop pos (Buf d),
             CursorPos := (if CursorPos d \<ge> pos then CursorPos d + length text else CursorPos d)\<rparr>)"

definition separator :: "char \<Rightarrow> bool" where
  "separator c \<longleftrightarrow> c = CHR '' '' \<or> c = CHR 0x09 \<or> c = CHR '','' \<or> c = CHR '';''"

fun word_start :: "string \<Rightarrow> nat \<Rightarrow> nat" where
  "word_start buf 0 = 0"
| "word_start buf (Suc n) = (if separator (buf ! n) then Suc n else word_start buf n)"

definition char_at :: "string \<Rightarrow> nat \<Rightarrow> int" where
  "char_at s i = (if i < length s then up (s ! i) else 0)"

text \<open>One round of the completion loop, and the loop; \<open>cs\<close> has at least two candidates.\<close>

definition all_match :: "string list \<Rightarrow> nat \<Rightarrow> bool" where
  "all_match cs n = (case cs of [] \<Rightarrow> True
     | c # ds \<Rightarrow> list_all (\<lambda>d. char_at c n \<noteq> 0 \<and> char_at c n = char_at d n) ds)"

function match_length :: "string list \<Rightarrow> nat \<Rightarrow> nat" where
  "match_length cs n =
     (case cs of c # d # ds \<Rightarrow> if all_match cs n then match_length cs (Suc n) else n | _ \<Rightarrow> n)"
  by pat_completeness auto

termination
proof (relation "measure (\<lambda>(cs, n). length (hd cs) - n)")
  show "wf (measure (\<lambda>(cs :: string list, n). length (hd cs) - n))" by simp
next
  fix cs :: "string list" and n c r d ds
  assume "cs = c # r" "r = d # ds" "all_match cs n"
  then show "((cs, Suc n), cs, n) \<in> measure (\<lambda>(cs, n). length (hd cs) - n)"
    by (auto simp: all_match_def char_at_def split: if_splits)
qed

definition Completion :: "edit_data \<Rightarrow> console \<Rightarrow> edit_data \<times> console" where
  "Completion d c =
     (let start = word_start (Buf d) (CursorPos d);
          word = take (CursorPos d - start) (drop start (Buf d));
          cs = filter (\<lambda>k. Strnicmp k word (length word) = 0) (Commands c)
      in if cs = [] then (d, AddLog (''No match for '' @ [CHR 0x22] @ word @ [CHR 0x22] @ ''!'' @ [CHR 0x0A]) c)
         else if length cs = 1
         then
           (let d = DeleteChars start (length word) d;
                d = InsertChars (CursorPos d) (hd cs) d
            in (InsertChars (CursorPos d) '' '' d, c))
         else
           (let n = match_length cs (length word);
                d = (if n > 0
                     then (let d = DeleteChars start (length word) d
                           in InsertChars (CursorPos d) (take n (hd cs)) d)
                     else d)
            in (d, fold (\<lambda>k c. AddLog (''- '' @ k @ [CHR 0x0A]) c) cs
                     (AddLog (''Possible matches:'' @ [CHR 0x0A]) c))))"

datatype history_key = UpArrow | DownArrow

definition HistoryCallback :: "history_key \<Rightarrow> edit_data \<Rightarrow> console \<Rightarrow> (edit_data \<times> console) option" where
  "HistoryCallback key d c =
     (let prev = HistoryPos c;
          pos = (case key of
                   UpArrow \<Rightarrow>
                     (if prev = -1 then int (length (History c)) - 1
                      else if prev > 0 then prev - 1 else prev)
                 | DownArrow \<Rightarrow>
                     (if prev \<noteq> -1
                      then (if prev + 1 \<ge> int (length (History c)) then -1 else prev + 1) else prev));
          c = c\<lparr>HistoryPos := pos\<rparr>
      in if prev \<noteq> pos
         then
           (if pos \<ge> 0
            then
              (if pos < int (length (History c))
               then Some (InsertChars 0 (History c ! nat pos) (DeleteChars 0 (length (Buf d)) d), c) else None)
            else Some (InsertChars 0 '''' (DeleteChars 0 (length (Buf d)) d), c))
         else Some (d, c))"

section \<open>Drawing\<close>

record console_ui =
  cu_begin :: bool
  cu_close :: bool
  cu_clear_top :: bool
  cu_clear :: bool
  cu_auto_scroll :: bool
  cu_popup_clear :: bool
  cu_at_bottom :: bool
  cu_enter :: bool
  cu_input :: string

datatype item_colour = NormalText | ErrorText | CommandText

definition item_colour_of :: "string \<Rightarrow> item_colour" where
  "item_colour_of item = (if sublist ''[error]'' item then ErrorText
     else if prefix ''# '' item then CommandText else NormalText)"

text \<open>The result is the state, whether the window was closed, and the lines shown.\<close>

definition console_Draw ::
  "(nat \<Rightarrow> string \<Rightarrow> string) \<Rightarrow> (string \<Rightarrow> bool) \<Rightarrow> console_ui \<Rightarrow> console \<Rightarrow>
     (console \<times> bool \<times> (string \<times> item_colour) list) option" where
  "console_Draw numbered PassFilter ui c =
     (if \<not> cu_begin ui then Some (c, False, [])
      else
        (case (if cu_clear_top ui then ClearLogTop 10000 c else Some c) of
           None \<Rightarrow> None
         | Some c \<Rightarrow>
             (let c = (if cu_clear ui then ClearLog c else c);
                  c = c\<lparr>AutoScroll := cu_auto_scroll ui\<rparr>;
                  c = (if cu_popup_clear ui then ClearLog c else c);
                  shown = map (\<lambda>i. (i, item_colour_of i)) (filter PassFilter (Items c));
                  c = c\<lparr>ScrollToBottom := False, InputBuf := cu_input ui\<rparr>;
                  c = (if cu_enter ui
                       then
                         (let s = Strtrim (InputBuf c);
                              c = (if s \<noteq> [] then ExecCommand numbered s c else c)
                          in c\<lparr>InputBuf := ''''\<rparr>)
                       else c)
              in Some (c, cu_close ui, shown))))"

section \<open>The log\<close>

lemma trim_items_eq: "trim_items xs = keep_last 100 xs"
  by (induction xs) (simp_all add: keep_last_Cons)

interpretation console_log: bounded_log push_item Items "\<lambda>_. True" 100
  by unfold_locales (simp_all add: push_item_def trim_items_eq)

lemma fold_AddLog: "fold AddLog ms c = fold push_item (map (take 1023) ms) c"
  by (induction ms arbitrary: c) (simp_all add: AddLog_def)

lemma AddLog_keeps [frame_simps]:
  "History (AddLog m c) = History c" "HistoryPos (AddLog m c) = HistoryPos c" "Commands (AddLog m c) = Commands c"
  by (simp_all add: AddLog_def push_item_def)

lemma fold_AddLog_keeps [frame_simps]:
  "History (fold (\<lambda>k c. AddLog (f k c) c) ks c) = History c"
  "HistoryPos (fold (\<lambda>k c. AddLog (f k c) c) ks c) = HistoryPos c"
  "Commands (fold (\<lambda>k c. AddLog (f k c) c) ks c) = Commands c"
  by (induction ks arbitrary: c) (simp_all add: frame_simps)

section \<open>Comparison up to case\<close>

definition no_nul :: "string \<Rightarrow> bool" where
  "no_nul s \<longleftrightarrow> list_all (\<lambda>c. up c \<noteq> 0) s"

lemma Stricmp_eq_0: "no_nul s \<Longrightarrow> no_nul t \<Longrightarrow> Stricmp s t = 0 \<longleftrightarrow> map up s = map up t"
  by (induction s t rule: Stricmp.induct) (auto simp: no_nul_def Let_def)

lemma Strnicmp_eq_0:
  "no_nul s \<Longrightarrow> no_nul t \<Longrightarrow> Strnicmp s t n = 0 \<longleftrightarrow> take n (map up s) = take n (map up t)"
  by (induction s t n rule: Strnicmp.induct) (auto simp: no_nul_def Let_def)

section \<open>The history\<close>

definition history_ok :: "console \<Rightarrow> bool" where
  "history_ok c \<longleftrightarrow> list_all no_nul (History c) \<and> distinct (map (map up) (History c)) \<and>
     -1 \<le> HistoryPos c \<and> HistoryPos c < int (length (History c))"

lemma forget_unique:
  assumes "list_all no_nul h" "no_nul cmd" "distinct (map (map up) h)"
  shows "forget cmd h = filter (\<lambda>x. map up x \<noteq> map up cmd) h"
proof (cases "filter (\<lambda>i. Stricmp (h ! i) cmd = 0) (rev [0..<length h])")
  case Nil
  then have "\<forall>i<length h. map up (h ! i) \<noteq> map up cmd"
    using assms(1,2) by (auto simp: filter_empty_conv list_all_length Stricmp_eq_0)
  then have "filter (\<lambda>x. map up x \<noteq> map up cmd) h = h"
    by (auto simp: filter_id_conv in_set_conv_nth)
  with Nil show ?thesis by (simp add: forget_def)
next
  case (Cons i js)
  then have "i \<in> set (filter (\<lambda>i. Stricmp (h ! i) cmd = 0) (rev [0..<length h]))" by simp
  then have i: "i < length h" "map up (h ! i) = map up cmd"
    using assms(1,2) by (auto simp: list_all_length Stricmp_eq_0)
  have h: "h = take i h @ h ! i # drop (Suc i) h" using i(1) by (simp add: Cons_nth_drop_Suc)
  have "map up x \<noteq> map up cmd" if "x \<in> set (take i h) \<union> set (drop (Suc i) h)" for x
  proof
    assume e: "map up x = map up cmd"
    have "distinct (map (map up) (take i h @ h ! i # drop (Suc i) h))" using assms(3) h by simp
    then show False using that i(2) e by (auto simp: image_iff)
  qed
  then have "filter (\<lambda>x. map up x \<noteq> map up cmd) (take i h) = take i h"
    "filter (\<lambda>x. map up x \<noteq> map up cmd) (drop (Suc i) h) = drop (Suc i) h"
    by (auto simp: filter_id_conv)
  then have "filter (\<lambda>x. map up x \<noteq> map up cmd) h = take i h @ drop (Suc i) h"
    by (subst h) (simp add: i(2))
  with Cons show ?thesis by (simp add: forget_def)
qed

lemma ExecCommand_history:
  "History (ExecCommand f cmd c) = forget cmd (History c) @ [cmd]" "HistoryPos (ExecCommand f cmd c) = -1"
  by (simp_all add: ExecCommand_def Let_def frame_simps ClearLog_def)

lemma history_ok_ExecCommand:
  assumes "history_ok c" "no_nul cmd"
  shows "history_ok (ExecCommand f cmd c)"
proof -
  have f: "forget cmd (History c) = filter (\<lambda>x. map up x \<noteq> map up cmd) (History c)"
    using assms by (intro forget_unique) (simp_all add: history_ok_def)
  have "distinct (map (map up) (filter (\<lambda>x. map up x \<noteq> map up cmd) (History c)))"
    using assms(1) by (auto simp: history_ok_def distinct_map intro: inj_on_subset)
  then show ?thesis
    using assms unfolding history_ok_def ExecCommand_history f by (auto simp: list_all_iff)
qed

section \<open>Properties\<close>

text \<open>The log. After any messages the console holds exactly the newest hundred of what it had and
  what was logged, each cut to 1023 characters.\<close>

theorem console_keeps_newest:
  assumes "length (Items c) \<le> 100"
  shows "Items (fold AddLog ms c) = keep_last 100 (Items c @ map (take 1023) ms)"
  using console_log.push_all [of c "map (take 1023) ms"] assms by (simp add: fold_AddLog)

theorem console_keeps_newest_witness:
  "Items (fold AddLog [''a'', ''b''] (DebugConsole_init console_zero)) = [''Sim start'', '''', ''a'', ''b'']"
  using console_keeps_newest [of "DebugConsole_init console_zero" "[''a'', ''b'']"]
  by (simp add: DebugConsole_init_def console_zero_def AddLog_def push_item_def ClearLog_def Let_def)

text \<open>The command history never holds the same command twice, up to case, and its newest entry is
  the last command; moving through it with the arrow keys never leaves it, whatever was entered.\<close>

theorem history_sound:
  assumes "history_ok c" "list_all no_nul cmds"
  shows "let c' = fold (ExecCommand f) cmds c in
    distinct (map (map up) (History c')) \<and>
    (cmds \<noteq> [] \<longrightarrow> last (History c') = last cmds) \<and>
    (\<exists>d' c''. HistoryCallback key d c' = Some (d', c'') \<and> history_ok c'')"
proof -
  have ok: "history_ok (fold (ExecCommand f) cmds c)"
    using assms by (induction cmds arbitrary: c) (simp_all add: history_ok_ExecCommand)
  have "cmds \<noteq> [] \<Longrightarrow> last (History (fold (ExecCommand f) cmds c)) = last cmds"
    by (induction cmds rule: rev_induct) (simp_all add: ExecCommand_history)
  moreover have "\<exists>d' c''. HistoryCallback key d c' = Some (d', c'') \<and> history_ok c''" if "history_ok c'" for c'
    using that by (cases key) (auto simp: HistoryCallback_def history_ok_def Let_def)
  ultimately show ?thesis using ok by (simp add: Let_def history_ok_def)
qed

theorem history_sound_witness:
  "last (History (fold (ExecCommand (\<lambda>_. id)) [''help'', ''clear'', ''HELP''] (DebugConsole_init console_zero))) = ''HELP''"
  using history_sound [of "DebugConsole_init console_zero" "[''help'', ''clear'', ''HELP'']" "\<lambda>_. id"]
  by (simp add: Let_def history_ok_def no_nul_def DebugConsole_init_def console_zero_def AddLog_def push_item_def
      ClearLog_def up_def)

lemma ClearLogTop_eq: "ClearLogTop n c = (if n \<le> length (Items c) then Some (c\<lparr>Items := drop n (Items c)\<rparr>) else None)"
proof (induction n arbitrary: c)
  case 0
  then show ?case by simp
next
  case (Suc n)
  then show ?case by (cases "Items c") simp_all
qed

text \<open>The \<open>Clear 10,000\<close> button. Erasing from the top is defined only for as many entries as there
  are; since the log never holds more than a hundred, pressing the button after any log message
  always erases from an empty vector.\<close>

theorem clear_top_undefined:
  "console_Draw f p (ui\<lparr>cu_begin := True, cu_clear_top := True\<rparr>) (AddLog m c) = None"
proof -
  have "length (Items (AddLog m c)) \<le> 100"
    using console_log.entries_bounded [of "take 1023 m" c] by (simp add: AddLog_def)
  then show ?thesis by (simp add: console_Draw_def ClearLogTop_eq)
qed

end
