(* ===== verification/DasmStub.thy ===== *)
theory DasmStub
  imports Prelude
begin

text \<open>
  The helpers around the Musashi disassembler (\<open>sim/m68k_dasm_stubs.cpp\<close>): the memory call-backs,
  which always answer 0, and the three functions that lay 16-bit opcode words out as the
  big-endian byte buffer \<open>m68k_disassemble_raw\<close> reads. That function (\<open>m68kdasm.c\<close>) is the argument
  \<open>raw\<close>: from the program counter and the buffer it gives the text and the instruction's length.
\<close>

type_synonym raw_dasm = "u32 \<Rightarrow> u8 list \<Rightarrow> string \<times> u32"

definition m68k_read_disassembler_8 :: "u32 \<Rightarrow> u32" where "m68k_read_disassembler_8 address = 0"
definition m68k_read_disassembler_16 :: "u32 \<Rightarrow> u32" where "m68k_read_disassembler_16 address = 0"
definition m68k_read_disassembler_32 :: "u32 \<Rightarrow> u32" where "m68k_read_disassembler_32 address = 0"

text \<open>One step of the loop that stores word \<open>i\<close> at bytes \<open>2 i\<close> and \<open>2 i + 1\<close>.\<close>

definition put_opword :: "u16 list \<Rightarrow> nat \<Rightarrow> u8 list \<Rightarrow> u8 list" where
  "put_opword opwords i opdata =
     opdata[i * 2 := ucast (drop_bit 8 (opwords ! i) AND 0xFF), i * 2 + 1 := ucast (opwords ! i AND 0xFF)]"

definition opdata_of :: "u16 list \<Rightarrow> int \<Rightarrow> u8 list" where
  "opdata_of opwords num_words = fold (put_opword opwords) [0..<nat (min num_words 5)] (replicate 16 0)"

definition disassemble_68k :: "raw_dasm \<Rightarrow> u32 \<Rightarrow> u16 \<Rightarrow> string" where
  "disassemble_68k raw pc opcode_word =
     fst (raw pc ((replicate 16 0)[0 := ucast (drop_bit 8 opcode_word AND 0xFF), 1 := ucast (opcode_word AND 0xFF)]))"

definition disassemble_68k_ext :: "raw_dasm \<Rightarrow> u32 \<Rightarrow> u16 list \<Rightarrow> int \<Rightarrow> string" where
  "disassemble_68k_ext raw pc opwords num_words = fst (raw pc (opdata_of opwords num_words))"

definition disassemble_68k_ext_len :: "raw_dasm \<Rightarrow> u32 \<Rightarrow> u16 list \<Rightarrow> int \<Rightarrow> string \<times> u32" where
  "disassemble_68k_ext_len raw pc opwords num_words = raw pc (opdata_of opwords num_words)"

section \<open>The buffer\<close>

definition be_bytes :: "u16 \<Rightarrow> u8 list" where
  "be_bytes w = [ucast (drop_bit 8 w), ucast w]"

definition be_word :: "u8 \<Rightarrow> u8 \<Rightarrow> u16" where
  "be_word hi lo = push_bit 8 (ucast hi) OR ucast lo"

lemma byte_masks [simp]:
  "(ucast ((w :: u16) AND 0xFF) :: u8) = ucast w"
  "(ucast (drop_bit 8 (w :: u16) AND 0xFF) :: u8) = ucast (drop_bit 8 w)"
proof -
  have m: "(0xFF :: u16) = mask 8" by (simp add: mask_eq_exp_minus_1)
  show "(ucast (w AND 0xFF) :: u8) = ucast w"
    unfolding m by (rule bit_word_eqI) (auto simp: bit_simps)
  show "(ucast (drop_bit 8 w AND 0xFF) :: u8) = ucast (drop_bit 8 w)"
    unfolding m by (rule bit_word_eqI) (auto simp: bit_simps)
qed

lemma be_word_bytes [simp]: "be_word (ucast (drop_bit 8 w)) (ucast w) = w"
  by (rule bit_word_eqI) (auto simp: be_word_def bit_simps not_le)

lemma put_opword_at:
  "length pre = 2 * n \<Longrightarrow> put_opword ws n (pre @ x # y # rest) = pre @ be_bytes (ws ! n) @ rest"
  by (simp add: put_opword_def be_bytes_def list_update_append mult.commute)

lemma put_opwords:
  assumes "n \<le> length ws" "n \<le> 8"
  shows "fold (put_opword ws) [0..<n] (replicate 16 0) =
    concat (map be_bytes (take n ws)) @ replicate (16 - 2 * n) 0"
  using assms
proof (induction n)
  case 0
  then show ?case by simp
next
  case (Suc n)
  have l: "length (concat (map be_bytes (take n ws))) = 2 * n"
    using Suc.prems by (simp add: length_concat be_bytes_def o_def sum_list_triv)
  have r: "replicate (16 - 2 * n) (0 :: u8) = 0 # 0 # replicate (16 - 2 * Suc n) 0"
  proof -
    have "16 - 2 * n = Suc (Suc (16 - 2 * Suc n))" using Suc.prems by presburger
    then show ?thesis by (simp only: replicate_Suc)
  qed
  have "fold (put_opword ws) [0..<Suc n] (replicate 16 0) =
      put_opword ws n (concat (map be_bytes (take n ws)) @ 0 # 0 # replicate (16 - 2 * Suc n) 0)"
    using Suc r by simp
  also have "\<dots> = concat (map be_bytes (take n ws)) @ be_bytes (ws ! n) @ replicate (16 - 2 * Suc n) 0"
    by (rule put_opword_at [OF l])
  finally show ?case using Suc.prems by (simp add: take_Suc_conv_app_nth)
qed

text \<open>What the disassembler sees: the first five words in order, then zeros.\<close>

lemma opdata_of_words:
  "length ws \<le> 5 \<Longrightarrow> opdata_of ws (int (length ws)) = concat (map be_bytes ws) @ replicate (16 - 2 * length ws) 0"
  using put_opwords [of "length ws" ws] by (simp add: opdata_of_def)

end
