(* ===== verification/GuestMem.thy ===== *)
theory GuestMem
  imports Prelude
begin

text \<open>
  What the debugging code of \<open>src/verilator/sim_main.cpp\<close> reads of the simulated machine: the RAM
  model's array, the processor's split register file and the SCSI controller's registers, and the
  byte search over the RAM. The generated model (\<open>Vemu\<close>) is not source code: it is the record
  \<open>top\<close>, whose registers are looked up by name, whatever their values; every function here is a
  function of it.
\<close>

section \<open>The generated model\<close>

text \<open>
  \<open>sig\<close> gives a register of the Verilated hierarchy (\<open>emu__DOT__dc0__DOT__scsi__DOT__mr\<close> is
  \<open>''scsi.mr''\<close>); the RAM array has \<open>2 ^ 23\<close> words; the register file is split into the low byte
  (\<open>regfile_n1\<close>) and the upper 24 bits (\<open>regfile_n2\<close>).
\<close>

record top =
  sig :: "string \<Rightarrow> u64"
  ram :: "nat \<Rightarrow> u16"
  regfile_n1 :: "nat \<Rightarrow> u8"
  regfile_n2 :: "nat \<Rightarrow> u32"

abbreviation flag :: "top \<Rightarrow> string \<Rightarrow> bool" where "flag t n \<equiv> sig t n \<noteq> 0"
abbreviation sig8 :: "top \<Rightarrow> string \<Rightarrow> u8" where "sig8 t n \<equiv> ucast (sig t n)"
abbreviation sig16 :: "top \<Rightarrow> string \<Rightarrow> u16" where "sig16 t n \<equiv> ucast (sig t n)"
abbreviation sig32 :: "top \<Rightarrow> string \<Rightarrow> u32" where "sig32 t n \<equiv> ucast (sig t n)"

section \<open>Memory and registers\<close>

definition word_index :: "u32 \<Rightarrow> nat" where
  "word_index addr = unat (drop_bit 1 addr AND 0x7FFFFF)"

definition ram_word :: "top \<Rightarrow> u32 \<Rightarrow> u16" where
  "ram_word t addr = (if 0x01000000 \<le> addr then 0xFFFF else ram t (word_index addr))"

definition ram_write_word :: "u32 \<Rightarrow> u16 \<Rightarrow> top \<Rightarrow> top" where
  "ram_write_word addr data t =
     (if 0x01000000 \<le> addr then t else t\<lparr>ram := (ram t)(word_index addr := data)\<rparr>)"

definition ram_long :: "top \<Rightarrow> u32 \<Rightarrow> u32" where
  "ram_long t addr = push_bit 16 (ucast (ram_word t addr)) OR ucast (ram_word t (addr + 2))"

definition ram_byte :: "top \<Rightarrow> u32 \<Rightarrow> u8" where
  "ram_byte t addr =
    (let w = ram_word t (addr AND NOT 1) in
     if addr AND 1 \<noteq> 0 then ucast (w AND 0xFF) else ucast (drop_bit 8 w))"

definition bytes_match :: "top \<Rightarrow> u8 list \<Rightarrow> u32 \<Rightarrow> bool" where
  "bytes_match t bytes addr = list_all (\<lambda>i. ram_byte t (addr + of_nat i) = bytes ! i) [0..<length bytes]"

text \<open>
  The search loop compares a 32-bit address with the 64-bit \<open>end - len + 1\<close>, so it does not end
  when that bound is one of the two largest 32-bit values and nothing matches: \<open>None\<close> below.
\<close>

partial_function (option) find_from :: "top \<Rightarrow> u8 list \<Rightarrow> nat \<Rightarrow> u32 \<Rightarrow> u32 option" where
  "find_from t bytes bound addr =
    (if unat addr \<le> bound
     then (if bytes_match t bytes addr then Some addr else find_from t bytes bound (addr + 2))
     else Some 0xFFFFFFFF)"

definition find_ram_bytes :: "top \<Rightarrow> u8 list \<Rightarrow> u32 \<Rightarrow> u32 \<Rightarrow> u32 option" where
  "find_ram_bytes t bytes start stop =
    (if bytes = [] \<or> stop < start \<or> unat (stop - start + 1) < length bytes then Some 0xFFFFFFFF
     else find_from t bytes (unat stop + 1 - length bytes) start)"

definition tg68_reg :: "top \<Rightarrow> nat \<Rightarrow> u32" where
  "tg68_reg t idx = push_bit 8 (regfile_n2 t idx) OR ucast (regfile_n1 t idx)"

definition lowmem_tick_016a :: "top \<Rightarrow> u32" where
  "lowmem_tick_016a t = push_bit 16 (ucast (ram t 0xB5)) OR ucast (ram t 0xB6)"

definition lowmem_tick_reached :: "u32 \<Rightarrow> top \<Rightarrow> bool" where
  "lowmem_tick_reached stop_at_tick t =
    (let tick = lowmem_tick_016a t in
     if stop_at_tick \<le> 0xFFFF \<and> tick AND 0xFFFF0000 \<noteq> 0 then False else stop_at_tick \<le> tick)"

definition stop_pc_reached :: "bool \<Rightarrow> u32 \<Rightarrow> bool \<Rightarrow> top \<Rightarrow> bool" where
  "stop_pc_reached stop_at_pc_enabled stop_at_pc ioctl_download t \<longleftrightarrow>
     stop_at_pc_enabled \<and> \<not> ioctl_download \<and> flag t ''debug_fetch_valid'' \<and> sig32 t ''debug_pc'' = stop_at_pc"

section \<open>The SCSI controller's status registers\<close>

definition on :: "bool \<Rightarrow> u8 \<Rightarrow> u8" where
  "on c v = (if c then v else 0)"

definition scsi_debug_csr :: "top \<Rightarrow> u8" where
  "scsi_debug_csr t =
    (let mr = sig8 t ''scsi.mr'';
         icr = sig8 t ''scsi.icr'';
         target_bsy = sig8 t ''scsi.target_bsy'';
         empty_cd_bsy = flag t ''scsi.empty_cd.phase'';
         scsi_bsy = icr AND 0x08 \<noteq> 0 \<or> target_bsy \<noteq> 0 \<or> empty_cd_bsy \<or> mr AND 0x01 \<noteq> 0
     in on (icr AND 0x80 \<noteq> 0) 0x80 OR on scsi_bsy 0x40 OR on (flag t ''scsi.scsi_req'') 0x20 OR
        on (flag t ''scsi.scsi_msg'') 0x10 OR on (flag t ''scsi.scsi_cd'') 0x08 OR
        on (flag t ''scsi.scsi_io'') 0x04 OR on (icr AND 0x04 \<noteq> 0) 0x02)"

definition scsi_debug_pmatch :: "top \<Rightarrow> bool" where
  "scsi_debug_pmatch t \<longleftrightarrow>
    (let tcr = sig8 t ''scsi.tcr'' in
     drop_bit 2 tcr AND 1 = (if flag t ''scsi.scsi_msg'' then 1 else 0) \<and>
     drop_bit 1 tcr AND 1 = (if flag t ''scsi.scsi_cd'' then 1 else 0) \<and>
     drop_bit 0 tcr AND 1 = (if flag t ''scsi.scsi_io'' then 1 else 0))"

definition scsi_debug_bsr :: "top \<Rightarrow> u8" where
  "scsi_debug_bsr t =
    (let req = flag t ''scsi.scsi_req'';
         dma_en = flag t ''scsi.dma_en'';
         pmatch = scsi_debug_pmatch t;
         icr = sig8 t ''scsi.icr'';
         ack = icr AND 0x10 \<noteq> 0 \<or> flag t ''scsi.dma_ack''
     in on (req \<and> dma_en) 0x40 OR on (req \<and> dma_en \<and> \<not> pmatch) 0x10 OR on pmatch 0x08 OR
        on (icr AND 0x02 \<noteq> 0) 0x02 OR on ack 0x01)"

text \<open>The trace of the ROM's SCSI time-out loop computes its own copies of the two registers.\<close>

definition timeout_phase_match :: "top \<Rightarrow> bool" where
  "timeout_phase_match t \<longleftrightarrow>
     sig8 t ''scsi.tcr'' AND 0x07 =
       on (flag t ''scsi.scsi_msg'') 4 OR on (flag t ''scsi.scsi_cd'') 2 OR on (flag t ''scsi.scsi_io'') 1"

definition timeout_bsr :: "top \<Rightarrow> u8" where
  "timeout_bsr t =
    (let scsi_icr = sig8 t ''scsi.icr''
     in on (flag t ''scsi.scsi_req'' \<and> flag t ''scsi.dma_en'') 0x40 OR on (timeout_phase_match t) 0x08 OR
        on (scsi_icr AND 0x02 \<noteq> 0) 0x02 OR on (scsi_icr AND 0x10 \<noteq> 0) 0x01)"

definition timeout_csr :: "top \<Rightarrow> u8" where
  "timeout_csr t =
    (let scsi_icr = sig8 t ''scsi.icr'';
         scsi_mr = sig8 t ''scsi.mr'';
         scsi_bsy = scsi_icr AND 0x08 \<noteq> 0 \<or> sig8 t ''scsi.target_bsy'' \<noteq> 0 \<or> scsi_mr AND 0x01 \<noteq> 0
     in on (scsi_icr AND 0x80 \<noteq> 0) 0x80 OR on scsi_bsy 0x40 OR on (flag t ''scsi.scsi_req'') 0x20 OR
        on (flag t ''scsi.scsi_msg'') 0x10 OR on (flag t ''scsi.scsi_cd'') 0x08 OR
        on (flag t ''scsi.scsi_io'') 0x04 OR on (scsi_icr AND 0x04 \<noteq> 0) 0x02)"

section \<open>Printed lines\<close>

text \<open>
  A line of a log is its leading words and its arguments, in the order of the format string. The
  numeric conversions are not modelled: an argument is the number printed, unsigned for the words
  of the machine and signed for the counters.
\<close>

datatype arg = Num int | Str string

datatype line = Line string "arg list"

abbreviation w64 :: "u64 \<Rightarrow> arg" where "w64 v \<equiv> Num (uint v)"
abbreviation w32 :: "u32 \<Rightarrow> arg" where "w32 v \<equiv> Num (uint v)"
abbreviation w16 :: "u16 \<Rightarrow> arg" where "w16 v \<equiv> Num (uint v)"
abbreviation w8 :: "u8 \<Rightarrow> arg" where "w8 v \<equiv> Num (uint v)"
abbreviation yes :: "bool \<Rightarrow> arg" where "yes c \<equiv> Num (if c then 1 else 0)"

definition regs :: "top \<Rightarrow> nat list \<Rightarrow> arg list" where
  "regs t is = map (\<lambda>i. w32 (tg68_reg t i)) is"

section \<open>Memory laws\<close>

lemma bit_on: "bit (on c v) n \<longleftrightarrow> c \<and> bit v n"
  by (simp add: on_def)

definition cell_of :: "u32 \<Rightarrow> nat option" where
  "cell_of addr = (if 0x01000000 \<le> addr then None else Some (word_index addr))"

interpretation guest_ram: word_memory ram_word ram_write_word cell_of
  by unfold_locales (auto simp: ram_word_def ram_write_word_def cell_of_def)

lemma word_index_eq: "addr < 0x01000000 \<Longrightarrow> word_index addr = unat addr div 2"
proof -
  assume a: "addr < 0x01000000"
  have m: "(0x7FFFFF :: u32) = mask 23" by (simp add: mask_eq_exp_minus_1)
  have "unat (drop_bit 1 addr AND 0x7FFFFF) = unat (take_bit 23 (drop_bit 1 addr))"
    unfolding m by (simp add: take_bit_eq_mask)
  also have "\<dots> = take_bit 23 (unat addr div 2)"
    by (simp add: unsigned_take_bit_eq drop_bit_eq_div unat_div)
  also have "\<dots> = unat addr div 2"
    using a by (intro take_bit_nat_eq_self) (simp add: word_less_nat_alt)
  finally show ?thesis by (simp add: word_index_def)
qed

text \<open>The tick counter is the long word at \<open>$016A\<close>.\<close>

lemma lowmem_tick_is_long: "lowmem_tick_016a t = ram_long t 0x016A"
  by (simp add: lowmem_tick_016a_def ram_long_def ram_word_def word_index_eq)

text \<open>Every byte is half of a word, high byte first.\<close>

lemma ram_bytes_at_even:
  assumes "even addr"
  shows ram_byte_even: "ram_byte t addr = ucast (drop_bit 8 (ram_word t addr))"
    and ram_byte_odd: "ram_byte t (addr + 1) = ucast (ram_word t addr AND 0xFF)"
proof -
  have p: "addr + 1 = addr OR 1" using assms by (simp add: or_one_eq)
  have z: "\<not> bit addr 0" using assms by (simp add: bit_0)
  have h: "bit addr n \<Longrightarrow> 0 < n" for n using z by (cases n) auto
  have e: "addr AND NOT 1 = addr" "addr AND 1 = 0" "(addr OR 1) AND NOT 1 = addr" "(addr OR 1) AND 1 = 1"
  proof -
    show "addr AND NOT 1 = addr"
      by (rule bit_word_eqI) (use z in \<open>auto simp: bit_and_iff bit_not_iff bit_1_iff intro!: gr0I\<close>)
    show "addr AND 1 = 0"
      by (rule bit_word_eqI) (use h in \<open>auto simp: bit_and_iff bit_1_iff\<close>)
    show "(addr OR 1) AND NOT 1 = addr"
      by (rule bit_word_eqI) (use h in \<open>auto simp: bit_and_iff bit_or_iff bit_not_iff bit_1_iff\<close>)
    show "(addr OR 1) AND 1 = 1"
      by (rule bit_word_eqI) (auto simp: bit_and_iff bit_or_iff bit_1_iff)
  qed
  show "ram_byte t addr = ucast (drop_bit 8 (ram_word t addr))" "ram_byte t (addr + 1) = ucast (ram_word t addr AND 0xFF)"
    unfolding ram_byte_def p e Let_def by simp_all
qed

lemma ram_byte_halves:
  assumes "even addr"
  shows "ram_word t addr = push_bit 8 (ucast (ram_byte t addr)) OR ucast (ram_byte t (addr + 1))"
proof -
  have m: "(0xFF :: u16) = mask 8" by (simp add: mask_eq_exp_minus_1)
  show ?thesis
    unfolding ram_byte_even [OF assms] ram_byte_odd [OF assms] m
    by (intro bit_word_eqI) (auto simp: bit_simps not_le)
qed

lemma phase_bits:
  "tcr AND 0x07 = on m 4 OR on c 2 OR on i 1 \<longleftrightarrow>
    drop_bit 2 tcr AND 1 = (if m then 1 else 0) \<and> drop_bit 1 tcr AND 1 = (if c then 1 else 0) \<and>
    drop_bit 0 tcr AND 1 = (if i then 1 else (0 :: u8))"
proof -
  have m3: "(0x07 :: u8) = mask 3" by (simp add: mask_eq_exp_minus_1)
  have one: "drop_bit n tcr AND 1 = (if x then 1 else (0 :: u8)) \<longleftrightarrow> bit tcr n = x" for n x
    by (cases x) (auto simp: and_one_eq bit_iff_odd_drop_bit mod2_eq_if)
  have r: "bit (on m 4 OR on c 2 OR on i (1 :: u8)) n \<longleftrightarrow> (n = 2 \<and> m) \<or> (n = 1 \<and> c) \<or> (n = 0 \<and> i)" for n
    using bit_exp_iff [where 'a = u8, of 2 n] bit_exp_iff [where 'a = u8, of 1 n]
    by (auto simp: bit_or_iff bit_on bit_1_iff)
  have eq: "x = y \<longleftrightarrow> (\<forall>n. bit x n = bit y n)" for x y :: u8
    by (auto intro: bit_word_eqI)
  have b: "bit (tcr AND 0x07) n \<longleftrightarrow> n < 3 \<and> bit tcr n" for n
    unfolding m3 by (auto simp: bit_and_iff bit_mask_iff)
  have gen: "(\<forall>n. (n < 3 \<and> P n) = Q n) = (\<forall>n<3::nat. P n = Q n)" if "\<And>n. Q n \<Longrightarrow> n < 3" for P Q
    using that by blast
  have all3: "(\<forall>n<3::nat. P n) \<longleftrightarrow> P 0 \<and> P 1 \<and> P 2" for P
    by (auto simp: less_Suc_eq numeral_3_eq_3 numeral_2_eq_2)
  have "tcr AND 0x07 = on m 4 OR on c 2 OR on i 1 \<longleftrightarrow>
      (\<forall>n. (n < 3 \<and> bit tcr n) = ((n = 2 \<and> m) \<or> (n = 1 \<and> c) \<or> (n = 0 \<and> i)))"
    unfolding eq r b ..
  also have "\<dots> \<longleftrightarrow> (\<forall>n<3. bit tcr n = ((n = 2 \<and> m) \<or> (n = 1 \<and> c) \<or> (n = 0 \<and> i)))"
    by (rule gen) auto
  also have "\<dots> \<longleftrightarrow> bit tcr 2 = m \<and> bit tcr 1 = c \<and> bit tcr 0 = i"
    unfolding all3 by simp argo
  finally show ?thesis by (simp only: one)
qed

section \<open>The search\<close>

lemma find_from_unfold:
  "find_from t bytes bound addr =
    (if unat addr \<le> bound
     then (if bytes_match t bytes addr then Some addr else find_from t bytes bound (addr + 2))
     else Some 0xFFFFFFFF)"
  by (rule find_from.simps)

lemma unat_step: "unat (a :: u32) + 2 < 2 ^ 32 \<Longrightarrow> unat (a + 2) = unat a + 2"
  using unat_add_lem [of a 2] by simp

lemma find_from_first:
  assumes "bound + 2 < 2 ^ 32" "bytes_match t bytes (a + of_nat (2 * k))" "unat a + 2 * k \<le> bound"
    and "\<forall>j<k. \<not> bytes_match t bytes (a + of_nat (2 * j))"
  shows "find_from t bytes bound a = Some (a + of_nat (2 * k))"
  using assms
proof (induction k arbitrary: a)
  case 0
  then show ?case by (simp add: find_from_unfold)
next
  case (Suc k)
  have u: "unat (a + 2) = unat a + 2" using Suc.prems by (intro unat_step) simp
  have n: "\<not> bytes_match t bytes a" using Suc.prems(4) by force
  have j: "\<forall>j<k. \<not> bytes_match t bytes (a + 2 + of_nat (2 * j))"
  proof (intro allI impI)
    fix j assume "j < k"
    then show "\<not> bytes_match t bytes (a + 2 + of_nat (2 * j))"
      using Suc.prems(4) [rule_format, of "Suc j"] by (simp add: algebra_simps)
  qed
  have "find_from t bytes bound (a + 2) = Some (a + 2 + of_nat (2 * k))"
    using Suc.prems u j by (intro Suc.IH) (simp_all add: algebra_simps)
  then show ?case
    using n Suc.prems(3) by (simp add: find_from_unfold [of t bytes bound a] algebra_simps)
qed

lemma find_from_none:
  assumes "bound + 2 < 2 ^ 32" "\<forall>k. unat a + 2 * k \<le> bound \<longrightarrow> \<not> bytes_match t bytes (a + of_nat (2 * k))"
    and "bound < unat a + 2 * n"
  shows "find_from t bytes bound a = Some 0xFFFFFFFF"
  using assms
proof (induction n arbitrary: a)
  case 0
  then show ?case by (simp add: find_from_unfold)
next
  case (Suc n)
  show ?case
  proof (cases "unat a \<le> bound")
    case True
    have u: "unat (a + 2) = unat a + 2" using Suc.prems(1) True by (intro unat_step) simp
    have n: "\<not> bytes_match t bytes a" using Suc.prems(2) [rule_format, of 0] True by simp
    have j: "\<forall>k. unat (a + 2) + 2 * k \<le> bound \<longrightarrow> \<not> bytes_match t bytes (a + 2 + of_nat (2 * k))"
    proof (intro allI impI)
      fix k assume "unat (a + 2) + 2 * k \<le> bound"
      then show "\<not> bytes_match t bytes (a + 2 + of_nat (2 * k))"
        using Suc.prems(2) [rule_format, of "Suc k"] u by (simp add: algebra_simps)
    qed
    have "find_from t bytes bound (a + 2) = Some 0xFFFFFFFF"
      using Suc.prems u j by (intro Suc.IH) simp_all
    then show ?thesis using True n by (simp add: find_from_unfold [of t bytes bound a])
  next
    case False
    then show ?thesis by (simp add: find_from_unfold)
  qed
qed

section \<open>Properties\<close>

text \<open>The byte search. It returns for every range that ends below the top of the address space, and
  what it returns is the least of the addresses \<open>start\<close>, \<open>start + 2\<close>, ... from which all the bytes
  are in RAM and inside the range, or \<open>0xFFFFFFFF\<close> when there is none.\<close>

theorem find_ram_bytes_least:
  assumes "bytes \<noteq> []" "start \<le> stop" "unat stop + 3 < 2 ^ 32"
  shows "\<exists>r. find_ram_bytes t bytes start stop = Some r \<and>
    ((\<exists>k. r = start + of_nat (2 * k) \<and> unat start + 2 * k + length bytes \<le> unat stop + 1 \<and>
        bytes_match t bytes r \<and> (\<forall>j<k. \<not> bytes_match t bytes (start + of_nat (2 * j)))) \<or>
     (r = 0xFFFFFFFF \<and> (\<forall>k. unat start + 2 * k + length bytes \<le> unat stop + 1 \<longrightarrow>
        \<not> bytes_match t bytes (start + of_nat (2 * k)))))"
proof -
  let ?in = "\<lambda>k. unat start + 2 * k + length bytes \<le> unat stop + 1"
  have le: "unat start \<le> unat stop" using assms(2) by (simp add: word_le_nat_alt)
  have "unat (stop - start) = unat stop - unat start" using assms(2) by (rule unat_sub)
  then have d: "unat (stop - start + 1) = unat stop - unat start + 1"
  proof -
    have "unat (stop - start) + unat (1 :: u32) < 2 ^ LENGTH(32)"
      using assms(3) \<open>unat (stop - start) = unat stop - unat start\<close> by simp
    then show ?thesis using \<open>unat (stop - start) = unat stop - unat start\<close> by (simp add: unat_add_lem [THEN iffD1])
  qed
  show ?thesis
  proof (cases "\<exists>k. ?in k \<and> bytes_match t bytes (start + of_nat (2 * k))")
    case True
    define k where "k = (LEAST k. ?in k \<and> bytes_match t bytes (start + of_nat (2 * k)))"
    have k: "?in k" "bytes_match t bytes (start + of_nat (2 * k))"
      using LeastI_ex [OF True] by (simp_all add: k_def)
    have less: "\<forall>j<k. \<not> bytes_match t bytes (start + of_nat (2 * j))"
    proof (intro allI impI)
      fix j assume j: "j < k"
      then have "?in j" using k(1) by simp
      with not_less_Least [OF j [unfolded k_def]] show "\<not> bytes_match t bytes (start + of_nat (2 * j))" by simp
    qed
    have len: "length bytes \<le> unat (stop - start + 1)" "length bytes \<le> unat stop + 1"
      unfolding d using k(1) le by simp_all
    have "find_from t bytes (unat stop + 1 - length bytes) start = Some (start + of_nat (2 * k))"
      by (rule find_from_first) (use assms k less len in simp_all)
    then have "find_ram_bytes t bytes start stop = Some (start + of_nat (2 * k))"
      using assms(1) assms(2) [THEN leD] len by (simp add: find_ram_bytes_def)
    then show ?thesis using k less by blast
  next
    case False
    have "find_ram_bytes t bytes start stop = Some 0xFFFFFFFF"
    proof (cases "unat (stop - start + 1) < length bytes")
      case True
      then show ?thesis by (simp add: find_ram_bytes_def)
    next
      case len: False
      then have l: "length bytes \<le> unat stop + 1" unfolding d using le by simp
      have "find_from t bytes (unat stop + 1 - length bytes) start = Some 0xFFFFFFFF"
        by (rule find_from_none [of _ _ _ _ "2 ^ 31"]) (use assms False l in \<open>auto simp: le_diff_conv2\<close>)
      then show ?thesis by (simp add: find_ram_bytes_def)
    qed
    then show ?thesis using False by blast
  qed
qed

theorem find_ram_bytes_least_witness:
  "find_ram_bytes \<lparr>sig = (\<lambda>_. 0), ram = (\<lambda>i. if i = 2 then 0x4C4B else 0), regfile_n1 = (\<lambda>_. 0), regfile_n2 = (\<lambda>_. 0)\<rparr>
     [0x4C, 0x4B] 0 8 = Some 4"
proof -
  let ?t = "\<lparr>sig = (\<lambda>_. 0), ram = (\<lambda>i. if i = 2 then 0x4C4B else 0), regfile_n1 = (\<lambda>_. 0), regfile_n2 = (\<lambda>_. 0)\<rparr> :: top"
  have m: "bytes_match ?t [0x4C, 0x4B] 4" "\<not> bytes_match ?t [0x4C, 0x4B] 0" "\<not> bytes_match ?t [0x4C, 0x4B] 2"
    "\<not> bytes_match ?t [0x4C, 0x4B] 6"
    by (simp_all add: bytes_match_def ram_byte_def ram_word_def word_index_def)
  obtain r where r: "find_ram_bytes ?t [0x4C, 0x4B] 0 8 = Some r"
    "(\<exists>k. r = of_nat (2 * k) \<and> 2 * k + 2 \<le> 9 \<and> bytes_match ?t [0x4C, 0x4B] r \<and>
        (\<forall>j<k. \<not> bytes_match ?t [0x4C, 0x4B] (of_nat (2 * j)))) \<or>
     (\<forall>k. 2 * k + 2 \<le> 9 \<longrightarrow> \<not> bytes_match ?t [0x4C, 0x4B] (of_nat (2 * k)))"
    using find_ram_bytes_least [of "[0x4C, 0x4B]" 0 8 ?t] by auto
  from r(2) show ?thesis
  proof
    assume "\<exists>k. r = of_nat (2 * k) \<and> 2 * k + 2 \<le> 9 \<and> bytes_match ?t [0x4C, 0x4B] r \<and>
        (\<forall>j<k. \<not> bytes_match ?t [0x4C, 0x4B] (of_nat (2 * j)))"
    then obtain k where k: "r = of_nat (2 * k)" "2 * k + 2 \<le> 9" "bytes_match ?t [0x4C, 0x4B] r" by blast
    from k(2) have "k = 0 \<or> k = 1 \<or> k = 2 \<or> k = 3" by auto
    with k m r(1) show ?thesis by auto
  next
    assume "\<forall>k. 2 * k + 2 \<le> 9 \<longrightarrow> \<not> bytes_match ?t [0x4C, 0x4B] (of_nat (2 * k))"
    from this [rule_format, of 2] m show ?thesis by simp
  qed
qed

text \<open>The two copies of the SCSI status registers. The trace of the ROM's time-out loop prints under
  the same names as the other traces the same control and status bits except the busy bit while the
  empty CD drive is selected, and the same bus status except the phase-mismatch interrupt and the
  acknowledge driven by the DMA engine.\<close>

theorem timeout_registers_differ:
  "timeout_csr t OR on (flag t ''scsi.empty_cd.phase'') 0x40 = scsi_debug_csr t \<and>
   timeout_bsr t OR on (flag t ''scsi.scsi_req'' \<and> flag t ''scsi.dma_en'' \<and> \<not> scsi_debug_pmatch t) 0x10 OR
     on (flag t ''scsi.dma_ack'') 0x01 = scsi_debug_bsr t"
proof -
  have p: "timeout_phase_match t = scsi_debug_pmatch t"
    unfolding timeout_phase_match_def scsi_debug_pmatch_def Let_def
    by (rule phase_bits)
  have i: "bit (on c v OR on d v) n \<longleftrightarrow> bit (on (c \<or> d) v) n" for c d v n by (auto simp: bit_on bit_or_iff)
  have "timeout_csr t OR on (flag t ''scsi.empty_cd.phase'') 0x40 = scsi_debug_csr t"
    unfolding timeout_csr_def scsi_debug_csr_def Let_def
    by (rule bit_word_eqI) (simp only: bit_or_iff bit_on, argo)
  moreover have "timeout_bsr t OR on (flag t ''scsi.scsi_req'' \<and> flag t ''scsi.dma_en'' \<and> \<not> scsi_debug_pmatch t) 0x10 OR
     on (flag t ''scsi.dma_ack'') 0x01 = scsi_debug_bsr t"
    unfolding timeout_bsr_def scsi_debug_bsr_def p Let_def
    by (rule bit_word_eqI) (simp only: bit_or_iff bit_on, argo)
  ultimately show ?thesis by simp
qed

end
