(* ===== verification/Trace.thy ===== *)
theory Trace
  imports GuestMem DasmStub
begin

text \<open>
  The instruction history and the processor trace of \<open>src/verilator/sim_main.cpp\<close>: the ring of the
  last 512 fetches and the probes that dump it (\<open>record_bootmask_history\<close>, \<open>boot_decision_pc\<close>,
  \<open>bootmask_once_pc\<close>, \<open>scsi_transition_pc\<close>, \<open>late_adb_pc\<close>, their \<open>print_\<close> functions and their
  places in \<open>verilate\<close>), and the fetch buffer that turns the stream of code words into instructions
  by asking the disassembler for each instruction's length.
\<close>

section \<open>The history ring\<close>

definition BOOTMASK_HISTORY_SIZE :: nat where "BOOTMASK_HISTORY_SIZE = 512"

record history_entry =
  h_pc :: u32
  h_op :: u16
  h_frame :: int
  h_tick :: u32
  h_d :: "u32 list"  \<comment> \<open>d0 to d6\<close>
  h_a :: "u32 list"  \<comment> \<open>a0 to a4\<close>
  h_sp :: u32
  h_ret :: u32

record history =
  bootmask_history :: "history_entry list"
  bootmask_history_pos :: nat
  bootmask_history_count :: nat
  bootmask_history_last_pc :: u32

definition history_init :: "history_entry \<Rightarrow> history" where
  "history_init blank = \<lparr>bootmask_history = replicate BOOTMASK_HISTORY_SIZE blank, bootmask_history_pos = 0,
     bootmask_history_count = 0, bootmask_history_last_pc = 0xFFFFFFFF\<rparr>"

definition history_entry_of :: "top \<Rightarrow> int \<Rightarrow> u32 \<Rightarrow> history_entry" where
  "history_entry_of t frame pc =
    (let sp = tg68_reg t 15 in
     \<lparr>h_pc = pc, h_op = sig16 t ''debug_opcode'', h_frame = frame, h_tick = lowmem_tick_016a t,
      h_d = map (tg68_reg t) [0, 1, 2, 3, 4, 5, 6], h_a = map (tg68_reg t) [8, 9, 10, 11, 12],
      h_sp = sp, h_ret = ram_long t sp\<rparr>)"

definition store_entry :: "history_entry \<Rightarrow> history \<Rightarrow> history" where
  "store_entry e h =
    (let h = h\<lparr>bootmask_history := (bootmask_history h)[bootmask_history_pos h := e],
               bootmask_history_pos := (bootmask_history_pos h + 1) mod BOOTMASK_HISTORY_SIZE\<rparr> in
     if bootmask_history_count h < BOOTMASK_HISTORY_SIZE
     then h\<lparr>bootmask_history_count := bootmask_history_count h + 1\<rparr> else h)"

definition record_bootmask_history :: "top \<Rightarrow> int \<Rightarrow> u32 \<Rightarrow> history \<Rightarrow> history" where
  "record_bootmask_history t frame pc h =
    (if pc = bootmask_history_last_pc h then h
     else store_entry (history_entry_of t frame pc) (h\<lparr>bootmask_history_last_pc := pc\<rparr>))"

text \<open>The loop that every dump uses: \<open>first\<close> is made non-negative once, then the index wraps.\<close>

definition history_dump :: "history \<Rightarrow> history_entry list" where
  "history_dump h =
    (let first = int (bootmask_history_pos h) - int (bootmask_history_count h);
         first = (if first < 0 then first + int BOOTMASK_HISTORY_SIZE else first)
     in map (\<lambda>i. bootmask_history h ! nat ((first + int i) mod int BOOTMASK_HISTORY_SIZE))
          [0..<bootmask_history_count h])"

definition print_history :: "string \<Rightarrow> history \<Rightarrow> line list" where
  "print_history tag h =
    map (\<lambda>(i, e). Line tag ([Num (int i), Num (h_frame e), w32 (h_tick e), w32 (h_pc e), w16 (h_op e)] @
        map w32 (h_d e) @ map w32 (h_a e) @ [w32 (h_sp e), w32 (h_ret e)]))
      (enumerate 0 (history_dump h))"

section \<open>The probes\<close>

definition boot_decision_pcs :: "u32 list" where
  "boot_decision_pcs =
    [0x408015EA, 0x40801600, 0x4080174E, 0x408017CC, 0x408061E4, 0x408061EE, 0x408061F2, 0x408061F4,
     0x408061F6, 0x408061FA, 0x40806200, 0x40806208, 0x40806218, 0x4080622C, 0x40806260, 0x40806274,
     0x40806278, 0x40806282, 0x40806284, 0x40807AD4, 0x40807ADC, 0x40807AE0, 0x40807AE6, 0x40807AE8,
     0x40807AEC, 0x40807AF2, 0x40807AF4, 0x40807AF6, 0x40807AF8, 0x40807B08, 0x40807B22, 0x40807B26,
     0x40807B76, 0x40807B7A, 0x40807B8A, 0x40807B8E, 0x40807C20, 0x40807C26, 0x40807C28, 0x40807C48,
     0x40807C4E, 0x40807C50, 0x40807C78, 0x40807CA2, 0x40807CA4, 0x40807CAE, 0x40807CB0, 0x40807CC0,
     0x40807CC2, 0x40807CDC, 0x40807CF2, 0x40807D18, 0x40807D1C, 0x4080DBE8, 0x4080DC00, 0x4080DC20,
     0x4080DC84, 0x4080DC88, 0x4080DC8E, 0x408266A4, 0x4082672A, 0x40826756, 0x4082675E, 0x40826762,
     0x40826764, 0x40826768, 0x4082682C, 0x40826832, 0x40826850, 0x40826870, 0x40826874, 0x408268CC,
     0x40826970, 0x40826976, 0x40826986, 0x40826CB6, 0x40826CD4, 0x0082E80C, 0x0082E950, 0x0082E96E]"

definition boot_decision_pc :: "u32 \<Rightarrow> bool" where
  "boot_decision_pc pc \<longleftrightarrow> pc \<in> set boot_decision_pcs"

definition bootmask_once_pc :: "top \<Rightarrow> u32 \<Rightarrow> bool" where
  "bootmask_once_pc t pc \<longleftrightarrow>
    (let ret = ram_long t (tg68_reg t 15) in
     (0x40807AD4 \<le> pc \<and> pc \<le> 0x40807D20) \<or> (0x408266A4 \<le> pc \<and> pc \<le> 0x408266CC) \<or>
     (0x40826756 \<le> pc \<and> pc \<le> 0x40826990) \<or>
     ((0x40826CB6 \<le> pc \<and> pc \<le> 0x40826CD4) \<and> ret = 0x40826976))"

definition scsi_transition_pc :: "int \<Rightarrow> int \<Rightarrow> top \<Rightarrow> u32 \<Rightarrow> bool" where
  "scsi_transition_pc min_frame frame t pc \<longleftrightarrow>
    (let ret = ram_long t (tg68_reg t 15) in
     min_frame \<le> frame \<and>
     ((0x408266A4 \<le> pc \<and> pc \<le> 0x408266CC) \<or> (0x4082682C \<le> pc \<and> pc \<le> 0x40826990) \<or>
      ((0x40826CB6 \<le> pc \<and> pc \<le> 0x40826CD4) \<and> ret = 0x40826976)))"

definition late_adb_pc :: "int \<Rightarrow> int \<Rightarrow> u32 \<Rightarrow> bool" where
  "late_adb_pc min_frame frame pc \<longleftrightarrow> min_frame \<le> frame \<and>
    (pc = 0x4080DD52 \<or> pc = 0x4080DD78 \<or> pc = 0x4080DD82 \<or> pc = 0x4080DD8E \<or> pc = 0x4080DDD6 \<or> pc = 0x4080DE32)"

text \<open>What a triggered probe prints: its own line, the size of the history, the history.\<close>

definition probe_head :: "top \<Rightarrow> int \<Rightarrow> u64 \<Rightarrow> u32 \<Rightarrow> arg list" where
  "probe_head t frame time pc =
    [Num frame, w32 (lowmem_tick_016a t), w64 time, w32 pc, w16 (sig16 t ''debug_opcode'')] @ regs t [0..<16]"

definition print_bootmask_once_debug :: "top \<Rightarrow> int \<Rightarrow> u64 \<Rightarrow> u32 \<Rightarrow> history \<Rightarrow> line list" where
  "print_bootmask_once_debug t frame time pc h =
    Line ''BOOTMASK_ONCE trigger'' (probe_head t frame time pc @
      [w32 (ram_long t (tg68_reg t 15)), w8 (ram_byte t 0x0B22), w8 (ram_byte t 0x0B2E), w8 (ram_byte t 0x0C2F),
       w16 (ram_word t 0x017A), w16 (ram_word t 0x0D00), w16 (ram_word t 0x0DA6),
       w32 (ram_long t 0x08EE), w32 (ram_long t 0x0D10), w32 (ram_long t 0x0D14), w32 (ram_long t 0x030A)]) #
    Line ''BOOTMASK_ONCE history'' [Num (int (bootmask_history_count h))] # print_history ''BOOTMASK_HIST'' h"

definition print_scsi_transition_debug :: "top \<Rightarrow> int \<Rightarrow> u64 \<Rightarrow> u32 \<Rightarrow> history \<Rightarrow> line list" where
  "print_scsi_transition_debug t frame time pc h =
    (let q = ram_long t 0x030A in
    Line ''SCSI_TRANSITION trigger'' (probe_head t frame time pc @
      [w32 (ram_long t (tg68_reg t 15)), w16 (ram_word t 0x017A), w8 (ram_byte t 0x0B22), w8 (ram_byte t 0x0B2E),
       w8 (ram_byte t 0x0C2F), w16 (ram_word t 0x0D00), w16 (ram_word t 0x0DA6),
       w32 (ram_long t 0x08EE), w32 (ram_long t 0x0D10), w32 (ram_long t 0x0D14), w32 q,
       w32 (ram_long t q), w16 (ram_word t (q + 0x04)), w16 (ram_word t (q + 0x06)), w16 (ram_word t (q + 0x08)),
       w16 (ram_word t (q + 0x0A)), w32 (ram_long t (q + 0x0C)),
       w8 (sig8 t ''scsi.mr''), w8 (sig8 t ''scsi.icr''), w8 (sig8 t ''scsi.tcr''), w8 (sig8 t ''scsi.dout''),
       w8 (sig8 t ''scsi.din''), yes (flag t ''scsi.scsi_req''), w8 (sig8 t ''scsi.target_bsy''),
       w8 (sig8 t ''scsi.target_req'')]) #
    Line ''SCSI_TRANSITION history'' [Num (int (bootmask_history_count h))] #
    print_history ''SCSI_TRANSITION_HIST'' h)"

definition print_late_adb_debug :: "top \<Rightarrow> int \<Rightarrow> u64 \<Rightarrow> u32 \<Rightarrow> history \<Rightarrow> line list" where
  "print_late_adb_debug t frame time pc h =
    (let sp = tg68_reg t 15 in
    Line ''LATE_ADB trigger'' (probe_head t frame time pc @
      [w32 (ram_long t sp), w16 (ram_word t (sp + 0)), w16 (ram_word t (sp + 2)), w16 (ram_word t (sp + 4)),
       w16 (ram_word t (sp + 6)), w32 (ram_long t 0x054C), w8 (ram_byte t 0x0B22), w8 (ram_byte t 0x0B2E),
       w8 (ram_byte t 0x0C2F), w16 (ram_word t 0x017A), w32 (ram_long t 0x030A), w32 (ram_long t 0x0D10),
       w32 (ram_long t 0x0D14),
       w8 (sig8 t ''via.pio_i_prb''), w8 (sig8 t ''via.pio_i_ddrb''), w8 (sig8 t ''via.irq_flags''),
       w8 (sig8 t ''via.irq_mask''), w8 (sig8 t ''via.acr''), w8 (sig8 t ''via.pcr''), w8 (sig8 t ''via.shift_reg'')]) #
    Line ''LATE_ADB history'' [Num (int (bootmask_history_count h))] # print_history ''LATE_ADB_HIST'' h)"

text \<open>
  The four users of the ring in \<open>verilate\<close>, in its order: the stall detector, which counts the
  consecutive fetches with the SCSI data request pending, and the three one-shot probes.
\<close>

record probes =
  scsi_stall_history_enable :: bool
  scsi_stall_dreq_run :: u32
  scsi_stall_dumped :: bool
  bootmask_once_debug_enable :: bool
  bootmask_once_stop_requested :: bool
  scsi_transition_debug_enable :: bool
  scsi_transition_stop_requested :: bool
  scsi_transition_debug_min_frame :: int
  late_adb_debug_enable :: bool
  late_adb_stop_requested :: bool
  late_adb_debug_min_frame :: int
  hist :: history

definition probes_init :: "history_entry \<Rightarrow> probes" where
  "probes_init blank =
    \<lparr>scsi_stall_history_enable = False, scsi_stall_dreq_run = 0, scsi_stall_dumped = False,
     bootmask_once_debug_enable = False, bootmask_once_stop_requested = False,
     scsi_transition_debug_enable = False, scsi_transition_stop_requested = False,
     scsi_transition_debug_min_frame = 430, late_adb_debug_enable = False, late_adb_stop_requested = False,
     late_adb_debug_min_frame = 420, hist = history_init blank\<rparr>"

definition print_stall :: "int \<Rightarrow> u32 \<Rightarrow> history \<Rightarrow> line list" where
  "print_stall frame pc h =
    Line ''SCSI_STALL_HISTORY trigger'' [Num frame, w32 pc] #
    map (\<lambda>(i, e). Line ''STALLHIST'' [Num (int i), Num (h_frame e), w32 (h_pc e), w16 (h_op e), w32 (h_d e ! 0),
        w32 (h_d e ! 1), w32 (h_d e ! 5), w32 (h_a e ! 2), w32 (h_a e ! 3), w32 (h_a e ! 4), w32 (h_sp e), w32 (h_ret e)])
      (enumerate 0 (history_dump h))"

definition stall_probe :: "top \<Rightarrow> int \<Rightarrow> u32 \<Rightarrow> probes \<Rightarrow> probes \<times> line list" where
  "stall_probe t frame pc p =
    (if scsi_stall_history_enable p \<and> \<not> scsi_stall_dumped p
     then let p = p\<lparr>hist := record_bootmask_history t frame pc (hist p)\<rparr> in
       if flag t ''scsiDREQ''
       then let p = p\<lparr>scsi_stall_dreq_run := scsi_stall_dreq_run p + 1\<rparr> in
         (if 400000 \<le> scsi_stall_dreq_run p
          then (p\<lparr>scsi_stall_dumped := True\<rparr>, print_stall frame pc (hist p)) else (p, []))
       else (p\<lparr>scsi_stall_dreq_run := 0\<rparr>, [])
     else (p, []))"

definition bootmask_once_probe :: "top \<Rightarrow> int \<Rightarrow> u64 \<Rightarrow> u32 \<Rightarrow> probes \<Rightarrow> probes \<times> line list" where
  "bootmask_once_probe t frame time pc p =
    (if bootmask_once_debug_enable p \<and> \<not> bootmask_once_stop_requested p
     then let p = p\<lparr>hist := record_bootmask_history t frame pc (hist p)\<rparr> in
       if bootmask_once_pc t pc
       then (p\<lparr>bootmask_once_stop_requested := True\<rparr>, print_bootmask_once_debug t frame time pc (hist p)) else (p, [])
     else (p, []))"

definition scsi_transition_probe :: "top \<Rightarrow> int \<Rightarrow> u64 \<Rightarrow> u32 \<Rightarrow> probes \<Rightarrow> probes \<times> line list" where
  "scsi_transition_probe t frame time pc p =
    (if scsi_transition_debug_enable p \<and> \<not> scsi_transition_stop_requested p
     then let p = p\<lparr>hist := record_bootmask_history t frame pc (hist p)\<rparr> in
       if scsi_transition_pc (scsi_transition_debug_min_frame p) frame t pc
       then (p\<lparr>scsi_transition_stop_requested := True\<rparr>, print_scsi_transition_debug t frame time pc (hist p)) else (p, [])
     else (p, []))"

definition late_adb_probe :: "top \<Rightarrow> int \<Rightarrow> u64 \<Rightarrow> u32 \<Rightarrow> probes \<Rightarrow> probes \<times> line list" where
  "late_adb_probe t frame time pc p =
    (if late_adb_debug_enable p \<and> \<not> late_adb_stop_requested p
     then let p = p\<lparr>hist := record_bootmask_history t frame pc (hist p)\<rparr> in
       if late_adb_pc (late_adb_debug_min_frame p) frame pc
       then (p\<lparr>late_adb_stop_requested := True\<rparr>, print_late_adb_debug t frame time pc (hist p)) else (p, [])
     else (p, []))"

definition run_probes :: "top \<Rightarrow> int \<Rightarrow> u64 \<Rightarrow> u32 \<Rightarrow> probes \<Rightarrow> probes \<times> line list" where
  "run_probes t frame time pc p =
    (let (p, l1) = stall_probe t frame pc p;
         (p, l2) = bootmask_once_probe t frame time pc p;
         (p, l3) = scsi_transition_probe t frame time pc p;
         (p, l4) = late_adb_probe t frame time pc p
     in (p, l1 @ l2 @ l3 @ l4))"

section \<open>The processor trace\<close>

text \<open>
  Only code fetches at a new address are considered. Consecutive ones are buffered; a fetch that
  does not follow the last one flushes the buffer as a chain of instructions, and a ninth
  consecutive fetch emits the oldest instruction. \<open>fetch_buf\<close> is the filled part of the array.
\<close>

record fetch_entry =
  fe_pc :: u32
  fe_word :: u16
  fe_fc :: u8

definition FETCH_BUF_SIZE :: nat where "FETCH_BUF_SIZE = 8"
definition cpu_trace_max :: int where "cpu_trace_max = 0"

definition fc_name_for :: "u8 \<Rightarrow> string" where
  "fc_name_for fc = (if fc = 6 then ''SP'' else if fc = 5 then ''SD'' else if fc = 2 then ''UP'' else if fc = 1 then ''UD'' else ''??'')"

record cpu_trace =
  cpu_trace_enable :: bool
  cpu_trace_file :: bool  \<comment> \<open>open\<close>
  cpu_trace_count :: int
  cpu_trace_min_frame :: int
  cpu_trace_last_pc :: u32
  fetch_buf :: "fetch_entry list"
  fetch_count :: nat

definition cpu_trace_init :: cpu_trace where
  "cpu_trace_init = \<lparr>cpu_trace_enable = True, cpu_trace_file = False, cpu_trace_count = 0, cpu_trace_min_frame = 0,
     cpu_trace_last_pc = 0xFFFFFFFF, fetch_buf = [], fetch_count = 0\<rparr>"

text \<open>The disassembly of the instruction at the head of the buffer: text and length in words.\<close>

definition opwords_of :: "fetch_entry list \<Rightarrow> u16 list" where
  "opwords_of es = map fe_word (take 5 es) @ replicate (5 - length es) 0"

definition decode :: "raw_dasm \<Rightarrow> fetch_entry list \<Rightarrow> int \<Rightarrow> string \<times> nat" where
  "decode raw es avail =
    (let (text, len) = disassemble_68k_ext_len raw (fe_pc (hd es)) (opwords_of es) avail;
         len = (if len < 2 then 2 else len)
     in (text, unat len div 2))"

lemma decode_pos: "0 < snd (decode raw es n)"
  by (auto simp: decode_def Let_def split_beta word_less_nat_alt div_greater_zero_iff not_less)

function flush_fetches :: "raw_dasm \<Rightarrow> fetch_entry list \<Rightarrow> (fetch_entry \<times> string) list" where
  "flush_fetches raw es =
    (if es = [] then []
     else let (text, words) = decode raw es (int (length es)) in (hd es, text) # flush_fetches raw (drop words es))"
  by auto
termination
proof (relation "measure (length \<circ> snd)", goal_cases)
  case 1
  then show ?case by simp
next
  case (2 raw es x s words)
  have "0 < words" using decode_pos [of raw es "int (length es)"] 2(2,3) by (metis snd_conv)
  then show ?case using 2 by simp
qed

declare flush_fetches.simps [simp del]

definition emit_oldest :: "raw_dasm \<Rightarrow> fetch_entry list \<Rightarrow> (fetch_entry \<times> string) \<times> fetch_entry list" where
  "emit_oldest raw es =
    (let (text, words) = decode raw es 5;
         words = (if FETCH_BUF_SIZE < words then FETCH_BUF_SIZE else words)
     in ((hd es, text), drop words es))"

text \<open>One fetch at a new address: what is emitted, and the trace afterwards.\<close>

definition buffer_fetch :: "raw_dasm \<Rightarrow> fetch_entry \<Rightarrow> cpu_trace \<Rightarrow> cpu_trace \<times> (fetch_entry \<times> string) list" where
  "buffer_fetch raw e s =
    (let s = s\<lparr>cpu_trace_last_pc := fe_pc e\<rparr>;
         sequential = (fetch_buf s \<noteq> [] \<and> fe_pc e = fe_pc (last (fetch_buf s)) + 2);
         (buf, out1) = (if \<not> sequential \<and> fetch_buf s \<noteq> [] then ([], flush_fetches raw (fetch_buf s)) else (fetch_buf s, []));
         (buf, out2) = (if length buf < FETCH_BUF_SIZE then (buf @ [e], [])
                        else let (o1, rest) = emit_oldest raw buf in (rest @ [e], [o1]));
         s = s\<lparr>fetch_buf := buf, cpu_trace_count := cpu_trace_count s + int (length (out1 @ out2))\<rparr>;
         s = (if 0 < cpu_trace_max \<and> cpu_trace_max \<le> cpu_trace_count s \<and> cpu_trace_file s
              then s\<lparr>cpu_trace_file := False\<rparr> else s)
     in (s, out1 @ out2))"

text \<open>
  The trace in \<open>verilate\<close>: nothing during a download or before the chosen frame; the first twenty
  fetches also print a line of bus state.
\<close>

definition cpu_trace_step :: "raw_dasm \<Rightarrow> top \<Rightarrow> int \<Rightarrow> bool \<Rightarrow> cpu_trace \<Rightarrow> cpu_trace \<times> line list \<times> (fetch_entry \<times> string) list" where
  "cpu_trace_step raw t frame ioctl_download s =
    (if cpu_trace_enable s \<and> flag t ''debug_fetch_valid'' \<and> \<not> ioctl_download \<and> cpu_trace_min_frame s \<le> frame
     then let pc = sig32 t ''debug_pc''; opcode = sig16 t ''debug_opcode''; fc = sig8 t ''debug_fc'';
              lines = (if fetch_count s < 20
                then [Line ''FETCH'' [Num (int (fetch_count s)), w32 pc, w16 opcode, w32 (sig32 t ''debug_cpuAddr''), Num 0,
                  w32 (sig32 t ''debug_ram_addr''), w16 (sig16 t ''debug_ram_dout''), yes (flag t ''debug_selectROM''),
                  yes (flag t ''debug_selectRAM''), yes (flag t ''debug_memoryOverlayOn'')]] else []);
              s = (if fetch_count s < 20 then s\<lparr>fetch_count := fetch_count s + 1\<rparr> else s);
              (s, out) = (if pc \<noteq> cpu_trace_last_pc s then buffer_fetch raw \<lparr>fe_pc = pc, fe_word = opcode, fe_fc = fc\<rparr> s else (s, []))
          in (s, lines, out)
     else (s, [], []))"

text \<open>How an emitted instruction is written to the console and, when the file is open, to the file.\<close>

definition console_line :: "fetch_entry \<times> string \<Rightarrow> arg list" where
  "console_line o1 = (case o1 of (e, text) \<Rightarrow> [w32 (fe_pc e), w16 (fe_word e), Str text])"

definition file_line :: "fetch_entry \<times> string \<Rightarrow> arg list" where
  "file_line o1 = (case o1 of (e, text) \<Rightarrow> [Str (fc_name_for (fe_fc e)), w32 (fe_pc e), w16 (fe_word e), Str text])"

section \<open>The ring keeps the newest entries\<close>

definition ring_ok :: "history \<Rightarrow> bool" where
  "ring_ok h \<longleftrightarrow> length (bootmask_history h) = 512 \<and> bootmask_history_pos h < 512 \<and> bootmask_history_count h \<le> 512 \<and>
     (bootmask_history_count h < 512 \<longrightarrow> bootmask_history_pos h = bootmask_history_count h)"

lemma dump_filling:
  assumes "ring_ok h" "bootmask_history_count h < 512"
  shows "history_dump h = take (bootmask_history_count h) (bootmask_history h)"
  using assms
  by (intro nth_equalityI)
    (simp_all add: ring_ok_def history_dump_def BOOTMASK_HISTORY_SIZE_def Let_def nat_mod_as_int [symmetric] flip: of_nat_mod)

lemma dump_full:
  assumes "ring_ok h" "bootmask_history_count h = 512"
  shows "history_dump h = map (\<lambda>i. bootmask_history h ! ((bootmask_history_pos h + i) mod 512)) [0..<512]"
proof -
  have "nat ((int (bootmask_history_pos h) + int i) mod 512) = (bootmask_history_pos h + i) mod 512" for i
    by (simp add: nat_mod_distrib nat_add_distrib)
  then show ?thesis
    using assms by (auto simp: ring_ok_def history_dump_def BOOTMASK_HISTORY_SIZE_def Let_def)
qed

lemma store_filling:
  assumes "ring_ok h" "bootmask_history_count h < 512"
  shows "ring_ok (store_entry e h) \<and> history_dump (store_entry e h) = history_dump h @ [e]"
proof -
  let ?n = "bootmask_history_count h"
  have pos: "bootmask_history_pos h = ?n" "length (bootmask_history h) = 512"
    using assms by (auto simp: ring_ok_def)
  show ?thesis
  proof (cases "?n + 1 < 512")
    case True
    have ok: "ring_ok (store_entry e h)"
      using assms True pos by (simp add: ring_ok_def store_entry_def Let_def BOOTMASK_HISTORY_SIZE_def)
    have "history_dump (store_entry e h) = take (?n + 1) ((bootmask_history h)[?n := e])"
      using dump_filling [OF ok] True pos by (simp add: store_entry_def Let_def BOOTMASK_HISTORY_SIZE_def)
    then show ?thesis
      using ok dump_filling [OF assms] assms(2) pos by (simp add: take_Suc_conv_app_nth)
  next
    case False
    then have n: "?n = 511" using assms(2) by simp
    have ok: "ring_ok (store_entry e h)"
      using assms n pos by (simp add: ring_ok_def store_entry_def Let_def BOOTMASK_HISTORY_SIZE_def)
    have "history_dump (store_entry e h) = map (\<lambda>i. (bootmask_history h)[511 := e] ! i) [0..<512]"
      using dump_full [OF ok] n pos by (simp add: store_entry_def Let_def BOOTMASK_HISTORY_SIZE_def)
    also have "\<dots> = (bootmask_history h)[511 := e]"
      using pos(2) by (intro nth_equalityI) simp_all
    also have "\<dots> = take 511 (bootmask_history h) @ [e]"
      using pos(2) by (simp add: upd_conv_take_nth_drop)
    finally show ?thesis using ok dump_filling [OF assms] n by simp
  qed
qed

lemma store_full:
  assumes "ring_ok h" "bootmask_history_count h = 512"
  shows "ring_ok (store_entry e h) \<and> history_dump (store_entry e h) = tl (history_dump h) @ [e]"
proof -
  let ?p = "bootmask_history_pos h"
  have p: "?p < 512" "length (bootmask_history h) = 512" using assms by (auto simp: ring_ok_def)
  have ok: "ring_ok (store_entry e h)"
    using assms by (simp add: ring_ok_def store_entry_def Let_def BOOTMASK_HISTORY_SIZE_def)
  have "history_dump (store_entry e h) =
      map (\<lambda>i. (bootmask_history h)[?p := e] ! (((?p + 1) mod 512 + i) mod 512)) [0..<512]"
    using dump_full [OF ok] assms(2) by (simp add: store_entry_def Let_def BOOTMASK_HISTORY_SIZE_def)
  also have "\<dots> = tl (map (\<lambda>i. bootmask_history h ! ((?p + i) mod 512)) [0..<512]) @ [e]"
  proof (rule nth_equalityI)
    fix i assume "i < length (map (\<lambda>i. (bootmask_history h)[?p := e] ! (((?p + 1) mod 512 + i) mod 512)) [0..<512])"
    then have i: "i < 512" by simp
    have m: "((?p + 1) mod 512 + i) mod 512 = (?p + (i + 1)) mod 512" 
      using mod_add_left_eq [of "?p + 1" 512 i] by (simp add: algebra_simps)
    show "map (\<lambda>i. (bootmask_history h)[?p := e] ! (((?p + 1) mod 512 + i) mod 512)) [0..<512] ! i =
        (tl (map (\<lambda>i. bootmask_history h ! ((?p + i) mod 512)) [0..<512]) @ [e]) ! i"
    proof (cases "i = 511")
      case True
      then show ?thesis using p m by (simp add: nth_append)
    next
      case False
      then have "(?p + (i + 1)) mod 512 \<noteq> ?p"
        using i p(1) by (cases "?p + (i + 1) < 512") (auto simp: mod_if [of _ "512 :: nat"])
      then show ?thesis using i False p m by (simp add: nth_append nth_tl)
    qed
  qed simp
  finally show ?thesis using ok dump_full [OF assms] by simp
qed

lemma length_dump: "length (history_dump h) = bootmask_history_count h"
  by (simp add: history_dump_def Let_def)

interpretation history_ring: bounded_log store_entry history_dump ring_ok 512
proof
  fix h :: history and e assume ok: "ring_ok h"
  have "ring_ok (store_entry e h) \<and> history_dump (store_entry e h) = keep_last 512 (history_dump h @ [e])"
  proof (cases "bootmask_history_count h < 512")
    case True
    then show ?thesis using store_filling [OF ok True, of e] length_dump [of h] by simp
  next
    case False
    then have n: "bootmask_history_count h = 512" using ok by (simp add: ring_ok_def)
    then have "keep_last 512 (history_dump h @ [e]) = tl (history_dump h) @ [e]"
      using length_dump [of h] by (simp add: keep_last_def drop_Suc)
    then show ?thesis using store_full [OF ok n, of e] by simp
  qed
  then show "ring_ok (store_entry e h)" "history_dump (store_entry e h) = keep_last 512 (history_dump h @ [e])"
    by simp_all
qed simp

text \<open>The fetches that are recorded: those at another address than the fetch before.\<close>

type_synonym fetch = "top \<times> int \<times> u32"

fun fresh :: "u32 \<Rightarrow> fetch list \<Rightarrow> fetch list" where
  "fresh last_pc [] = []"
| "fresh last_pc ((t, frame, pc) # xs) =
     (if pc = last_pc then fresh last_pc xs else (t, frame, pc) # fresh pc xs)"

definition entry_of :: "fetch \<Rightarrow> history_entry" where
  "entry_of x = (case x of (t, frame, pc) \<Rightarrow> history_entry_of t frame pc)"

definition record_fetch :: "fetch \<Rightarrow> history \<Rightarrow> history" where
  "record_fetch x h = (case x of (t, frame, pc) \<Rightarrow> record_bootmask_history t frame pc h)"

lemma ring_last_pc [simp]:
  "ring_ok (h\<lparr>bootmask_history_last_pc := pc\<rparr>) = ring_ok h"
  "history_dump (h\<lparr>bootmask_history_last_pc := pc\<rparr>) = history_dump h"
  "bootmask_history_last_pc (store_entry e h) = bootmask_history_last_pc h"
  by (simp_all add: ring_ok_def history_dump_def store_entry_def Let_def)

lemma record_fetches:
  assumes "ring_ok h"
  shows "ring_ok (fold record_fetch xs h) \<and>
    history_dump (fold record_fetch xs h) =
      keep_last 512 (history_dump h @ map entry_of (fresh (bootmask_history_last_pc h) xs))"
  using assms
proof (induction xs arbitrary: h)
  case Nil
  then show ?case using length_dump [of h] by (simp add: ring_ok_def)
next
  case (Cons x xs)
  obtain t frame pc where x: "x = (t, frame, pc)" by (cases x)
  show ?case
  proof (cases "pc = bootmask_history_last_pc h")
    case True
    then show ?thesis using Cons by (simp add: x record_fetch_def record_bootmask_history_def)
  next
    case False
    let ?h = "record_fetch x h"
    have h: "?h = store_entry (entry_of x) (h\<lparr>bootmask_history_last_pc := pc\<rparr>)"
      using False by (simp add: x record_fetch_def record_bootmask_history_def entry_of_def)
    have ok: "ring_ok ?h" unfolding h using Cons.prems by (simp add: history_ring.ok_push)
    have d: "history_dump ?h = keep_last 512 (history_dump h @ [entry_of x])"
      unfolding h using Cons.prems by (simp add: history_ring.entries_push)
    have l: "bootmask_history_last_pc ?h = pc" unfolding h by simp
    show ?thesis
      using Cons.IH [OF ok] False keep_last_append [of 512 "history_dump h @ [entry_of x]"]
        d l
      unfolding x by simp
  qed
qed

section \<open>The trace partitions the fetch stream\<close>

lemma flush_Nil [simp]: "flush_fetches raw [] = []"
  by (subst flush_fetches.simps) simp

lemma flush_Cons:
  "es \<noteq> [] \<Longrightarrow> flush_fetches raw es =
    (hd es, fst (decode raw es (int (length es)))) # flush_fetches raw (drop (snd (decode raw es (int (length es)))) es)"
  by (subst flush_fetches.simps) (simp add: split_beta)

text \<open>
  \<open>explains raw out buf es\<close>: the emitted instructions \<open>out\<close> and the buffer \<open>buf\<close> make up the fetches
  \<open>es\<close>. Every instruction takes the next run of fetches: it is emitted with the run's first fetch and
  the text the disassembler gave for it and some of the fetches that follow it, and the run has as many
  words as the disassembler said, or fewer when it was told of nothing behind the run.
\<close>

inductive explains :: "raw_dasm \<Rightarrow> (fetch_entry \<times> string) list \<Rightarrow> fetch_entry list \<Rightarrow> fetch_entry list \<Rightarrow> bool" for raw where
  buffered: "explains raw [] buf buf"
| emitted: "explains raw (o1 # out) buf (chunk @ rest)"
    if "chunk \<noteq> []" "o1 = (hd chunk, fst (decode raw (chunk @ following) avail))" "prefix following rest"
      "length chunk = snd (decode raw (chunk @ following) avail) \<or>
       length chunk < snd (decode raw (chunk @ following) avail) \<and> following = []"
      "explains raw out buf rest"

inductive_cases explains_Nil [elim]: "explains raw [] buf es"

lemma explains_extend: "explains raw out buf es \<Longrightarrow> explains raw out (buf @ ys) (es @ ys)"
proof (induction rule: explains.induct)
  case (buffered buf)
  show ?case by (rule explains.buffered)
next
  case (emitted chunk o1 following avail rest out buf)
  have "prefix following (rest @ ys)" using emitted(3) by (simp add: prefix_prefix)
  from explains.emitted [OF emitted(1,2) this emitted(4,6)] show ?case by simp
qed

lemma explains_append:
  "explains raw out buf es \<Longrightarrow> explains raw out' buf' buf \<Longrightarrow> explains raw (out @ out') buf' es"
proof (induction rule: explains.induct)
  case (emitted chunk o1 following avail rest out buf)
  from explains.emitted [OF emitted(1-4) emitted(6) [OF emitted(7)]] show ?case by simp
qed simp

lemma explains_take:
  assumes "es \<noteq> []" "explains raw out buf (drop (snd (decode raw es n)) es @ ys)"
  shows "explains raw ((hd es, fst (decode raw es n)) # out) buf (es @ ys)"
proof -
  let ?w = "snd (decode raw es n)"
  have p: "0 < ?w" by (rule decode_pos)
  then have h: "hd (take ?w es) = hd es" by (simp add: hd_take)
  have "explains raw ((hd es, fst (decode raw es n)) # out) buf (take ?w es @ (drop ?w es @ ys))"
    by (rule emitted [where following = "drop ?w es" and avail = n]) (use assms p h in auto)
  then show ?thesis by (simp only: append_assoc [symmetric] append_take_drop_id)
qed

lemma flush_explains: "explains raw (flush_fetches raw es) [] es"
proof (induction es rule: length_induct)
  case (1 es)
  show ?case
  proof (cases "es = []")
    case False
    let ?d = "decode raw es (int (length es))"
    have "length (drop (snd ?d) es) < length es" using False decode_pos [of raw es] by simp
    then have "explains raw (flush_fetches raw (drop (snd ?d) es)) [] (drop (snd ?d) es)" using 1 by blast
    with explains_take [OF False, of raw _ "[]" "int (length es)" "[]"] show ?thesis
      by (simp add: flush_Cons [OF False])
  qed (simp add: buffered)
qed

text \<open>The buffer holds at most eight consecutive addresses.\<close>

definition consecutive :: "fetch_entry list \<Rightarrow> bool" where
  "consecutive es \<longleftrightarrow> (\<forall>i. Suc i < length es \<longrightarrow> fe_pc (es ! Suc i) = fe_pc (es ! i) + 2)"

definition buf_ok :: "cpu_trace \<Rightarrow> bool" where
  "buf_ok s \<longleftrightarrow> length (fetch_buf s) \<le> FETCH_BUF_SIZE \<and> consecutive (fetch_buf s)"

lemma consecutive_drop: "consecutive es \<Longrightarrow> consecutive (drop n es)"
  by (simp add: consecutive_def)

lemma consecutive_snoc:
  "consecutive es \<Longrightarrow> es = [] \<or> fe_pc e = fe_pc (last es) + 2 \<Longrightarrow> consecutive (es @ [e])"
  by (auto simp: consecutive_def nth_append last_conv_nth less_Suc_eq)
    (metis diff_Suc_1 last_conv_nth length_0_conv nat.distinct(1))

lemma no_limit: "(if 0 < cpu_trace_max \<and> c then x else y) = y"
  by (simp add: cpu_trace_max_def)

lemma buffer_fetch_cases:
  assumes "buf_ok s"
  shows "explains raw (snd (buffer_fetch raw e s)) (fetch_buf (fst (buffer_fetch raw e s))) (fetch_buf s @ [e]) \<and>
    buf_ok (fst (buffer_fetch raw e s)) \<and> cpu_trace_last_pc (fst (buffer_fetch raw e s)) = fe_pc e \<and>
    cpu_trace_count (fst (buffer_fetch raw e s)) = cpu_trace_count s + int (length (snd (buffer_fetch raw e s)))"
proof -
  let ?b = "fetch_buf s"
  consider (start) "?b = []" | (flush) "?b \<noteq> []" "fe_pc e \<noteq> fe_pc (last ?b) + 2"
    | (grow) "?b \<noteq> []" "fe_pc e = fe_pc (last ?b) + 2" "length ?b < 8"
    | (full) "?b \<noteq> []" "fe_pc e = fe_pc (last ?b) + 2" "length ?b = 8"
    using assms by (auto simp: buf_ok_def FETCH_BUF_SIZE_def) force
  then show ?thesis
  proof cases
    case start
    then show ?thesis
      by (simp add: buffer_fetch_def no_limit buf_ok_def FETCH_BUF_SIZE_def consecutive_def Let_def buffered)
  next
    case flush
    with explains_extend [OF flush_explains [of raw ?b], of "[e]"] show ?thesis
      by (simp add: buffer_fetch_def no_limit buf_ok_def FETCH_BUF_SIZE_def consecutive_def Let_def)
  next
    case grow
    then show ?thesis
      using assms
      by (simp add: buffer_fetch_def no_limit buf_ok_def FETCH_BUF_SIZE_def Let_def consecutive_snoc buffered)
  next
    case full
    let ?d = "decode raw ?b 5"
    have t: "take (min 8 (snd ?d)) ?b = take (snd ?d) ?b" using full(3) by (simp add: min_def)
    have o: "emit_oldest raw ?b = ((hd ?b, fst ?d), drop (snd ?d) ?b)"
      using full(3) by (auto simp: emit_oldest_def split_beta FETCH_BUF_SIZE_def)
    have c: "consecutive (drop (snd ?d) ?b @ [e])"
    proof (cases "snd ?d < 8")
      case True
      then show ?thesis
        using assms full by (intro consecutive_snoc) (simp_all add: buf_ok_def consecutive_drop last_drop)
    next
      case False
      then show ?thesis using full(3) by (simp add: consecutive_def)
    qed
    have "explains raw [(hd ?b, fst ?d)] (drop (snd ?d) ?b @ [e]) (?b @ [e])"
      by (rule explains_take [OF full(1)]) (rule buffered)
    moreover have "length (drop (snd ?d) ?b @ [e]) \<le> 8" using full(3) decode_pos [of raw ?b 5] by simp
    ultimately show ?thesis
      using full c by (simp add: buffer_fetch_def no_limit o FETCH_BUF_SIZE_def buf_ok_def Let_def)
  qed
qed

definition buffer_fetches :: "raw_dasm \<Rightarrow> fetch_entry list \<Rightarrow> cpu_trace \<Rightarrow> cpu_trace \<times> (fetch_entry \<times> string) list" where
  "buffer_fetches raw es s = fold (\<lambda>e (s, out). let (s', o1) = buffer_fetch raw e s in (s', out @ o1)) es (s, [])"

lemma buffer_fetches_snoc:
  "buffer_fetches raw (es @ [e]) s =
    (let (s1, out) = buffer_fetches raw es s; (s2, o1) = buffer_fetch raw e s1 in (s2, out @ o1))"
  by (simp add: buffer_fetches_def split_beta)

section \<open>Properties\<close>

text \<open>C8: The instruction trace loses and repeats nothing. Whatever the disassembler answers, the emitted
  instructions and the fetches still buffered account for every fetch exactly once, in order: each
  instruction stands for the run of fetches the disassembler said it has (fewer only at the end of a
  straight run), its counter advanced by one for each, and the buffer keeps at most eight
  consecutive fetches.\<close>

theorem trace_partition:
  "explains raw (snd (buffer_fetches raw es cpu_trace_init)) (fetch_buf (fst (buffer_fetches raw es cpu_trace_init))) es \<and>
    buf_ok (fst (buffer_fetches raw es cpu_trace_init)) \<and>
    cpu_trace_count (fst (buffer_fetches raw es cpu_trace_init)) = int (length (snd (buffer_fetches raw es cpu_trace_init)))"
proof (induction es rule: rev_induct)
  case Nil
  show ?case
    by (simp add: buffer_fetches_def cpu_trace_init_def buf_ok_def consecutive_def FETCH_BUF_SIZE_def buffered)
next
  case (snoc e es)
  define r where "r = buffer_fetches raw es cpu_trace_init"
  have c: "explains raw (snd r) (fetch_buf (fst r)) es" "buf_ok (fst r)" "cpu_trace_count (fst r) = int (length (snd r))"
    using snoc.IH unfolding r_def by blast+
  define q where "q = buffer_fetch raw e (fst r)"
  have m: "explains raw (snd q) (fetch_buf (fst q)) (fetch_buf (fst r) @ [e])" "buf_ok (fst q)"
    "cpu_trace_count (fst q) = cpu_trace_count (fst r) + int (length (snd q))"
    using buffer_fetch_cases [OF c(2), of raw e] unfolding q_def by simp_all
  have step: "buffer_fetches raw (es @ [e]) cpu_trace_init = (fst q, snd r @ snd q)"
    unfolding buffer_fetches_snoc r_def [symmetric] q_def by (simp add: split_beta)
  have "explains raw (snd r @ snd q) (fetch_buf (fst q)) (es @ [e])"
    using explains_append [OF explains_extend [OF c(1)] m(1)] .
  then show ?case unfolding step using c(3) m(2,3) by simp
qed

text \<open>The history dumped by the probes. Whatever was fetched, a dump lists, oldest first, exactly the
  newest 512 of the fetches that moved to another address, each with the processor state it was
  made in.\<close>

theorem history_newest:
  "history_dump (fold record_fetch xs (history_init blank)) = keep_last 512 (map entry_of (fresh 0xFFFFFFFF xs))"
proof -
  have "ring_ok (history_init blank)" "history_dump (history_init blank) = []"
    "bootmask_history_last_pc (history_init blank) = 0xFFFFFFFF"
    by (simp_all add: ring_ok_def history_init_def BOOTMASK_HISTORY_SIZE_def history_dump_def)
  then show ?thesis using record_fetches [of "history_init blank" xs] by simp
qed

end
