(* ===== verification/Mouse.thy ===== *)
theory Mouse
  imports Prelude
begin

text \<open>
  The PS/2 mouse of \<open>src/verilator/sim_main.cpp\<close>: the 25-bit packet the core reads
  (\<open>build_mouse_packet\<close>, \<open>apply_mouse_packet\<close>), the injections scheduled on the command line
  (\<open>process_mouse_injections\<close>), and their use in the headless and the windowed main loop. A
  \<open>signed char\<close> is an 8-bit word.
\<close>

record mouse_injection =
  mi_frame :: int
  mi_dx :: int
  mi_dy :: int
  mi_buttons :: int
  mi_duration :: int

record mouse =
  mouse_clock :: bool
  mouse_buttons :: u8
  mouse_x :: s8
  mouse_y :: s8
  prev_mouse_buttons :: int
  mouse_captured :: bool
  mouse_injections :: "mouse_injection list"
  mouse_injection_frames_remaining :: int
  injected_mouse_x :: s8
  injected_mouse_y :: s8
  injected_mouse_buttons :: int
  mouse_injection_active :: bool
  last_processed_frame :: int
  headless_mouse_frame :: int
  ps2_mouse :: u32  \<comment> \<open>the port of the core\<close>

definition mouse_init :: mouse where
  "mouse_init = \<lparr>mouse_clock = False, mouse_buttons = 0, mouse_x = 0, mouse_y = 0, prev_mouse_buttons = 0,
     mouse_captured = False, mouse_injections = [], mouse_injection_frames_remaining = 0, injected_mouse_x = 0,
     injected_mouse_y = 0, injected_mouse_buttons = 0, mouse_injection_active = False, last_processed_frame = -1,
     headless_mouse_frame = -1, ps2_mouse = 0\<rparr>"

definition build_mouse_packet :: "bool \<Rightarrow> s8 \<Rightarrow> s8 \<Rightarrow> int \<Rightarrow> u64" where
  "build_mouse_packet clock dx dy buttons =
    (let status_byte = (word_of_int buttons AND 0x07) OR (0x08 :: u8);
         status_byte = (if dx <s 0 then status_byte OR 0x10 else status_byte);
         status_byte = (if dy <s 0 then status_byte OR 0x20 else status_byte);
         mouse_temp = (ucast status_byte :: u64);
         mouse_temp = mouse_temp OR push_bit 8 (ucast dx);
         mouse_temp = mouse_temp OR push_bit 16 (ucast dy)
     in if clock then mouse_temp OR push_bit 24 1 else mouse_temp)"

definition apply_mouse_packet :: "s8 \<Rightarrow> s8 \<Rightarrow> int \<Rightarrow> mouse \<Rightarrow> mouse" where
  "apply_mouse_packet dx dy buttons s =
    (let s = (if dx \<noteq> 0 \<or> dy \<noteq> 0 \<or> buttons \<noteq> prev_mouse_buttons s then s\<lparr>mouse_clock := \<not> mouse_clock s\<rparr> else s);
         s = s\<lparr>prev_mouse_buttons := buttons\<rparr>
     in s\<lparr>ps2_mouse := ucast (build_mouse_packet (mouse_clock s) dx dy buttons)\<rparr>)"

definition clamp127 :: "int \<Rightarrow> int" where
  "clamp127 v = max (-127) (min 127 v)"

definition start_injection :: "mouse_injection \<Rightarrow> mouse \<Rightarrow> mouse" where
  "start_injection j s =
     s\<lparr>injected_mouse_x := word_of_int (clamp127 (mi_dx j)), injected_mouse_y := word_of_int (clamp127 (mi_dy j)),
       injected_mouse_buttons := mi_buttons j, mouse_injection_frames_remaining := max 1 (mi_duration j),
       mouse_injection_active := True\<rparr>"

text \<open>The loop erases and starts every injection of the frame: the last one started stays.\<close>

fun scan_injections :: "int \<Rightarrow> mouse_injection list \<Rightarrow> mouse \<Rightarrow> mouse_injection list \<times> mouse \<times> bool" where
  "scan_injections frame [] s = ([], s, False)"
| "scan_injections frame (j # js) s =
    (if mi_frame j = frame
     then let (rest, s, started) = scan_injections frame js (start_injection j s) in (rest, s, True)
     else let (rest, s, started) = scan_injections frame js s in (j # rest, s, started))"

definition process_mouse_injections :: "int \<Rightarrow> mouse \<Rightarrow> mouse \<times> bool" where
  "process_mouse_injections frame s =
    (let (rest, s, started) = scan_injections frame (mouse_injections s) s;
         s = s\<lparr>mouse_injections := rest\<rparr>;
         s = (if mouse_injection_active s \<and> \<not> started \<and> frame \<noteq> last_processed_frame s
              then let s = s\<lparr>mouse_injection_frames_remaining := mouse_injection_frames_remaining s - 1\<rparr> in
                if mouse_injection_frames_remaining s \<le> 0
                then s\<lparr>injected_mouse_x := 0, injected_mouse_y := 0, injected_mouse_buttons := 0, mouse_injection_active := False\<rparr>
                else s
              else s)
     in (s\<lparr>last_processed_frame := frame\<rparr>, started))"

definition due_injections :: "int \<Rightarrow> mouse \<Rightarrow> mouse" where
  "due_injections frame s =
    (if mouse_injections s \<noteq> [] \<or> mouse_injection_active s then fst (process_mouse_injections frame s) else s)"

text \<open>The headless loop: one packet per frame.\<close>

definition headless_mouse :: "int \<Rightarrow> mouse \<Rightarrow> mouse" where
  "headless_mouse frame s =
    (if frame \<noteq> headless_mouse_frame s
     then let s = due_injections frame (s\<lparr>headless_mouse_frame := frame\<rparr>) in
       if mouse_injection_active s
       then apply_mouse_packet (injected_mouse_x s) (- injected_mouse_y s) (injected_mouse_buttons s) s
       else apply_mouse_packet 0 0 0 s
     else s)"

text \<open>
  The windowed loop: the motion events move the sum of the iteration, which is a \<open>signed char\<close>, so
  the clamps that follow never change it; without a captured mouse the mapped keys move it. A
  motion of zero is not added.
\<close>

definition motion_event :: "int \<Rightarrow> int \<Rightarrow> mouse \<Rightarrow> mouse" where
  "motion_event dx dy s =
    (if mouse_captured s \<and> (dx \<noteq> 0 \<or> dy \<noteq> 0)
     then s\<lparr>mouse_x := word_of_int (sint (mouse_x s) + dx), mouse_y := word_of_int (sint (mouse_y s) - dy)\<rparr> else s)"

definition button_event :: "bool \<Rightarrow> mouse \<Rightarrow> mouse" where
  "button_event down s =
    (if mouse_captured s
     then s\<lparr>mouse_buttons := (if down then mouse_buttons s OR 0x01 else mouse_buttons s AND NOT 0x01)\<rparr> else s)"

datatype mouse_event = Motion int int | LeftDown | LeftUp | ReleaseKey

definition mouse_event_step :: "mouse_event \<Rightarrow> mouse \<Rightarrow> mouse" where
  "mouse_event_step e s =
    (case e of
       Motion dx dy \<Rightarrow> motion_event dx dy s
     | LeftDown \<Rightarrow> button_event True s
     | LeftUp \<Rightarrow> button_event False s
     | ReleaseKey \<Rightarrow> if mouse_captured s then s\<lparr>mouse_captured := False\<rparr> else s)"

definition clamp_motion :: "mouse \<Rightarrow> mouse" where
  "clamp_motion s =
    (let s = (if 127 < sint (mouse_x s) then s\<lparr>mouse_x := 127\<rparr> else s);
         s = (if sint (mouse_x s) < -127 then s\<lparr>mouse_x := word_of_int (-127)\<rparr> else s);
         s = (if 127 < sint (mouse_y s) then s\<lparr>mouse_y := 127\<rparr> else s)
     in if sint (mouse_y s) < -127 then s\<lparr>mouse_y := word_of_int (-127)\<rparr> else s)"

definition key_motion :: "(nat \<Rightarrow> bool) \<Rightarrow> mouse \<Rightarrow> mouse" where
  "key_motion inputs s =
    (let s = s\<lparr>mouse_buttons := 0, mouse_x := 0, mouse_y := 0\<rparr>;
         s = (if inputs 1 then s\<lparr>mouse_x := word_of_int (-2)\<rparr> else s);
         s = (if inputs 0 then s\<lparr>mouse_x := 2\<rparr> else s);
         s = (if inputs 3 then s\<lparr>mouse_y := 2\<rparr> else s);
         s = (if inputs 2 then s\<lparr>mouse_y := word_of_int (-2)\<rparr> else s);
         s = (if inputs 4 then s\<lparr>mouse_buttons := mouse_buttons s OR 0x01\<rparr> else s)
     in if inputs 5 then s\<lparr>mouse_buttons := mouse_buttons s OR 0x02\<rparr> else s)"

definition poll_mouse_events :: "mouse_event list \<Rightarrow> mouse \<Rightarrow> mouse" where
  "poll_mouse_events evs s = clamp_motion (fold mouse_event_step evs (s\<lparr>mouse_x := 0, mouse_y := 0\<rparr>))"

definition windowed_mouse :: "int \<Rightarrow> (nat \<Rightarrow> bool) \<Rightarrow> mouse \<Rightarrow> mouse" where
  "windowed_mouse frame inputs s =
    (let s = due_injections frame s;
         s = (if mouse_injection_active s
              then s\<lparr>mouse_x := injected_mouse_x s, mouse_y := - injected_mouse_y s,
                     mouse_buttons := word_of_int (injected_mouse_buttons s)\<rparr>
              else if \<not> mouse_captured s then key_motion inputs s else s)
     in apply_mouse_packet (mouse_x s) (mouse_y s) (uint (mouse_buttons s)) s)"

section \<open>Reading a packet\<close>

text \<open>
  What the core reads of a packet: three buttons, a 9-bit signed motion in each direction whose sign
  bit is in the status byte, and the strobe.
\<close>

definition packet_dx :: "u32 \<Rightarrow> int" where
  "packet_dx p = uint (take_bit 8 (drop_bit 8 p)) - (if bit p 4 then 256 else 0)"

definition packet_dy :: "u32 \<Rightarrow> int" where
  "packet_dy p = uint (take_bit 8 (drop_bit 16 p)) - (if bit p 5 then 256 else 0)"

definition packet_buttons :: "u32 \<Rightarrow> int" where
  "packet_buttons p = uint (take_bit 3 p)"

definition packet_strobe :: "u32 \<Rightarrow> bool" where
  "packet_strobe p = bit p 24"

lemma sint_uint: "sint (v :: s8) = uint v - (if v <s 0 then 256 else 0)"
proof -
  have "uint v = sint v mod 256" by (simp add: uint_sint take_bit_eq_mod)
  moreover have "-128 \<le> sint v" "sint v < 128" using sint_greater_eq [of v] sint_less [of v] by simp_all
  moreover from this have "sint v mod 256 = (if sint v < 0 then sint v + 256 else sint v)" by presburger
  ultimately show ?thesis by (simp add: word_sless_alt)
qed

lemma bit_build:
  "bit (build_mouse_packet c dx dy b) n \<longleftrightarrow>
    (n < 3 \<and> bit b n) \<or> n = 3 \<or> (n = 4 \<and> dx <s 0) \<or> (n = 5 \<and> dy <s 0) \<or>
    (8 \<le> n \<and> n < 16 \<and> bit dx (n - 8)) \<or> (16 \<le> n \<and> n < 24 \<and> bit dy (n - 16)) \<or> (n = 24 \<and> c)"
proof -
  have m: "(0x07 :: u8) = mask 3" by (simp add: mask_eq_exp_minus_1)
  have k: "bit (0x08 :: u8) n \<longleftrightarrow> n = 3" "bit (0x10 :: u8) n \<longleftrightarrow> n = 4" "bit (0x20 :: u8) n \<longleftrightarrow> n = 5" for n
    using bit_exp_iff [where 'a = u8, of 3 n] bit_exp_iff [where 'a = u8, of 4 n] bit_exp_iff [where 'a = u8, of 5 n]
    by auto
  have i: "bit (if q then x OR y else x) n \<longleftrightarrow> bit x n \<or> (q \<and> bit y n)" for q n and x y :: "'b :: len word"
    by (simp add: bit_or_iff)
  have u: "bit (ucast (x :: u8) :: u64) n \<longleftrightarrow> bit x n" for x n
    by (auto simp: bit_unsigned_iff dest: bit_imp_le_length)
  have p: "bit (push_bit k (ucast (x :: u8)) :: u64) n \<longleftrightarrow> k \<le> n \<and> n < 64 \<and> bit x (n - k)" for x k n
    by (auto simp: bit_push_bit_iff u)
  have w: "bit (word_of_int b AND mask 3 :: u8) n \<longleftrightarrow> n < 3 \<and> bit b n"
    by (auto simp: bit_and_iff bit_mask_iff bit_word_of_int_iff)
  have o: "bit (push_bit 24 1 :: u64) n \<longleftrightarrow> n = 24" by (simp only: bit_push_bit_iff bit_1_iff) auto
  have b8: "bit (x :: u8) k \<Longrightarrow> k < 8" for x k by (auto dest: bit_imp_le_length)
  show ?thesis
    unfolding build_mouse_packet_def Let_def m i bit_or_iff u p w o k
    using b8 [of dx "n - 8"] b8 [of dy "n - 16"] by auto
qed

lemma bit_port: "bit (ucast (w :: u64) :: u32) n \<longleftrightarrow> n < 32 \<and> bit w n"
  by (auto simp: bit_simps)

lemma packet_fields:
  fixes dx dy :: s8 and c :: bool and b :: int
  defines "p \<equiv> ucast (build_mouse_packet c dx dy b) :: u32"
  shows "take_bit 8 (drop_bit 8 p) = ucast dx" "take_bit 8 (drop_bit 16 p) = ucast dy"
    "take_bit 3 p = take_bit 3 (word_of_int b)" "bit p 4 = (dx <s 0)" "bit p 5 = (dy <s 0)" "bit p 24 = c"
  unfolding p_def
       apply (rule bit_word_eqI, auto simp: bit_take_bit_iff bit_drop_bit_eq bit_port bit_build bit_simps dest: bit_imp_le_length)[1]
      apply (rule bit_word_eqI, auto simp: bit_take_bit_iff bit_drop_bit_eq bit_port bit_build bit_simps dest: bit_imp_le_length)[1]
     apply (rule bit_word_eqI, auto simp: bit_take_bit_iff bit_port bit_build bit_simps)[1]
    apply (simp_all add: bit_port bit_build)
  done

lemma packet_of_build:
  fixes dx dy :: s8 and b :: int
  shows "packet_dx (ucast (build_mouse_packet c dx dy b)) = sint dx \<and>
    packet_dy (ucast (build_mouse_packet c dx dy b)) = sint dy \<and>
    packet_buttons (ucast (build_mouse_packet c dx dy b)) = b mod 8 \<and>
    packet_strobe (ucast (build_mouse_packet c dx dy b)) = c"
proof -
  have "uint (take_bit 3 (word_of_int b :: u32)) = b mod 8"
    by (simp only: unsigned_take_bit_eq unsigned_of_int take_bit_take_bit) (simp add: take_bit_eq_mod mod_mod_cancel)
  moreover have "take_bit 32 (uint v) = uint v" for v :: s8
    by (rule take_bit_int_eq_self) (use uint_lt2p [of v] in simp_all)
  ultimately show ?thesis
    unfolding packet_dx_def packet_dy_def packet_buttons_def packet_strobe_def
    by (simp add: packet_fields sint_uint unsigned_ucast_eq)
qed

text \<open>The mouse packet. Whatever motion and buttons the simulator puts in, the core reads the same
  motion, the low three buttons, and the current strobe; and the strobe changes exactly when there
  is something to report.\<close>

theorem packet_decodes:
  fixes dx dy :: s8 and buttons :: int and s :: mouse
  defines "s' \<equiv> apply_mouse_packet dx dy buttons s"
  shows "packet_dx (ps2_mouse s') = sint dx \<and> packet_dy (ps2_mouse s') = sint dy \<and>
    packet_buttons (ps2_mouse s') = buttons mod 8 \<and> packet_strobe (ps2_mouse s') = mouse_clock s' \<and>
    (mouse_clock s' \<noteq> mouse_clock s \<longleftrightarrow> dx \<noteq> 0 \<or> dy \<noteq> 0 \<or> buttons \<noteq> prev_mouse_buttons s)"
  using packet_of_build [of "mouse_clock s'" dx dy buttons]
  unfolding s'_def by (simp add: apply_mouse_packet_def Let_def)

theorem packet_decodes_witness:
  "packet_dy (ps2_mouse (apply_mouse_packet 5 (- 3) 1 mouse_init)) = -3 \<and>
   mouse_clock (apply_mouse_packet 5 (- 3) 1 mouse_init)"
  using packet_decodes [of 5 "- 3" 1 mouse_init] by (auto simp: mouse_init_def)

section \<open>An injection lasts its number of frames\<close>

definition toggles :: "mouse_injection \<Rightarrow> nat \<Rightarrow> nat" where
  "toggles j k = (let n = nat (max 1 (mi_duration j)) in
     min (Suc k) n + (if n \<le> k \<and> mi_buttons j \<noteq> 0 then 1 else 0))"

definition injecting :: "mouse_injection \<Rightarrow> bool \<Rightarrow> nat \<Rightarrow> mouse \<Rightarrow> bool" where
  "injecting j clock k s \<longleftrightarrow>
     mouse_injections s = [] \<and> headless_mouse_frame s = mi_frame j + int k \<and>
     mouse_clock s = (clock \<noteq> odd (toggles j k)) \<and>
     mouse_injection_active s = (int k < max 1 (mi_duration j)) \<and>
     (if int k < max 1 (mi_duration j)
      then last_processed_frame s = mi_frame j + int k \<and>
        mouse_injection_frames_remaining s = max 1 (mi_duration j) - int k \<and>
        injected_mouse_x s = word_of_int (clamp127 (mi_dx j)) \<and> injected_mouse_y s = word_of_int (clamp127 (mi_dy j)) \<and>
        injected_mouse_buttons s = mi_buttons j \<and> prev_mouse_buttons s = mi_buttons j \<and>
        ps2_mouse s = ucast (build_mouse_packet (mouse_clock s) (word_of_int (clamp127 (mi_dx j)))
          (- word_of_int (clamp127 (mi_dy j))) (mi_buttons j))
      else prev_mouse_buttons s = 0 \<and> ps2_mouse s = ucast (build_mouse_packet (mouse_clock s) 0 0 0))"

lemma clamp127_word: "sint (word_of_int (clamp127 v) :: s8) = clamp127 v" "sint (- word_of_int (clamp127 v) :: s8) = - clamp127 v"
proof -
  have r: "-128 \<le> clamp127 v" "clamp127 v < 128" "-128 \<le> - clamp127 v" "- clamp127 v < 128"
    by (simp_all add: clamp127_def)
  have s: "sint (word_of_int x :: s8) = x" if "-128 \<le> x" "x < 128" for x
    using that by (simp add: signed_of_int) (intro signed_take_bit_int_eq_self, simp_all)
  show "sint (word_of_int (clamp127 v) :: s8) = clamp127 v" using r by (intro s)
  have "(- word_of_int (clamp127 v) :: s8) = word_of_int (- clamp127 v)" by simp
  then show "sint (- word_of_int (clamp127 v) :: s8) = - clamp127 v" using r by (simp only: s)
qed

lemma clamp127_moves:
  assumes "mi_dx j \<noteq> 0 \<or> mi_dy j \<noteq> 0"
  shows "(word_of_int (clamp127 (mi_dx j)) :: s8) \<noteq> 0 \<or> (- word_of_int (clamp127 (mi_dy j)) :: s8) \<noteq> 0"
proof -
  have "clamp127 (mi_dx j) \<noteq> 0 \<or> clamp127 (mi_dy j) \<noteq> 0" using assms by (auto simp: clamp127_def)
  then show ?thesis using clamp127_word by (metis neg_equal_0_iff_equal signed_0)
qed

lemma injecting_start:
  assumes "mouse_injections s = [j]" "headless_mouse_frame s < mi_frame j" "prev_mouse_buttons s = 0"
    and "mi_dx j \<noteq> 0 \<or> mi_dy j \<noteq> 0"
  shows "injecting j (mouse_clock s) 0 (headless_mouse (mi_frame j) s)"
  using assms(1,2) clamp127_moves [OF assms(4)]
  by (auto simp: injecting_def headless_mouse_def due_injections_def process_mouse_injections_def start_injection_def
      apply_mouse_packet_def toggles_def Let_def)

lemma injecting_step:
  assumes i: "injecting j clock k s" and mv: "mi_dx j \<noteq> 0 \<or> mi_dy j \<noteq> 0"
  shows "injecting j clock (Suc k) (headless_mouse (mi_frame j + int (Suc k)) s)"
proof -
  let ?n = "max 1 (mi_duration j)"
  consider (on) "int (Suc k) < ?n" | (stop) "int (Suc k) = ?n" | (off) "?n < int (Suc k)" by linarith
  then show ?thesis
  proof cases
    case on
    define n where "n = nat ?n"
    have "Suc k < n" using on unfolding n_def by linarith
    then have t: "toggles j (Suc k) = Suc (toggles j k)"
      unfolding toggles_def Let_def n_def [symmetric] by auto
    show ?thesis
      using i on clamp127_moves [OF mv]
      by (auto simp: injecting_def t headless_mouse_def due_injections_def process_mouse_injections_def
          apply_mouse_packet_def Let_def)
  next
    case stop
    then have n: "nat ?n = Suc k" by linarith
    have t: "toggles j (Suc k) = toggles j k + (if mi_buttons j \<noteq> 0 then 1 else 0)"
      unfolding toggles_def n by simp
    show ?thesis
      using i stop
      by (auto simp: injecting_def t headless_mouse_def due_injections_def process_mouse_injections_def
          apply_mouse_packet_def Let_def)
  next
    case off
    then have "nat ?n \<le> k" by linarith
    then have t: "toggles j (Suc k) = toggles j k" by (simp add: toggles_def min_def)
    show ?thesis
      using i off
      by (auto simp: injecting_def t headless_mouse_def due_injections_def apply_mouse_packet_def Let_def)
  qed
qed

text \<open>An injection. One scheduled with a motion is sent in its frame and the following ones, once per
  frame for its duration (at least one frame), clamped to 127 in each direction and with the
  vertical motion negated, with a new strobe each time; then the mouse stops and its buttons are
  released.\<close>

theorem injection_lasts:
  fixes k :: nat
  assumes "mouse_injections s = [j]" "headless_mouse_frame s < mi_frame j" "prev_mouse_buttons s = 0"
    and "mi_dx j \<noteq> 0 \<or> mi_dy j \<noteq> 0"
  defines "s' \<equiv> fold headless_mouse (map (\<lambda>i. mi_frame j + int i) [0..<Suc k]) s"
  shows "packet_dx (ps2_mouse s') = (if int k < max 1 (mi_duration j) then clamp127 (mi_dx j) else 0) \<and>
    packet_dy (ps2_mouse s') = (if int k < max 1 (mi_duration j) then - clamp127 (mi_dy j) else 0) \<and>
    packet_buttons (ps2_mouse s') = (if int k < max 1 (mi_duration j) then mi_buttons j mod 8 else 0) \<and>
    packet_strobe (ps2_mouse s') = (mouse_clock s \<noteq> odd (toggles j k))"
proof -
  have i: "injecting j (mouse_clock s) k s'"
    unfolding s'_def
  proof (induction k)
    case 0
    show ?case using injecting_start [OF assms(1-4)] by simp
  next
    case (Suc k)
    show ?case using injecting_step [OF Suc assms(4)] by simp
  qed
  have p: "packet_dx (ucast (build_mouse_packet c x y b)) = sint x" "packet_dy (ucast (build_mouse_packet c x y b)) = sint y"
    "packet_buttons (ucast (build_mouse_packet c x y b)) = b mod 8" "packet_strobe (ucast (build_mouse_packet c x y b)) = c"
    for c x y b
    using packet_of_build by blast+
  show ?thesis
    using i unfolding injecting_def by (auto simp: p clamp127_word split: if_splits)
qed

theorem injection_lasts_witness:
  "packet_dx (ps2_mouse (fold headless_mouse [500, 501] (mouse_init\<lparr>mouse_injections :=
     [\<lparr>mi_frame = 500, mi_dx = 200, mi_dy = 3, mi_buttons = 1, mi_duration = 2\<rparr>]\<rparr>))) = 127"
  using injection_lasts [of "mouse_init\<lparr>mouse_injections := [\<lparr>mi_frame = 500, mi_dx = 200, mi_dy = 3, mi_buttons = 1,
      mi_duration = 2\<rparr>]\<rparr>" "\<lparr>mi_frame = 500, mi_dx = 200, mi_dy = 3, mi_buttons = 1, mi_duration = 2\<rparr>" 1]
  by (simp add: mouse_init_def clamp127_def upt_rec)

text \<open>The clamps of the windowed loop. The motion of an iteration is accumulated in a signed byte, so
  the clamps to plus and minus 127 after it only ever catch the value -128: a motion of 200 pixels
  to the right is not sent as 127 but as 56 to the left.\<close>

theorem windowed_motion_wraps:
  "mouse_x (poll_mouse_events [Motion dx dy] (s\<lparr>mouse_captured := True\<rparr>)) =
    (if word_of_int dx = (word_of_int (-128) :: s8) then word_of_int (-127) else word_of_int dx)"
proof -
  have x: "sint (v :: s8) < -127 \<longleftrightarrow> v = word_of_int (-128)" "\<not> 127 < sint (v :: s8)" for v
  proof -
    have r: "-128 \<le> sint v" "sint v < 128" using sint_greater_eq [of v] sint_less [of v] by simp_all
    then show "\<not> 127 < sint v" by simp
    have "sint (word_of_int (-128) :: s8) = -128" by simp
    then have "v = word_of_int (-128) \<longleftrightarrow> sint v = -128" by (metis signed_word_eqI)
    then show "sint v < -127 \<longleftrightarrow> v = word_of_int (-128)" using r by linarith
  qed
  show ?thesis
  proof (cases "dx \<noteq> 0 \<or> dy \<noteq> 0")
    case True
    then show ?thesis
      by (simp add: poll_mouse_events_def mouse_event_step_def motion_event_def clamp_motion_def x Let_def)
  next
    case False
    then show ?thesis
      by (simp add: poll_mouse_events_def mouse_event_step_def motion_event_def clamp_motion_def x Let_def)
  qed
qed

end
