(* ===== verification/Cmdline.thy ===== *)
theory Cmdline
  imports Mouse
begin

text \<open>
  The command line of the simulator: the loop at the start of \<open>main\<close> in
  \<open>src/verilator/sim_main.cpp\<close>. The globals the options set are kept by name, the switches in
  \<open>flags\<close> and the numbers in \<open>nums\<close>; a number that is not set by any option is not listed. An
  unknown argument is skipped, and so is an option whose operand is missing. \<open>std::stoi\<close> throws,
  and nothing catches it.
\<close>

section \<open>Numbers\<close>

definition is_space :: "char \<Rightarrow> bool" where
  "is_space c \<longleftrightarrow> c \<in> set [CHR '' '', CHR 0x09, CHR 0x0A, CHR 0x0B, CHR 0x0C, CHR 0x0D]"

definition code :: "char \<Rightarrow> nat" where "code c = of_char c"

text \<open>The value of a digit in any base up to 16.\<close>

definition digit_of :: "char \<Rightarrow> nat option" where
  "digit_of c =
    (if 48 \<le> code c \<and> code c \<le> 57 then Some (code c - 48)
     else if 97 \<le> code c \<and> code c \<le> 102 then Some (code c - 87)
     else if 65 \<le> code c \<and> code c \<le> 70 then Some (code c - 55) else None)"

definition is_digit :: "nat \<Rightarrow> char \<Rightarrow> bool" where
  "is_digit base c \<longleftrightarrow> (case digit_of c of None \<Rightarrow> False | Some d \<Rightarrow> d < base)"

definition value_of :: "nat \<Rightarrow> string \<Rightarrow> nat" where
  "value_of base ds = fold (\<lambda>c v. v * base + the (digit_of c)) ds 0"

text \<open>The sign, and what follows it.\<close>

definition sign_of :: "string \<Rightarrow> int \<times> string" where
  "sign_of s = (case s of [] \<Rightarrow> (1, s)
     | c # r \<Rightarrow> if c = CHR ''-'' then (-1, r) else if c = CHR ''+'' then (1, r) else (1, s))"

text \<open>The longest prefix that is a number: its value and the rest, or \<open>None\<close> without a digit.\<close>

definition scan_int :: "nat \<Rightarrow> string \<Rightarrow> (int \<times> string) option" where
  "scan_int base s =
    (let (sg, r) = sign_of (dropWhile is_space s); ds = takeWhile (is_digit base) r in
     if ds = [] then None else Some (sg * int (value_of base ds), dropWhile (is_digit base) r))"

text \<open>
  Base 0 of \<open>strtoul\<close>, and \<open>%x\<close>: a prefix \<open>0x\<close> counts only if a hexadecimal digit follows. In base 0
  the digits after another leading 0 are octal.
\<close>

definition hex_prefix :: "string \<Rightarrow> bool" where
  "hex_prefix s \<longleftrightarrow> (case s of a # b # c # _ \<Rightarrow> a = CHR ''0'' \<and> (b = CHR ''x'' \<or> b = CHR ''X'') \<and> is_digit 16 c | _ \<Rightarrow> False)"

definition scan_auto :: "string \<Rightarrow> int" where
  "scan_auto s =
    (let (sg, r) = sign_of (dropWhile is_space s);
         (base, r) = (if hex_prefix r then (16, drop 2 r) else if take 1 r = ''0'' then (8, r) else (10, r))
     in sg * int (value_of base (takeWhile (is_digit base) r)))"

definition scan_hex :: "string \<Rightarrow> (int \<times> string) option" where
  "scan_hex s =
    (let (sg, r) = sign_of (dropWhile is_space s); r = (if hex_prefix r then drop 2 r else r);
         ds = takeWhile (is_digit 16) r
     in if ds = [] then None else Some (sg * int (value_of 16 ds), dropWhile (is_digit 16) r))"

definition stoi :: "string \<Rightarrow> int option" where
  "stoi s = (case scan_int 10 s of None \<Rightarrow> None
     | Some (v, _) \<Rightarrow> if - (2 ^ 31) \<le> v \<and> v < 2 ^ 31 then Some v else None)"

text \<open>\<open>atoi\<close> is \<open>strtol\<close> cut to an \<open>int\<close>, \<open>strtol\<close> clamps to 64 bits, \<open>strtoul\<close> to its largest value.\<close>

definition atoi :: "string \<Rightarrow> int" where
  "atoi s = (case scan_int 10 s of None \<Rightarrow> 0
     | Some (v, _) \<Rightarrow> sint (word_of_int (max (- (2 ^ 63)) (min (2 ^ 63 - 1) v)) :: 32 word))"

definition strtoul32 :: "string \<Rightarrow> u32" where
  "strtoul32 s = (let v = scan_auto s in if \<bar>v\<bar> < 2 ^ 64 then word_of_int v else -1)"

definition strtoul16 :: "string \<Rightarrow> u16" where
  "strtoul16 s = ucast (strtoul32 s)"

text \<open>The pieces \<open>std::getline\<close> takes from a string stream: none after a final separator.\<close>

function getlines :: "char \<Rightarrow> string \<Rightarrow> string list" where
  "getlines c s = (if s = [] then [] else takeWhile (\<lambda>x. x \<noteq> c) s # getlines c (drop 1 (dropWhile (\<lambda>x. x \<noteq> c) s)))"
  by auto
termination
proof (relation "measure (length \<circ> snd)", goal_cases)
  case 1
  then show ?case by simp
next
  case (2 c s)
  have "length (dropWhile (\<lambda>x. x \<noteq> c) s) \<le> length s" "0 < length s"
    using 2 by (simp_all add: length_dropWhile_le)
  then have "length (dropWhile (\<lambda>x. x \<noteq> c) s) - 1 < length s" by linarith
  then show ?case by simp
qed

declare getlines.simps [simp del]

fun all_some :: "'a option list \<Rightarrow> 'a list option" where
  "all_some [] = Some []"
| "all_some (None # xs) = None"
| "all_some (Some x # xs) = map_option (Cons x) (all_some xs)"

section \<open>The options\<close>

record options =
  flags :: "string \<Rightarrow> bool"
  nums :: "string \<Rightarrow> int"
  scsi_disk_files :: "string list"
  floppy_disk_files :: "string list"
  rom_file_override :: "string option"
  injections :: "mouse_injection list"
  screenshot_frames :: "int list"

text \<open>The globals' initial values: three switches start on, and five numbers are not zero.\<close>

definition options_init :: options where
  "options_init =
    \<lparr>flags = (\<lambda>n. n \<in> set [''run_enable'', ''cpu_trace_enable'', ''via_debug_enable'']),
     nums = (\<lambda>n. if n = ''cfg_memSize'' then 3 else if n = ''scsi_transition_debug_min_frame'' then 430
       else if n = ''late_adb_debug_min_frame'' then 420 else if n = ''boot_decision_debug_min_frame'' then 220
       else if n = ''frame_probe_interval'' then 10 else if n = ''stop_at_frame'' then -1 else 0),
     scsi_disk_files = ['''', ''''], floppy_disk_files = ['''', ''''], rom_file_override = None, injections = [],
     screenshot_frames = []\<rparr>"

definition set_flag :: "string \<Rightarrow> bool \<Rightarrow> options \<Rightarrow> options" where
  "set_flag n v p = p\<lparr>flags := (flags p)(n := v)\<rparr>"

definition set_num :: "string \<Rightarrow> int \<Rightarrow> options \<Rightarrow> options" where
  "set_num n v p = p\<lparr>nums := (nums p)(n := v)\<rparr>"

text \<open>The options without operand: the switches they set.\<close>

definition switch_options :: "(string \<times> (string \<times> bool) list) list" where
  "switch_options =
    [(''--headless'', [(''headless'', True)]), (''--no-gui'', [(''headless'', True)]),
     (''--no-cpu-trace'', [(''cpu_trace_enable'', False)]), (''--no-via-debug'', [(''via_debug_enable'', False)]),
     (''--periph-debug'', [(''periph_debug_enable'', True)]), (''--verbose-debug'', [(''verbose_debug_enable'', True)]),
     (''--scsi-stall-history'', [(''scsi_stall_history_enable'', True)]), (''--scsi-debug'', [(''scsi_debug_enable'', True)]),
     (''--scsi-timeout-loop-debug'', [(''scsi_timeout_loop_debug_enable'', True)]),
     (''--iwm-debug'', [(''iwm_debug_enable'', True)]), (''--iwm-state-debug'', [(''iwm_state_debug_enable'', True)]),
     (''--heapspray-debug'', [(''heapspray_debug_enable'', True)]), (''--drvtrace'', [(''drvtrace_enable'', True)]),
     (''--boot-decision-debug'', [(''boot_decision_debug_enable'', True)]),
     (''--bootmask-once-debug'', [(''bootmask_once_debug_enable'', True)]),
     (''--scsi-transition-debug'', [(''scsi_transition_debug_enable'', True)]),
     (''--late-adb-debug'', [(''late_adb_debug_enable'', True)]),
     (''--bus-handshake-debug'', [(''bus_handshake_debug_enable'', True)]),
     (''--wait-debug'', [(''wait_debug_enable'', True)]), (''--calib-debug'', [(''calib_debug_enable'', True)]),
     (''--calib-loop-debug'', [(''calib_loop_debug_enable'', True)]), (''--ramtest-debug'', [(''ramtest_debug_enable'', True)]),
     (''--nubus-video-debug'', [(''nubus_video_debug_enable'', True)]),
     (''--nubus-video-full-debug'', [(''nubus_video_debug_enable'', True), (''nubus_video_debug_full'', True)]),
     (''--scc-bus-debug'', [(''scc_bus_debug_enable'', True)]),
     (''--ram-size-cpu-debug'', [(''ram_size_cpu_debug_enable'', True)]), (''--frame-probe'', [(''frame_probe_enable'', True)]),
     (''+poll268_debug'', [(''poll268_debug_enable'', True)]), (''--poll268-debug'', [(''poll268_debug_enable'', True)])]"

text \<open>The options whose operand goes through \<open>std::stoi\<close>, and the two that use \<open>atoi\<close>.\<close>

definition stoi_options :: "(string \<times> string) list" where
  "stoi_options =
    [(''--cpu-trace-min-frame'', ''cpu_trace_min_frame''), (''--scsi-debug-min-frame'', ''scsi_debug_min_frame''),
     (''--boot-decision-debug-min-frame'', ''boot_decision_debug_min_frame''),
     (''--scsi-transition-debug-min-frame'', ''scsi_transition_debug_min_frame''),
     (''--late-adb-debug-min-frame'', ''late_adb_debug_min_frame''),
     (''--bus-handshake-debug-min-frame'', ''bus_handshake_debug_min_frame''),
     (''--force-calib-min-frame'', ''force_calib_min_frame''), (''--frame-interval'', ''frame_probe_interval'')]"

definition atoi_options :: "(string \<times> string) list" where
  "atoi_options = [(''--iwm-debug-min-frame'', ''iwm_debug_min_frame''), (''--wait-debug-min-frame'', ''wait_debug_min_frame'')]"

datatype parsed = Next options nat | Exit int | Throw

definition with_int :: "int option \<Rightarrow> (int \<Rightarrow> parsed) \<Rightarrow> parsed" where
  "with_int v f = (case v of None \<Rightarrow> Throw | Some i \<Rightarrow> f i)"

definition opt_send_mouse :: "string \<Rightarrow> options \<Rightarrow> parsed" where
  "opt_send_mouse a p =
    (if CHR '':'' \<notin> set a then Exit 1
     else with_int (stoi (takeWhile (\<lambda>c. c \<noteq> CHR '':'') a)) (\<lambda>frame.
       case all_some (map stoi (getlines (CHR '','') (drop 1 (dropWhile (\<lambda>c. c \<noteq> CHR '':'') a)))) of
         None \<Rightarrow> Throw
       | Some ns \<Rightarrow>
           if length ns < 2 then Exit 1
           else Next (p\<lparr>injections := injections p @
             [\<lparr>mi_frame = frame, mi_dx = ns ! 0, mi_dy = ns ! 1, mi_buttons = (if 3 \<le> length ns then ns ! 2 else 0),
               mi_duration = (if 4 \<le> length ns then ns ! 3 else 1)\<rparr>]\<rparr>) 1))"

definition opt_ram :: "string \<Rightarrow> options \<Rightarrow> parsed" where
  "opt_ram a p =
    (let mb = atoi a in
     if mb = 1 then Next (set_num ''cfg_memSize'' 0 p) 1 else if mb = 2 then Next (set_num ''cfg_memSize'' 1 p) 1
     else if mb = 4 then Next (set_num ''cfg_memSize'' 2 p) 1 else if mb = 8 then Next (set_num ''cfg_memSize'' 3 p) 1
     else Exit 1)"

text \<open>\<open>sscanf (arg, "%x:%x:%d")\<close>: two fields are enough.\<close>

definition expect_colon :: "string \<Rightarrow> string option" where
  "expect_colon s = (case s of c # r \<Rightarrow> if c = CHR '':'' then Some r else None | [] \<Rightarrow> None)"

definition opt_watch_range :: "string \<Rightarrow> options \<Rightarrow> parsed" where
  "opt_watch_range a p =
    (case scan_hex a of None \<Rightarrow> Next p 1
     | Some (lo, r) \<Rightarrow> (case expect_colon r of None \<Rightarrow> Next p 1
       | Some r \<Rightarrow> (case scan_hex r of None \<Rightarrow> Next p 1
         | Some (hi, r) \<Rightarrow>
             let mf = (case expect_colon r of None \<Rightarrow> 0
                       | Some r \<Rightarrow> (case scan_int 10 r of None \<Rightarrow> 0 | Some (v, _) \<Rightarrow> sint (word_of_int v :: 32 word)))
             in Next (set_flag ''watch_range_enable'' True (set_num ''watch_range_lo'' (lo mod 2 ^ 32)
                  (set_num ''watch_range_hi'' (hi mod 2 ^ 32) (set_num ''watch_range_min_frame'' mf p)))) 1)))"

definition opt_screenshot :: "string \<Rightarrow> options \<Rightarrow> parsed" where
  "opt_screenshot a p =
    (case all_some (map stoi (getlines (CHR '','') a)) of None \<Rightarrow> Throw
     | Some fs \<Rightarrow> Next (set_flag ''screenshot_mode'' True (p\<lparr>screenshot_frames := screenshot_frames p @ fs\<rparr>)) 1)"

definition opt_force_mame :: "options \<Rightarrow> options" where
  "opt_force_mame p = set_flag ''force_calib_enable'' True (set_num ''force_calib_0d00'' 0x0A3B
     (set_num ''force_calib_0da6'' 0x0417 (set_num ''force_calib_min_frame'' 120 p)))"

text \<open>The options with an operand \<open>v\<close>.\<close>

definition operand_option :: "string \<Rightarrow> string \<Rightarrow> options \<Rightarrow> parsed option" where
  "operand_option a v p =
    (case map_of stoi_options a of
       Some n \<Rightarrow> Some (with_int (stoi v) (\<lambda>i. Next (set_num n i p) 1))
     | None \<Rightarrow> (case map_of atoi_options a of
         Some n \<Rightarrow> Some (Next (set_num n (atoi v) p) 1)
       | None \<Rightarrow>
         if a = ''--watch-range'' then Some (opt_watch_range v p)
         else if a = ''--scsi0'' then Some (Next (p\<lparr>scsi_disk_files := (scsi_disk_files p)[0 := v]\<rparr>) 1)
         else if a = ''--scsi1'' then Some (Next (p\<lparr>scsi_disk_files := (scsi_disk_files p)[1 := v]\<rparr>) 1)
         else if a = ''--floppy0'' then Some (Next (p\<lparr>floppy_disk_files := (floppy_disk_files p)[0 := v]\<rparr>) 1)
         else if a = ''--floppy1'' then Some (Next (p\<lparr>floppy_disk_files := (floppy_disk_files p)[1 := v]\<rparr>) 1)
         else if a = ''--rom'' then Some (Next (p\<lparr>rom_file_override := Some v\<rparr>) 1)
         else if a = ''--ram'' then Some (opt_ram v p)
         else if a = ''--send-mouse'' then Some (opt_send_mouse v p)
         else if a = ''--screenshot'' then Some (opt_screenshot v p)
         else if a = ''--stop-at-frame''
           then Some (with_int (stoi v) (\<lambda>i. Next (set_flag ''stop_at_frame_enabled'' True (set_num ''stop_at_frame'' i p)) 1))
         else if a = ''--stop-at-tick''
           then Some (Next (set_flag ''stop_at_tick_enabled'' True (set_num ''stop_at_tick'' (uint (strtoul32 v)) p)) 1)
         else if a = ''--stop-at-pc''
           then Some (Next (set_flag ''stop_at_pc_enabled'' True (set_num ''stop_at_pc'' (uint (strtoul32 v)) p)) 1)
         else None))"

definition parse_arg :: "string \<Rightarrow> string list \<Rightarrow> options \<Rightarrow> parsed" where
  "parse_arg a rest p =
    (if a = ''-h'' \<or> a = ''--help'' then Exit 0
     else case map_of switch_options a of
       Some sets \<Rightarrow> Next (fold (\<lambda>(n, v). set_flag n v) sets p) 0
     | None \<Rightarrow>
       if a = ''--force-mame-calib'' then Next (opt_force_mame p) 0
       else if a = ''--no-memtest'' then Next (p\<lparr>rom_file_override := Some ''../releases/boot0-nomemtest.rom''\<rparr>) 0
       else case rest of
         [] \<Rightarrow> Next p 0
       | v # vs \<Rightarrow>
           (case operand_option a v p of
              Some r \<Rightarrow> r
            | None \<Rightarrow>
              (case vs of
                 v2 # _ \<Rightarrow>
                   if a = ''--force-calib''
                   then Next (set_flag ''force_calib_enable'' True (set_num ''force_calib_0d00'' (uint (strtoul16 v))
                     (set_num ''force_calib_0da6'' (uint (strtoul16 v2)) p))) 2
                   else Next p 0
               | [] \<Rightarrow> Next p 0)))"

function parse_args :: "string list \<Rightarrow> options \<Rightarrow> parsed" where
  "parse_args [] p = Next p 0"
| "parse_args (a # rest) p =
    (case parse_arg a rest p of Next p k \<Rightarrow> parse_args (drop k rest) p | Exit e \<Rightarrow> Exit e | Throw \<Rightarrow> Throw)"
  by pat_completeness auto
termination
  by (relation "measure (length \<circ> fst)") auto

section \<open>Decimal numerals are read back\<close>

definition digit :: "nat \<Rightarrow> char" where
  "digit d = ''0123456789'' ! d"

fun show_nat :: "nat \<Rightarrow> string" where
  "show_nat n = (if n < 10 then [digit n] else show_nat (n div 10) @ [digit (n mod 10)])"

declare show_nat.simps [simp del]

definition show_int :: "int \<Rightarrow> string" where
  "show_int i = (if i < 0 then CHR ''-'' # show_nat (nat (- i)) else show_nat (nat i))"

lemma digit_facts:
  assumes "d < 10"
  shows "digit_of (digit d) = Some d" "\<not> is_space (digit d)" "digit d \<noteq> CHR ''-''" "digit d \<noteq> CHR ''+''"
    "digit d \<noteq> CHR '':''" "digit d \<noteq> CHR '',''"
proof -
  have "list_all (\<lambda>d. digit_of (digit d) = Some d \<and> \<not> is_space (digit d) \<and> digit d \<noteq> CHR ''-'' \<and>
      digit d \<noteq> CHR ''+'' \<and> digit d \<noteq> CHR '':'' \<and> digit d \<noteq> CHR '','') [0..<10]"
    by code_simp
  then show "digit_of (digit d) = Some d" "\<not> is_space (digit d)" "digit d \<noteq> CHR ''-''" "digit d \<noteq> CHR ''+''"
    "digit d \<noteq> CHR '':''" "digit d \<noteq> CHR '',''"
    using assms by (auto simp: list_all_iff)
qed

lemma show_nat_chars: "\<forall>c\<in>set (show_nat n). \<exists>d<10. c = digit d"
proof (induction n rule: show_nat.induct)
  case (1 n)
  show ?case
  proof (cases "n < 10")
    case True
    then show ?thesis by (subst show_nat.simps) auto
  next
    case False
    have "\<exists>d<10. digit (n mod 10) = digit d" by (rule exI [of _ "n mod 10"]) simp
    with False 1 show ?thesis by (subst show_nat.simps) auto
  qed
qed

lemma show_nat_nonempty [simp]: "show_nat n \<noteq> []"
  by (subst show_nat.simps) simp

lemma value_show_nat: "value_of 10 (show_nat n) = n"
proof (induction n rule: show_nat.induct)
  case (1 n)
  show ?case
  proof (cases "n < 10")
    case True
    then show ?thesis by (subst show_nat.simps) (simp add: value_of_def digit_facts)
  next
    case False
    then have "value_of 10 (show_nat (n div 10)) = n div 10" using 1 by simp
    with False show ?thesis
      by (subst show_nat.simps) (simp add: value_of_def digit_facts)
  qed
qed

lemma takeWhile_all: "\<forall>c\<in>set xs. P c \<Longrightarrow> (ys = [] \<or> \<not> P (hd ys)) \<Longrightarrow> takeWhile P (xs @ ys) = xs \<and> dropWhile P (xs @ ys) = ys"
  by (induction xs) (cases ys, auto)

lemma scan_show_int:
  assumes "rest = [] \<or> \<not> is_digit 10 (hd rest)"
  shows "scan_int 10 (show_int i @ rest) = Some (i, rest)"
proof -
  have c: "\<forall>c\<in>set (show_nat n). is_digit 10 c \<and> \<not> is_space c \<and> c \<noteq> CHR ''-'' \<and> c \<noteq> CHR ''+''" for n
  proof
    fix c assume "c \<in> set (show_nat n)"
    then obtain d where "d < 10" "c = digit d" using show_nat_chars by blast
    then show "is_digit 10 c \<and> \<not> is_space c \<and> c \<noteq> CHR ''-'' \<and> c \<noteq> CHR ''+''"
      by (simp add: is_digit_def digit_facts)
  qed
  have t: "takeWhile (is_digit 10) (show_nat n @ rest) = show_nat n \<and> dropWhile (is_digit 10) (show_nat n @ rest) = rest" for n
    using c [of n] assms by (intro takeWhile_all) auto
  have sgn: "sign_of (dropWhile is_space (show_nat n @ rest)) = (1, show_nat n @ rest)" for n
  proof -
    obtain d ds where "show_nat n = d # ds" by (cases "show_nat n") simp_all
    then show ?thesis using c [of n] by (simp add: sign_of_def)
  qed
  show ?thesis
  proof (cases "i < 0")
    case True
    have "sign_of (dropWhile is_space (CHR ''-'' # show_nat (nat (- i)) @ rest)) = (-1, show_nat (nat (- i)) @ rest)"
      by (simp add: sign_of_def is_space_def)
    then show ?thesis using True t value_show_nat by (simp add: scan_int_def show_int_def Let_def)
  next
    case False
    then show ?thesis using sgn t value_show_nat by (simp add: scan_int_def show_int_def Let_def)
  qed
qed

definition is_int32 :: "int \<Rightarrow> bool" where
  "is_int32 i \<longleftrightarrow> - (2 ^ 31) \<le> i \<and> i < 2 ^ 31"

lemma stoi_show_int: "is_int32 i \<Longrightarrow> stoi (show_int i) = Some i"
  using scan_show_int [of "[]" i] by (simp add: stoi_def is_int32_def)

lemma show_int_free: "CHR '','' \<notin> set (show_int i)" "CHR '':'' \<notin> set (show_int i)"
  using show_nat_chars digit_facts(5,6) by (auto simp: show_int_def split: if_splits) metis+

lemma getlines_Nil [simp]: "getlines c [] = []"
  by (subst getlines.simps) simp

lemma getlines_last:
  assumes "c \<notin> set s" "s \<noteq> []"
  shows "getlines c s = [s]"
proof -
  have t: "takeWhile (\<lambda>x. x \<noteq> c) s = s" "dropWhile (\<lambda>x. x \<noteq> c) s = []"
    using assms by (auto simp: takeWhile_eq_all_conv)
  have "getlines c s = takeWhile (\<lambda>x. x \<noteq> c) s # getlines c (drop 1 (dropWhile (\<lambda>x. x \<noteq> c) s))"
    using assms(2) by (subst getlines.simps) simp
  then show ?thesis unfolding t by simp
qed

lemma getlines_sep: "c \<notin> set s \<Longrightarrow> getlines c (s @ c # r) = s # getlines c r"
proof -
  assume "c \<notin> set s"
  then have "takeWhile (\<lambda>x. x \<noteq> c) (s @ c # r) = s \<and> dropWhile (\<lambda>x. x \<noteq> c) (s @ c # r) = c # r"
    by (intro takeWhile_all) auto
  then show ?thesis by (subst getlines.simps) simp
qed

section \<open>Properties\<close>

definition send_mouse_arg :: "mouse_injection \<Rightarrow> string" where
  "send_mouse_arg j = show_int (mi_frame j) @ '':'' @ show_int (mi_dx j) @ '','' @ show_int (mi_dy j) @ '','' @
     show_int (mi_buttons j) @ '','' @ show_int (mi_duration j)"

lemma opt_send_mouse_arg:
  assumes "list_all is_int32 [mi_frame j, mi_dx j, mi_dy j, mi_buttons j, mi_duration j]"
  shows "opt_send_mouse (send_mouse_arg j) p = Next (p\<lparr>injections := injections p @ [j]\<rparr>) 1"
proof -
  let ?vs = "show_int (mi_dx j) @ '','' @ show_int (mi_dy j) @ '','' @ show_int (mi_buttons j) @ '','' @ show_int (mi_duration j)"
  have s: "takeWhile (\<lambda>c. c \<noteq> CHR '':'') (show_int (mi_frame j) @ CHR '':'' # ?vs) = show_int (mi_frame j) \<and>
      dropWhile (\<lambda>c. c \<noteq> CHR '':'') (show_int (mi_frame j) @ CHR '':'' # ?vs) = CHR '':'' # ?vs"
    using show_int_free by (intro takeWhile_all) auto
  have n: "show_int i \<noteq> []" for i by (simp add: show_int_def)
  have "getlines (CHR '','') ?vs = map show_int [mi_dx j, mi_dy j, mi_buttons j, mi_duration j]"
    using show_int_free(1) n by (simp add: getlines_sep getlines_last)
  then show ?thesis
    using assms s by (simp add: opt_send_mouse_def send_mouse_arg_def with_int_def stoi_show_int)
qed

text \<open>Scheduling the mouse. The documented form \<open>--send-mouse <frame>:<dx>,<dy>,<btn>,<dur>\<close> appends
  exactly the injection written there, for every value an \<open>int\<close> holds, and parsing goes on behind it.\<close>

theorem send_mouse_parses:
  assumes "list_all is_int32 [mi_frame j, mi_dx j, mi_dy j, mi_buttons j, mi_duration j]"
  shows "parse_args (''--send-mouse'' # send_mouse_arg j # rest) p =
    parse_args rest (p\<lparr>injections := injections p @ [j]\<rparr>)"
proof -
  have "map_of switch_options ''--send-mouse'' = None" "map_of stoi_options ''--send-mouse'' = None"
    "map_of atoi_options ''--send-mouse'' = None"
    by (simp_all add: switch_options_def stoi_options_def atoi_options_def)
  then show ?thesis
    using opt_send_mouse_arg [OF assms] by (simp add: parse_arg_def operand_option_def)
qed

theorem send_mouse_parses_witness:
  "\<exists>p. parse_args [''--send-mouse'', ''500:20,-3,1,2''] options_init = Next p 0 \<and>
    injections p = [\<lparr>mi_frame = 500, mi_dx = 20, mi_dy = -3, mi_buttons = 1, mi_duration = 2\<rparr>]"
proof -
  let ?j = "\<lparr>mi_frame = 500, mi_dx = 20, mi_dy = -3, mi_buttons = 1, mi_duration = 2\<rparr>"
  have "send_mouse_arg ?j = ''500:20,-3,1,2''"
    by (simp add: send_mouse_arg_def show_int_def show_nat.simps digit_def)
  then show ?thesis
    using send_mouse_parses [of ?j "[]" options_init] by (simp add: is_int32_def options_init_def)
qed

lemma parse_ram:
  assumes "is_int32 mb"
  shows "parse_args (''--ram'' # show_int mb # rest) p =
    (if mb = 1 then parse_args rest (set_num ''cfg_memSize'' 0 p)
     else if mb = 2 then parse_args rest (set_num ''cfg_memSize'' 1 p)
     else if mb = 4 then parse_args rest (set_num ''cfg_memSize'' 2 p)
     else if mb = 8 then parse_args rest (set_num ''cfg_memSize'' 3 p) else Exit 1)"
proof -
  have m: "map_of switch_options ''--ram'' = None" "map_of stoi_options ''--ram'' = None"
    "map_of atoi_options ''--ram'' = None"
    by (simp_all add: switch_options_def stoi_options_def atoi_options_def)
  have "sint (word_of_int (max (- (2 ^ 63)) (min (2 ^ 63 - 1) mb)) :: 32 word) = mb"
    using assms by (simp add: is_int32_def signed_of_int signed_take_bit_int_eq_self)
  then have a: "atoi (show_int mb) = mb" using scan_show_int [of "[]" mb] by (simp add: atoi_def)
  have "parse_args (''--ram'' # show_int mb # rest) p =
      (case opt_ram (show_int mb) p of Next p k \<Rightarrow> parse_args (drop k (show_int mb # rest)) p | Exit e \<Rightarrow> Exit e | Throw \<Rightarrow> Throw)"
    by (simp add: parse_arg_def operand_option_def m)
  then show ?thesis unfolding opt_ram_def a Let_def by (simp only: if_distrib [of "case_parsed _ _ _"] parsed.case) simp
qed

text \<open>The memory size. \<open>--ram\<close> accepts exactly the sizes 1, 2, 4 and 8, and the core is configured
  with the size's logarithm; every other number ends the program with status 1.\<close>

theorem ram_option:
  assumes "is_int32 mb"
  shows "(\<forall>k<4. mb = 2 ^ k \<longrightarrow> parse_args (''--ram'' # show_int mb # rest) p = parse_args rest (set_num ''cfg_memSize'' (int k) p)) \<and>
    (mb \<notin> {1, 2, 4, 8} \<longrightarrow> parse_args (''--ram'' # show_int mb # rest) p = Exit 1)"
proof (intro conjI allI impI)
  fix k :: nat assume k: "k < 4" "mb = 2 ^ k"
  then consider "k = 0" | "k = 1" | "k = 2" | "k = 3" by linarith
  then show "parse_args (''--ram'' # show_int mb # rest) p = parse_args rest (set_num ''cfg_memSize'' (int k) p)"
    unfolding parse_ram [OF assms] using k(2) by cases simp_all
next
  assume "mb \<notin> {1, 2, 4, 8}"
  then show "parse_args (''--ram'' # show_int mb # rest) p = Exit 1"
    unfolding parse_ram [OF assms] by simp
qed

theorem ram_option_witness:
  "parse_args [''--ram'', show_int 4] options_init = Next (set_num ''cfg_memSize'' 2 options_init) 0 \<and>
   parse_args [''--ram'', show_int 3] options_init = Exit 1"
proof
  have "parse_args (''--ram'' # show_int 4 # []) options_init = parse_args [] (set_num ''cfg_memSize'' (int 2) options_init)"
    by (rule ram_option [THEN conjunct1, rule_format]) (simp_all add: is_int32_def)
  then show "parse_args [''--ram'', show_int 4] options_init = Next (set_num ''cfg_memSize'' 2 options_init) 0"
    by (simp only: parse_args.simps(1) of_nat_numeral)
  show "parse_args [''--ram'', show_int 3] options_init = Exit 1"
    by (rule ram_option [THEN conjunct2, rule_format]) (simp_all add: is_int32_def)
qed

end
