(* ===== verification/FetchLogs.thy ===== *)
theory FetchLogs
  imports Trace Cmdline
begin

text \<open>
  The debug logs of \<open>verilate\<close> (\<open>src/verilator/sim_main.cpp\<close>) that follow the processor's fetches and
  writes: the write watches, the disk driver's trace, the profile counters, the boot decisions, the
  low-memory bits, the wait loop, the ROM's SCSI time-out loop, the floppy driver's state, the RAM
  test. Each is a step from what a call of \<open>verilate\<close> sees (\<open>look\<close>) and the log's own counters to the
  counters and the lines printed; none changes the machine. The logs share a contract: a log has a
  counter of its lines and stops for good when the counter reaches its limit.
\<close>

section \<open>What a log sees, and its contract\<close>

record look =
  l_top :: top
  l_frame :: int
  l_time :: u64
  l_opts :: options
  l_download :: bool

abbreviation lflag :: "look \<Rightarrow> string \<Rightarrow> bool" where "lflag v n \<equiv> flag (l_top v) n"
abbreviation sg :: "top \<Rightarrow> string \<Rightarrow> arg" where "sg t n \<equiv> w64 (sig t n)"
abbreviation enabled :: "look \<Rightarrow> string \<Rightarrow> bool" where "enabled v n \<equiv> flags (l_opts v) n"
abbreviation pc_of :: "look \<Rightarrow> u32" where "pc_of v \<equiv> sig32 (l_top v) ''debug_pc''"

fun tagged :: "string \<Rightarrow> line \<Rightarrow> bool" where
  "tagged n (Line m _) \<longleftrightarrow> n = m"

definition run_log :: "('i \<Rightarrow> 's \<Rightarrow> 's \<times> line list) \<Rightarrow> 'i list \<Rightarrow> 's \<Rightarrow> 's \<times> line list" where
  "run_log step xs s = fold (\<lambda>x (s, ls). let (s', l) = step x s in (s', ls @ l)) xs (s, [])"

lemma run_log_Nil [simp]: "run_log step [] s = (s, [])"
  by (simp add: run_log_def)

lemma run_log_snoc:
  "run_log step (xs @ [x]) s =
    (let (s', ls) = run_log step xs s; (s'', l) = step x s' in (s'', ls @ l))"
  by (simp add: run_log_def split_beta)

locale rationed_log =
  fixes step :: "'i \<Rightarrow> 's \<Rightarrow> 's \<times> line list"
    and hits :: "'s \<Rightarrow> nat"
    and tag :: string
    and cap :: nat
    and burst :: nat
  assumes counted: "hits (fst (step x s)) = hits s + length (filter (tagged tag) (snd (step x s)))"
    and silent: "cap \<le> hits s \<Longrightarrow> filter (tagged tag) (snd (step x s)) = []"
    and burst: "length (filter (tagged tag) (snd (step x s))) \<le> burst"
begin

lemma counter_exact: "hits (fst (run_log step xs s)) = hits s + length (filter (tagged tag) (snd (run_log step xs s)))"
  by (induction xs rule: rev_induct) (simp_all add: run_log_snoc split_beta counted)

lemma counter_bounded: "hits s \<le> cap + burst - 1 \<Longrightarrow> hits (fst (run_log step xs s)) \<le> cap + burst - 1"
proof (induction xs rule: rev_induct)
  case (snoc x xs)
  let ?s = "fst (run_log step xs s)"
  have b: "hits ?s \<le> cap + burst - 1" using snoc by blast
  show ?case
  proof (cases "cap \<le> hits ?s")
    case True
    then show ?thesis using b silent [of ?s x] counted [of x ?s] by (simp add: run_log_snoc split_beta)
  next
    case False
    then show ?thesis using burst [of x ?s] counted [of x ?s] by (simp add: run_log_snoc split_beta)
  qed
qed simp

lemma log_lines_bounded: "hits s = 0 \<Longrightarrow> length (filter (tagged tag) (snd (run_log step xs s))) \<le> cap + burst - 1"
  using counter_bounded [of s xs] counter_exact [of xs s] by simp

end

section \<open>Write watches\<close>

definition heapspray_debug_max :: nat where "heapspray_debug_max = 6000"
definition watch_range_max :: nat where "watch_range_max = 12000"
definition drvtrace_max :: nat where "drvtrace_max = 6000000"

record watches =
  heapspray_debug_count :: nat
  watch_range_count :: nat
  heapspray_prev_write_valid :: bool
  heapspray_asc_prev_write_valid :: bool
  sim_drv_exec :: bool
  drvtrace_count :: nat
  drv_base :: u32

definition watches_init :: watches where
  "watches_init = \<lparr>heapspray_debug_count = 0, watch_range_count = 0, heapspray_prev_write_valid = False,
     heapspray_asc_prev_write_valid = False, sim_drv_exec = False, drvtrace_count = 0, drv_base = 0\<rparr>"

definition write_addr :: "top \<Rightarrow> u32" where
  "write_addr t = sig32 t ''debug_write_addr''"

definition ram_topbyte :: "top \<Rightarrow> bool" where
  "ram_topbyte t \<longleftrightarrow> drop_bit 24 (write_addr t) AND 0x1F = 0"

definition heapspray_watch :: "look \<Rightarrow> watches \<Rightarrow> watches \<times> line list" where
  "heapspray_watch v w =
    (if enabled v ''heapspray_debug_enable'' \<and> \<not> l_download v \<and> heapspray_debug_count w < heapspray_debug_max
     then
       (let t = l_top v; waddr = write_addr t AND 0xFFFFFF;
            completed_write = (flag t ''debug_write_valid'' \<and> \<not> heapspray_prev_write_valid w)
        in if completed_write \<and> sim_drv_exec w \<and> ram_topbyte t \<and> drv_base w \<noteq> 0 \<and> drv_base w \<le> waddr \<and> waddr < drv_base w + 0x2600
           then
             (let w = w\<lparr>heapspray_debug_count := heapspray_debug_count w + 1\<rparr>
              in (w, Line ''HEAPSPRAY'' ([Num (l_frame v), sg t ''debug_pc'', w32 waddr, sg t ''debug_write_addr'', sg t ''debug_write_data'',
                      w32 (tg68_reg t 15), w32 (ram_long t (tg68_reg t 15 AND 0x7FFFFF))] @ regs t [12, 13, 6]) #
                   (if heapspray_debug_count w = heapspray_debug_max then [Line ''HEAPSPRAY cap reached'' []] else [])))
           else (w, []))
     else (w, []))"

definition watchwr_line :: "look \<Rightarrow> line" where
  "watchwr_line v =
    (let t = l_top v in
     Line ''WATCHWR'' ([Num (l_frame v), sg t ''debug_pc'', w32 (write_addr t AND 0xFFFFFF), sg t ''debug_write_data''] @ regs t [15, 8, 9, 0, 1]))"

definition range_watch :: "look \<Rightarrow> watches \<Rightarrow> watches \<times> line list" where
  "range_watch v w =
    (if enabled v ''watch_range_enable'' \<and> \<not> l_download v \<and> nums (l_opts v) ''watch_range_min_frame'' \<le> l_frame v \<and>
        watch_range_count w < watch_range_max
     then
       (let t = l_top v; waddr = write_addr t AND 0xFFFFFF;
            completed_write = (flag t ''debug_write_valid'' \<and> \<not> heapspray_prev_write_valid w)
        in if completed_write \<and> ram_topbyte t \<and> word_of_int (nums (l_opts v) ''watch_range_lo'') \<le> waddr \<and>
              waddr < word_of_int (nums (l_opts v) ''watch_range_hi'')
           then
             (let w = w\<lparr>watch_range_count := watch_range_count w + 1\<rparr>
              in (w, watchwr_line v # (if watch_range_count w = watch_range_max then [Line ''WATCHWR cap reached'' []] else [])))
           else (w, []))
     else (w, []))"

definition asc_watch :: "look \<Rightarrow> watches \<Rightarrow> line list" where
  "asc_watch v w =
    (if enabled v ''heapspray_debug_enable'' \<and> \<not> l_download v
     then
       (let t = l_top v; wa = write_addr t AND 0x1FFFFF
        in if flag t ''debug_write_valid'' \<and> \<not> heapspray_asc_prev_write_valid w \<and>
              (wa = 0x114801 \<or> wa = 0x114803 \<or> (0x114000 \<le> wa \<and> wa \<le> 0x1147FF \<and> wa AND 0x7F = 0))
           then [Line ''ASCWR'' [Num (l_frame v), sg t ''debug_pc'', sg t ''debug_write_addr'', sg t ''debug_write_data'']]
           else [])
     else [])"

definition write_watches :: "look \<Rightarrow> watches \<Rightarrow> watches \<times> line list" where
  "write_watches v w =
    (let (w, l1) = heapspray_watch v w; (w, l2) = range_watch v w; l3 = asc_watch v w; wv = lflag v ''debug_write_valid''
     in (w\<lparr>heapspray_asc_prev_write_valid := wv, heapspray_prev_write_valid := wv\<rparr>, l1 @ l2 @ l3))"

text \<open>The disk driver's base, its first fetch, and the stream of its fetches.\<close>

definition driver_base :: "look \<Rightarrow> watches \<Rightarrow> watches \<times> line list" where
  "driver_base v w =
    (if pc_of v = 0x40807BB0 \<and> drv_base w = 0
     then (let b = tg68_reg (l_top v) 11 AND 0xFFFFFF in (w\<lparr>drv_base := b\<rparr>, [Line ''DRVBASE'' [Num (l_frame v), w32 b]]))
     else (w, []))"

definition in_driver :: "u32 \<Rightarrow> u32 \<Rightarrow> bool" where
  "in_driver base pc \<longleftrightarrow> base \<noteq> 0 \<and> pc AND 0xFF000000 = 0 \<and> base \<le> pc AND 0xFFFFFF \<and> pc AND 0xFFFFFF < base + 0x2600"

definition driver_fetch :: "look \<Rightarrow> watches \<Rightarrow> watches \<times> line list" where
  "driver_fetch v w =
    (if in_driver (drv_base w) (pc_of v)
     then
       (let t = l_top v;
            (w, l1) = (if \<not> sim_drv_exec w then (w\<lparr>sim_drv_exec := True\<rparr>, [Line ''DRVEXEC'' [Num (l_frame v), w32 (pc_of v)]]) else (w, []))
        in if enabled v ''drvtrace_enable'' \<and> drvtrace_count w < drvtrace_max
           then
             (let w = w\<lparr>drvtrace_count := drvtrace_count w + 1\<rparr>
              in (w, l1 @ Line ''DT'' ([Num (l_frame v), w32 (pc_of v AND 0xFFFFFF), sg t ''debug_opcode''] @ regs t [0, 1, 8, 9, 15]) #
                   (if drvtrace_count w = drvtrace_max then [Line ''DT cap reached'' []] else [])))
           else (w, l1))
     else (w, []))"

definition fetch_driver :: "look \<Rightarrow> watches \<Rightarrow> watches \<times> line list" where
  "fetch_driver v w = (let (w, l1) = driver_base v w; (w, l2) = driver_fetch v w in (w, l1 @ l2))"

section \<open>Profile counters\<close>

record profile =
  unique_fetch_count :: u64
  unique_fetch_last_pc :: u32
  profile_scsi_timeout_fetches :: u64
  profile_tick_wait_fetches :: u64
  profile_vbl_handler_fetches :: u64
  profile_lowmem_fetches :: u64
  profile_last_fetch_pc :: u32
  profile_irq_change_count :: u64
  profile_irq_assert_count :: "u64 list"
  profile_last_ipl :: u8

definition profile_init :: profile where
  "profile_init = \<lparr>unique_fetch_count = 0, unique_fetch_last_pc = 0xFFFFFFFF, profile_scsi_timeout_fetches = 0,
     profile_tick_wait_fetches = 0, profile_vbl_handler_fetches = 0, profile_lowmem_fetches = 0,
     profile_last_fetch_pc = 0xFFFFFFFF, profile_irq_change_count = 0, profile_irq_assert_count = replicate 8 0, profile_last_ipl = 7\<rparr>"

definition profile_fetch :: "u32 \<Rightarrow> profile \<Rightarrow> profile" where
  "profile_fetch pc p =
    (let p = (if pc \<noteq> unique_fetch_last_pc p
              then p\<lparr>unique_fetch_last_pc := pc, unique_fetch_count := unique_fetch_count p + 1\<rparr> else p)
     in if pc \<noteq> profile_last_fetch_pc p
        then
          (let p = (if 0x40826CB6 \<le> pc \<and> pc \<le> 0x40826CD4 then p\<lparr>profile_scsi_timeout_fetches := profile_scsi_timeout_fetches p + 1\<rparr> else p);
               p = (if 0x40801500 \<le> pc \<and> pc \<le> 0x40801658 then p\<lparr>profile_tick_wait_fetches := profile_tick_wait_fetches p + 1\<rparr> else p);
               p = (if 0x4080612E \<le> pc \<and> pc \<le> 0x408061F2 then p\<lparr>profile_vbl_handler_fetches := profile_vbl_handler_fetches p + 1\<rparr> else p);
               p = (if 0x00800000 \<le> pc \<and> pc \<le> 0x008FFFFF then p\<lparr>profile_lowmem_fetches := profile_lowmem_fetches p + 1\<rparr> else p)
           in p\<lparr>profile_last_fetch_pc := pc\<rparr>)
        else p)"

definition profile_ipl :: "u8 \<Rightarrow> profile \<Rightarrow> profile" where
  "profile_ipl ipl p =
    (let cur_ipl = ipl AND 0x07 in
     if cur_ipl \<noteq> profile_last_ipl p
     then
       (let p = p\<lparr>profile_irq_change_count := profile_irq_change_count p + 1\<rparr>;
            p = (if cur_ipl \<noteq> 7
                 then p\<lparr>profile_irq_assert_count := (profile_irq_assert_count p)[unat cur_ipl := profile_irq_assert_count p ! unat cur_ipl + 1]\<rparr>
                 else p)
        in p\<lparr>profile_last_ipl := cur_ipl\<rparr>)
     else p)"

section \<open>Boot decisions\<close>

definition boot_decision_debug_max :: nat where "boot_decision_debug_max = 900"

text \<open>Words and longs at offsets of a base, in the order printed.\<close>

definition words_at :: "top \<Rightarrow> u32 \<Rightarrow> u32 list \<Rightarrow> arg list" where
  "words_at t base offs = map (\<lambda>d. w16 (ram_word t (base + d))) offs"

definition longs_at :: "top \<Rightarrow> u32 \<Rightarrow> u32 list \<Rightarrow> arg list" where
  "longs_at t base offs = map (\<lambda>d. w32 (ram_long t (base + d))) offs"

definition print_boot_decision_debug :: "look \<Rightarrow> nat \<Rightarrow> u32 \<Rightarrow> line" where
  "print_boot_decision_debug v count pc =
    (let t = l_top v; a6 = tg68_reg t 14; a7 = tg68_reg t 15; a1 = tg68_reg t 9; a4 = tg68_reg t 12; a2 = tg68_reg t 10;
         d6 = tg68_reg t 6; q = ram_long t 0x030A
     in Line ''BOOT_DECISION'' (
       [Num (int count), Num (l_frame v), w32 (lowmem_tick_016a t), w64 (l_time v), w32 pc, sg t ''debug_opcode''] @
       regs t [0..<16] @ longs_at t a7 [0x00, 0x02] @
       words_at t a7 [0x00, 0x02, 0x04, 0x06, 0x08, 0x0A, 0x0C, 0x0E, 0x10, 0x12, 0x14, 0x16] @
       words_at t a6 [0x08, 0x0A, 0x0C, 0x0E, 0x14] @
       words_at t a1 [0x00, 0x02] @ longs_at t a1 [0x04, 0x08] @ words_at t a1 [0x0C, 0x0E] @ longs_at t a1 [0x10, 0x14] @
       words_at t d6 [0x00, 0x02, 0x04, 0x06, 0x08, 0x0A] @
       words_at t 0 [0x09FA, 0x09FC, 0x09FE, 0x0A00, 0x0A02] @
       [w32 (ram_long t 0x0134), w16 (ram_word t 0x017A), w8 (ram_byte t 0x0B22), w8 (ram_byte t 0x0B2E), w8 (ram_byte t 0x0C2F),
        w16 (ram_word t 0x0D00), w16 (ram_word t 0x0DA6)] @
       longs_at t 0 [0x08EE, 0x0D10, 0x0D14] @ [w32 q] @
       longs_at t q [0x00] @ words_at t q [0x04, 0x06, 0x08, 0x0A] @ longs_at t q [0x0C] @
       longs_at t a2 [0x00] @ words_at t a2 [0x04, 0x06, 0x08, 0x0A] @
       longs_at t a4 [0x00] @ words_at t a4 [0x04, 0x06, 0x08, 0x0A] @ longs_at t a4 [0x10] @ words_at t a4 [0x14] @
       longs_at t a4 [0x18] @ words_at t a4 [0x1C] @ longs_at t a4 [0x20] @ words_at t a4 [0x60] @
       [w8 (ram_byte t ((a4 + 0x61) AND 0x1FFFFF)),
        w8 (scsi_debug_csr t), w8 (scsi_debug_bsr t), yes (scsi_debug_pmatch t), yes (flag t ''scsi.dma_en''), yes (flag t ''scsi.dma_ack''),
        sg t ''scsi.mr'', sg t ''scsi.icr'', sg t ''scsi.tcr'', sg t ''scsi.dout'', sg t ''scsi.din'', yes (flag t ''scsi.scsi_req''),
        sg t ''scsi.target_bsy'', sg t ''scsi.target_req'', sg t ''scsi.empty_cd.phase'', sg t ''scsi.empty_cd.cmd_cnt'',
        sg t ''scsi.empty_cd.cmd[0]'', sg t ''scsi.empty_cd.status'',
        yes (flag t ''sw.q6''), yes (flag t ''sw.q7''), yes (flag t ''sw.anyDiskEnable''), yes (flag t ''sw.anyDiskEnableD''),
        yes (flag t ''sw.diskEnableInt''), yes (flag t ''sw.diskEnableExt''), sg t ''sw.iwmMode'', Num 0, Num 0,
        w8 (ram_byte t ((a4 + 0x61) AND 0x1FFFFF))]))"

record boot_log =
  boot_decision_debug_count :: nat
  boot_decision_debug_last_key :: u32

definition boot_log_init :: boot_log where
  "boot_log_init = \<lparr>boot_decision_debug_count = 0, boot_decision_debug_last_key = 0xFFFFFFFF\<rparr>"

definition boot_key :: "top \<Rightarrow> u32 \<Rightarrow> u32" where
  "boot_key t pc = (pc AND 0xFFFFFFFE) XOR push_bit 1 (lowmem_tick_016a t) XOR (tg68_reg t 5 AND 0xFFFF) XOR
     push_bit 16 (tg68_reg t 15 AND 0xFFFF)"

definition boot_decision_log :: "look \<Rightarrow> boot_log \<Rightarrow> boot_log \<times> line list" where
  "boot_decision_log v b =
    (let pc = pc_of v; key = boot_key (l_top v) pc in
     if enabled v ''boot_decision_debug_enable'' \<and> lflag v ''debug_fetch_valid'' \<and>
        nums (l_opts v) ''boot_decision_debug_min_frame'' \<le> l_frame v \<and> boot_decision_pc pc \<and>
        boot_decision_debug_count b < boot_decision_debug_max
     then
       (if key \<noteq> boot_decision_debug_last_key b
        then (b\<lparr>boot_decision_debug_count := boot_decision_debug_count b + 1, boot_decision_debug_last_key := key\<rparr>,
              [print_boot_decision_debug v (boot_decision_debug_count b) pc])
        else (b, []))
     else (b, []))"

section \<open>Low-memory bits\<close>

definition lowmem_bit_debug_max :: nat where "lowmem_bit_debug_max = 80"

record lowmem_log =
  lowmem_bit_debug_count :: nat
  lowmem_bit_debug_last_time :: u64
  lowmem_bit_debug_prev_write_valid :: bool

definition lowmem_log_init :: lowmem_log where
  "lowmem_log_init = \<lparr>lowmem_bit_debug_count = 0, lowmem_bit_debug_last_time = 0, lowmem_bit_debug_prev_write_valid = False\<rparr>"

definition lowmem_line :: "look \<Rightarrow> nat \<Rightarrow> bool \<Rightarrow> bool \<Rightarrow> bool \<Rightarrow> u32 \<Rightarrow> line" where
  "lowmem_line v count watched_ram_write completed_write active_write ram_byte_addr =
    (let t = l_top v in
     Line ''LOWMEM_BIT_WR'' (
       [Num (int count),
        Str (if watched_ram_write then ''ram_we'' else if completed_write then ''complete'' else if active_write then ''active_wr'' else ''active_rd''),
        Num (l_frame v), w32 (lowmem_tick_016a t), w64 (l_time v), w32 (pc_of v), sg t ''debug_opcode'',
        sg t (if completed_write then ''debug_write_addr'' else ''debug_cpuAddr''),
        sg t (if completed_write then ''debug_write_data'' else ''debug_cpuDataIn''),
        yes (\<not> flag t ''debug_cpuUDS''), yes (\<not> flag t ''debug_cpuLDS''), yes (flag t ''debug_selectRAM''), yes (flag t ''debug_ram_we''),
        w8 (drop_bit 1 (sig8 t ''debug_ram_ds'') AND 1), w8 (sig8 t ''debug_ram_ds'' AND 1), sg t ''debug_ram_addr'', sg t ''debug_ram_din'',
        w32 ram_byte_addr] @
       words_at t 0 [0x09FA, 0x09FC, 0x09FE, 0x0A00, 0x0A02] @ [w8 (ram_byte t 0x0B22), w8 (ram_byte t 0x0B2E)]))"

text \<open>The condition looks at the processor's bus, at a completed write and at the RAM's own port.\<close>

definition lowmem_step :: "look \<Rightarrow> lowmem_log \<Rightarrow> lowmem_log \<times> line list" where
  "lowmem_step v w =
    (let t = l_top v;
         active_bus = (\<not> flag t ''debug_cpuAS'');
         active_write = (active_bus \<and> \<not> flag t ''debug_cpuRW'');
         completed_write = (flag t ''debug_write_valid'' \<and> \<not> lowmem_bit_debug_prev_write_valid w);
         addr = (if completed_write then write_addr t else sig32 t ''debug_cpuAddr'') AND 0x1FFFFF;
         ram_byte_addr = push_bit 1 (sig32 t ''debug_ram_addr'' AND 0x1FFFFF);
         watched_cpu_addr = ((0x09F8 \<le> addr \<and> addr \<le> 0x0A07) \<or> (0x0B20 \<le> addr \<and> addr \<le> 0x0B2F));
         watched_ram_write = (flag t ''debug_ram_we'' \<and> 0x09F8 \<le> ram_byte_addr \<and> ram_byte_addr \<le> 0x0A07)
     in if ((active_bus \<or> completed_write) \<and> watched_cpu_addr) \<or> watched_ram_write
        then (w\<lparr>lowmem_bit_debug_last_time := l_time v, lowmem_bit_debug_count := lowmem_bit_debug_count w + 1\<rparr>,
              [lowmem_line v (lowmem_bit_debug_count w) watched_ram_write completed_write active_write ram_byte_addr])
        else (w, []))"

definition lowmem_bit_log :: "look \<Rightarrow> lowmem_log \<Rightarrow> lowmem_log \<times> line list" where
  "lowmem_bit_log v w =
    (let (w, ls) = (if enabled v ''boot_decision_debug_enable'' \<and> lowmem_bit_debug_count w < lowmem_bit_debug_max \<and>
                       l_time v \<noteq> lowmem_bit_debug_last_time w
                    then lowmem_step v w else (w, []))
     in (w\<lparr>lowmem_bit_debug_prev_write_valid := lflag v ''debug_write_valid''\<rparr>, ls))"

section \<open>The wait loop\<close>

definition wait_debug_max :: nat where "wait_debug_max = 600"

record wait_log =
  wait_debug_count :: nat
  wait_debug_last_pc :: u32
  wait_debug_last_tick :: u32

definition wait_log_init :: wait_log where
  "wait_log_init = \<lparr>wait_debug_count = 0, wait_debug_last_pc = 0xFFFFFFFF, wait_debug_last_tick = 0xFFFFFFFF\<rparr>"

definition wait_line :: "look \<Rightarrow> line" where
  "wait_line v =
    (let t = l_top v; sp = tg68_reg t 15; a0 = tg68_reg t 8; a2 = tg68_reg t 10 in
     Line ''WAIT_DBG'' (
       [Num (l_frame v), w32 (lowmem_tick_016a t), w64 (l_time v), w32 (pc_of v), sg t ''debug_opcode''] @
       regs t [0, 1, 2, 5, 7] @ regs t [8, 9, 10, 11, 12, 13, 14, 15] @
       [w32 (ram_long t sp), w16 (ram_word t 0x017A), w16 (ram_word t 0x0C2E AND 0x00FF)] @
       words_at t 0 [0x0D24, 0x0D28] @ words_at t a2 [8] @ words_at t a0 [24] @ longs_at t a0 [32, 36] @
       words_at t a0 [44] @ longs_at t a0 [46]))"

definition wait_log_step :: "look \<Rightarrow> wait_log \<Rightarrow> wait_log \<times> line list" where
  "wait_log_step v w =
    (let pc = pc_of v; tick = lowmem_tick_016a (l_top v) in
     if enabled v ''wait_debug_enable'' \<and> nums (l_opts v) ''wait_debug_min_frame'' \<le> l_frame v \<and>
        0x40801500 \<le> pc \<and> pc \<le> 0x408017CC \<and> wait_debug_count w < wait_debug_max
     then
       (let spin_pc = (0x40801652 \<le> pc \<and> pc \<le> 0x40801658);
            should_log = (if spin_pc then tick \<noteq> wait_debug_last_tick w else pc \<noteq> wait_debug_last_pc w)
        in if should_log
           then (w\<lparr>wait_debug_count := wait_debug_count w + 1, wait_debug_last_pc := pc, wait_debug_last_tick := tick\<rparr>, [wait_line v])
           else (w, []))
     else (w, []))"

section \<open>The ROM's SCSI time-out loop\<close>

definition scsi_timeout_loop_debug_max :: nat where "scsi_timeout_loop_debug_max = 2000"

record timeout_log =
  scsi_timeout_loop_debug_count :: nat
  scsi_timeout_loop_last_d5_word :: u32
  scsi_timeout_loop_last_entry_sp :: u32
  scsi_timeout_loop_last_entry_ret :: u32

definition timeout_log_init :: timeout_log where
  "timeout_log_init = \<lparr>scsi_timeout_loop_debug_count = 0, scsi_timeout_loop_last_d5_word = 0xFFFFFFFF,
     scsi_timeout_loop_last_entry_sp = 0xFFFFFFFF, scsi_timeout_loop_last_entry_ret = 0xFFFFFFFF\<rparr>"

text \<open>Which states of the loop are logged, from the address and the words of D1 and D5.\<close>

definition timeout_loop_state :: "u32 \<Rightarrow> u16 \<Rightarrow> u16 \<Rightarrow> u32 \<Rightarrow> bool" where
  "timeout_loop_state pc d1_word d5_word last_d5 \<longleftrightarrow>
    (let d1_near_rollover = (d1_word \<le> 4 \<or> 0xFFFC \<le> d1_word);
         d5_changed = (ucast d5_word \<noteq> last_d5 AND 0xFFFF)
     in pc = 0x40826CB4 \<or> pc = 0x40826CB6 \<or> pc = 0x40826CD0 \<or> pc = 0x40826CD2 \<or> pc = 0x40826CD4 \<or>
        (pc = 0x40826CC6 \<and> (d1_near_rollover \<or> (d1_word = 0x8000 \<and> d5_word \<le> 8))) \<or>
        (pc = 0x40826CCA \<and> (d1_near_rollover \<or> d5_changed)))"

definition timeout_line :: "look \<Rightarrow> nat \<Rightarrow> line" where
  "timeout_line v count =
    (let t = l_top v; sp = tg68_reg t 15 in
     Line ''SCSI_TIMEOUT_LOOP'' (
       [Num (int count), Num (l_frame v), w32 (lowmem_tick_016a t), w64 (l_time v), w32 (pc_of v), sg t ''debug_opcode''] @
       regs t [0, 1, 5, 6, 11, 15] @
       [w32 (ram_long t sp), w16 (ram_word t 0x0D00), w16 (ram_word t 0x0DA6), w8 (timeout_bsr t), w8 (timeout_csr t),
        w8 (sig8 t ''scsi.icr''), w8 (sig8 t ''scsi.mr''), sg t ''scsi.dout'']))"

definition timeout_loop_log :: "look \<Rightarrow> timeout_log \<Rightarrow> timeout_log \<times> line list" where
  "timeout_loop_log v w =
    (let t = l_top v; pc = pc_of v in
     if enabled v ''scsi_timeout_loop_debug_enable'' \<and> 0x40826CB6 \<le> pc \<and> pc \<le> 0x40826CD4 \<and>
        scsi_timeout_loop_debug_count w < scsi_timeout_loop_debug_max
     then
       (let d1_word = ucast (tg68_reg t 1 AND 0xFFFF); d5_word = ucast (tg68_reg t 5 AND 0xFFFF);
            sp = tg68_reg t 15; ret = ram_long t sp;
            new_entry = ((pc = 0x40826CB4 \<or> pc = 0x40826CB6) \<and>
              (sp \<noteq> scsi_timeout_loop_last_entry_sp w \<or> ret \<noteq> scsi_timeout_loop_last_entry_ret w))
        in if timeout_loop_state pc d1_word d5_word (scsi_timeout_loop_last_d5_word w) \<or> new_entry
           then
             (let l = timeout_line v (scsi_timeout_loop_debug_count w);
                  w = w\<lparr>scsi_timeout_loop_debug_count := scsi_timeout_loop_debug_count w + 1\<rparr>;
                  w = (if new_entry then w\<lparr>scsi_timeout_loop_last_entry_sp := sp, scsi_timeout_loop_last_entry_ret := ret\<rparr> else w);
                  w = (if pc = 0x40826CCA then w\<lparr>scsi_timeout_loop_last_d5_word := ucast d5_word\<rparr> else w)
              in (w, [l]))
           else (w, []))
     else (w, []))"

section \<open>The floppy driver's state and the RAM test\<close>

definition iwm_state_debug_max :: nat where "iwm_state_debug_max = 300"

record pc_log =
  pl_count :: nat
  pl_last_pc :: u32

definition pc_log_init :: pc_log where
  "pc_log_init = \<lparr>pl_count = 0, pl_last_pc = 0xFFFFFFFF\<rparr>"

definition print_iwm_state_debug :: "look \<Rightarrow> nat \<Rightarrow> u32 \<Rightarrow> line" where
  "print_iwm_state_debug v count pc =
    (let t = l_top v; ptr0134 = ram_long t 0x0134; a1 = tg68_reg t 9;
         d0w = tg68_reg t 0 AND 0xFFFF; d1w = tg68_reg t 1 AND 0xFFFF; d3w = tg68_reg t 3 AND 0xFFFF;
         byte = (\<lambda>a. w8 (ram_byte t a))
     in Line ''IWM_STATE_DBG'' (
       [Num (int count), Num (l_frame v), w32 (lowmem_tick_016a t), w64 (l_time v), w32 pc, sg t ''debug_opcode''] @
       regs t [0, 1, 2, 3, 8, 9] @ [w32 ptr0134] @ words_at t ptr0134 [0x00] @
       [byte (ptr0134 + 0x03), byte (ptr0134 + 0x04), byte (ptr0134 + 0x05), byte (ptr0134 + 0x12), byte (ptr0134 + 0x18),
        byte (ptr0134 + 0x19)] @ words_at t ptr0134 [0x1A, 0x40] @
       [byte (a1 + d0w), byte (a1 + d1w), byte (a1 + d3w), byte (a1 + d1w + 3), byte (a1 + d1w + 4)]))"

definition iwm_state_log :: "look \<Rightarrow> pc_log \<Rightarrow> pc_log \<times> line list" where
  "iwm_state_log v w =
    (let pc = pc_of v in
     if enabled v ''iwm_state_debug_enable'' \<and> 0x0082E220 \<le> pc \<and> pc \<le> 0x0082E2DF \<and> pl_count w < iwm_state_debug_max \<and>
        pc \<noteq> pl_last_pc w
     then (w\<lparr>pl_count := pl_count w + 1, pl_last_pc := pc\<rparr>, [print_iwm_state_debug v (pl_count w) pc])
     else (w, []))"

definition ramtest_debug_max :: nat where "ramtest_debug_max = 260"

definition ramtest_pcs :: "u32 list" where
  "ramtest_pcs = [0x40802BBC, 0x40802BF0, 0x40802C10, 0x40802C28, 0x40802C3C, 0x40802CDC, 0x40803714, 0x40803734, 0x40803760,
     0x40803778, 0x4080378E, 0x40803794, 0x4080379A, 0x4080379E, 0x408037A0, 0x408037A2, 0x408037A4, 0x408037A6, 0x408037A8, 0x408037AA]"

definition ramtest_line :: "look \<Rightarrow> nat \<Rightarrow> line" where
  "ramtest_line v count =
    (let t = l_top v in
     Line ''RAMTEST_DBG'' ([Num (int count), Num (l_frame v), w64 (l_time v), w32 (pc_of v), sg t ''debug_opcode''] @
       regs t [0, 1, 2, 3, 4, 5, 6, 7, 8, 9, 10, 11, 12, 14] @
       words_at t 0 [0, 2, 8, 10, 0x1FFD00, 0x1FFD02, 0x1FFFFC, 0x1FFFFE]))"

definition ramtest_log :: "look \<Rightarrow> pc_log \<Rightarrow> pc_log \<times> line list" where
  "ramtest_log v w =
    (let pc = pc_of v in
     if enabled v ''ramtest_debug_enable'' \<and> \<not> l_download v \<and> lflag v ''debug_fetch_valid'' \<and> pl_count w < ramtest_debug_max
     then
       (if pc \<in> set ramtest_pcs \<and> pc \<noteq> pl_last_pc w
        then (w\<lparr>pl_last_pc := pc, pl_count := pl_count w + 1\<rparr>, [ramtest_line v (pl_count w)])
        else (w, []))
     else (w, []))"

section \<open>The calibration loops\<close>

definition calib_loop_debug_max :: nat where "calib_loop_debug_max = 160"

record calib_loop_log =
  calib_loop_hits :: "u32 list"
  calib_loop_debug_count :: nat

definition calib_loop_init :: calib_loop_log where
  "calib_loop_init = \<lparr>calib_loop_hits = [0, 0, 0], calib_loop_debug_count = 0\<rparr>"

definition loop_idx :: "u32 \<Rightarrow> nat option" where
  "loop_idx pc = (if pc = 0x4080059C then Some 0 else if pc = 0x408005D6 then Some 1 else if pc = 0x40800612 then Some 2 else None)"

definition calib_loop_line :: "look \<Rightarrow> nat \<Rightarrow> u32 \<Rightarrow> line" where
  "calib_loop_line v i hits =
    (let t = l_top v in
     Line ''CALIB_LOOP'' ([Num (int i), w32 hits, Num (l_frame v), w64 (l_time v), w32 (pc_of v), sg t ''debug_opcode''] @
       regs t [0, 1, 8, 9] @ [sg t ''via.timer_b_count'', sg t ''via.timer_b_latch'', sg t ''via.irq_flags'', sg t ''via.irq_mask'',
         yes (flag t ''via_timer_tick''), sg t ''via_timer_acc'']))"

definition calib_exit_line :: "look \<Rightarrow> u32 list \<Rightarrow> line" where
  "calib_exit_line v hits =
    (let t = l_top v in
     Line ''CALIB_LOOP'' ([Str ''EXIT'', Num (l_frame v), w64 (l_time v), w32 (pc_of v), sg t ''debug_opcode''] @ regs t [0] @
       map w32 hits @ [sg t ''via.timer_b_count'', sg t ''via.irq_flags'', sg t ''via.irq_mask'']))"

definition calib_hit :: "look \<Rightarrow> nat \<Rightarrow> calib_loop_log \<Rightarrow> calib_loop_log \<times> line list" where
  "calib_hit v i w =
    (let w = w\<lparr>calib_loop_hits := (calib_loop_hits w)[i := calib_loop_hits w ! i + 1]\<rparr>; hits = calib_loop_hits w ! i
     in if hits \<le> 8 \<or> hits AND 0xFF = 0
        then (w\<lparr>calib_loop_debug_count := calib_loop_debug_count w + 1\<rparr>, [calib_loop_line v i hits])
        else (w, []))"

definition calib_loop_step :: "look \<Rightarrow> calib_loop_log \<Rightarrow> calib_loop_log \<times> line list" where
  "calib_loop_step v w =
    (let pc = pc_of v in
     if enabled v ''calib_loop_debug_enable'' \<and> \<not> l_download v \<and> lflag v ''debug_fetch_valid'' \<and>
        calib_loop_debug_count w < calib_loop_debug_max
     then
       (case loop_idx pc of
          Some i \<Rightarrow> calib_hit v i w
        | None \<Rightarrow>
            if pc = 0x408005A4 \<or> pc = 0x408005DE \<or> pc = 0x4080061A
            then (w\<lparr>calib_loop_debug_count := calib_loop_debug_count w + 1\<rparr>, [calib_exit_line v (calib_loop_hits w)])
            else (w, []))
     else (w, []))"

section \<open>The logs together\<close>

record fetch_logs =
  fl_watches :: watches
  fl_profile :: profile
  fl_boot :: boot_log
  fl_lowmem :: lowmem_log
  fl_wait :: wait_log
  fl_timeout :: timeout_log
  fl_iwm :: pc_log
  fl_calib_loop :: calib_loop_log
  fl_ramtest :: pc_log

definition fetch_logs_init :: fetch_logs where
  "fetch_logs_init = \<lparr>fl_watches = watches_init, fl_profile = profile_init, fl_boot = boot_log_init,
     fl_lowmem = lowmem_log_init, fl_wait = wait_log_init, fl_timeout = timeout_log_init, fl_iwm = pc_log_init,
     fl_calib_loop = calib_loop_init, fl_ramtest = pc_log_init\<rparr>"

text \<open>What runs only at a fetch outside a download (the history probes of \<open>Trace\<close> run between the
  driver's log and the profile).\<close>

definition fetch_gate :: "look \<Rightarrow> fetch_logs \<Rightarrow> fetch_logs \<times> line list" where
  "fetch_gate v s =
    (if lflag v ''debug_fetch_valid'' \<and> \<not> l_download v
     then
       (let (w, l1) = fetch_driver v (fl_watches s);
            p = profile_fetch (pc_of v) (fl_profile s);
            (b, l2) = boot_decision_log v (fl_boot s);
            (m, l3) = lowmem_bit_log v (fl_lowmem s);
            (a, l4) = wait_log_step v (fl_wait s);
            (o', l5) = timeout_loop_log v (fl_timeout s);
            (i, l6) = iwm_state_log v (fl_iwm s)
        in (s\<lparr>fl_watches := w, fl_profile := p, fl_boot := b, fl_lowmem := m, fl_wait := a, fl_timeout := o', fl_iwm := i\<rparr>,
            l1 @ l2 @ l3 @ l4 @ l5 @ l6))
     else (s, []))"

definition fetch_logs_step :: "look \<Rightarrow> fetch_logs \<Rightarrow> fetch_logs \<times> line list" where
  "fetch_logs_step v s =
    (let (w, l1) = write_watches v (fl_watches s);
         (s, l2) = fetch_gate v (s\<lparr>fl_watches := w\<rparr>);
         s = (if \<not> l_download v then s\<lparr>fl_profile := profile_ipl (sig8 (l_top v) ''debug_cpuIPL'') (fl_profile s)\<rparr> else s);
         (c, l3) = calib_loop_step v (fl_calib_loop s);
         (r, l4) = ramtest_log v (fl_ramtest s)
     in (s\<lparr>fl_calib_loop := c, fl_ramtest := r\<rparr>, l1 @ l2 @ l3 @ l4))"

section \<open>Every log keeps the contract\<close>

interpretation heapspray: rationed_log heapspray_watch heapspray_debug_count "''HEAPSPRAY''" heapspray_debug_max 1
  by unfold_locales (simp_all add: heapspray_watch_def Let_def)

interpretation watch_range: rationed_log range_watch watch_range_count "''WATCHWR''" watch_range_max 1
  by unfold_locales (simp_all add: range_watch_def watchwr_line_def Let_def)

interpretation drvtrace: rationed_log driver_fetch drvtrace_count "''DT''" drvtrace_max 1
  by unfold_locales (simp_all add: driver_fetch_def Let_def)

interpretation boot_decision: rationed_log boot_decision_log boot_decision_debug_count "''BOOT_DECISION''" boot_decision_debug_max 1
  by unfold_locales (simp_all add: boot_decision_log_def print_boot_decision_debug_def Let_def)

interpretation lowmem_bits: rationed_log lowmem_bit_log lowmem_bit_debug_count "''LOWMEM_BIT_WR''" lowmem_bit_debug_max 1
  by unfold_locales (simp_all add: lowmem_bit_log_def lowmem_step_def lowmem_line_def Let_def)

interpretation wait_loop: rationed_log wait_log_step wait_debug_count "''WAIT_DBG''" wait_debug_max 1
  by unfold_locales (simp_all add: wait_log_step_def wait_line_def Let_def)

interpretation timeout_loop: rationed_log timeout_loop_log scsi_timeout_loop_debug_count "''SCSI_TIMEOUT_LOOP''" scsi_timeout_loop_debug_max 1
  by unfold_locales (simp_all add: timeout_loop_log_def timeout_line_def Let_def)

interpretation iwm_state: rationed_log iwm_state_log pl_count "''IWM_STATE_DBG''" iwm_state_debug_max 1
  by unfold_locales (simp_all add: iwm_state_log_def print_iwm_state_debug_def Let_def)

interpretation ramtest: rationed_log ramtest_log pl_count "''RAMTEST_DBG''" ramtest_debug_max 1
  by unfold_locales (simp_all add: ramtest_log_def ramtest_line_def Let_def)

lemma tagged_calib [simp]: "tagged ''CALIB_LOOP'' (calib_loop_line v i h)" "tagged ''CALIB_LOOP'' (calib_exit_line v hs)"
  by (simp_all add: calib_loop_line_def calib_exit_line_def Let_def)

lemma calib_hit_counted:
  "calib_loop_debug_count (fst (calib_hit v i w)) =
     calib_loop_debug_count w + length (filter (tagged ''CALIB_LOOP'') (snd (calib_hit v i w)))"
  "length (filter (tagged ''CALIB_LOOP'') (snd (calib_hit v i w))) \<le> 1"
  by (simp_all add: calib_hit_def Let_def)

interpretation calib_loop: rationed_log calib_loop_step calib_loop_debug_count "''CALIB_LOOP''" calib_loop_debug_max 1
  by unfold_locales (simp_all add: calib_loop_step_def calib_hit_counted Let_def del: One_nat_def split: option.split)

section \<open>What the logs record\<close>

text \<open>The profile counts the runs of equal addresses: each change of the fetched address once, by range.\<close>

definition changes :: "u32 \<Rightarrow> u32 list \<Rightarrow> u32 list" where "changes a pcs = tl (remdups_adj (a # pcs))"

lemma changes_Nil [simp]: "changes a [] = []"
  by (simp add: changes_def)

lemma changes_Cons: "changes a (pc # pcs) = (if pc = a then changes a pcs else pc # changes pc pcs)"
proof -
  have "remdups_adj (pc # pcs) = pc # tl (remdups_adj (pc # pcs))"
    using hd_remdups_adj [of "pc # pcs"] by (cases "remdups_adj (pc # pcs)") auto
  then show ?thesis by (simp add: changes_def)
qed

lemma profile_run:
  assumes "unique_fetch_last_pc p = profile_last_fetch_pc p"
  shows "unique_fetch_count (fold profile_fetch pcs p) = unique_fetch_count p + of_nat (length (changes (profile_last_fetch_pc p) pcs)) \<and>
    profile_tick_wait_fetches (fold profile_fetch pcs p) = profile_tick_wait_fetches p +
      of_nat (length (filter (\<lambda>pc. 0x40801500 \<le> pc \<and> pc \<le> 0x40801658) (changes (profile_last_fetch_pc p) pcs))) \<and>
    profile_scsi_timeout_fetches (fold profile_fetch pcs p) = profile_scsi_timeout_fetches p +
      of_nat (length (filter (\<lambda>pc. 0x40826CB6 \<le> pc \<and> pc \<le> 0x40826CD4) (changes (profile_last_fetch_pc p) pcs)))"
  using assms
proof (induction pcs arbitrary: p)
  case (Cons pc pcs)
  let ?q = "profile_fetch pc p"
  have q: "unique_fetch_last_pc ?q = pc" "profile_last_fetch_pc ?q = pc"
    using Cons.prems by (simp_all add: profile_fetch_def Let_def)
  show ?case
  proof (cases "pc = profile_last_fetch_pc p")
    case True
    then have "?q = p" using Cons.prems by (simp add: profile_fetch_def Let_def)
    then show ?thesis using True Cons by (simp add: changes_Cons)
  next
    case False
    then have "unique_fetch_count ?q = unique_fetch_count p + 1"
      "profile_tick_wait_fetches ?q = profile_tick_wait_fetches p + (if 0x40801500 \<le> pc \<and> pc \<le> 0x40801658 then 1 else 0)"
      "profile_scsi_timeout_fetches ?q = profile_scsi_timeout_fetches p + (if 0x40826CB6 \<le> pc \<and> pc \<le> 0x40826CD4 then 1 else 0)"
      using Cons.prems by (simp_all add: profile_fetch_def Let_def)
    then show ?thesis using False Cons.IH [of ?q] q by (simp add: changes_Cons)
  qed
qed simp

text \<open>The write watch: the calls in which the write signal rises.\<close>

fun rising :: "bool \<Rightarrow> look list \<Rightarrow> look list" where
  "rising p [] = []"
| "rising p (v # vs) = (if lflag v ''debug_write_valid'' \<and> \<not> p then [v] else []) @ rising (lflag v ''debug_write_valid'') vs"

lemma rising_snoc:
  "rising p (vs @ [v]) = rising p vs @
     (if lflag v ''debug_write_valid'' \<and> \<not> (if vs = [] then p else lflag (last vs) ''debug_write_valid'') then [v] else [])"
  by (induction vs arbitrary: p) simp_all

definition watched :: "look \<Rightarrow> bool" where
  "watched v \<longleftrightarrow> enabled v ''watch_range_enable'' \<and> \<not> l_download v \<and> nums (l_opts v) ''watch_range_min_frame'' \<le> l_frame v \<and>
     ram_topbyte (l_top v) \<and> word_of_int (nums (l_opts v) ''watch_range_lo'') \<le> write_addr (l_top v) AND 0xFFFFFF \<and>
     write_addr (l_top v) AND 0xFFFFFF < word_of_int (nums (l_opts v) ''watch_range_hi'')"

lemma heapspray_frame [simp]:
  "watch_range_count (fst (heapspray_watch v w)) = watch_range_count w"
  "heapspray_prev_write_valid (fst (heapspray_watch v w)) = heapspray_prev_write_valid w"
  "filter (tagged ''WATCHWR'') (snd (heapspray_watch v w)) = []"
  by (simp_all add: heapspray_watch_def Let_def)

lemma asc_silent [simp]: "filter (tagged ''WATCHWR'') (asc_watch v w) = []"
  by (simp add: asc_watch_def Let_def)

lemma range_watch_lines:
  "filter (tagged ''WATCHWR'') (snd (range_watch v w)) =
     (if watched v \<and> lflag v ''debug_write_valid'' \<and> \<not> heapspray_prev_write_valid w \<and> watch_range_count w < watch_range_max
      then [watchwr_line v] else [])"
  by (simp add: range_watch_def watched_def watchwr_line_def Let_def)

lemma write_watches_parts:
  "filter (tagged ''WATCHWR'') (snd (write_watches v w)) = filter (tagged ''WATCHWR'') (snd (range_watch v (fst (heapspray_watch v w))))"
  "watch_range_count (fst (write_watches v w)) = watch_range_count (fst (range_watch v (fst (heapspray_watch v w))))"
  "heapspray_prev_write_valid (fst (write_watches v w)) = lflag v ''debug_write_valid''"
  by (simp_all add: write_watches_def split_beta Let_def)

lemma write_watch_run:
  "let (w, ls) = run_log write_watches vs watches_init in
     filter (tagged ''WATCHWR'') ls = map watchwr_line (take watch_range_max (filter watched (rising False vs))) \<and>
     watch_range_count w = min watch_range_max (length (filter watched (rising False vs))) \<and>
     heapspray_prev_write_valid w = (vs \<noteq> [] \<and> lflag (last vs) ''debug_write_valid'')"
proof (induction vs rule: rev_induct)
  case Nil
  then show ?case by (simp add: watches_init_def)
next
  case (snoc v vs)
  let ?w = "fst (run_log write_watches vs watches_init)"
  let ?k = "length (filter watched (rising False vs))"
  have ih: "filter (tagged ''WATCHWR'') (snd (run_log write_watches vs watches_init)) =
      map watchwr_line (take watch_range_max (filter watched (rising False vs)))"
    "watch_range_count ?w = min watch_range_max ?k"
    "heapspray_prev_write_valid ?w = (vs \<noteq> [] \<and> lflag (last vs) ''debug_write_valid'')"
    using snoc by (simp_all add: split_beta Let_def)
  have c: "watch_range_count (fst (range_watch v (fst (heapspray_watch v ?w)))) = watch_range_count ?w +
      length (filter (tagged ''WATCHWR'') (snd (range_watch v (fst (heapspray_watch v ?w)))))"
    using watch_range.counted by simp
  have t: "take watch_range_max (filter watched (rising False vs) @ [v]) =
      take watch_range_max (filter watched (rising False vs)) @ (if ?k < watch_range_max then [v] else [])"
    by simp
  show ?case
    using ih c t by (auto simp: run_log_snoc split_beta write_watches_parts range_watch_lines rising_snoc simp del: take_append)
qed

text \<open>C38: For every sequence of calls, whatever options each sees, the lines of the RAM write watch are the calls in which
  the write signal rises on a watched address, in order, up to the limit of the log: no write is reported
  twice and none is missed before the limit.\<close>

theorem write_watch_exact:
  "filter (tagged ''WATCHWR'') (snd (run_log write_watches vs watches_init)) =
     map watchwr_line (take watch_range_max (filter watched (rising False vs)))"
  using write_watch_run [of vs] by (simp add: split_beta Let_def)

text \<open>The profile's counters are exact: over any sequence of fetches they are the numbers of changes of the fetched
  address, of all addresses and of those in the wait loop and in the SCSI time-out loop.\<close>

theorem profile_exact:
  "unique_fetch_count (fold profile_fetch pcs profile_init) = of_nat (length (changes 0xFFFFFFFF pcs)) \<and>
   profile_tick_wait_fetches (fold profile_fetch pcs profile_init) =
     of_nat (length (filter (\<lambda>pc. 0x40801500 \<le> pc \<and> pc \<le> 0x40801658) (changes 0xFFFFFFFF pcs))) \<and>
   profile_scsi_timeout_fetches (fold profile_fetch pcs profile_init) =
     of_nat (length (filter (\<lambda>pc. 0x40826CB6 \<le> pc \<and> pc \<le> 0x40826CD4) (changes 0xFFFFFFFF pcs)))"
  using profile_run [of profile_init pcs] by (simp add: profile_init_def)

section \<open>The limits hold for the logs together\<close>

lemma line_tags:
  "tagged n (watchwr_line v) \<longleftrightarrow> n = ''WATCHWR''" "tagged n (print_boot_decision_debug v k pc) \<longleftrightarrow> n = ''BOOT_DECISION''"
  "tagged n (lowmem_line v k x y z a) \<longleftrightarrow> n = ''LOWMEM_BIT_WR''" "tagged n (wait_line v) \<longleftrightarrow> n = ''WAIT_DBG''"
  "tagged n (timeout_line v k) \<longleftrightarrow> n = ''SCSI_TIMEOUT_LOOP''" "tagged n (print_iwm_state_debug v k pc) \<longleftrightarrow> n = ''IWM_STATE_DBG''"
  "tagged n (ramtest_line v k) \<longleftrightarrow> n = ''RAMTEST_DBG''" "tagged n (calib_loop_line v j h) \<longleftrightarrow> n = ''CALIB_LOOP''"
  "tagged n (calib_exit_line v hs) \<longleftrightarrow> n = ''CALIB_LOOP''"
  by (simp_all only: watchwr_line_def print_boot_decision_debug_def lowmem_line_def wait_line_def timeout_line_def
      print_iwm_state_debug_def ramtest_line_def calib_loop_line_def calib_exit_line_def Let_def tagged.simps)

lemma driver_other: "n \<notin> {''DRVBASE'', ''DRVEXEC'', ''DT'', ''DT cap reached''} \<Longrightarrow> filter (tagged n) (snd (fetch_driver v w)) = []"
  by (simp add: fetch_driver_def driver_base_def driver_fetch_def split_beta Let_def)

lemma heapspray_other: "n \<notin> {''HEAPSPRAY'', ''HEAPSPRAY cap reached''} \<Longrightarrow> filter (tagged n) (snd (heapspray_watch v w)) = []"
  by (simp add: heapspray_watch_def Let_def)

lemma range_other: "n \<notin> {''WATCHWR'', ''WATCHWR cap reached''} \<Longrightarrow> filter (tagged n) (snd (range_watch v w)) = []"
  by (simp add: range_watch_def line_tags Let_def)

lemma asc_other: "n \<noteq> ''ASCWR'' \<Longrightarrow> filter (tagged n) (asc_watch v w) = []"
  by (simp add: asc_watch_def Let_def)

lemma watches_other:
  "n \<notin> {''HEAPSPRAY'', ''HEAPSPRAY cap reached'', ''WATCHWR'', ''WATCHWR cap reached'', ''ASCWR''} \<Longrightarrow>
     filter (tagged n) (snd (write_watches v w)) = []"
  by (simp add: write_watches_def split_beta Let_def heapspray_other range_other asc_other)

lemma boot_other: "n \<noteq> ''BOOT_DECISION'' \<Longrightarrow> filter (tagged n) (snd (boot_decision_log v b)) = []"
  by (simp add: boot_decision_log_def line_tags Let_def)

lemma lowmem_other: "n \<noteq> ''LOWMEM_BIT_WR'' \<Longrightarrow> filter (tagged n) (snd (lowmem_bit_log v m)) = []"
  by (simp add: lowmem_bit_log_def lowmem_step_def line_tags Let_def)

lemma wait_other: "n \<noteq> ''WAIT_DBG'' \<Longrightarrow> filter (tagged n) (snd (wait_log_step v a)) = []"
  by (simp add: wait_log_step_def line_tags Let_def)

lemma timeout_other: "n \<noteq> ''SCSI_TIMEOUT_LOOP'' \<Longrightarrow> filter (tagged n) (snd (timeout_loop_log v o')) = []"
  by (simp add: timeout_loop_log_def line_tags Let_def)

lemma iwm_other: "n \<noteq> ''IWM_STATE_DBG'' \<Longrightarrow> filter (tagged n) (snd (iwm_state_log v i)) = []"
  by (simp add: iwm_state_log_def line_tags Let_def)

lemma ramtest_other: "n \<noteq> ''RAMTEST_DBG'' \<Longrightarrow> filter (tagged n) (snd (ramtest_log v r)) = []"
  by (simp add: ramtest_log_def line_tags Let_def)

lemma calib_other: "n \<noteq> ''CALIB_LOOP'' \<Longrightarrow> filter (tagged n) (snd (calib_loop_step v c)) = []"
  by (simp add: calib_loop_step_def calib_hit_def line_tags Let_def split: option.split)

lemmas other_logs = driver_other watches_other boot_other lowmem_other wait_other timeout_other iwm_other ramtest_other calib_other

abbreviation gate_open :: "look \<Rightarrow> bool" where "gate_open v \<equiv> lflag v ''debug_fetch_valid'' \<and> \<not> l_download v"

lemma gated_parts:
  "fl_boot (fst (fetch_logs_step v s)) = (if gate_open v then fst (boot_decision_log v (fl_boot s)) else fl_boot s)"
  "fl_lowmem (fst (fetch_logs_step v s)) = (if gate_open v then fst (lowmem_bit_log v (fl_lowmem s)) else fl_lowmem s)"
  "fl_wait (fst (fetch_logs_step v s)) = (if gate_open v then fst (wait_log_step v (fl_wait s)) else fl_wait s)"
  "fl_timeout (fst (fetch_logs_step v s)) = (if gate_open v then fst (timeout_loop_log v (fl_timeout s)) else fl_timeout s)"
  "fl_iwm (fst (fetch_logs_step v s)) = (if gate_open v then fst (iwm_state_log v (fl_iwm s)) else fl_iwm s)"
  "fl_calib_loop (fst (fetch_logs_step v s)) = fst (calib_loop_step v (fl_calib_loop s))"
  "fl_ramtest (fst (fetch_logs_step v s)) = fst (ramtest_log v (fl_ramtest s))"
  "fl_watches (fst (fetch_logs_step v s)) =
     (let w = fst (write_watches v (fl_watches s)) in if gate_open v then fst (fetch_driver v w) else w)"
  by (simp_all add: fetch_logs_step_def fetch_gate_def split_beta Let_def)

lemma step_lines:
  "snd (fetch_logs_step v s) = snd (write_watches v (fl_watches s)) @
     (if gate_open v then snd (fetch_driver v (fst (write_watches v (fl_watches s)))) @ snd (boot_decision_log v (fl_boot s)) @
        snd (lowmem_bit_log v (fl_lowmem s)) @ snd (wait_log_step v (fl_wait s)) @ snd (timeout_loop_log v (fl_timeout s)) @
        snd (iwm_state_log v (fl_iwm s)) else []) @
     snd (calib_loop_step v (fl_calib_loop s)) @ snd (ramtest_log v (fl_ramtest s))"
  by (simp add: fetch_logs_step_def fetch_gate_def split_beta Let_def)

interpretation all_boot: rationed_log fetch_logs_step "\<lambda>s. boot_decision_debug_count (fl_boot s)" "''BOOT_DECISION''" boot_decision_debug_max 1
  by unfold_locales (simp_all add: gated_parts step_lines other_logs boot_decision.counted boot_decision.silent boot_decision.burst del: One_nat_def)

interpretation all_lowmem: rationed_log fetch_logs_step "\<lambda>s. lowmem_bit_debug_count (fl_lowmem s)" "''LOWMEM_BIT_WR''" lowmem_bit_debug_max 1
  by unfold_locales (simp_all add: gated_parts step_lines other_logs lowmem_bits.counted lowmem_bits.silent lowmem_bits.burst del: One_nat_def)

interpretation all_wait: rationed_log fetch_logs_step "\<lambda>s. wait_debug_count (fl_wait s)" "''WAIT_DBG''" wait_debug_max 1
  by unfold_locales (simp_all add: gated_parts step_lines other_logs wait_loop.counted wait_loop.silent wait_loop.burst del: One_nat_def)

interpretation all_timeout: rationed_log fetch_logs_step "\<lambda>s. scsi_timeout_loop_debug_count (fl_timeout s)" "''SCSI_TIMEOUT_LOOP''" scsi_timeout_loop_debug_max 1
  by unfold_locales (simp_all add: gated_parts step_lines other_logs timeout_loop.counted timeout_loop.silent timeout_loop.burst del: One_nat_def)

interpretation all_iwm: rationed_log fetch_logs_step "\<lambda>s. pl_count (fl_iwm s)" "''IWM_STATE_DBG''" iwm_state_debug_max 1
  by unfold_locales (simp_all add: gated_parts step_lines other_logs iwm_state.counted iwm_state.silent iwm_state.burst del: One_nat_def)

interpretation all_ramtest: rationed_log fetch_logs_step "\<lambda>s. pl_count (fl_ramtest s)" "''RAMTEST_DBG''" ramtest_debug_max 1
  by unfold_locales (simp_all add: gated_parts step_lines other_logs ramtest.counted ramtest.silent ramtest.burst del: One_nat_def)

interpretation all_calib: rationed_log fetch_logs_step "\<lambda>s. calib_loop_debug_count (fl_calib_loop s)" "''CALIB_LOOP''" calib_loop_debug_max 1
  by unfold_locales (simp_all add: gated_parts step_lines other_logs calib_loop.counted calib_loop.silent calib_loop.burst del: One_nat_def)

text \<open>The three logs that share the watches: each leaves the others' counters alone.\<close>

lemma shared_counts [simp]:
  "watch_range_count (fst (fetch_driver v w)) = watch_range_count w"
  "heapspray_debug_count (fst (fetch_driver v w)) = heapspray_debug_count w"
  "heapspray_debug_count (fst (range_watch v w)) = heapspray_debug_count w"
  "drvtrace_count (fst (range_watch v w)) = drvtrace_count w"
  "drvtrace_count (fst (heapspray_watch v w)) = drvtrace_count w"
  "drvtrace_count (fst (driver_base v w)) = drvtrace_count w"
  by (simp_all add: fetch_driver_def driver_base_def driver_fetch_def range_watch_def heapspray_watch_def split_beta Let_def)

lemma write_watches_counts [simp]:
  "heapspray_debug_count (fst (write_watches v w)) = heapspray_debug_count (fst (heapspray_watch v w))"
  "drvtrace_count (fst (write_watches v w)) = drvtrace_count w"
  by (simp_all add: write_watches_def split_beta Let_def)

lemma watch_lines:
  "filter (tagged ''HEAPSPRAY'') (snd (write_watches v w)) = filter (tagged ''HEAPSPRAY'') (snd (heapspray_watch v w))"
  "filter (tagged ''DT'') (snd (fetch_driver v w)) = filter (tagged ''DT'') (snd (driver_fetch v (fst (driver_base v w))))"
  "drvtrace_count (fst (fetch_driver v w)) = drvtrace_count (fst (driver_fetch v (fst (driver_base v w))))"
  by (simp_all add: write_watches_def fetch_driver_def driver_base_def range_other asc_other split_beta Let_def)

interpretation all_heapspray: rationed_log fetch_logs_step "\<lambda>s. heapspray_debug_count (fl_watches s)" "''HEAPSPRAY''" heapspray_debug_max 1
  by unfold_locales (simp_all add: gated_parts step_lines other_logs watch_lines heapspray.counted heapspray.silent heapspray.burst
      Let_def del: One_nat_def)

interpretation all_watchwr: rationed_log fetch_logs_step "\<lambda>s. watch_range_count (fl_watches s)" "''WATCHWR''" watch_range_max 1
  by unfold_locales (simp_all add: gated_parts step_lines other_logs write_watches_parts watch_range.counted watch_range.silent
      watch_range.burst Let_def del: One_nat_def)

interpretation all_drvtrace: rationed_log fetch_logs_step "\<lambda>s. drvtrace_count (fl_watches s)" "''DT''" drvtrace_max 1
  by unfold_locales (simp_all add: gated_parts step_lines other_logs watch_lines drvtrace.counted drvtrace.silent drvtrace.burst
      Let_def del: One_nat_def)

text \<open>However long the simulation runs and whatever it does, none of the debug logs on fetches and writes prints
  more lines than its limit.\<close>

theorem fetch_logs_bounded:
  "let ls = snd (run_log fetch_logs_step vs fetch_logs_init); lines = (\<lambda>n. length (filter (tagged n) ls)) in
     lines ''HEAPSPRAY'' \<le> 6000 \<and> lines ''WATCHWR'' \<le> 12000 \<and> lines ''DT'' \<le> 6000000 \<and> lines ''BOOT_DECISION'' \<le> 900 \<and>
     lines ''LOWMEM_BIT_WR'' \<le> 80 \<and> lines ''WAIT_DBG'' \<le> 600 \<and> lines ''SCSI_TIMEOUT_LOOP'' \<le> 2000 \<and>
     lines ''IWM_STATE_DBG'' \<le> 300 \<and> lines ''RAMTEST_DBG'' \<le> 260 \<and> lines ''CALIB_LOOP'' \<le> 160"
proof -
  note inits = fetch_logs_init_def watches_init_def boot_log_init_def lowmem_log_init_def wait_log_init_def timeout_log_init_def
    pc_log_init_def calib_loop_init_def
  note limits = heapspray_debug_max_def watch_range_max_def drvtrace_max_def boot_decision_debug_max_def lowmem_bit_debug_max_def
    wait_debug_max_def scsi_timeout_loop_debug_max_def iwm_state_debug_max_def ramtest_debug_max_def calib_loop_debug_max_def
  note bounds = all_heapspray.log_lines_bounded all_watchwr.log_lines_bounded all_drvtrace.log_lines_bounded all_boot.log_lines_bounded
    all_lowmem.log_lines_bounded all_wait.log_lines_bounded all_timeout.log_lines_bounded all_iwm.log_lines_bounded all_ramtest.log_lines_bounded
    all_calib.log_lines_bounded
  show ?thesis
    using bounds [of fetch_logs_init vs] by (simp add: inits limits Let_def)
qed

end
