(* ===== verification/Capture.thy ===== *)
theory Capture
  imports VideoOut GuestMem
begin

text \<open>
  What the simulator saves of a run (\<open>src/verilator/sim_main.cpp\<close>): the screenshot made from the
  frame buffer (\<open>save_screenshot\<close>), the one-line frame probe (\<open>maybe_print_frame_probe\<close>) and the
  two memory images written when the stop frame is reached. The PNG encoder is a library: a
  screenshot is the bytes it is given. \<open>malloc\<close> is an argument.
\<close>

section \<open>Screenshots\<close>

record shot =
  shot_frame :: int
  shot_width :: int
  shot_height :: int
  shot_rgb :: "u8 list"

text \<open>The colour that \<open>verilate\<close> gives \<open>video.Clock\<close>: alpha, blue, green, red.\<close>

definition vga_colour :: "u8 \<Rightarrow> u8 \<Rightarrow> u8 \<Rightarrow> u32" where
  "vga_colour r g b = 0xFF000000 OR push_bit 16 (ucast b) OR push_bit 8 (ucast g) OR ucast r"

definition shot_pixel :: "nat \<Rightarrow> u32 list \<Rightarrow> nat \<Rightarrow> nat \<Rightarrow> u8 list \<Rightarrow> u8 list" where
  "shot_pixel width buf y x rgb =
    (let pixel = buf ! (y * width + x);
         dst_index = (y * width + x) * 3;
         b = ucast (drop_bit 16 pixel AND 0xFF);
         g = ucast (drop_bit 8 pixel AND 0xFF);
         r = ucast (drop_bit 0 pixel AND 0xFF)
     in rgb[dst_index + 0 := r, dst_index + 1 := g, dst_index + 2 := b])"

definition shot_loop :: "nat \<Rightarrow> nat \<Rightarrow> u32 list \<Rightarrow> u8 list \<Rightarrow> u8 list" where
  "shot_loop width height buf = fold (\<lambda>y. fold (shot_pixel width buf y) [0..<width]) [0..<height]"

definition save_screenshot :: "(nat \<Rightarrow> u8 list option) \<Rightarrow> int \<Rightarrow> sim_video \<Rightarrow> shot option" where
  "save_screenshot malloc frame_number v =
    (case output_ptr v of
       None \<Rightarrow> None
     | Some buf \<Rightarrow>
         (case malloc (nat (output_width v * output_height v * 3)) of
            None \<Rightarrow> None
          | Some rgb \<Rightarrow> Some \<lparr>shot_frame = frame_number, shot_width = output_width v, shot_height = output_height v,
              shot_rgb = shot_loop (nat (output_width v)) (nat (output_height v)) buf rgb\<rparr>))"

section \<open>The frame probe\<close>

definition frame_region_for_pc :: "u32 \<Rightarrow> string" where
  "frame_region_for_pc pc =
    (if pc \<ge> 0x40805e4a \<and> pc \<le> 0x40805f7c then ''asc_selftest''
     else if pc \<ge> 0x4080dde0 \<and> pc \<le> 0x4080de70 then ''via_adb_rtc''
     else if pc \<ge> 0x40803d00 \<and> pc \<le> 0x40804400 then ''nubus_declrom''
     else if pc \<ge> 0x4080151c \<and> pc \<le> 0x408017cc then ''wait_helper''
     else '''')"

record frame_probe =
  frame_probe_enable :: bool
  frame_probe_interval :: int
  frame_probe_last_frame :: int

text \<open>\<open>stop\<close> is the stop frame where that option is on. C's remainder has the sign of the frame count.\<close>

definition probe_due :: "int option \<Rightarrow> int \<Rightarrow> frame_probe \<Rightarrow> bool" where
  "probe_due stop frame p \<longleftrightarrow>
     \<not> (frame \<noteq> 1 \<and> frame_probe_interval p > 0 \<and> \<bar>frame\<bar> mod frame_probe_interval p \<noteq> 0 \<and>
       (case stop of None \<Rightarrow> True | Some n \<Rightarrow> frame < n))"

definition probe_line :: "top \<Rightarrow> int \<Rightarrow> u64 \<Rightarrow> line" where
  "probe_line t frame now =
    (let tick = lowmem_tick_016a t; pc = sig32 t ''debug_pc'' in
     Line ''FRAME_PROBE''
      ([Num frame, w64 now, w32 tick, w32 pc, w16 (sig16 t ''debug_opcode''), Str (frame_region_for_pc pc)] @
       regs t [0, 5, 6, 8, 11] @
       [w8 (ram_byte t 0x0CB1), w8 (ram_byte t 0x0CB2), w32 (ram_long t 0x02A6), w32 (ram_long t 0x02AA),
        w32 (ram_long t 0x0118), w32 (ram_long t 0x0114), w32 (ram_long t 0x0130), w32 (ram_long t 0x0108),
        w32 (ram_long t 0x010C)]))"

definition maybe_print_frame_probe :: "int option \<Rightarrow> top \<Rightarrow> int \<Rightarrow> u64 \<Rightarrow> frame_probe \<Rightarrow> frame_probe \<times> line list" where
  "maybe_print_frame_probe stop t frame now p =
    (if \<not> frame_probe_enable p \<or> frame = frame_probe_last_frame p then (p, [])
     else let p = p\<lparr>frame_probe_last_frame := frame\<rparr>
          in (p, if probe_due stop frame p then [probe_line t frame now] else []))"

section \<open>Memory images\<close>

definition ram_dump :: "top \<Rightarrow> u32 \<Rightarrow> u32 \<Rightarrow> u8 list" where
  "ram_dump t start stop =
    concat (map (\<lambda>k. let w = ram_word t (start + 2 * of_nat k) in [ucast (drop_bit 8 w), ucast (w AND 0xFF)])
      [0..<(unat (stop - start) + 1) div 2])"

definition exit_dumps :: "top \<Rightarrow> (string \<times> u8 list) list" where
  "exit_dumps t = [(''ramglue_1e00_f800.bin'', ram_dump t 0x1E00 0xF800), (''lowram_00000_18000.bin'', ram_dump t 0 0x18000)]"

section \<open>Lemmas\<close>

definition rgb_of :: "u32 \<Rightarrow> u8 list" where
  "rgb_of c = [ucast c, ucast (drop_bit 8 c), ucast (drop_bit 16 c)]"

lemma length_rgb_of [simp]: "length (rgb_of c) = 3"
  by (simp add: rgb_of_def)

lemma length_concat_rgb [simp]: "length (concat (map rgb_of cs)) = 3 * length cs"
  by (induction cs) simp_all

lemma ucast_low_byte: "(ucast (w AND 0xFF :: 'a :: len word) :: u8) = ucast w"
proof -
  have m: "(0xFF :: 'a word) = mask 8" by (simp add: mask_eq_exp_minus_1)
  show ?thesis
    unfolding m by (rule bit_word_eqI) (auto simp: bit_ucast_iff bit_and_iff bit_mask_iff dest: bit_imp_le_length)
qed

lemma bit_vga:
  "bit (vga_colour r g b) n \<longleftrightarrow> n < 32 \<and> (24 \<le> n \<or> 16 \<le> n \<and> bit b (n - 16) \<or> 8 \<le> n \<and> bit g (n - 8) \<or> bit r n)"
proof -
  have a: "(0xFF000000 :: u32) = push_bit 24 (mask 8)" by (simp add: mask_eq_exp_minus_1 push_bit_eq_mult)
  have "bit (vga_colour r g b) n \<longleftrightarrow> n < 32 \<and>
      (24 \<le> n \<and> n - 24 < 8 \<or> 16 \<le> n \<and> bit b (n - 16) \<or> 8 \<le> n \<and> bit g (n - 8) \<or> bit r n)"
    unfolding vga_colour_def a
    by (simp only: bit_or_iff bit_push_bit_iff bit_ucast_iff bit_mask_iff) (auto dest: bit_imp_le_length)
  then show ?thesis by auto
qed

lemma rgb_of_vga: "rgb_of (vga_colour r g b) = [r, g, b]"
proof -
  have "(ucast (vga_colour r g b) :: u8) = r"
    by (rule bit_word_eqI) (simp add: bit_ucast_iff bit_vga)
  moreover have "(ucast (drop_bit 8 (vga_colour r g b)) :: u8) = g"
    by (rule bit_word_eqI) (auto simp: bit_ucast_iff bit_drop_bit_eq bit_vga dest: bit_imp_le_length)
  moreover have "(ucast (drop_bit 16 (vga_colour r g b)) :: u8) = b"
    by (rule bit_word_eqI) (auto simp: bit_ucast_iff bit_drop_bit_eq bit_vga dest: bit_imp_le_length)
  ultimately show ?thesis by (simp add: rgb_of_def)
qed

lemma shot_pixel_patch:
  assumes "y * w + x < length buf" "length rgb = 3 * length buf"
  shows "shot_pixel w buf y x (patch 0 (concat (map rgb_of (take (y * w + x) buf))) rgb) =
    patch 0 (concat (map rgb_of (take (y * w + Suc x) buf))) rgb"
proof -
  define k where "k = y * w + x"
  let ?cs = "concat (map rgb_of (take k buf))"
  have k: "k < length buf" "y * w + Suc x = Suc k" using assms(1) by (simp_all add: k_def)
  have t: "take (Suc k) buf = take k buf @ [buf ! k]"
    using k by (simp add: take_Suc_conv_app_nth)
  have n: "length ?cs = k * 3" using k by (simp add: min_absorb2)
  have s: "(patch 0 ?cs rgb)[k * 3 := a] = patch 0 (?cs @ [a]) rgb"
    "(patch 0 (?cs @ [a]) rgb)[k * 3 + 1 := b] = patch 0 (?cs @ [a, b]) rgb"
    "(patch 0 (?cs @ [a, b]) rgb)[k * 3 + 2 := c] = patch 0 (?cs @ [a, b, c]) rgb" for a b c
    using patch_snoc [of 0 ?cs rgb a] patch_snoc [of 0 "?cs @ [a]" rgb b] patch_snoc [of 0 "?cs @ [a, b]" rgb c] n k assms(2)
    by (simp_all add: mult.commute [of k])
  have r: "rgb_of (buf ! k) = [ucast (buf ! k), ucast (drop_bit 8 (buf ! k)), ucast (drop_bit 16 (buf ! k))]"
    by (simp add: rgb_of_def)
  have "shot_pixel w buf y x (patch 0 ?cs rgb) = patch 0 (?cs @ rgb_of (buf ! k)) rgb"
    unfolding shot_pixel_def Let_def k_def [symmetric] r by (simp only: s add_0_right ucast_low_byte drop_bit_0 id_apply)
  then show ?thesis unfolding k(2) t k_def [symmetric] by simp
qed

lemma shot_row:
  assumes "y * w + n \<le> length buf" "length rgb = 3 * length buf"
  shows "fold (shot_pixel w buf y) [0..<n] (patch 0 (concat (map rgb_of (take (y * w) buf))) rgb) =
    patch 0 (concat (map rgb_of (take (y * w + n) buf))) rgb"
  using assms(1)
proof (induction n)
  case 0
  then show ?case by simp
next
  case (Suc n)
  then show ?case using shot_pixel_patch [of y w n buf rgb] assms(2) by simp
qed

lemma shot_rows:
  assumes "n * w \<le> length buf" "length rgb = 3 * length buf"
  shows "shot_loop w n buf rgb = patch 0 (concat (map rgb_of (take (n * w) buf))) rgb"
  using assms(1)
proof (induction n)
  case 0
  then show ?case by (simp add: shot_loop_def)
next
  case (Suc n)
  then show ?case
    using shot_row [of n w w buf rgb] assms(2) by (simp add: shot_loop_def add.commute)
qed

lemma shot_loop_rgb:
  assumes "length buf = h * w" "length rgb = 3 * length buf"
  shows "shot_loop w h buf rgb = concat (map rgb_of buf)"
  using shot_rows [of h w buf rgb] assms patch_all [of "concat (map rgb_of buf)" rgb] by simp

lemma length_ram_dump: "length (ram_dump t start stop) = 2 * ((unat (stop - start) + 1) div 2)"
  by (simp add: ram_dump_def Let_def length_concat o_def sum_list_triv)

lemma nth_concat_pairs:
  "n < 2 * k \<Longrightarrow> concat (map (\<lambda>i. [f i, g i]) [0..<k]) ! n = (if even n then f (n div 2) else g (n div 2))"
proof (induction k)
  case 0
  then show ?case by simp
next
  case (Suc k)
  have l: "length (concat (map (\<lambda>i. [f i, g i]) [0..<k])) = 2 * k" by (induction k) simp_all
  show ?case
  proof (cases "n < 2 * k")
    case True
    then show ?thesis using Suc.IH l by (simp add: nth_append)
  next
    case False
    then have "n = 2 * k \<or> n = 2 * k + 1" using Suc.prems by auto
    then show ?thesis using l by (auto simp: nth_append)
  qed
qed

lemma frame_saved:
  assumes "video_ok s" "output_ptr s = Some buf" "malloc (3 * length buf) = Some d" "length d = 3 * length buf"
  shows "save_screenshot malloc f s =
    Some \<lparr>shot_frame = f, shot_width = output_width s, shot_height = output_height s, shot_rgb = concat (map rgb_of buf)\<rparr>"
proof -
  have i: "int (length buf) = output_width s * output_height s" using assms(1,2) by (auto simp: video_ok_def)
  have n: "nat (output_width s * output_height s * 3) = 3 * length buf"
    using i by (simp add: nat_mult_distrib flip: i)
  have "length buf = nat (output_width s * output_height s)" by (simp flip: i)
  then have "length buf = nat (output_height s) * nat (output_width s)"
    using assms(1) by (simp add: video_ok_def nat_mult_distrib mult.commute)
  from shot_loop_rgb [OF this assms(4)] show ?thesis
    by (simp add: save_screenshot_def assms(2) n assms(3))
qed

section \<open>Properties\<close>

text \<open>C13: Screenshots show the picture. In an unrotated, unflipped capture of a picture given by the
  red, green and blue bytes of its pixels, the colours composed by \<open>verilate\<close>, drawn through
  \<open>Clock\<close> line by line after a vertical sync and read back by \<open>save_screenshot\<close> are, in the PNG
  data, exactly the red, green and blue bytes of the picture, row after row.\<close>

theorem screenshot_shows_frame:
  assumes "video_ok s" "straight s" "last_vsync s" "int (length img) = output_height s"
    and "list_all (\<lambda>cs. int (length cs) = output_width s) img"
    and "malloc (3 * length (concat img)) = Some d" "length d = 3 * length (concat img)"
  shows "\<exists>s'. video_run (sync_cycle n # concat (map (scan_line n) (map (map (\<lambda>(r, g, b). vga_colour r g b)) img))) s = Some s' \<and>
    map_option shot_rgb (save_screenshot malloc f s') = Some (concat (map (\<lambda>(r, g, b). [r, g, b]) (concat img)))"
proof -
  let ?c = "\<lambda>(r, g, b). vga_colour r g b"
  obtain s' where s': "video_run (sync_cycle n # concat (map (scan_line n) (map (map ?c) img))) s = Some s'"
    "output_ptr s' = Some (concat (map (map ?c) img))" "video_ok s'"
    using frame_captured_lemma [of s "map (map ?c) img" n] assms(1-5) by (auto simp: list_all_iff)
  have l: "length (concat (map (map ?c) img)) = length (concat img)"
    by (simp add: length_concat o_def)
  have c: "rgb_of (?c p) = (case p of (r, g, b) \<Rightarrow> [r, g, b])" for p
    by (cases p) (simp add: rgb_of_vga)
  have "map rgb_of (concat (map (map ?c) img)) = map (\<lambda>(r, g, b). [r, g, b]) (concat img)"
    by (simp add: map_concat o_def c)
  with frame_saved [OF s'(3,2), of malloc d f] assms(6,7) l s'(1) show ?thesis by simp
qed

theorem screenshot_shows_frame_witness:
  "\<exists>s'. video_run (sync_cycle 0 # concat (map (scan_line 0) (map (map (\<lambda>(r, g, b). vga_colour r g b)) [[(1, 2, 3)], [(4, 5, 6)]])))
     ((fst (InitialiseHeadless True (SimVideo_init 1 2 0)))\<lparr>last_vsync := True\<rparr>) = Some s' \<and>
     map_option shot_rgb (save_screenshot (\<lambda>n. Some (replicate n 0)) 7 s') = Some [1, 2, 3, 4, 5, 6]"
  using screenshot_shows_frame [of "(fst (InitialiseHeadless True (SimVideo_init 1 2 0)))\<lparr>last_vsync := True\<rparr>"
      "[[(1, 2, 3)], [(4, 5, 6)]]" "\<lambda>n. Some (replicate n 0)" "replicate 6 0" 0 7]
  by (simp add: video_ok_def straight_def InitialiseHeadless_def SimVideo_init_def)

lemma low_ram_byte:
  assumes "n < 0x18000"
  shows "ram_dump t 0 0x18000 ! n = ram_byte t (of_nat n)"
proof -
  define f where "f k = (ucast (drop_bit 8 (ram_word t (2 * of_nat k))) :: u8)" for k
  define g where "g k = (ucast (ram_word t (2 * of_nat k) AND 0xFF) :: u8)" for k
  have d: "ram_dump t 0 0x18000 ! n = (if even n then f (n div 2) else g (n div 2))"
    using assms nth_concat_pairs [of n "0xC000" f g] by (simp add: ram_dump_def Let_def f_def g_def)
  show ?thesis
  proof (cases "even n")
    case True
    then obtain k where n: "n = 2 * k" by (elim evenE)
    then show ?thesis using d ram_byte_even [of "2 * of_nat k" t] by (simp add: f_def)
  next
    case False
    then obtain k where n: "n = 2 * k + 1" by (elim oddE)
    then show ?thesis using d ram_byte_odd [of "2 * of_nat k" t] by (simp add: g_def add.commute)
  qed
qed

text \<open>The low-memory image. The file written at the stop frame is, byte for byte from address 0 up
  to \<open>0x18000\<close>, what the debugging code reads of the guest's RAM: the image splits the 16-bit words of
  the RAM high byte first, as the byte reads do.\<close>

theorem low_ram_image:
  "ram_dump t 0 0x18000 = map (\<lambda>n. ram_byte t (of_nat n)) [0..<0x18000]"
proof (rule nth_equalityI)
  show "length (ram_dump t 0 0x18000) = length (map (\<lambda>n. ram_byte t (of_nat n)) [0..<0x18000])"
    by (simp only: length_ram_dump length_map length_upt) simp
next
  fix n
  assume "n < length (ram_dump t 0 0x18000)"
  then have n: "n < 0x18000" by (simp add: length_ram_dump)
  then have "map (\<lambda>n. ram_byte t (of_nat n)) [0..<0x18000] ! n = ram_byte t (of_nat n)"
    by (subst nth_map_upt) simp_all
  with low_ram_byte [OF n] show "ram_dump t 0 0x18000 ! n = map (\<lambda>n. ram_byte t (of_nat n)) [0..<0x18000] ! n"
    by simp
qed

end
