(* ===== verification/Simulator.thy ===== *)
theory Simulator
  imports SimClock SerialTerm RomBus BlockDevice KeyInput VideoOut Trace Cmdline Capture
begin

text \<open>
  One call of \<open>verilate\<close> of \<open>src/verilator/sim_main.cpp\<close>, which ties the components together: reset,
  the clock divider, what runs before and after the core's evaluation on a rising edge, the forced
  calibration words, the probes and the processor trace, audio, the serial terminal, video, and the
  cycle counter; \<open>resetSim\<close>; and the start-up code of \<open>main\<close>. The core is an argument: from what the
  simulator drives on its ports and its own state it gives its next state, whatever that is. The
  other traces of \<open>verilate\<close> only read the core and count their own lines; they are not here.
\<close>

section \<open>The simulation\<close>

text \<open>The ports the simulator drives.\<close>

record ports =
  p_reset :: bool
  p_clk_sys :: bool
  p_cpuType :: int
  p_memSize :: int
  p_ioctl_addr :: u32
  p_ioctl_index :: u8
  p_ioctl_download :: u8
  p_ioctl_wr :: u8
  p_ioctl_dout :: u16
  p_ps2_key :: u16
  p_ps2_mouse :: u32
  p_sd_ack :: u8
  p_sd_buff_addr :: u8
  p_sd_buff_dout :: u16
  p_sd_buff_wr :: u8
  p_img_mounted :: u8
  p_img_size :: u64
  p_serial_rxd :: bool

type_synonym core = "ports \<Rightarrow> top \<Rightarrow> top"

text \<open>The host: its files, the plusargs, the disk latency, the clock in milliseconds, the disassembler.\<close>

record host =
  host_file :: "string \<Rightarrow> u8 list option"
  host_disk :: "string \<Rightarrow> (u8 list \<times> bool) option"
  host_plusarg :: "string \<Rightarrow> string option"
  host_latency :: int
  host_ms :: "u64 \<Rightarrow> int"
  host_dasm :: raw_dasm
  host_can_write :: "string \<Rightarrow> bool"
  host_malloc :: "nat \<Rightarrow> u8 list option"
  host_window :: "sim_video \<Rightarrow> sim_video \<times> int"  \<comment> \<open>\<open>video.Initialise\<close>\<close>

record sim =
  clk_sys :: sim_clock
  main_time :: u64
  reset_port :: bool
  clk_port :: bool
  machine :: top
  bus :: rom_bus
  blockdevice :: blkdev
  key_input :: sim_input
  audio :: sim_audio
  serialTerminal :: terminal
  serial_rxd :: bool
  last_baud_div :: u32
  video :: sim_video
  mouse_state :: mouse
  opts :: options
  probe_state :: probes
  trace_state :: cpu_trace
  force_calib_reported :: bool
  sim_log :: "line list"
  trace_log :: "(fetch_entry \<times> string) list"
  frame_probe_state :: frame_probe
  shots :: "shot list"
  dumps :: "(string \<times> u8 list) list"

definition ports_of :: "sim \<Rightarrow> ports" where
  "ports_of s =
    \<lparr>p_reset = reset_port s, p_clk_sys = clk_port s, p_cpuType = 3, p_memSize = nums (opts s) ''cfg_memSize'',
     p_ioctl_addr = ioctl_addr (bus s), p_ioctl_index = ioctl_index (bus s), p_ioctl_download = ioctl_download (bus s),
     p_ioctl_wr = ioctl_wr (bus s), p_ioctl_dout = ioctl_dout (bus s), p_ps2_key = ps2_key (key_input s),
     p_ps2_mouse = ps2_mouse (mouse_state s), p_sd_ack = sd_ack (blockdevice s),
     p_sd_buff_addr = sd_buff_addr (blockdevice s), p_sd_buff_dout = sd_buff_dout (blockdevice s),
     p_sd_buff_wr = sd_buff_wr (blockdevice s), p_img_mounted = img_mounted (blockdevice s),
     p_img_size = img_size (blockdevice s), p_serial_rxd = serial_rxd s\<rparr>"

text \<open>\<open>top->eval ()\<close>: the core's outputs are the fields the components point to.\<close>

definition eval_core :: "core \<Rightarrow> sim \<Rightarrow> sim" where
  "eval_core core s =
    (let t = core (ports_of s) (machine s) in
     s\<lparr>machine := t, bus := (bus s)\<lparr>ioctl_wait := sig8 t ''ioctl_wait''\<rparr>,
       blockdevice := (blockdevice s)\<lparr>sd_rd := sig8 t ''sd_rd'', sd_wr := sig8 t ''sd_wr'',
         sd_lba := (sd_lba (blockdevice s))[0 := sig32 t ''sd_lba[0]'', 1 := sig32 t ''sd_lba[1]''],
         sd_buff_din := (sd_buff_din (blockdevice s))[0 := sig16 t ''sd_buff_din[0]'', 1 := sig16 t ''sd_buff_din[1]'']\<rparr>\<rparr>)"

definition initialReset :: u64 where "initialReset = 48"

definition apply_reset :: "sim \<Rightarrow> sim" where
  "apply_reset s =
    (let s = (if main_time s < initialReset then s\<lparr>reset_port := True\<rparr> else s)
     in if main_time s = initialReset then s\<lparr>reset_port := False\<rparr> else s)"

definition tick_clock :: "sim \<Rightarrow> sim" where
  "tick_clock s = (let c = Tick (clk_sys s) in s\<lparr>clk_sys := c, clk_port := clk_now c\<rparr>)"

text \<open>What runs before the evaluation of an edge: disks only on a rising edge outside downloads.\<close>

definition before_eval :: "host \<Rightarrow> sim \<Rightarrow> sim" where
  "before_eval host s =
    (let s = (if IsRising (clk_sys s) \<and> ioctl_download (bus s) \<noteq> 1
              then s\<lparr>blockdevice := blk_BeforeEval (host_plusarg host) (host_latency host)
                       (sint (ucast (main_time s) :: 32 word)) (blockdevice s)\<rparr> else s)
     in if clk_now (clk_sys s)
        then s\<lparr>key_input := input_BeforeEval (key_input s), bus := bus_BeforeEval (host_file host) (bus s)\<rparr> else s)"

definition force_calibration :: "sim \<Rightarrow> sim" where
  "force_calibration s =
    (if flags (opts s) ''force_calib_enable'' \<and> ioctl_download (bus s) = 0 \<and>
        nums (opts s) ''force_calib_min_frame'' \<le> count_frame (video s)
     then let w0 = word_of_int (nums (opts s) ''force_calib_0d00''); w1 = word_of_int (nums (opts s) ''force_calib_0da6'') in
       (if force_calib_reported s then id
        else (\<lambda>s. s\<lparr>force_calib_reported := True,
          sim_log := sim_log s @ [Line ''FORCE_CALIB'' [Num (count_frame (video s)), w16 w0, w16 w1]]\<rparr>))
       (s\<lparr>machine := ram_write_word 0x0DA6 w1 (ram_write_word 0x0D00 w0 (machine s))\<rparr>)
     else s)"

definition run_fetch_probes :: "sim \<Rightarrow> sim" where
  "run_fetch_probes s =
    (if flag (machine s) ''debug_fetch_valid'' \<and> ioctl_download (bus s) = 0
     then let (p, lines) = run_probes (machine s) (count_frame (video s)) (main_time s) (sig32 (machine s) ''debug_pc'') (probe_state s)
          in s\<lparr>probe_state := p, sim_log := sim_log s @ lines\<rparr>
     else s)"

definition run_cpu_trace :: "host \<Rightarrow> sim \<Rightarrow> sim" where
  "run_cpu_trace host s =
    (let (c, lines, out) = cpu_trace_step (host_dasm host) (machine s) (count_frame (video s)) (ioctl_download (bus s) \<noteq> 0) (trace_state s)
     in s\<lparr>trace_state := c, sim_log := sim_log s @ lines, trace_log := trace_log s @ out\<rparr>)"

definition edge :: "core \<Rightarrow> host \<Rightarrow> sim \<Rightarrow> sim" where
  "edge core host s =
    (if clk_now (clk_sys s) \<noteq> clk_old (clk_sys s)
     then run_cpu_trace host (run_fetch_probes (force_calibration (eval_core core (before_eval host s)))) else s)"

text \<open>The terminal's soft UART, and the baud rate taken over from the SCC when it changes.\<close>

definition serial_step :: "sim \<Rightarrow> sim" where
  "serial_step s =
    (let (term, rxd) = term_Tick (serialTerminal s) (flag (machine s) ''serial_txd'');
         s = s\<lparr>serialTerminal := term, serial_rxd := rxd\<rparr>;
         baud_div = sig32 (machine s) ''s.baud_divid_speed_a''
     in if baud_div \<noteq> last_baud_div s
        then s\<lparr>serialTerminal := UpdateConfigDirect baud_div 8 1 False False (serialTerminal s), last_baud_div := baud_div\<rparr>
        else s)"

definition pixel_step :: "host \<Rightarrow> sim \<Rightarrow> sim option" where
  "pixel_step host s =
    (if flag (machine s) ''CE_PIXEL''
     then map_option (\<lambda>v. s\<lparr>video := v\<rparr>)
       (video_Clock (flag (machine s) ''VGA_HB'') (flag (machine s) ''VGA_VB'') (flag (machine s) ''VGA_HS'')
         (flag (machine s) ''VGA_VS'') (vga_colour (sig8 (machine s) ''VGA_R'') (sig8 (machine s) ''VGA_G'') (sig8 (machine s) ''VGA_B'')) (host_ms host (main_time s)) (video s))
     else Some s)"

definition rising_work :: "host \<Rightarrow> sim \<Rightarrow> sim option" where
  "rising_work host s =
    (if IsRising (clk_sys s)
     then let s = s\<lparr>audio := audio_Clock (audio s) (sig16 (machine s) ''AUDIO_L'') (sig16 (machine s) ''AUDIO_R'')\<rparr>;
              s = serial_step s
          in map_option (\<lambda>s. s\<lparr>main_time := main_time s + 1\<rparr>) (pixel_step host s)
     else Some s)"

definition verilate :: "core \<Rightarrow> host \<Rightarrow> sim \<Rightarrow> sim option" where
  "verilate core host s = rising_work host (edge core host (tick_clock (apply_reset s)))"

definition resetSim :: "sim \<Rightarrow> sim" where
  "resetSim s = s\<lparr>main_time := 0, reset_port := True, clk_sys := Reset (clk_sys s)\<rparr>"

section \<open>Start-up\<close>

definition sim_init :: "history_entry \<Rightarrow> top \<Rightarrow> options \<Rightarrow> sim" where
  "sim_init blank t p =
    \<lparr>clk_sys = SimClock_init 1, main_time = 0, reset_port = False, clk_port = False, machine = t,
     bus = SimBus_init False, blockdevice = SimBlockDevice_init, key_input = SimInput_init 13 (replicate 16 False) (replicate 16 0),
     audio = SimAudio_init clk_sys_freq False, serialTerminal = SimSerialTerminal_init, serial_rxd = False,
     last_baud_div = 0, video = SimVideo_init 640 480 0, mouse_state = mouse_init\<lparr>mouse_injections := injections p\<rparr>,
     opts = p,
     probe_state = (probes_init blank)\<lparr>scsi_stall_history_enable := flags p ''scsi_stall_history_enable'',
       bootmask_once_debug_enable := flags p ''bootmask_once_debug_enable'',
       scsi_transition_debug_enable := flags p ''scsi_transition_debug_enable'',
       scsi_transition_debug_min_frame := nums p ''scsi_transition_debug_min_frame'',
       late_adb_debug_enable := flags p ''late_adb_debug_enable'',
       late_adb_debug_min_frame := nums p ''late_adb_debug_min_frame''\<rparr>,
     trace_state = cpu_trace_init\<lparr>cpu_trace_enable := flags p ''cpu_trace_enable'',
       cpu_trace_min_frame := nums p ''cpu_trace_min_frame''\<rparr>,
     force_calib_reported = False, sim_log = [], trace_log = [],
     frame_probe_state = \<lparr>frame_probe_enable = flags p ''frame_probe_enable'', frame_probe_interval = nums p ''frame_probe_interval'',
       frame_probe_last_frame = -1\<rparr>, shots = [], dumps = []\<rparr>"

definition mount_disks :: "host \<Rightarrow> options \<Rightarrow> blkdev \<Rightarrow> blkdev option" where
  "mount_disks host p b =
    fold (\<lambda>i ob. Option.bind ob (\<lambda>b.
        if scsi_disk_files p ! i \<noteq> [] then MountDisk (host_disk host) (scsi_disk_files p ! i) i b else Some b))
      [0, 1] (Some b)"

text \<open>The SDL key codes of the thirteen controls, in the order they are mapped.\<close>

definition key_mappings :: "(nat \<times> int) list" where
  "key_mappings = [(3, 82), (0, 79), (2, 81), (1, 80), (4, 4), (5, 5), (6, 27), (7, 28), (8, 15), (9, 8), (11, 30), (10, 31), (12, 16)]"

definition map_keys :: "sim_input \<Rightarrow> sim_input option" where
  "map_keys s = fold (\<lambda>(i, k) os. Option.bind os (SetMapping i k)) key_mappings (Some s)"

definition open_trace :: "host \<Rightarrow> cpu_trace \<Rightarrow> cpu_trace" where
  "open_trace host c =
    (if cpu_trace_enable c
     then if host_can_write host ''cpu_trace.log'' then c\<lparr>cpu_trace_file := True\<rparr> else c\<lparr>cpu_trace_enable := False\<rparr>
     else c)"

definition rom_file :: "options \<Rightarrow> string" where
  "rom_file p = (case rom_file_override p of None \<Rightarrow> ''../releases/boot0.rom'' | Some f \<Rightarrow> f)"

definition queue_roms :: "options \<Rightarrow> rom_bus \<Rightarrow> rom_bus" where
  "queue_roms p b =
    (let b = QueueDownload3 (rom_file p) 0 True b;
         b = QueueDownload3 ''../releases/boot2.rom'' 1 True b;
         b = (if floppy_disk_files p ! 0 \<noteq> [] then QueueDownload3 (floppy_disk_files p ! 0) 2 True b else b)
     in if floppy_disk_files p ! 1 \<noteq> [] then QueueDownload3 (floppy_disk_files p ! 1) 3 True b else b)"

text \<open>\<open>main\<close> up to its loop: an exit status, or the simulation after the initial evaluation.\<close>

definition startup :: "core \<Rightarrow> host \<Rightarrow> history_entry \<Rightarrow> top \<Rightarrow> string list \<Rightarrow> (int + sim) option" where
  "startup core host blank t argv =
    (case parse_args argv options_init of
       Throw \<Rightarrow> None
     | Exit e \<Rightarrow> Some (Inl e)
     | Next p _ \<Rightarrow>
         Option.bind (mount_disks host p SimBlockDevice_init) (\<lambda>b.
         Option.bind (map_keys (SimInput_init 13 (replicate 16 False) (replicate 16 0))) (\<lambda>k.
         let s = sim_init blank t p;
             (v, status) = (if flags p ''headless'' then InitialiseHeadless True (video s) else host_window host (video s))
         in if status = 1 then Some (Inl 1)
            else Some (Inr (eval_core core
              (s\<lparr>blockdevice := b, audio := audio_Initialise (audio s), key_input := k, video := v,
                 trace_state := open_trace host (trace_state s), bus := queue_roms p (bus s),
                 clk_port := False, reset_port := True\<rparr>))))))"

section \<open>The headless loop\<close>

definition stop_requested :: "sim \<Rightarrow> bool" where
  "stop_requested s \<longleftrightarrow> bootmask_once_stop_requested (probe_state s) \<or> scsi_transition_stop_requested (probe_state s) \<or>
     late_adb_stop_requested (probe_state s)"

definition pc_stop :: "sim \<Rightarrow> bool" where
  "pc_stop s \<longleftrightarrow> stop_pc_reached (flags (opts s) ''stop_at_pc_enabled'') (word_of_int (nums (opts s) ''stop_at_pc''))
     (ioctl_download (bus s) \<noteq> 0) (machine s)"

definition tick_stop :: "sim \<Rightarrow> bool" where
  "tick_stop s \<longleftrightarrow> flags (opts s) ''stop_at_tick_enabled'' \<and>
     lowmem_tick_reached (word_of_int (nums (opts s) ''stop_at_tick'')) (machine s)"

definition frame_stop :: "sim \<Rightarrow> bool" where
  "frame_stop s \<longleftrightarrow> flags (opts s) ''stop_at_frame_enabled'' \<and> nums (opts s) ''stop_at_frame'' \<le> count_frame (video s)"

text \<open>A batch ends early after the call in which a probe, the address or the tick stops it.\<close>

fun run_batch :: "core \<Rightarrow> host \<Rightarrow> nat \<Rightarrow> sim \<Rightarrow> sim option" where
  "run_batch core host 0 s = Some s"
| "run_batch core host (Suc n) s =
    Option.bind (verilate core host s) (\<lambda>s.
      if stop_requested s \<or> pc_stop s \<or> tick_stop s then Some s else run_batch core host n s)"

definition probe_frame :: "sim \<Rightarrow> sim" where
  "probe_frame s =
    (let (p, lines) = maybe_print_frame_probe
           (if flags (opts s) ''stop_at_frame_enabled'' then Some (nums (opts s) ''stop_at_frame'') else None)
           (machine s) (count_frame (video s)) (main_time s) (frame_probe_state s)
     in s\<lparr>frame_probe_state := p, sim_log := sim_log s @ lines\<rparr>)"

text \<open>A frame asked for is saved once: its first occurrence leaves the list.\<close>

definition take_screenshot :: "host \<Rightarrow> sim \<Rightarrow> sim" where
  "take_screenshot host s =
    (let frame = count_frame (video s) in
     if flags (opts s) ''screenshot_mode'' \<and> frame \<in> set (screenshot_frames (opts s))
     then s\<lparr>shots := shots s @ (case save_screenshot (host_malloc host) frame (video s) of None \<Rightarrow> [] | Some x \<Rightarrow> [x]),
            opts := (opts s)\<lparr>screenshot_frames := remove1 frame (screenshot_frames (opts s))\<rparr>\<rparr>
     else s)"

text \<open>
  One turn of the loop: the state, and whether the loop ends. Nothing in the headless loop sets
  \<open>single_step\<close> or \<open>multi_step\<close>, so with \<open>run_enable\<close> off no call is made.
\<close>

definition headless_turn :: "core \<Rightarrow> host \<Rightarrow> nat \<Rightarrow> sim \<Rightarrow> (sim \<times> bool) option" where
  "headless_turn core host batchSize s =
    Option.bind (if flags (opts s) ''run_enable'' then run_batch core host batchSize s else Some s) (\<lambda>s.
      let s = probe_frame s in
      if pc_stop s \<or> stop_requested s then Some (s, True)
      else let s = s\<lparr>mouse_state := headless_mouse (count_frame (video s)) (mouse_state s)\<rparr>;
               s = take_screenshot host s
           in if frame_stop s then Some (s\<lparr>dumps := dumps s @ exit_dumps (machine s)\<rparr>, True) else Some (s, tick_stop s))"

partial_function (option) headless_loop :: "core \<Rightarrow> host \<Rightarrow> nat \<Rightarrow> sim \<Rightarrow> sim option" where
  "headless_loop core host batchSize s =
    (case headless_turn core host batchSize s of
       None \<Rightarrow> None
     | Some (s, done) \<Rightarrow> if done then Some s else headless_loop core host batchSize s)"

section \<open>What one call leaves unchanged\<close>

lemma serial_step_keeps [frame_simps]:
  "clk_sys (serial_step s) = clk_sys s" "bus (serial_step s) = bus s" "blockdevice (serial_step s) = blockdevice s"
  "video (serial_step s) = video s" "main_time (serial_step s) = main_time s" "opts (serial_step s) = opts s"
  "reset_port (serial_step s) = reset_port s" "machine (serial_step s) = machine s"
  by (simp_all add: serial_step_def Let_def split_beta)

lemma pixel_step_keeps:
  "pixel_step host s = Some s' \<Longrightarrow>
    clk_sys s' = clk_sys s \<and> bus s' = bus s \<and> blockdevice s' = blockdevice s \<and> main_time s' = main_time s \<and> opts s' = opts s \<and>
    reset_port s' = reset_port s \<and> machine s' = machine s"
  by (auto simp: pixel_step_def split: if_splits)

lemma trace_keeps [frame_simps]:
  "clk_sys (run_cpu_trace h s) = clk_sys s" "bus (run_cpu_trace h s) = bus s" "blockdevice (run_cpu_trace h s) = blockdevice s"
  "video (run_cpu_trace h s) = video s" "main_time (run_cpu_trace h s) = main_time s" "opts (run_cpu_trace h s) = opts s"
  "reset_port (run_cpu_trace h s) = reset_port s" "machine (run_cpu_trace h s) = machine s"
  by (simp_all add: run_cpu_trace_def split_beta)

lemma probes_keep [frame_simps]:
  "clk_sys (run_fetch_probes s) = clk_sys s" "bus (run_fetch_probes s) = bus s" "blockdevice (run_fetch_probes s) = blockdevice s"
  "video (run_fetch_probes s) = video s" "main_time (run_fetch_probes s) = main_time s" "opts (run_fetch_probes s) = opts s"
  "reset_port (run_fetch_probes s) = reset_port s" "machine (run_fetch_probes s) = machine s"
  by (simp_all add: run_fetch_probes_def split_beta)

lemma calibration_keeps [frame_simps]:
  "clk_sys (force_calibration s) = clk_sys s" "bus (force_calibration s) = bus s" "blockdevice (force_calibration s) = blockdevice s"
  "video (force_calibration s) = video s" "main_time (force_calibration s) = main_time s" "opts (force_calibration s) = opts s"
  "reset_port (force_calibration s) = reset_port s"
  by (simp_all add: force_calibration_def Let_def)

lemma eval_core_keeps [frame_simps]:
  "clk_sys (eval_core c s) = clk_sys s" "video (eval_core c s) = video s" "main_time (eval_core c s) = main_time s"
  "opts (eval_core c s) = opts s" "disk (blockdevice (eval_core c s)) = disk (blockdevice s)"
  "reset_port (eval_core c s) = reset_port s"
  by (simp_all add: eval_core_def Let_def)

lemma before_eval_keeps [frame_simps]:
  "clk_sys (before_eval h s) = clk_sys s" "video (before_eval h s) = video s" "main_time (before_eval h s) = main_time s"
  "opts (before_eval h s) = opts s" "reset_port (before_eval h s) = reset_port s" "machine (before_eval h s) = machine s"
  by (simp_all add: before_eval_def Let_def)

lemma edge_keeps [frame_simps]:
  "clk_sys (edge c h s) = clk_sys s" "video (edge c h s) = video s" "main_time (edge c h s) = main_time s"
  "opts (edge c h s) = opts s" "reset_port (edge c h s) = reset_port s"
  by (simp_all add: edge_def frame_simps)

lemma start_keeps [frame_simps]:
  "clk_sys (tick_clock s) = Tick (clk_sys s)" "bus (tick_clock s) = bus s" "blockdevice (tick_clock s) = blockdevice s"
  "video (tick_clock s) = video s" "main_time (tick_clock s) = main_time s" "opts (tick_clock s) = opts s"
  "reset_port (tick_clock s) = reset_port s" "machine (tick_clock s) = machine s" "machine (apply_reset s) = machine s"
  "clk_sys (apply_reset s) = clk_sys s" "bus (apply_reset s) = bus s" "blockdevice (apply_reset s) = blockdevice s"
  "video (apply_reset s) = video s" "main_time (apply_reset s) = main_time s" "opts (apply_reset s) = opts s"
  by (simp_all add: tick_clock_def apply_reset_def Let_def)

text \<open>A call never fails while the frame buffer has its size.\<close>

lemma rising_work_keeps:
  assumes "rising_work h s = Some s'"
  shows "clk_sys s' = clk_sys s \<and> bus s' = bus s \<and> blockdevice s' = blockdevice s \<and> opts s' = opts s \<and>
    reset_port s' = reset_port s \<and> machine s' = machine s \<and> main_time s' = (if IsRising (clk_sys s) then main_time s + 1 else main_time s)"
  using assms by (auto simp: rising_work_def Let_def frame_simps dest!: pixel_step_keeps split: if_splits)

lemma pixel_step_defined:
  assumes "video_ok (video s)"
  shows "\<exists>t. pixel_step h s = Some t \<and> video_ok (video t)"
proof -
  obtain v where "video_Clock (flag (machine s) ''VGA_HB'') (flag (machine s) ''VGA_VB'') (flag (machine s) ''VGA_HS'')
      (flag (machine s) ''VGA_VS'') (vga_colour (sig8 (machine s) ''VGA_R'') (sig8 (machine s) ''VGA_G'') (sig8 (machine s) ''VGA_B'')) (host_ms h (main_time s)) (video s) = Some v" "video_ok v"
    using video_ok_Clock [OF assms] by blast
  with assms show ?thesis by (simp add: pixel_step_def)
qed

lemma rising_work_defined:
  assumes "video_ok (video s)"
  shows "\<exists>s'. rising_work h s = Some s' \<and> video_ok (video s')"
proof (cases "IsRising (clk_sys s)")
  case True
  let ?u = "serial_step (s\<lparr>audio := audio_Clock (audio s) (sig16 (machine s) ''AUDIO_L'') (sig16 (machine s) ''AUDIO_R'')\<rparr>)"
  have "video_ok (video ?u)" using assms by (simp add: frame_simps)
  then obtain t where "pixel_step h ?u = Some t" "video_ok (video t)" using pixel_step_defined by blast
  with True show ?thesis by (simp add: rising_work_def Let_def)
next
  case False
  with assms show ?thesis by (simp add: rising_work_def)
qed

lemma verilate_defined:
  assumes "video_ok (video s)"
  shows "\<exists>s'. verilate c h s = Some s' \<and> video_ok (video s')"
  using assms unfolding verilate_def by (intro rising_work_defined) (simp add: frame_simps)

lemma verilate_clock:
  "verilate c h s = Some s' \<Longrightarrow> clk_sys s' = Tick (clk_sys s)"
  by (auto simp: verilate_def frame_simps dest: rising_work_keeps)

lemma verilate_time:
  "verilate c h s = Some s' \<Longrightarrow>
    main_time s' = (if IsRising (Tick (clk_sys s)) then main_time s + 1 else main_time s)"
  by (auto simp: verilate_def frame_simps dest: rising_work_keeps)

section \<open>The downloads seen by the core\<close>

text \<open>
  A number of calls of \<open>verilate\<close>, with the words the bus presents to the core at the rising edges
  and the value of \<open>ioctl_wait\<close> the bus finds at each of them.
\<close>

fun sim_run :: "core \<Rightarrow> host \<Rightarrow> nat \<Rightarrow> sim \<Rightarrow> (u32 \<rightharpoonup> u16) \<Rightarrow> (sim \<times> (u32 \<rightharpoonup> u16) \<times> u8 list) option" where
  "sim_run core host 0 s m = Some (s, m, [])"
| "sim_run core host (Suc n) s m =
     (case verilate core host s of
        None \<Rightarrow> None
      | Some s' \<Rightarrow>
          if IsRising (clk_sys s')
          then map_option (\<lambda>(t, m, ws). (t, m, ioctl_wait (bus s) # ws)) (sim_run core host n s' (store_word (bus s') m))
          else sim_run core host n s' m)"

definition same_bus :: "rom_bus \<Rightarrow> rom_bus \<Rightarrow> bool" where
  "same_bus a b \<longleftrightarrow> a\<lparr>ioctl_wait := 0\<rparr> = b\<lparr>ioctl_wait := 0\<rparr>"

lemma same_bus_wait [simp]: "same_bus (a\<lparr>ioctl_wait := w\<rparr>) b = same_bus a b" "same_bus a (b\<lparr>ioctl_wait := w\<rparr>) = same_bus a b"
  by (simp_all add: same_bus_def)

lemma same_bus_refl [simp]: "same_bus a a"
  by (simp add: same_bus_def)

lemma same_bus_eq: "same_bus a b \<Longrightarrow> a\<lparr>ioctl_wait := ioctl_wait b\<rparr> = b"
  by (cases a; cases b) (simp add: same_bus_def)

lemma same_bus_store: "same_bus a b \<Longrightarrow> store_word a m = store_word b m"
  by (cases a; cases b) (simp add: same_bus_def store_word_def)

lemma same_bus_fields:
  "same_bus a b \<Longrightarrow> ioctl_download a = ioctl_download b \<and> ioctl_wr a = ioctl_wr b \<and> downloadQueue a = downloadQueue b"
  by (cases a; cases b) (simp add: same_bus_def)

lemma same_bus_trans: "same_bus a b \<Longrightarrow> same_bus b c \<Longrightarrow> same_bus a c"
  by (simp add: same_bus_def)

lemma eval_core_bus: "same_bus (bus (eval_core c s)) (bus s)"
  by (simp add: eval_core_def Let_def)

lemma edge_bus:
  "same_bus (bus (edge c h s)) (if IsRising (clk_sys s) then bus_BeforeEval (host_file h) (bus s) else bus s)"
  using eval_core_bus [of c "before_eval h s"]
  by (auto simp: edge_def frame_simps before_eval_def IsRising_def Let_def)

lemma verilate_bus:
  assumes "verilate c h s = Some s'"
  shows "same_bus (bus s') (if IsRising (clk_sys s') then bus_BeforeEval (host_file h) (bus s) else bus s)"
proof -
  have "bus s' = bus (edge c h (tick_clock (apply_reset s)))"
    using assms by (auto simp: verilate_def dest: rising_work_keeps)
  then show ?thesis
    using edge_bus [of c h "tick_clock (apply_reset s)"] verilate_clock [OF assms]
    by (auto simp: frame_simps split: if_splits)
qed

lemma sim_run_is_bus_run:
  assumes "sim_run c h n s m = Some (s', m', ws)" "same_bus b (bus s)"
  shows "\<exists>b'. bus_run (host_file h) ws (b, m) = (b', m') \<and> same_bus b' (bus s')"
  using assms
proof (induction n arbitrary: s m b ws)
  case 0
  then show ?case by simp
next
  case (Suc n)
  then obtain t where t: "verilate c h s = Some t" by (auto split: option.splits)
  note b = verilate_bus [OF t]
  show ?case
  proof (cases "IsRising (clk_sys t)")
    case False
    then have "same_bus b (bus t)" using b Suc.prems(2) by (simp add: same_bus_def)
    with Suc.IH [of t m ws b] Suc.prems t False show ?thesis by simp
  next
    case True
    with Suc.prems t obtain vs where vs: "ws = ioctl_wait (bus s) # vs"
      "sim_run c h n t (store_word (bus t) m) = Some (s', m', vs)" by auto
    let ?b = "bus_BeforeEval (host_file h) (bus s)"
    have sb: "same_bus ?b (bus t)" using b True by (simp add: same_bus_def)
    show ?thesis
      using Suc.IH [OF vs(2) sb] same_bus_store [OF sb, of m] same_bus_eq [OF Suc.prems(2)]
      by (simp add: vs(1) Let_def)
  qed
qed

lemma sim_run_defined:
  assumes "video_ok (video s)"
  shows "\<exists>s' m' ws. sim_run c h n s m = Some (s', m', ws) \<and> video_ok (video s')"
  using assms
proof (induction n arbitrary: s m)
  case 0
  then show ?case by simp
next
  case (Suc n)
  obtain t where t: "verilate c h s = Some t" "video_ok (video t)" using verilate_defined [OF Suc.prems] by blast
  show ?case
    using Suc.IH [OF t(2), of m] Suc.IH [OF t(2), of "store_word (bus t) m"] t(1) by auto
qed

lemma sim_run_edges:
  "sim_run c h n s m = Some (s', m', ws) \<Longrightarrow>
    length ws = length (filter (\<lambda>k. IsRising ((Tick ^^ k) (clk_sys s))) [1..<Suc n]) \<and> clk_sys s' = (Tick ^^ n) (clk_sys s)"
proof (induction n arbitrary: s m ws)
  case 0
  then show ?case by simp
next
  case (Suc n)
  then obtain t where t: "verilate c h s = Some t" by (auto split: option.splits)
  note k = verilate_clock [OF t]
  have f: "filter (\<lambda>k. IsRising ((Tick ^^ k) (clk_sys s))) [1..<Suc (Suc n)] =
      (if IsRising (clk_sys t) then [1] else []) @ map Suc (filter (\<lambda>k. IsRising ((Tick ^^ k) (clk_sys t))) [1..<Suc n])"
  proof -
    have "[1..<Suc (Suc n)] = 1 # map Suc [1..<Suc n]" by (simp add: map_Suc_upt upt_conv_Cons del: upt_Suc)
    then show ?thesis by (simp add: filter_map o_def k funpow_swap1)
  qed
  show ?case
  proof (cases "IsRising (clk_sys t)")
    case False
    with Suc.IH [of t m ws] Suc.prems t show ?thesis
      unfolding f by (simp add: k funpow_swap1)
  next
    case True
    with Suc.prems t obtain vs where vs: "ws = ioctl_wait (bus s) # vs"
      "sim_run c h n t (store_word (bus t) m) = Some (s', m', vs)" by auto
    with Suc.IH [OF vs(2)] True show ?thesis
      unfolding f by (simp add: k funpow_swap1)
  qed
qed

text \<open>A core that never asks the bus to wait.\<close>

definition never_waits :: "core \<Rightarrow> bool" where
  "never_waits c \<longleftrightarrow> (\<forall>p t. sig8 (c p t) ''ioctl_wait'' = 0)"

lemma wait_edge: "never_waits c \<Longrightarrow> ioctl_wait (bus s) = 0 \<Longrightarrow> ioctl_wait (bus (edge c h s)) = 0"
  by (simp add: edge_def frame_simps eval_core_def Let_def never_waits_def)

lemma wait_verilate:
  "never_waits c \<Longrightarrow> ioctl_wait (bus s) = 0 \<Longrightarrow> verilate c h s = Some s' \<Longrightarrow> ioctl_wait (bus s') = 0"
  unfolding verilate_def using wait_edge [of c "tick_clock (apply_reset s)" h]
  by (auto simp: frame_simps dest: rising_work_keeps)

lemma sim_run_never_waits:
  assumes "never_waits c" "ioctl_wait (bus s) = 0" "sim_run c h n s m = Some (s', m', ws)"
  shows "set ws \<subseteq> {0}"
  using assms(2,3)
proof (induction n arbitrary: s m ws)
  case 0
  then show ?case by simp
next
  case (Suc n)
  then obtain t where t: "verilate c h s = Some t" by (auto split: option.splits)
  have w: "ioctl_wait (bus t) = 0" using wait_verilate [OF assms(1) Suc.prems(1) t] .
  show ?case
    using Suc.prems t by (auto split: if_splits dest!: Suc.IH [OF w])
qed

section \<open>After the start-up\<close>

lemma mount_disks_keeps: "mount_disks h p b \<noteq> None"
  by (simp add: mount_disks_def MountDisk_def kVDNUM_def)

lemma map_keys_ok: "length b = 16 \<Longrightarrow> map_keys (SimInput_init 13 a b) \<noteq> None"
  by (simp add: map_keys_def key_mappings_def SetMapping_def SimInput_init_def)

lemma startup_facts:
  assumes "startup core host blank t argv = Some (Inr s)" "parse_args argv options_init = Next p r" "flags p ''headless''"
  shows "clk_sys s = SimClock_init 1 \<and> main_time s = 0 \<and> video_ok (video s) \<and> opts s = p \<and>
    same_bus (bus s) (queue_roms p (SimBus_init False)) \<and> (never_waits core \<longrightarrow> ioctl_wait (bus s) = 0)"
  using assms
  by (auto simp: startup_def sim_init_def InitialiseHeadless_def SimVideo_init_def video_ok_def eval_core_def
      never_waits_def Let_def bind_eq_Some_conv)

lemma startup_succeeds:
  assumes "parse_args argv options_init = Next p r" "flags p ''headless''"
  shows "\<exists>s. startup core host blank t argv = Some (Inr s)"
proof -
  obtain b k where "mount_disks host p SimBlockDevice_init = Some b"
    "map_keys (SimInput_init 13 (replicate 16 False) (replicate 16 0)) = Some k"
    using mount_disks_keeps [of host p SimBlockDevice_init] map_keys_ok [of "replicate 16 0" "replicate 16 False"] by auto
  with assms show ?thesis by (simp add: startup_def InitialiseHeadless_def Let_def)
qed

lemma startup_machine:
  assumes "startup core host blank t argv = Some (Inr s)"
  shows "\<exists>q t'. machine s = core q t' \<and> ioctl_download (bus s) = 0"
proof -
  have "ioctl_download (queue_roms p (bus (sim_init blank t p))) = 0" for p
    by (simp add: queue_roms_def sim_init_def SimBus_init_def QueueDownload3_def Let_def)
  moreover have "machine (eval_core core u) = core (ports_of u) (machine u)"
    "ioctl_download (bus (eval_core core u)) = ioctl_download (bus u)" for u
    by (simp_all add: eval_core_def Let_def)
  ultimately show ?thesis
    using assms by (auto simp: startup_def Let_def split_beta bind_eq_Some_conv split: parsed.splits if_splits)
qed

lemma parse_headless: "parse_args [''--headless''] options_init = Next (set_flag ''headless'' True options_init) 0"
  by (simp add: parse_arg_def switch_options_def)

lemma rom_queue:
  "ioctl_file (queue_roms p (SimBus_init a)) = None \<and> ioctl_wr (queue_roms p (SimBus_init a)) = 0 \<and>
   (\<exists>q. downloadQueue (queue_roms p (SimBus_init a)) =
     DownloadChunk3 (rom_file p) 0 True # DownloadChunk3 ''../releases/boot2.rom'' 1 True # q \<and>
     q = (if floppy_disk_files p ! 0 \<noteq> [] then [DownloadChunk3 (floppy_disk_files p ! 0) 2 True] else []) @
         (if floppy_disk_files p ! 1 \<noteq> [] then [DownloadChunk3 (floppy_disk_files p ! 1) 3 True] else []))"
  by (simp add: queue_roms_def SimBus_init_def QueueDownload3_def)

lemma boot_rom_lemma:
  assumes "startup core host blank t argv = Some (Inr s)" "parse_args argv options_init = Next p r" "flags p ''headless''"
    and "host_file host (rom_file p) = Some bs" "sim_run core host n s Map.empty = Some (s', m, ws)"
    and "zeros ws = steps_needed bs" "last ws = 0"
  shows "m = load_words 0 (be_words bs) Map.empty \<and> ioctl_download (bus s') = 0 \<and> ioctl_wr (bus s') = 0 \<and>
    take 1 (downloadQueue (bus s')) = [DownloadChunk3 ''../releases/boot2.rom'' 1 True]"
proof -
  let ?q = "queue_roms p (SimBus_init False)"
  obtain q where q: "downloadQueue ?q = DownloadChunk3 (rom_file p) 0 True # DownloadChunk3 ''../releases/boot2.rom'' 1 True # q"
    "ioctl_file ?q = None" "ioctl_wr ?q = 0"
    using rom_queue [of p False] by blast
  have sb: "same_bus ?q (bus s)"
    using startup_facts [OF assms(1-3)] by (simp add: same_bus_def)
  obtain b where b: "bus_run (host_file host) ws (?q, Map.empty) = (b, m)" "same_bus b (bus s')"
    using sim_run_is_bus_run [OF assms(5) sb] by blast
  have "dc_file (DownloadChunk3 f i r) = f" "start_addr (DownloadChunk3 f i True) x = 0" for f i r x
    by (simp_all add: DownloadChunk3_def start_addr_def)
  then have "m = load_words 0 (be_words bs) Map.empty \<and> ioctl_download b = 0 \<and> ioctl_wr b = 0 \<and>
      take 1 (downloadQueue b) = [DownloadChunk3 ''../releases/boot2.rom'' 1 True]"
    using download_delivers_file_lemma [OF q(2,3,1), of "host_file host" bs ws Map.empty] assms(4,6,7) b(1) by auto
  then show ?thesis using same_bus_fields [OF b(2)] by simp
qed

lemma zeros_replicate: "zeros (replicate n 0) = n"
  by (induction n) simp_all

lemma run_after_startup:
  assumes "never_waits core" "startup core host blank t argv = Some (Inr s)" "parse_args argv options_init = Next p r"
    and "flags p ''headless''" "0 < k"
  shows "\<exists>s' m. sim_run core host (2 * k) s Map.empty = Some (s', m, replicate k 0)"
proof -
  note st = startup_facts [OF assms(2-4)]
  obtain s' m ws where r: "sim_run core host (2 * k) s Map.empty = Some (s', m, ws)"
    using sim_run_defined st by blast
  have "length ws = 2 * k div nat (1 + 1)"
    using sim_run_edges [OF r] clk_sys.edges_upto [of "2 * k"] st by simp
  moreover have "set ws \<subseteq> {0}" using sim_run_never_waits [OF assms(1) _ r] st assms(1) by blast
  ultimately have "ws = replicate k 0" by (auto intro: replicate_eqI)
  with r show ?thesis by blast
qed

text \<open>A number of calls of \<open>verilate\<close>.\<close>

fun calls :: "core \<Rightarrow> host \<Rightarrow> nat \<Rightarrow> sim \<Rightarrow> sim option" where
  "calls core host 0 s = Some s"
| "calls core host (Suc n) s = Option.bind (verilate core host s) (calls core host n)"

lemma calls_snoc: "calls c h (Suc n) s = Option.bind (calls c h n s) (verilate c h)"
proof (induction n arbitrary: s)
  case 0
  then show ?case by (cases "verilate c h s") simp_all
next
  case (Suc n)
  show ?case
  proof (cases "verilate c h s")
    case None
    then show ?thesis by simp
  next
    case (Some t)
    then show ?thesis using Suc.IH [of t] by simp
  qed
qed

lemma calls_defined: "video_ok (video s) \<Longrightarrow> \<exists>s'. calls c h n s = Some s' \<and> video_ok (video s')"
proof (induction n arbitrary: s)
  case (Suc n)
  obtain t where "verilate c h s = Some t" "video_ok (video t)" using verilate_defined [OF Suc.prems] by blast
  with Suc.IH [of t] show ?case by simp
qed simp

lemma verilate_reset:
  assumes "verilate c h s = Some s'"
  shows "reset_port s' = (if main_time s < initialReset then True else if main_time s = initialReset then False else reset_port s)"
  using assms
  by (auto simp: verilate_def frame_simps apply_reset_def Let_def initialReset_def dest!: rising_work_keeps split: if_splits)

lemma calls_reset:
  assumes "clk_sys s = SimClock_init 1" "main_time s = 0" "calls c h n s = Some s'" "n < 2 ^ 64"
  shows "clk_sys s' = (Tick ^^ n) (SimClock_init 1) \<and> main_time s' = of_nat (n div 2) \<and> (0 < n \<longrightarrow> (reset_port s' \<longleftrightarrow> n \<le> 96))"
  using assms(3,4)
proof (induction n arbitrary: s')
  case 0
  then show ?case using assms(1,2) by simp
next
  case (Suc n)
  then obtain t where t: "calls c h n s = Some t" "verilate c h t = Some s'"
    by (auto simp del: calls.simps simp: calls_snoc bind_eq_Some_conv)
  have ih: "clk_sys t = (Tick ^^ n) (SimClock_init 1)" "main_time t = of_nat (n div 2)" "0 < n \<longrightarrow> (reset_port t \<longleftrightarrow> n \<le> 96)"
    using Suc.IH [OF t(1)] Suc.prems(2) by auto
  have k: "clk_sys s' = (Tick ^^ Suc n) (SimClock_init 1)" using verilate_clock [OF t(2)] ih(1) by simp
  have "IsRising (clk_sys s') \<longleftrightarrow> even (Suc n)"
    using rising_Ticks [of 1 "Suc n"] by (simp only: k) presburger
  then have m: "main_time s' = of_nat (Suc n div 2)"
    using verilate_time [OF t(2)] verilate_clock [OF t(2)] ih(2) by (cases "even n") (auto elim!: evenE oddE)
  have "(of_nat (n div 2) :: u64) < 48 \<longleftrightarrow> n div 2 < 48" "(of_nat (n div 2) :: u64) = 48 \<longleftrightarrow> n div 2 = 48"
    using Suc.prems(2) by (simp_all add: word_less_nat_alt word_unat_eq_iff unat_of_nat take_bit_nat_eq_self_iff)
  then have "reset_port s' \<longleftrightarrow> Suc n \<le> 96"
    using verilate_reset [OF t(2)] ih by (auto simp: initialReset_def)
  with k m show ?case by blast
qed

text \<open>A batch runs the calls up to the first that asks for a stop.\<close>

lemma run_batch_stops:
  assumes "calls c h k s = Some s'" "0 < k" "k \<le> n" "pc_stop s'"
    and "\<And>j t. 0 < j \<Longrightarrow> j < k \<Longrightarrow> calls c h j s = Some t \<Longrightarrow> \<not> (stop_requested t \<or> pc_stop t \<or> tick_stop t)"
  shows "run_batch c h n s = Some s'"
  using assms
proof (induction n arbitrary: k s)
  case 0
  then show ?case by simp
next
  case (Suc n)
  obtain i where k: "k = Suc i" using Suc.prems(2) by (cases k) auto
  then obtain t where t: "verilate c h s = Some t" "calls c h i t = Some s'"
    using Suc.prems(1) by (auto simp: bind_eq_Some_conv)
  show ?case
  proof (cases "i = 0")
    case True
    then show ?thesis using t Suc.prems(4) by simp
  next
    case False
    then have "\<not> (stop_requested t \<or> pc_stop t \<or> tick_stop t)"
      using Suc.prems(5) [of 1 t] t k by simp
    moreover have "run_batch c h n t = Some s'"
    proof (rule Suc.IH [OF t(2)])
      fix j u
      assume "0 < j" "j < i" "calls c h j t = Some u"
      then show "\<not> (stop_requested u \<or> pc_stop u \<or> tick_stop u)"
        using Suc.prems(5) [of "Suc j" u] t(1) k by simp
    qed (use False Suc.prems(3,4) k in auto)
    ultimately show ?thesis using t(1) by simp
  qed
qed

lemma first_call:
  assumes "clk_sys s = SimClock_init 1" "verilate c h s = Some s'"
  shows "machine s' = machine s \<and> bus s' = bus s \<and> opts s' = opts s"
proof -
  have "\<not> IsRising (Tick (clk_sys s))" "clk_now (Tick (clk_sys s)) = clk_old (Tick (clk_sys s))"
    by (simp_all add: assms(1) SimClock_init_def Tick_def IsRising_def)
  then have "edge c h (tick_clock (apply_reset s)) = tick_clock (apply_reset s)"
    by (simp add: edge_def frame_simps)
  then show ?thesis
    using assms(2) by (auto simp: verilate_def frame_simps dest!: rising_work_keeps)
qed

section \<open>Properties\<close>

text \<open>C4: The boot ROM arrives. After a headless start with any arguments, whatever the core does and
  however it waits, as soon as the rising edges of a run of \<open>verilate\<close> have offered the bus enough
  cycles without wait (\<open>steps_needed\<close>, the last one free), the words presented to the core make its
  memory exactly the big-endian image of the ROM file (\<open>--rom\<close>, \<open>--no-memtest\<close> or the default)
  from address 0, the download flag and the write strobe are low, and the NuBus ROM is next.\<close>

theorem boot_rom_arrives:
  assumes "startup core host blank t argv = Some (Inr s)" "parse_args argv options_init = Next p r" "flags p ''headless''"
    and "host_file host (rom_file p) = Some bs" "sim_run core host n s Map.empty = Some (s', m, ws)"
    and "zeros ws = steps_needed bs" "last ws = 0"
  shows "m = load_words 0 (be_words bs) Map.empty \<and> ioctl_download (bus s') = 0 \<and> ioctl_wr (bus s') = 0 \<and>
    take 1 (downloadQueue (bus s')) = [DownloadChunk3 ''../releases/boot2.rom'' 1 True]"
  using assms by (rule boot_rom_lemma)

definition idle_top :: top where
  "idle_top = \<lparr>sig = (\<lambda>_. 0)(''debug_fetch_valid'' := 1, ''debug_pc'' := 0x40), ram = (\<lambda>_. 0), regfile_n1 = (\<lambda>_. 0), regfile_n2 = (\<lambda>_. 0)\<rparr>"

definition idle_core :: core where
  "idle_core p t = idle_top"

definition small_host :: host where
  "small_host = \<lparr>host_file = (\<lambda>_. Some [0x12, 0x34]), host_disk = (\<lambda>_. None), host_plusarg = (\<lambda>_. None), host_latency = 0,
     host_ms = (\<lambda>_. 0), host_dasm = (\<lambda>_ _. ('''', 0)), host_can_write = (\<lambda>_. False), host_malloc = (\<lambda>_. None),
     host_window = (\<lambda>v. (v, 1))\<rparr>"

definition no_entry :: history_entry where
  "no_entry = \<lparr>h_pc = 0, h_op = 0, h_frame = 0, h_tick = 0, h_d = [], h_a = [], h_sp = 0, h_ret = 0\<rparr>"

lemma idle_core_never_waits: "never_waits idle_core"
  by (simp add: never_waits_def idle_core_def idle_top_def)

lemma headless_starts: "\<exists>s. startup idle_core small_host no_entry idle_top [''--headless''] = Some (Inr s)"
  by (rule startup_succeeds [OF parse_headless]) (simp add: set_flag_def)

theorem boot_rom_arrives_witness:
  "\<exists>s s' m. startup idle_core small_host no_entry idle_top [''--headless''] = Some (Inr s) \<and>
    sim_run idle_core small_host 6 s Map.empty = Some (s', m, [0, 0, 0]) \<and> m = [0 \<mapsto> 0x1234] \<and> ioctl_download (bus s') = 0"
proof -
  obtain s where s: "startup idle_core small_host no_entry idle_top [''--headless''] = Some (Inr s)"
    using headless_starts by blast
  obtain s' m where r: "sim_run idle_core small_host (2 * 3) s Map.empty = Some (s', m, replicate 3 0)"
    using run_after_startup [OF idle_core_never_waits s parse_headless, of 3] by (auto simp: set_flag_def)
  have "m = load_words 0 (be_words [0x12, 0x34]) Map.empty \<and> ioctl_download (bus s') = 0"
    using boot_rom_arrives [OF s parse_headless _ _ r, of "[0x12, 0x34]"]
    by (simp add: set_flag_def small_host_def steps_needed_def zeros_replicate)
  moreover have "2 * 3 = (6 :: nat)" "replicate 3 0 = [0, 0, 0 :: u8]" by (simp_all add: numeral_3_eq_3)
  ultimately show ?thesis
    using s r by (intro exI [of _ s] exI [of _ s'] exI [of _ m]) (simp del: sim_run.simps)
qed

text \<open>C17: Booting takes a known time. With a core that never asks the bus to wait, \<open>2 * steps_needed\<close>
  calls of \<open>verilate\<close> after a headless start all succeed and have delivered the whole boot ROM.\<close>

theorem boot_rom_bounded:
  assumes "never_waits core" "startup core host blank t argv = Some (Inr s)" "parse_args argv options_init = Next p r"
    and "flags p ''headless''" "host_file host (rom_file p) = Some bs"
  shows "\<exists>s' ws. sim_run core host (2 * steps_needed bs) s Map.empty = Some (s', load_words 0 (be_words bs) Map.empty, ws) \<and>
    ioctl_download (bus s') = 0"
proof -
  have k: "0 < steps_needed bs" using steps_needed_ge [of bs] by simp
  then obtain s' m where r: "sim_run core host (2 * steps_needed bs) s Map.empty = Some (s', m, replicate (steps_needed bs) 0)"
    using run_after_startup [OF assms(1-4)] by blast
  with boot_rom_lemma [OF assms(2-5) r] k show ?thesis by (simp add: zeros_replicate)
qed

theorem boot_rom_bounded_witness:
  "\<exists>s s' ws. startup idle_core small_host no_entry idle_top [''--headless''] = Some (Inr s) \<and>
    sim_run idle_core small_host 6 s Map.empty = Some (s', [0 \<mapsto> 0x1234], ws)"
proof -
  obtain s where s: "startup idle_core small_host no_entry idle_top [''--headless''] = Some (Inr s)"
    using headless_starts by blast
  with boot_rom_bounded [OF idle_core_never_waits s parse_headless, of "[0x12, 0x34]"] show ?thesis
    by (auto simp: set_flag_def small_host_def steps_needed_def)
qed

text \<open>C25: Reset. From a reset with the divider at its ratio of 1, every call of \<open>verilate\<close> succeeds; the
  time counts the rising edges, one every second call, and the core's reset is held through exactly
  the first 96 calls (48 cycles) and released from the next on.\<close>

theorem reset_held:
  assumes "clk_ratio (clk_sys s) = 1" "video_ok (video s)" "n < 2 ^ 64"
  shows "\<exists>s'. calls core host n (resetSim s) = Some s' \<and> main_time s' = of_nat (n div 2) \<and>
    (0 < n \<longrightarrow> (reset_port s' \<longleftrightarrow> n \<le> 96))"
proof -
  have "clk_sys (resetSim s) = SimClock_init 1"
    using assms(1) by (cases "clk_sys s") (simp add: resetSim_def Reset_def SimClock_init_def)
  moreover have "main_time (resetSim s) = 0" "video_ok (video (resetSim s))"
    using assms(2) by (simp_all add: resetSim_def)
  moreover obtain s' where "calls core host n (resetSim s) = Some s'"
    using calls_defined calculation(3) by blast
  ultimately show ?thesis using calls_reset assms(3) by blast
qed

theorem reset_held_witness:
  "\<exists>s s'. startup idle_core small_host no_entry idle_top [''--headless''] = Some (Inr s) \<and>
    calls idle_core small_host 97 (resetSim s) = Some s' \<and> main_time s' = 48 \<and> \<not> reset_port s'"
proof -
  obtain s where s: "startup idle_core small_host no_entry idle_top [''--headless''] = Some (Inr s)"
    using headless_starts by blast
  have "clk_sys s = SimClock_init 1" "video_ok (video s)"
    using startup_facts [OF s parse_headless] by (simp_all add: set_flag_def)
  with reset_held [of s 97 idle_core small_host] s show ?thesis by (auto simp: SimClock_init_def)
qed



end
