(* ===== verification/ScsiBench.thy ===== *)
theory ScsiBench
  imports Prelude "HOL-Library.State_Monad"
begin

text \<open>
  The test bench of the SCSI controller (\<open>src/verilator/scsi_bench/scsi_bench.cpp\<close>): the block device
  model \<open>Hps\<close>, the host's bus cycles, the SCSI Manager's selection and byte handshakes, the four
  read modes, the write test, the reset test, and the command line with its sweeps. The circuit is
  an argument \<open>ev\<close>: from its pins and its state an evaluation gives its outputs and its next state,
  whatever they are. The bench is one state, threaded through every operation by the state monad
  of the library; printing is left out, so \<open>detail\<close> flags are too.
\<close>

section \<open>Pins and state\<close>

record pins =
  clk :: bool
  reset :: bool
  img_mounted :: nat
  img_size :: u32
  io_ack :: nat
  sd_buff_addr :: u8
  sd_buff_dout :: u16
  sd_buff_wr :: bool
  bus_cs :: bool
  bus_rs :: nat
  ior :: bool
  iow :: bool
  dack :: bool
  wdata :: u16
  dma_word :: bool
  dma_longword :: bool
  dma_second_word :: bool

record outs =
  io_rd :: u8
  io_wr :: u8
  io_lba_0 :: u32
  io_lba_1 :: u32
  sd_buff_din_0 :: u16
  sd_buff_din_1 :: u16
  rdata :: u16
  dreq :: bool
  dbg_wr :: u32
  tap_din_pair :: u16
  tap_din_pair_next :: u16
  tap_second_word_data :: u16
  tap_holdoff :: u8
  tap_suppress_ack :: bool
  tap_second_pending :: bool

datatype hps_state = IDLE | WAIT | STREAM | WWAIT | WCAP | FINISH

record hps =
  st :: hps_state
  cnt :: nat
  wi :: nat
  tgt :: nat
  was_write :: bool
  lba :: u32
  latency :: int
  fetches :: nat
  flushes :: nat
  written :: "u8 list"

type_synonym 'd eval = "pins \<Rightarrow> 'd \<Rightarrow> outs \<times> 'd"

record 'd bench =
  b_pins :: pins
  b_outs :: outs
  b_dut :: 'd
  b_hps :: hps
  cyc :: nat
  lcg_state :: u32

definition ramp :: "nat \<Rightarrow> u8" where
  "ramp off = of_nat (off mod 256)"

text \<open>What a freshly built model and the bench start with.\<close>

definition pins_init :: pins where
  "pins_init = \<lparr>clk = False, reset = False, img_mounted = 0, img_size = 0, io_ack = 0, sd_buff_addr = 0, sd_buff_dout = 0,
     sd_buff_wr = False, bus_cs = False, bus_rs = 0, ior = False, iow = False, dack = False, wdata = 0, dma_word = False,
     dma_longword = False, dma_second_word = False\<rparr>"

definition outs_init :: outs where
  "outs_init = \<lparr>io_rd = 0, io_wr = 0, io_lba_0 = 0, io_lba_1 = 0, sd_buff_din_0 = 0, sd_buff_din_1 = 0, rdata = 0,
     dreq = False, dbg_wr = 0, tap_din_pair = 0, tap_din_pair_next = 0, tap_second_word_data = 0, tap_holdoff = 0,
     tap_suppress_ack = False, tap_second_pending = False\<rparr>"

definition hps_init :: hps where
  "hps_init = \<lparr>st = IDLE, cnt = 0, wi = 0, tgt = 0, was_write = False, lba = 0, latency = 600, fetches = 0, flushes = 0,
     written = []\<rparr>"

definition bench_init :: "'d \<Rightarrow> 'd bench" where
  "bench_init d = \<lparr>b_pins = pins_init, b_outs = outs_init, b_dut = d, b_hps = hps_init, cyc = 0, lcg_state = 0\<rparr>"

section \<open>The block device model\<close>

definition hps_reset :: "hps \<Rightarrow> hps" where
  "hps_reset h = h\<lparr>st := IDLE, cnt := 0, wi := 0, tgt := 0, was_write := False, fetches := 0, flushes := 0, written := []\<rparr>"

definition lba_of :: "nat \<Rightarrow> outs \<Rightarrow> u32" where
  "lba_of i q = (if i = 0 then io_lba_0 q else io_lba_1 q)"

text \<open>The first target with a request, reads before writes.\<close>

fun idle_scan :: "outs \<Rightarrow> nat list \<Rightarrow> hps \<Rightarrow> hps" where
  "idle_scan q [] h = h"
| "idle_scan q (i # is) h =
    (if bit (io_rd q) i then h\<lparr>tgt := i, lba := lba_of i q, was_write := False, st := WAIT, cnt := 0\<rparr>
     else if bit (io_wr q) i then h\<lparr>tgt := i, lba := lba_of i q, was_write := True, st := WWAIT, cnt := 0\<rparr>
     else idle_scan q is h)"

definition offset_of :: "hps \<Rightarrow> nat" where
  "offset_of h = unat (lba h) * 512 + wi h * 2"

definition word_at :: "nat \<Rightarrow> u16" where
  "word_at off = push_bit 8 (ucast (ramp off)) OR ucast (ramp (off + 1))"

definition next_word :: "hps \<Rightarrow> hps" where
  "next_word h = (let h = h\<lparr>wi := wi h + 1\<rparr> in if wi h = 256 then h\<lparr>st := FINISH\<rparr> else h)"

text \<open>\<open>written.resize (n, 0xEE)\<close> when it is shorter.\<close>

definition grow :: "nat \<Rightarrow> u8 list \<Rightarrow> u8 list" where
  "grow n bs = (if length bs < n then bs @ replicate (n - length bs) 0xEE else bs)"

definition store_pair :: "nat \<Rightarrow> u16 \<Rightarrow> u8 list \<Rightarrow> u8 list" where
  "store_pair off w bs = (grow (off + 2) bs)[off := ucast (drop_bit 8 w), off + 1 := ucast (w AND 0xFF)]"

definition service :: "outs \<Rightarrow> pins \<times> hps \<Rightarrow> pins \<times> hps" where
  "service q ph =
    (let (p, h) = ph in
     case st h of
       IDLE \<Rightarrow> (p\<lparr>sd_buff_wr := False, io_ack := 0\<rparr>, idle_scan q [0, 1] h)
     | WAIT \<Rightarrow>
         (let h = h\<lparr>cnt := cnt h + 1\<rparr> in
          if int (cnt h) \<ge> latency h then (p\<lparr>io_ack := 2 ^ tgt h\<rparr>, h\<lparr>st := STREAM, wi := 0, cnt := 0\<rparr>) else (p, h))
     | STREAM \<Rightarrow>
         (if cnt h mod 2 = 0
          then (p\<lparr>sd_buff_addr := of_nat (wi h), sd_buff_dout := word_at (offset_of h), sd_buff_wr := True\<rparr>, h\<lparr>cnt := cnt h + 1\<rparr>)
          else (p\<lparr>sd_buff_wr := False\<rparr>, (next_word h)\<lparr>cnt := cnt h + 1\<rparr>))
     | WWAIT \<Rightarrow>
         (let h = h\<lparr>cnt := cnt h + 1\<rparr> in
          if int (cnt h) \<ge> latency h then (p\<lparr>io_ack := 2 ^ tgt h\<rparr>, h\<lparr>st := WCAP, wi := 0, cnt := 0\<rparr>) else (p, h))
     | WCAP \<Rightarrow>
         (if cnt h mod 3 = 0 then (p\<lparr>sd_buff_addr := of_nat (wi h)\<rparr>, h\<lparr>cnt := cnt h + 1\<rparr>)
          else if cnt h mod 3 = 2
          then (p, (next_word (h\<lparr>written := store_pair (offset_of h)
                 (if tgt h = 0 then sd_buff_din_0 q else sd_buff_din_1 q) (written h)\<rparr>))\<lparr>cnt := cnt h + 1\<rparr>)
          else (p, h\<lparr>cnt := cnt h + 1\<rparr>))
     | FINISH \<Rightarrow>
         (p\<lparr>sd_buff_wr := False, io_ack := 0\<rparr>,
          (if was_write h then h\<lparr>flushes := flushes h + 1\<rparr> else h\<lparr>fetches := fetches h + 1\<rparr>)\<lparr>st := IDLE\<rparr>))"

section \<open>The clock and the bus\<close>

type_synonym ('d, 'a) op = "('d bench, 'a) state"

definition fetch :: "('d bench \<Rightarrow> 'a) \<Rightarrow> ('d, 'a) op" where
  "fetch f = State (\<lambda>b. (f b, b))"

definition change :: "('d bench \<Rightarrow> 'd bench) \<Rightarrow> ('d, unit) op" where
  "change f = State (\<lambda>b. ((), f b))"

definition drive :: "(pins \<Rightarrow> pins) \<Rightarrow> ('d, unit) op" where
  "drive f = change (\<lambda>b. b\<lparr>b_pins := f (b_pins b)\<rparr>)"

definition eval :: "'d eval \<Rightarrow> ('d, unit) op" where
  "eval ev = change (\<lambda>b. let (q, d) = ev (b_pins b) (b_dut b) in b\<lparr>b_outs := q, b_dut := d\<rparr>)"

definition hps_service :: "('d, unit) op" where
  "hps_service = change (\<lambda>b. let (p, h) = service (b_outs b) (b_pins b, b_hps b) in b\<lparr>b_pins := p, b_hps := h\<rparr>)"

definition tick :: "'d eval \<Rightarrow> ('d, unit) op" where
  "tick ev = do {
     drive (\<lambda>p. p\<lparr>clk := True\<rparr>); eval ev;
     hps_service;
     drive (\<lambda>p. p\<lparr>clk := False\<rparr>); eval ev;
     change (\<lambda>b. b\<lparr>cyc := cyc b + 1\<rparr>)}"

primrec ticks :: "'d eval \<Rightarrow> nat \<Rightarrow> ('d, unit) op" where
  "ticks ev 0 = State_Monad.return ()"
| "ticks ev (Suc n) = do {tick ev; ticks ev n}"

definition released :: "pins \<Rightarrow> pins" where
  "released p = p\<lparr>bus_cs := False, ior := False, iow := False, dack := False,
     dma_word := False, dma_longword := False, dma_second_word := False\<rparr>"

definition bus_release :: "('d, unit) op" where
  "bus_release = drive released"

definition reg_write :: "'d eval \<Rightarrow> nat \<Rightarrow> u8 \<Rightarrow> ('d, unit) op" where
  "reg_write ev rs v = do {
     drive (\<lambda>p. p\<lparr>bus_cs := True, dack := False, iow := True, ior := False, bus_rs := rs,
       wdata := push_bit 8 (ucast v) OR ucast v\<rparr>);
     tick ev; tick ev;
     bus_release;
     tick ev}"

definition reg_read :: "'d eval \<Rightarrow> nat \<Rightarrow> ('d, u8) op" where
  "reg_read ev rs = do {
     drive (\<lambda>p. p\<lparr>bus_cs := True, dack := False, ior := True, iow := False, bus_rs := rs\<rparr>);
     eval ev;
     v \<leftarrow> fetch (\<lambda>b. ucast (rdata (b_outs b) AND 0xFF));
     tick ev;
     bus_release;
     tick ev;
     State_Monad.return v}"

section \<open>Pseudo-DMA cycles\<close>

record read_rec =
  cyc_start :: nat
  cyc_sample :: nat
  idx :: nat
  r_rdata :: u16
  first_seen :: u16
  din_pair :: u16
  din_pair_next :: u16
  second_word_data :: u16
  data_cnt_start :: u16
  data_cnt_sample :: u16
  holdoff :: u8
  suppress :: bool
  pending :: bool
  r_word :: bool
  lw :: bool
  second :: bool
  unstable :: bool
  wait_cycles :: nat

definition read_rec_init :: "nat \<Rightarrow> read_rec" where
  "read_rec_init d = \<lparr>cyc_start = 0, cyc_sample = 0, idx = d, r_rdata = 0, first_seen = 0, din_pair = 0, din_pair_next = 0,
     second_word_data = 0, data_cnt_start = 0, data_cnt_sample = 0, holdoff = 0, suppress = False, pending = False,
     r_word = False, lw = False, second = False, unstable = False, wait_cycles = 0\<rparr>"

definition DREQ_TIMEOUT :: nat where "DREQ_TIMEOUT = 500000"

text \<open>The wait for the request: the cycles waited so far, or a time-out once \<open>DREQ_TIMEOUT\<close> have passed.\<close>

function wait_dreq :: "'d eval \<Rightarrow> nat \<Rightarrow> ('d, bool \<times> nat) op" where
  "wait_dreq ev waited = do {
     ready \<leftarrow> fetch (dreq \<circ> b_outs);
     if ready then State_Monad.return (True, waited)
     else do {
       tick ev;
       if waited + 1 \<ge> DREQ_TIMEOUT then State_Monad.return (False, waited + 1) else wait_dreq ev (waited + 1)}}"
  by pat_completeness auto
termination
  by (relation "measure (\<lambda>(ev, n). DREQ_TIMEOUT - n)") auto

declare wait_dreq.simps [simp del]

definition dma_read16 :: "'d eval \<Rightarrow> bool \<Rightarrow> bool \<Rightarrow> bool \<Rightarrow> nat \<Rightarrow> nat \<Rightarrow> read_rec \<Rightarrow> ('d, (u16 \<times> read_rec) option) op" where
  "dma_read16 ev word long sec ds gap r = do {
     drive (\<lambda>p. p\<lparr>bus_cs := True, dack := True, ior := True, iow := False, bus_rs := 0,
       dma_word := word, dma_longword := long, dma_second_word := sec\<rparr>);
     start \<leftarrow> fetch cyc;
     dcnt \<leftarrow> fetch (\<lambda>b. ucast (dbg_wr (b_outs b) AND 0xFFFF));
     tick ev;
     (ready, waited) \<leftarrow> wait_dreq ev 0;
     if \<not> ready then do {bus_release; State_Monad.return None}
     else do {
       first \<leftarrow> fetch (rdata \<circ> b_outs);
       ticks ev ds;
       r \<leftarrow> fetch (\<lambda>b. let q = b_outs b in
         r\<lparr>cyc_start := start, r_word := word, lw := long, second := sec, data_cnt_start := dcnt, wait_cycles := waited,
           first_seen := first, unstable := (ds > 0 \<and> first \<noteq> rdata q), r_rdata := rdata q, cyc_sample := cyc b,
           data_cnt_sample := ucast (dbg_wr q AND 0xFFFF), din_pair := tap_din_pair q, din_pair_next := tap_din_pair_next q,
           second_word_data := tap_second_word_data q, holdoff := tap_holdoff q, suppress := tap_suppress_ack q,
           pending := tap_second_pending q\<rparr>);
       tick ev;
       bus_release;
       ticks ev gap;
       State_Monad.return (Some (r_rdata r, r))}}"

definition dma_write16 :: "'d eval \<Rightarrow> bool \<Rightarrow> u16 \<Rightarrow> nat \<Rightarrow> ('d, bool) op" where
  "dma_write16 ev word w gap = do {
     drive (\<lambda>p. p\<lparr>bus_cs := True, dack := True, iow := True, ior := False, bus_rs := 0,
       dma_word := word, dma_longword := False, dma_second_word := False, wdata := w\<rparr>);
     tick ev;
     (ready, waited) \<leftarrow> wait_dreq ev 0;
     if \<not> ready then do {bus_release; State_Monad.return False}
     else do {tick ev; bus_release; ticks ev gap; State_Monad.return True}}"

section \<open>Byte handshakes\<close>

text \<open>The registers and masks of the 5380 that the driver uses.\<close>

abbreviation (input) "RREG_CDR \<equiv> 0 :: nat"
abbreviation (input) "RREG_CSR \<equiv> 4 :: nat"
abbreviation (input) "RREG_RST \<equiv> 7 :: nat"
abbreviation (input) "WREG_ODR \<equiv> 0 :: nat"
abbreviation (input) "WREG_ICR \<equiv> 1 :: nat"
abbreviation (input) "WREG_MR \<equiv> 2 :: nat"
abbreviation (input) "WREG_TCR \<equiv> 3 :: nat"
abbreviation (input) "WREG_DMAS \<equiv> 5 :: nat"
abbreviation (input) "WREG_IDMAR \<equiv> 7 :: nat"
abbreviation (input) "CSR_BSY \<equiv> 0x40 :: u8"
abbreviation (input) "CSR_REQ \<equiv> 0x20 :: u8"
abbreviation (input) "ICR_RST \<equiv> 0x80 :: u8"
abbreviation (input) "ICR_ACK \<equiv> 0x10 :: u8"
abbreviation (input) "ICR_SEL \<equiv> 0x04 :: u8"
abbreviation (input) "ICR_DATA \<equiv> 0x01 :: u8"

primrec wait_csr :: "'d eval \<Rightarrow> u8 \<Rightarrow> u8 \<Rightarrow> nat \<Rightarrow> ('d, bool) op" where
  "wait_csr ev m v 0 = State_Monad.return False"
| "wait_csr ev m v (Suc n) = do {
     c \<leftarrow> reg_read ev RREG_CSR;
     if c AND m = v then State_Monad.return True else wait_csr ev m v n}"

definition pio_put :: "'d eval \<Rightarrow> u8 \<Rightarrow> ('d, bool) op" where
  "pio_put ev b = do {
     ok \<leftarrow> wait_csr ev CSR_REQ CSR_REQ 50000;
     if \<not> ok then State_Monad.return False
     else do {
       reg_write ev WREG_ODR b;
       reg_write ev WREG_ICR (ICR_DATA OR ICR_ACK);
       ok \<leftarrow> wait_csr ev CSR_REQ 0 50000;
       if \<not> ok then State_Monad.return False
       else do {reg_write ev WREG_ICR ICR_DATA; State_Monad.return True}}}"

definition pio_get :: "'d eval \<Rightarrow> ('d, int) op" where
  "pio_get ev = do {
     ok \<leftarrow> wait_csr ev CSR_REQ CSR_REQ 50000;
     if \<not> ok then State_Monad.return (-1)
     else do {
       v \<leftarrow> reg_read ev RREG_CDR;
       reg_write ev WREG_ICR ICR_ACK;
       ok \<leftarrow> wait_csr ev CSR_REQ 0 50000;
       if \<not> ok then State_Monad.return (-1)
       else do {reg_write ev WREG_ICR 0; State_Monad.return (uint v)}}}"

primrec pio_put_all :: "'d eval \<Rightarrow> u8 list \<Rightarrow> ('d, bool) op" where
  "pio_put_all ev [] = State_Monad.return True"
| "pio_put_all ev (b # bs) = do {ok \<leftarrow> pio_put ev b; if ok then pio_put_all ev bs else State_Monad.return False}"

definition reset_dut :: "'d eval \<Rightarrow> nat \<Rightarrow> ('d, unit) op" where
  "reset_dut ev id_slot = do {
     bus_release;
     drive (\<lambda>p. p\<lparr>img_mounted := 0, img_size := 0, io_ack := 0, sd_buff_wr := False, sd_buff_addr := 0, sd_buff_dout := 0\<rparr>);
     change (\<lambda>b. b\<lparr>b_hps := hps_reset (b_hps b)\<rparr>);
     drive (\<lambda>p. p\<lparr>reset := True\<rparr>);
     ticks ev 8;
     drive (\<lambda>p. p\<lparr>reset := False\<rparr>);
     ticks ev 4;
     drive (\<lambda>p. p\<lparr>img_size := 131072, img_mounted := 2 ^ id_slot\<rparr>);
     tick ev;
     drive (\<lambda>p. p\<lparr>img_mounted := 0\<rparr>);
     ticks ev 4}"

text \<open>Selection of a target, and the six command bytes: whether each succeeded.\<close>

definition select_target :: "'d eval \<Rightarrow> nat \<Rightarrow> ('d, bool) op" where
  "select_target ev scsi_id = do {
     reg_write ev WREG_ODR (2 ^ scsi_id);
     reg_write ev WREG_ICR (ICR_DATA OR ICR_SEL);
     ok \<leftarrow> wait_csr ev CSR_BSY CSR_BSY 20000;
     if \<not> ok then do {bus_release; State_Monad.return False}
     else do {reg_write ev WREG_ICR ICR_DATA; State_Monad.return True}}"

definition send_command :: "'d eval \<Rightarrow> u8 \<Rightarrow> int \<Rightarrow> ('d, bool) op" where
  "send_command ev opcode sectors = do {
     ok \<leftarrow> pio_put_all ev [opcode, 0, 0, 0, word_of_int sectors, 0];
     if \<not> ok then do {bus_release; State_Monad.return False} else State_Monad.return True}"

definition start_receive :: "'d eval \<Rightarrow> ('d, unit) op" where
  "start_receive ev = do {
     reg_write ev WREG_ICR 0;
     reg_write ev WREG_TCR 0x01;
     reg_write ev WREG_MR 0x02;
     reg_write ev WREG_IDMAR 0}"

section \<open>The data phase of a read\<close>

datatype mode = M_BYTE | M_WORD | M_LONG | M_MIX

text \<open>What the loops carry: the time-out, the unstable samples, the bytes and the last records.\<close>

record stream =
  s_timeout :: bool
  s_unstable :: nat
  s_got :: "u8 list"
  s_ring :: "read_rec list"

definition stream_init :: stream where
  "stream_init = \<lparr>s_timeout = False, s_unstable = 0, s_got = [], s_ring = []\<rparr>"

definition note_rec :: "read_rec \<Rightarrow> stream \<Rightarrow> stream" where
  "note_rec r s = s\<lparr>s_unstable := s_unstable s + (if unstable r then 1 else 0), s_ring := keep_last 12 (s_ring s @ [r])\<rparr>"

definition push_bytes :: "u8 list \<Rightarrow> stream \<Rightarrow> stream" where
  "push_bytes bs s = s\<lparr>s_got := s_got s @ bs\<rparr>"

definition word_bytes :: "u16 \<Rightarrow> u8 list" where
  "word_bytes v = [ucast (drop_bit 8 v), ucast (v AND 0xFF)]"

definition take_read :: "'d eval \<Rightarrow> bool \<Rightarrow> nat \<Rightarrow> nat \<Rightarrow> nat \<Rightarrow> stream \<Rightarrow> ('d, stream) op" where
  "take_read ev word d ds gap s = do {
     x \<leftarrow> dma_read16 ev word False False ds gap (read_rec_init d);
     State_Monad.return (case x of
       None \<Rightarrow> s\<lparr>s_timeout := True\<rparr>
     | Some (v, r) \<Rightarrow> push_bytes (if word then word_bytes v else [ucast (v AND 0xFF)]) (note_rec r s))}"

text \<open>A long read: nothing is kept of it unless both halves arrive.\<close>

definition take_long :: "'d eval \<Rightarrow> nat \<Rightarrow> nat \<Rightarrow> nat \<Rightarrow> nat \<Rightarrow> nat \<Rightarrow> stream \<Rightarrow> ('d, stream) op" where
  "take_long ev d ds gap ds2 gap2 s = do {
     x \<leftarrow> dma_read16 ev True True False ds gap (read_rec_init d);
     case x of
       None \<Rightarrow> State_Monad.return (s\<lparr>s_timeout := True\<rparr>)
     | Some (v1, r1) \<Rightarrow> do {
         y \<leftarrow> dma_read16 ev True True True ds2 gap2 (read_rec_init (d + 2));
         State_Monad.return (case y of
           None \<Rightarrow> (note_rec r1 s)\<lparr>s_timeout := True\<rparr>
         | Some (v2, r2) \<Rightarrow> push_bytes (word_bytes v1 @ word_bytes v2) (note_rec r2 (note_rec r1 s)))}}"

function read_bytes :: "'d eval \<Rightarrow> nat \<Rightarrow> nat \<Rightarrow> nat \<Rightarrow> nat \<Rightarrow> stream \<Rightarrow> ('d, stream) op" where
  "read_bytes ev ds gap len d s =
    (if d < len \<and> \<not> s_timeout s then do {s \<leftarrow> take_read ev False d ds gap s; read_bytes ev ds gap len (d + 1) s}
     else State_Monad.return s)"
  by pat_completeness auto
termination by (relation "measure (\<lambda>(ev, ds, gap, len, d, s). len - d)") auto

function read_words :: "'d eval \<Rightarrow> nat \<Rightarrow> nat \<Rightarrow> nat \<Rightarrow> nat \<Rightarrow> stream \<Rightarrow> ('d, stream) op" where
  "read_words ev ds gap len d s =
    (if d < len \<and> \<not> s_timeout s then do {s \<leftarrow> take_read ev True d ds gap s; read_words ev ds gap len (d + 2) s}
     else State_Monad.return s)"
  by pat_completeness auto
termination by (relation "measure (\<lambda>(ev, ds, gap, len, d, s). len - d)") auto

function read_longs :: "'d eval \<Rightarrow> nat \<Rightarrow> nat \<Rightarrow> nat \<Rightarrow> nat \<Rightarrow> stream \<Rightarrow> ('d, stream) op" where
  "read_longs ev ds gap len d s =
    (if d < len \<and> \<not> s_timeout s then do {s \<leftarrow> take_long ev d ds gap ds gap s; read_longs ev ds gap len (d + 4) s}
     else State_Monad.return s)"
  by pat_completeness auto
termination by (relation "measure (\<lambda>(ev, ds, gap, len, d, s). len - d)") auto

definition lcg :: "('d, nat) op" where
  "lcg = State (\<lambda>b. let x = lcg_state b * 1664525 + 1013904223 in (unat (drop_bit 16 x), b\<lparr>lcg_state := x\<rparr>))"

text \<open>The width of a mixed read: 0 a byte, 1 a word, 2 a long, cut to what remains.\<close>

definition fit_pick :: "nat \<Rightarrow> nat \<Rightarrow> nat" where
  "fit_pick remain pick =
    (let pick = (if remain < 4 \<and> pick = 2 then 1 else pick) in if remain < 2 then 0 else pick)"

function read_mix :: "'d eval \<Rightarrow> nat \<Rightarrow> nat \<Rightarrow> stream \<Rightarrow> ('d, stream) op" where
  "read_mix ev len d s =
    (if d < len \<and> \<not> s_timeout s then do {
       a \<leftarrow> lcg; b \<leftarrow> lcg; c \<leftarrow> lcg;
       let pick = fit_pick (len - d) (a mod 3); jds = b mod 4; jgap = 1 + c mod 8
       in if pick = 0 then do {s \<leftarrow> take_read ev False d jds jgap s; read_mix ev len (d + 1) s}
          else if pick = 1 then do {s \<leftarrow> take_read ev True d jds jgap s; read_mix ev len (d + 2) s}
          else do {
            e \<leftarrow> lcg; f \<leftarrow> lcg;
            s \<leftarrow> take_long ev d jds jgap (e mod 4) (1 + f mod 8) s;
            read_mix ev len (d + 4) s}}
     else State_Monad.return s)"
  by pat_completeness auto
termination by (relation "measure (\<lambda>(ev, len, d, s). len - d)") auto

declare read_bytes.simps [simp del] read_words.simps [simp del] read_longs.simps [simp del] read_mix.simps [simp del]

definition mix_seed :: "nat \<Rightarrow> nat \<Rightarrow> int \<Rightarrow> u32" where
  "mix_seed ds gap hps_lat = 0xC0FFEE XOR of_nat (ds * 7919) XOR of_nat (gap * 104729) XOR word_of_int hps_lat"

definition data_phase :: "'d eval \<Rightarrow> mode \<Rightarrow> nat \<Rightarrow> nat \<Rightarrow> nat \<Rightarrow> int \<Rightarrow> ('d, stream) op" where
  "data_phase ev m len ds gap hps_lat =
    (case m of
       M_BYTE \<Rightarrow> read_bytes ev ds gap len 0 stream_init
     | M_WORD \<Rightarrow> read_words ev ds gap len 0 stream_init
     | M_LONG \<Rightarrow> read_longs ev ds gap len 0 stream_init
     | M_MIX \<Rightarrow> do {change (\<lambda>b. b\<lparr>lcg_state := mix_seed ds gap hps_lat\<rparr>); read_mix ev len 0 stream_init})"

section \<open>Whole runs\<close>

record run_result =
  selected :: bool
  cmd_sent :: bool
  dreq_timeout :: bool
  mismatches :: nat
  first_bad :: int
  unstable_reads :: nat
  status :: int
  message :: int
  completion_ok :: bool
  cycles_used :: nat

definition run_result_init :: run_result where
  "run_result_init = \<lparr>selected = False, cmd_sent = False, dreq_timeout = False, mismatches = 0, first_bad = -1,
     unstable_reads = 0, status = -1, message = -1, completion_ok = False, cycles_used = 0\<rparr>"

text \<open>The comparison loop: byte \<open>d\<close> of the stream against the ramp.\<close>

fun compare :: "nat \<Rightarrow> u8 list \<Rightarrow> run_result \<Rightarrow> run_result" where
  "compare d [] r = r"
| "compare d (b # bs) r =
    compare (d + 1) bs
      (if b \<noteq> ramp d
       then let r = r\<lparr>mismatches := mismatches r + 1\<rparr> in if first_bad r < 0 then r\<lparr>first_bad := int d\<rparr> else r
       else r)"

definition finish :: "'d eval \<Rightarrow> run_result \<Rightarrow> ('d, run_result) op" where
  "finish ev r = do {
     s \<leftarrow> pio_get ev;
     m \<leftarrow> pio_get ev;
     State_Monad.return (r\<lparr>status := s, message := m, completion_ok := (s = 0 \<and> m = 0)\<rparr>)}"

definition used_since :: "nat \<Rightarrow> run_result \<Rightarrow> ('d, run_result) op" where
  "used_since cyc0 r = fetch (\<lambda>b. r\<lparr>cycles_used := cyc b - cyc0\<rparr>)"

text \<open>
  One read command. A negative number of sectors makes \<open>got.reserve (len)\<close> throw once the command
  is sent; here \<open>len\<close> is then 0, so negative numbers are outside the model.
\<close>

definition run_read :: "'d eval \<Rightarrow> mode \<Rightarrow> int \<Rightarrow> nat \<Rightarrow> nat \<Rightarrow> int \<Rightarrow> nat \<Rightarrow> nat \<Rightarrow> ('d, run_result) op" where
  "run_read ev m sectors ds gap hps_lat scsi_id id_slot = do {
     cyc0 \<leftarrow> fetch cyc;
     reset_dut ev id_slot;
     change (\<lambda>b. b\<lparr>b_hps := (b_hps b)\<lparr>latency := hps_lat\<rparr>\<rparr>);
     sel \<leftarrow> select_target ev scsi_id;
     if \<not> sel then State_Monad.return run_result_init
     else do {
       sent \<leftarrow> send_command ev 0x08 sectors;
       if \<not> sent then State_Monad.return (run_result_init\<lparr>selected := True\<rparr>)
       else do {
         start_receive ev;
         s \<leftarrow> data_phase ev m (nat (sectors * 512)) ds gap hps_lat;
         let r = compare 0 (s_got s) (run_result_init\<lparr>selected := True, cmd_sent := True,
               dreq_timeout := s_timeout s, unstable_reads := s_unstable s\<rparr>)
         in if s_timeout s then used_since cyc0 r
            else do {
              reg_read ev RREG_RST;
              reg_write ev WREG_MR 0;
              r \<leftarrow> finish ev r;
              used_since cyc0 r}}}}"

primrec write_words :: "'d eval \<Rightarrow> bool \<Rightarrow> nat list \<Rightarrow> ('d, bool) op" where
  "write_words ev word [] = State_Monad.return True"
| "write_words ev word (d # ds) = do {
     ok \<leftarrow> dma_write16 ev word (push_bit 8 (ucast (ramp d)) OR ucast (ramp (if word then d + 1 else d))) 3;
     if ok then write_words ev word ds else State_Monad.return False}"

text \<open>The wait for the last flush: at most 200000 cycles while the block device is busy.\<close>

primrec drain_flush :: "'d eval \<Rightarrow> nat \<Rightarrow> ('d, unit) op" where
  "drain_flush ev 0 = State_Monad.return ()"
| "drain_flush ev (Suc n) = do {
     busy \<leftarrow> fetch (\<lambda>b. io_wr (b_outs b) \<noteq> 0 \<or> io_ack (b_pins b) \<noteq> 0);
     if busy then do {tick ev; drain_flush ev n} else State_Monad.return ()}"

definition flushed_byte :: "u8 list \<Rightarrow> nat \<Rightarrow> u8" where
  "flushed_byte bs d = (if d < length bs then bs ! d else 0xEE)"

definition run_write :: "'d eval \<Rightarrow> bool \<Rightarrow> int \<Rightarrow> nat \<Rightarrow> int \<Rightarrow> nat \<Rightarrow> nat \<Rightarrow> ('d, run_result) op" where
  "run_write ev word_mode sectors gap hps_lat scsi_id id_slot = do {
     cyc0 \<leftarrow> fetch cyc;
     reset_dut ev id_slot;
     change (\<lambda>b. b\<lparr>b_hps := (b_hps b)\<lparr>latency := hps_lat\<rparr>\<rparr>);
     sel \<leftarrow> select_target ev scsi_id;
     if \<not> sel then State_Monad.return run_result_init
     else do {
       sent \<leftarrow> send_command ev 0x0a sectors;
       if \<not> sent then State_Monad.return (run_result_init\<lparr>selected := True\<rparr>)
       else do {
         reg_write ev WREG_ICR ICR_DATA;
         reg_write ev WREG_TCR 0;
         reg_write ev WREG_MR 0x02;
         reg_write ev WREG_DMAS 0;
         let len = nat (sectors * 512) in do {
         ok \<leftarrow> write_words ev word_mode
                (if word_mode then map (\<lambda>k. 2 * k) [0..<len div 2] else [0..<len]);
         let r = run_result_init\<lparr>selected := True, cmd_sent := True, dreq_timeout := \<not> ok\<rparr> in do {
         r \<leftarrow> (if \<not> ok then State_Monad.return r
              else do {
                drain_flush ev 200000;
                reg_read ev RREG_RST;
                reg_write ev WREG_MR 0;
                reg_write ev WREG_ICR 0;
                finish ev r});
         image \<leftarrow> fetch (written \<circ> b_hps);
         used_since cyc0 (compare 0 (map (flushed_byte image) [0..<len]) r)}}}}}"

section \<open>The reset test\<close>

record rst_result =
  hps_state_at_rst :: hps_state
  second_selected :: bool
  second_timeout :: bool
  second_mismatches :: nat
  second_completion :: bool
  pass :: bool

definition rst_result_init :: rst_result where
  "rst_result_init = \<lparr>hps_state_at_rst = IDLE, second_selected = False, second_timeout = False,
     second_mismatches = 0, second_completion = False, pass = False\<rparr>"

text \<open>Word reads of the data phase, with no delay and a gap of 2, until one times out.\<close>

primrec read_some :: "'d eval \<Rightarrow> nat \<Rightarrow> ('d, u8 list \<times> bool) op" where
  "read_some ev 0 = State_Monad.return ([], True)"
| "read_some ev (Suc n) = do {
     x \<leftarrow> dma_read16 ev True False False 0 2 (read_rec_init 0);
     case x of
       None \<Rightarrow> State_Monad.return ([], False)
     | Some (v, r) \<Rightarrow> do {(bs, ok) \<leftarrow> read_some ev n; State_Monad.return (word_bytes v @ bs, ok)}}"

definition run_reset_recovery :: "'d eval \<Rightarrow> int \<Rightarrow> int \<Rightarrow> nat \<Rightarrow> ('d, rst_result) op" where
  "run_reset_recovery ev sectors hps_lat rst_at = do {
     reset_dut ev 0;
     change (\<lambda>b. b\<lparr>b_hps := (b_hps b)\<lparr>latency := hps_lat\<rparr>\<rparr>);
     sel \<leftarrow> select_target ev 6;
     if \<not> sel then State_Monad.return rst_result_init
     else do {
       sent \<leftarrow> send_command ev 0x08 sectors;
       if \<not> sent then State_Monad.return rst_result_init
       else do {
         start_receive ev;
         read_some ev ((rst_at + 1) div 2);
         state \<leftarrow> fetch (st \<circ> b_hps);
         let rr = rst_result_init\<lparr>hps_state_at_rst := state\<rparr> in do {
         reg_write ev WREG_MR 0;
         reg_write ev WREG_ICR ICR_RST;
         ticks ev 64;
         reg_write ev WREG_ICR 0;
         ticks ev (nat (4 * hps_lat + 4000));
         sel \<leftarrow> select_target ev 6;
         if \<not> sel then State_Monad.return rr
         else do {
           sent \<leftarrow> send_command ev 0x08 1;
           if \<not> sent then State_Monad.return (rr\<lparr>second_selected := True\<rparr>)
           else do {
             start_receive ev;
             (got, ok) \<leftarrow> read_some ev 256;
             let bad = mismatches (compare 0 got run_result_init) in do {
             done \<leftarrow> (if \<not> ok then State_Monad.return False
                    else do {
                      reg_read ev RREG_RST;
                      reg_write ev WREG_MR 0;
                      s \<leftarrow> pio_get ev;
                      m \<leftarrow> pio_get ev;
                      State_Monad.return (s = 0 \<and> m = 0)});
             State_Monad.return (rr\<lparr>second_selected := True, second_timeout := \<not> ok, second_mismatches := bad,
               second_completion := done, pass := (ok \<and> bad = 0 \<and> done)\<rparr>)}}}}}}}"

section \<open>The command line and the sweeps\<close>

record bench_options =
  o_sectors :: int
  o_hps :: int
  o_id :: int
  o_slot :: int
  o_ds :: int
  o_gap :: int
  o_rsttest :: bool
  o_rst_at :: int
  o_mode :: "string option"

definition bench_options_init :: bench_options where
  "bench_options_init = \<lparr>o_sectors = 2, o_hps = 600, o_id = 6, o_slot = 0, o_ds = -1, o_gap = -1, o_rsttest = False,
     o_rst_at = -1, o_mode = None\<rparr>"

text \<open>The options with an operand; \<open>atoi\<close> reads the numbers. Other arguments are skipped.\<close>

definition bench_operand :: "(string \<Rightarrow> int) \<Rightarrow> string \<Rightarrow> string \<Rightarrow> bench_options \<Rightarrow> bench_options option" where
  "bench_operand atoi a v p =
    (if a = ''--rstat'' then Some (p\<lparr>o_rsttest := True, o_rst_at := atoi v\<rparr>)
     else if a = ''--mode'' then Some (p\<lparr>o_mode := Some v\<rparr>)
     else if a = ''--ds'' then Some (p\<lparr>o_ds := atoi v\<rparr>)
     else if a = ''--gap'' then Some (p\<lparr>o_gap := atoi v\<rparr>)
     else if a = ''--sectors'' then Some (p\<lparr>o_sectors := atoi v\<rparr>)
     else if a = ''--hps'' then Some (p\<lparr>o_hps := atoi v\<rparr>)
     else if a = ''--id'' then Some (p\<lparr>o_id := atoi v\<rparr>)
     else if a = ''--slot'' then Some (p\<lparr>o_slot := atoi v\<rparr>)
     else if a = ''--wave'' then Some p
     else None)"

text \<open>\<open>None\<close> for \<open>--help\<close>, which ends the program. \<open>--detail\<close> changes only what is printed.\<close>

fun bench_args :: "(string \<Rightarrow> int) \<Rightarrow> string list \<Rightarrow> bench_options \<Rightarrow> bench_options option" where
  "bench_args atoi [] p = Some p"
| "bench_args atoi [a] p =
    (if a = ''--rsttest'' then Some (p\<lparr>o_rsttest := True\<rparr>) else if a = ''--help'' then None else Some p)"
| "bench_args atoi (a # v # rest) p =
    (if a = ''--rsttest'' then bench_args atoi (v # rest) (p\<lparr>o_rsttest := True\<rparr>)
     else if a = ''--help'' then None
     else case bench_operand atoi a v p of
       Some p \<Rightarrow> bench_args atoi rest p
     | None \<Rightarrow> bench_args atoi (v # rest) p)"

definition failed :: "run_result \<Rightarrow> bool" where
  "failed r \<longleftrightarrow> mismatches r \<noteq> 0 \<or> dreq_timeout r \<or> \<not> completion_ok r"

datatype cell = CTimeout | CSelect | CBad nat | CUnstable | CClean

definition cell_of :: "run_result \<Rightarrow> cell" where
  "cell_of r =
    (if dreq_timeout r then CTimeout
     else if \<not> selected r \<or> \<not> cmd_sent r then CSelect
     else if mismatches r \<noteq> 0 then CBad (mismatches r)
     else if unstable_reads r \<noteq> 0 then CUnstable
     else CClean)"

definition cell_fails :: "cell \<Rightarrow> bool" where
  "cell_fails c = (case c of CTimeout \<Rightarrow> True | CSelect \<Rightarrow> True | CBad n \<Rightarrow> True | CUnstable \<Rightarrow> False | CClean \<Rightarrow> False)"

text \<open>The cells of a table, run one after the other; then the first cell with bad bytes runs again.\<close>

primrec sweep :: "('k \<Rightarrow> ('d, run_result) op) \<Rightarrow> 'k list \<Rightarrow> ('d, cell list) op" where
  "sweep f [] = State_Monad.return []"
| "sweep f (k # ks) = do {r \<leftarrow> f k; cs \<leftarrow> sweep f ks; State_Monad.return (cell_of r # cs)}"

fun first_bad_cell :: "'k list \<Rightarrow> cell list \<Rightarrow> 'k option" where
  "first_bad_cell (k # ks) (CBad n # cs) = Some k"
| "first_bad_cell (k # ks) (c # cs) = first_bad_cell ks cs"
| "first_bad_cell ks cs = None"

definition table :: "('k \<Rightarrow> ('d, run_result) op) \<Rightarrow> 'k list \<Rightarrow> ('d, cell list) op" where
  "table f ks = do {
     cs \<leftarrow> sweep f ks;
     case first_bad_cell ks cs of
       None \<Rightarrow> State_Monad.return cs
     | Some k \<Rightarrow> do {f k; State_Monad.return cs}}"

primrec tables :: "('j \<Rightarrow> ('d, cell list) op) \<Rightarrow> 'j list \<Rightarrow> ('d, cell list) op" where
  "tables f [] = State_Monad.return []"
| "tables f (j # js) = do {cs \<leftarrow> f j; ds \<leftarrow> tables f js; State_Monad.return (cs @ ds)}"

definition ds_list :: "nat list" where "ds_list = [0, 1, 2, 3, 4, 6]"
definition gap_list :: "nat list" where "gap_list = [1, 2, 3, 4, 6, 8, 12]"
definition hps_list :: "int list" where "hps_list = [600, 6000]"

definition read_sweep :: "'d eval \<Rightarrow> bench_options \<Rightarrow> ('d, cell list) op" where
  "read_sweep ev p =
    tables (\<lambda>(hl, m). table (\<lambda>(ds, g). run_read ev m (o_sectors p) ds g hl (nat (o_id p)) (nat (o_slot p)))
        (List.product ds_list gap_list))
      (List.product hps_list [M_BYTE, M_WORD, M_LONG, M_MIX])"

definition write_sweep :: "'d eval \<Rightarrow> bench_options \<Rightarrow> ('d, cell list) op" where
  "write_sweep ev p =
    tables (\<lambda>(hl, wm). table (\<lambda>g. run_write ev wm (o_sectors p) g hl (nat (o_id p)) (nat (o_slot p))) gap_list)
      (List.product hps_list [False, True])"

definition mode_named :: "string \<Rightarrow> mode" where
  "mode_named s = (if s = ''byte'' then M_BYTE else if s = ''word'' then M_WORD else if s = ''long'' then M_LONG
     else if s = ''mix'' then M_MIX else M_WORD)"

primrec count_fails :: "(nat \<Rightarrow> ('d, rst_result) op) \<Rightarrow> nat list \<Rightarrow> ('d, nat) op" where
  "count_fails f [] = State_Monad.return 0"
| "count_fails f (k # ks) = do {rr \<leftarrow> f k; n \<leftarrow> count_fails f ks; State_Monad.return (if pass rr then n else n + 1)}"

definition rst_points :: "int \<Rightarrow> nat list" where
  "rst_points sectors = map (\<lambda>k. 101 * k) [0..<(nat (sectors * 512) + 100) div 101]"

text \<open>\<open>main\<close>, after its arguments: the exit status.\<close>

definition bench_main :: "'d eval \<Rightarrow> bench_options \<Rightarrow> ('d, nat) op" where
  "bench_main ev p =
    (let run_mode = (case o_mode p of None \<Rightarrow> M_WORD | Some s \<Rightarrow> mode_named s);
         id = nat (o_id p); slot = nat (o_slot p) in
     if o_rsttest p
     then let rsectors = (if o_sectors p < 4 then 8 else o_sectors p) in
       (if o_rst_at p \<ge> 0
        then do {rr \<leftarrow> run_reset_recovery ev rsectors (o_hps p) (nat (o_rst_at p)); State_Monad.return (if pass rr then 0 else 1)}
        else do {
          a \<leftarrow> count_fails (run_reset_recovery ev rsectors 600) (rst_points rsectors);
          b \<leftarrow> count_fails (run_reset_recovery ev rsectors 6000) (rst_points rsectors);
          State_Monad.return (if a + b \<noteq> 0 then 1 else 0)})
     else if o_mode p = Some ''wbyte'' \<or> o_mode p = Some ''wword''
     then do {
       r \<leftarrow> run_write ev (o_mode p = Some ''wword'') (o_sectors p) (if o_gap p \<ge> 0 then nat (o_gap p) else 3) (o_hps p) id slot;
       State_Monad.return (if failed r then 1 else 0)}
     else if o_mode p \<noteq> None \<or> o_ds p \<ge> 0 \<or> o_gap p \<ge> 0
     then do {
       r \<leftarrow> run_read ev run_mode (o_sectors p) (if o_ds p \<ge> 0 then nat (o_ds p) else 0)
              (if o_gap p \<ge> 0 then nat (o_gap p) else 2) (o_hps p) id slot;
       State_Monad.return (if failed r then 1 else 0)}
     else do {
       cs \<leftarrow> read_sweep ev p;
       ws \<leftarrow> write_sweep ev p;
       State_Monad.return (if length (filter cell_fails (cs @ ws)) \<noteq> 0 then 1 else 0)})"

section \<open>The verdict\<close>

lemma mismatches_compare:
  "mismatches (compare d bs r) = mismatches r + length (filter (\<lambda>k. bs ! k \<noteq> ramp (d + k)) [0..<length bs])"
proof (induction bs arbitrary: d r)
  case Nil
  then show ?case by simp
next
  case (Cons b bs)
  have "filter (\<lambda>k. (b # bs) ! k \<noteq> ramp (d + k)) [0..<length (b # bs)] =
      (if b \<noteq> ramp d then [0] else []) @ map Suc (filter (\<lambda>k. bs ! k \<noteq> ramp (d + 1 + k)) [0..<length bs])"
  proof -
    have "[0..<length (b # bs)] = 0 # map Suc [0..<length bs]" by (simp add: map_Suc_upt upt_conv_Cons del: upt_Suc)
    then show ?thesis by (simp add: filter_map o_def)
  qed
  then show ?case by (simp add: Cons.IH Let_def)
qed

lemma compare_keeps [frame_simps]:
  "selected (compare d bs r) = selected r" "cmd_sent (compare d bs r) = cmd_sent r" "dreq_timeout (compare d bs r) = dreq_timeout r"
  "status (compare d bs r) = status r" "message (compare d bs r) = message r" "completion_ok (compare d bs r) = completion_ok r"
  by (induction bs arbitrary: d r) (simp_all add: Let_def)

lemma clean_compare:
  "mismatches (compare 0 bs r) = 0 \<longleftrightarrow> mismatches r = 0 \<and> bs = map ramp [0..<length bs]"
proof -
  have "filter (\<lambda>k. bs ! k \<noteq> ramp (0 + k)) [0..<length bs] = [] \<longleftrightarrow> (\<forall>k < length bs. bs ! k = ramp k)"
    by (auto simp: filter_empty_conv)
  also have "\<dots> \<longleftrightarrow> bs = map ramp [0..<length bs]"
    by (subst list_eq_iff_nth_eq [of bs]) simp
  finally show ?thesis by (simp add: mismatches_compare)
qed

text \<open>The number of bytes a read adds, in every outcome.\<close>

lemma got_note [simp]: "s_got (note_rec r s) = s_got s" "s_timeout (note_rec r s) = s_timeout s"
  by (simp_all add: note_rec_def)

lemma got_push [simp]: "s_got (push_bytes bs s) = s_got s @ bs" "s_timeout (push_bytes bs s) = s_timeout s"
  by (simp_all add: push_bytes_def)

lemma length_two_bytes [simp]: "length (word_bytes v) = 2"
  by (simp add: word_bytes_def)

text \<open>
  Rules for what every result of an operation satisfies (\<open>pred_state\<close> of the library). A read that
  times out may lose its bytes; any other leaves exactly the bytes asked for.
\<close>

lemma pred_return: "P x \<Longrightarrow> pred_state P (State_Monad.return x)"
  by (auto simp: State_Monad.return_def)

lemma pred_bind:
  assumes "pred_state Q m" "\<And>x. Q x \<Longrightarrow> pred_state P (f x)"
  shows "pred_state P (State_Monad.bind m f)"
  by (rule bind_predI) (rule state.pred_mono_strong [OF assms(1)], rule assms(2))

lemma pred_any: "pred_state (\<lambda>_. True) m"
  by (auto simp: state.pred_set)

lemmas pred_skip = pred_bind [OF pred_any]

definition sized :: "nat \<Rightarrow> stream \<Rightarrow> bool" where
  "sized n s \<longleftrightarrow> s_timeout s \<or> length (s_got s) = n"

lemma take_read_sized:
  "length (s_got s) = d \<Longrightarrow> pred_state (sized (d + (if w then 2 else 1))) (take_read ev w d ds gap s)"
  unfolding take_read_def
  by (rule pred_skip, rule pred_return) (auto simp: sized_def split: option.splits)

lemma take_long_sized:
  "length (s_got s) = d \<Longrightarrow> pred_state (sized (d + 4)) (take_long ev d ds gap ds2 gap2 s)"
  unfolding take_long_def
  by (rule pred_skip) (auto simp: sized_def intro!: pred_return pred_skip split: option.splits)

lemma dvd_step:
  fixes d len k :: nat
  assumes "d < len" "k dvd len - d"
  shows "d + k \<le> len" "k dvd len - (d + k)"
proof -
  have "k \<le> len - d" using dvd_imp_le [OF assms(2)] assms(1) by simp
  then show "d + k \<le> len" using assms(1) by simp
  show "k dvd len - (d + k)"
    using dvd_diff_nat [OF assms(2) dvd_refl] by (simp only: diff_diff_left)
qed

lemma read_bytes_sized:
  "sized d s \<Longrightarrow> d \<le> len \<Longrightarrow> pred_state (sized len) (read_bytes ev ds gap len d s)"
proof (induction ev ds gap len d s rule: read_bytes.induct)
  case (1 ev ds gap len d s)
  show ?case
  proof (cases "d < len \<and> \<not> s_timeout s")
    case True
    with take_read_sized [of s d False ev ds gap] 1(2) have "pred_state (sized (d + 1)) (take_read ev False d ds gap s)"
      by (simp add: sized_def)
    then show ?thesis
      by (subst read_bytes.simps) (use True 1(1) in \<open>auto intro!: pred_bind [where Q = "sized (d + 1)"]\<close>)
  next
    case False
    then show ?thesis using 1(2,3) by (subst read_bytes.simps) (auto intro!: pred_return simp: sized_def)
  qed
qed

lemma read_words_sized:
  "sized d s \<Longrightarrow> d \<le> len \<Longrightarrow> 2 dvd len - d \<Longrightarrow> pred_state (sized len) (read_words ev ds gap len d s)"
proof (induction ev ds gap len d s rule: read_words.induct)
  case (1 ev ds gap len d s)
  show ?case
  proof (cases "d < len \<and> \<not> s_timeout s")
    case True
    with take_read_sized [of s d True ev ds gap] 1(2) have "pred_state (sized (d + 2)) (take_read ev True d ds gap s)"
      by (simp add: sized_def)
    moreover have "d + 2 \<le> len" "2 dvd len - (d + 2)" using dvd_step [OF _ 1(4)] True by auto
    ultimately show ?thesis
      by (subst read_words.simps) (use True 1(1) in \<open>auto intro!: pred_bind [where Q = "sized (d + 2)"]\<close>)
  next
    case False
    then show ?thesis using 1(2,3) by (subst read_words.simps) (auto intro!: pred_return simp: sized_def)
  qed
qed

lemma read_longs_sized:
  "sized d s \<Longrightarrow> d \<le> len \<Longrightarrow> 4 dvd len - d \<Longrightarrow> pred_state (sized len) (read_longs ev ds gap len d s)"
proof (induction ev ds gap len d s rule: read_longs.induct)
  case (1 ev ds gap len d s)
  show ?case
  proof (cases "d < len \<and> \<not> s_timeout s")
    case True
    with take_long_sized [of s d ev ds gap ds gap] 1(2) have "pred_state (sized (d + 4)) (take_long ev d ds gap ds gap s)"
      by (simp add: sized_def)
    moreover have "d + 4 \<le> len" "4 dvd len - (d + 4)" using dvd_step [OF _ 1(4)] True by auto
    ultimately show ?thesis
      by (subst read_longs.simps) (use True 1(1) in \<open>auto intro!: pred_bind [where Q = "sized (d + 4)"]\<close>)
  next
    case False
    then show ?thesis using 1(2,3) by (subst read_longs.simps) (auto intro!: pred_return simp: sized_def)
  qed
qed

lemma fit_pick_fits:
  assumes "d < len"
  shows "fit_pick (len - d) p = 0 \<or> fit_pick (len - d) p = 1 \<and> d + 2 \<le> len \<or> d + 4 \<le> len \<or> 2 < p"
  using assms by (auto simp: fit_pick_def Let_def)

lemma read_mix_sized:
  "sized d s \<Longrightarrow> d \<le> len \<Longrightarrow> pred_state (sized len) (read_mix ev len d s)"
proof (induction "len - d" arbitrary: d s rule: less_induct)
  case less
  show ?case
  proof (cases "d < len \<and> \<not> s_timeout s")
    case True
    then have n: "length (s_got s) = d" using less.prems by (simp add: sized_def)
    have go: "pred_state (sized len) (State_Monad.bind m (read_mix ev len (d + k)))"
      if "pred_state (sized (d + k)) m" "0 < k" "d + k \<le> len" for m k
      using that True by (intro pred_bind [OF that(1)] less.hyps) auto
    have pick: "fit_pick (len - d) (a mod 3) = 0 \<or> fit_pick (len - d) (a mod 3) = 1 \<and> d + 2 \<le> len \<or> d + 4 \<le> len" for a
      using fit_pick_fits [of d len "a mod 3"] True pos_mod_bound [of 3 "int a"] by auto
    have one: "pred_state (sized (d + 1)) (take_read ev False d ds gap s)"
      "pred_state (sized (d + 2)) (take_read ev True d ds gap s)" for ds gap
      using take_read_sized [OF n, of False] take_read_sized [OF n, of True] by simp_all
    have step: "pred_state (sized len) (if pick = 0 then do {s \<leftarrow> take_read ev False d jds jgap s; read_mix ev len (d + 1) s}
          else if pick = 1 then do {s \<leftarrow> take_read ev True d jds jgap s; read_mix ev len (d + 2) s}
          else do {
            e \<leftarrow> lcg; f \<leftarrow> lcg;
            s \<leftarrow> take_long ev d jds jgap (e mod 4) (1 + f mod 8) s;
            read_mix ev len (d + 4) s})"
      if h: "pick = 0 \<or> pick = 1 \<and> d + 2 \<le> len \<or> d + 4 \<le> len" for pick jds jgap
    proof -
      consider "pick = 0" | "pick \<noteq> 0" "pick = 1" "d + 2 \<le> len" | "pick \<noteq> 0" "pick \<noteq> 1" "d + 4 \<le> len"
        using h by linarith
      then show ?thesis
      proof cases
        case 1
        show ?thesis unfolding if_P [OF 1] by (rule go [OF one(1)]) (use True in simp_all)
      next
        case 2
        show ?thesis unfolding if_not_P [OF 2(1)] if_P [OF 2(2)] by (rule go [OF one(2)]) (use 2 in simp_all)
      next
        case 3
        show ?thesis
          unfolding if_not_P [OF 3(1)] if_not_P [OF 3(2)]
          by (rule pred_skip, rule pred_skip, rule go [OF take_long_sized [OF n]]) (use 3 in simp_all)
      qed
    qed
    show ?thesis
      unfolding read_mix.simps [of ev len d s] if_P [OF True] Let_def
      by (rule pred_skip, rule pred_skip, rule pred_skip, rule step, rule pick)
  next
    case False
    then show ?thesis using less.prems by (subst read_mix.simps) (auto intro!: pred_return simp: sized_def)
  qed
qed

lemma data_phase_sized:
  assumes "4 dvd len"
  shows "pred_state (sized len) (data_phase ev m len ds gap lat)"
proof -
  have z: "sized 0 stream_init" by (simp add: sized_def stream_init_def)
  have "2 dvd len" using assms by presburger
  then show ?thesis
    using z assms
    by (cases m) (auto simp: data_phase_def intro!: read_bytes_sized read_words_sized read_longs_sized read_mix_sized pred_skip)
qed

section \<open>Transfers of the block device model\<close>

text \<open>
  A run of \<open>service\<close>, one call per clock, with what the target sees on its buffer port: the address
  and word of every cycle with the write strobe. The outputs of the circuit are arbitrary.
\<close>

definition strobe :: "pins \<Rightarrow> (u8 \<times> u16) list" where
  "strobe p = (if sd_buff_wr p then [(sd_buff_addr p, sd_buff_dout p)] else [])"

fun services :: "outs list \<Rightarrow> pins \<times> hps \<Rightarrow> (pins \<times> hps) \<times> (u8 \<times> u16) list" where
  "services [] ph = (ph, [])"
| "services (q # qs) ph = (let ph = service q ph; (r, ss) = services qs ph in (r, strobe (fst ph) @ ss))"

lemma services_append:
  "services (xs @ ys) ph = (let (r, s1) = services xs ph; (r2, s2) = services ys r in (r2, s1 @ s2))"
  by (induction xs arbitrary: ph) (simp_all add: Let_def split_beta)

lemma next_word_fields [simp]:
  "wi (next_word h) = wi h + 1" "lba (next_word h) = lba h" "tgt (next_word h) = tgt h" "was_write (next_word h) = was_write h"
  "written (next_word h) = written h" "fetches (next_word h) = fetches h" "flushes (next_word h) = flushes h"
  "st (next_word h) = (if wi h = 255 then FINISH else st h)"
  by (simp_all add: next_word_def Let_def)

lemma wait_run:
  assumes "st h = w" "w = WAIT \<and> w' = STREAM \<or> w = WWAIT \<and> w' = WCAP" "\<not> sd_buff_wr p"
    and "int (length qs) = max 1 (latency h - int (cnt h))"
  shows "services qs (p, h) = ((p\<lparr>io_ack := 2 ^ tgt h\<rparr>, h\<lparr>st := w', wi := 0, cnt := 0\<rparr>), [])"
  using assms
proof (induction qs arbitrary: h)
  case Nil
  then show ?case by simp
next
  case (Cons q qs)
  show ?case
  proof (cases "int (cnt h) + 1 \<ge> latency h")
    case True
    then have "int (length (q # qs)) \<le> 1" using Cons.prems(4) by linarith
    then have "qs = []" by simp
    then show ?thesis using Cons.prems True by (auto simp: service_def strobe_def Let_def)
  next
    case False
    let ?h = "h\<lparr>cnt := cnt h + 1\<rparr>"
    have "service q (p, h) = (p, ?h)"
      using Cons.prems False by (auto simp: service_def Let_def)
    moreover have "services qs (p, ?h) = ((p\<lparr>io_ack := 2 ^ tgt ?h\<rparr>, ?h\<lparr>st := w', wi := 0, cnt := 0\<rparr>), [])"
      using Cons.prems False by (intro Cons.IH) (auto simp: max_def split: if_splits)
    ultimately show ?thesis using Cons.prems(3) by (simp add: strobe_def)
  qed
qed

lemma stream_run:
  assumes "st h = STREAM" "cnt h = 2 * wi h" "wi h + k = 256" "0 < k" "length qs = 2 * k"
  shows "\<exists>p' h'. services qs (p, h) =
      ((p', h'), map (\<lambda>j. (of_nat j, word_at (unat (lba h) * 512 + j * 2))) [wi h..<256]) \<and>
    st h' = FINISH \<and> was_write h' = was_write h \<and> written h' = written h \<and> fetches h' = fetches h \<and>
    flushes h' = flushes h"
  using assms
proof (induction k arbitrary: h p qs)
  case 0
  then show ?case by simp
next
  case (Suc k)
  obtain a b rest where qs: "qs = a # b # rest" "length rest = 2 * k"
    using Suc.prems(5) by (cases qs; cases "tl qs") auto
  let ?p = "p\<lparr>sd_buff_addr := of_nat (wi h), sd_buff_dout := word_at (offset_of h), sd_buff_wr := True\<rparr>"
  let ?h = "(next_word (h\<lparr>cnt := cnt h + 1\<rparr>))\<lparr>cnt := cnt h + 2\<rparr>"
  have 1: "service a (p, h) = (?p, h\<lparr>cnt := cnt h + 1\<rparr>)"
    using Suc.prems by (simp add: service_def)
  have 2: "service b (?p, h\<lparr>cnt := cnt h + 1\<rparr>) = (?p\<lparr>sd_buff_wr := False\<rparr>, ?h)"
    using Suc.prems by (simp add: service_def next_word_def Let_def)
  have two: "services qs (p, h) = (let (r, ss) = services rest (?p\<lparr>sd_buff_wr := False\<rparr>, ?h)
      in (r, (of_nat (wi h), word_at (unat (lba h) * 512 + wi h * 2)) # ss))"
    unfolding qs services.simps 1 2 Let_def by (simp add: strobe_def offset_of_def split_beta)
  have up: "[wi h..<256] = wi h # [wi h + 1..<256]" using Suc.prems(3) by (simp add: upt_conv_Cons)
  show ?case
  proof (cases k)
    case 0
    then have "rest = []" using qs(2) by simp
    then show ?thesis
      using Suc.prems(1-3) 0 unfolding two up by (simp add: next_word_def Let_def)
  next
    case (Suc j)
    have h: "st ?h = STREAM" "cnt ?h = 2 * wi ?h" "wi ?h + k = 256" "wi ?h = wi h + 1" "lba ?h = lba h"
        "was_write ?h = was_write h" "written ?h = written h" "fetches ?h = fetches h" "flushes ?h = flushes h"
      using Suc.prems Suc by (simp_all add: next_word_def Let_def)
    obtain p' h' where r: "services rest (?p\<lparr>sd_buff_wr := False\<rparr>, ?h) =
        ((p', h'), map (\<lambda>j. (of_nat j, word_at (unat (lba h) * 512 + j * 2))) [wi h + 1..<256])"
      "st h' = FINISH" "was_write h' = was_write h" "written h' = written h" "fetches h' = fetches h" "flushes h' = flushes h"
      using Suc.IH [OF h(1-3) _ qs(2), of "?p\<lparr>sd_buff_wr := False\<rparr>"] Suc unfolding h(4-) by auto
    show ?thesis
      unfolding two r(1) up by (simp add: r(2-))
  qed
qed

text \<open>The captured image as a function: what is not there reads as \<open>0xEE\<close>.\<close>

lemma flushed_store_pair:
  "flushed_byte (store_pair off w bs) i =
    (if i = off then ucast (drop_bit 8 w) else if i = off + 1 then ucast (w AND 0xFF) else flushed_byte bs i)"
  by (auto simp: flushed_byte_def store_pair_def grow_def nth_list_update nth_append)

fun store_all :: "nat \<Rightarrow> u16 list \<Rightarrow> u8 list \<Rightarrow> u8 list" where
  "store_all off [] bs = bs"
| "store_all off (w # ws) bs = store_all (off + 2) ws (store_pair off w bs)"

lemma flushed_store_all:
  "flushed_byte (store_all off ws bs) i =
    (if off \<le> i \<and> i < off + 2 * length ws then concat (map word_bytes ws) ! (i - off) else flushed_byte bs i)"
proof (induction ws arbitrary: off bs)
  case Nil
  then show ?case by auto
next
  case (Cons w ws)
  consider "i < off" | "i = off" | "i = off + 1" | "off + 2 \<le> i" by linarith
  then show ?case
  proof cases
    case 4
    then have "i - off = Suc (Suc (i - (off + 2)))" by simp
    then have "concat (map word_bytes (w # ws)) ! (i - off) = concat (map word_bytes ws) ! (i - (off + 2))"
      by (simp add: word_bytes_def [of w])
    with 4 show ?thesis by (auto simp: Cons.IH flushed_store_pair)
  qed (use Cons.IH [of "off + 2" "store_pair off w bs"] in \<open>auto simp: flushed_store_pair word_bytes_def\<close>)
qed

lemma capture_run:
  assumes "st h = WCAP" "cnt h = 3 * wi h" "wi h + length ws = 256" "ws \<noteq> []" "length qs = 3 * length ws" "\<not> sd_buff_wr p"
    and "\<And>j. j < length ws \<Longrightarrow> (if tgt h = 0 then sd_buff_din_0 else sd_buff_din_1) (qs ! (3 * j + 2)) = ws ! j"
  shows "\<exists>p' h'. services qs (p, h) = ((p', h'), []) \<and>
    st h' = FINISH \<and> was_write h' = was_write h \<and> written h' = store_all (offset_of h) ws (written h) \<and>
    fetches h' = fetches h \<and> flushes h' = flushes h"
  using assms
proof (induction ws arbitrary: h p qs)
  case Nil
  then show ?case by simp
next
  case (Cons w ws)
  obtain a b c rest where qs: "qs = a # b # c # rest" "length rest = 3 * length ws"
    using Cons.prems(5) by (cases qs; cases "tl qs"; cases "tl (tl qs)") auto
  let ?p = "p\<lparr>sd_buff_addr := of_nat (wi h)\<rparr>"
  let ?h = "(next_word (h\<lparr>cnt := cnt h + 2, written := store_pair (offset_of h) w (written h)\<rparr>))\<lparr>cnt := cnt h + 3\<rparr>"
  have w: "(if tgt h = 0 then sd_buff_din_0 c else sd_buff_din_1 c) = w"
    using Cons.prems(7) [of 0] qs by (simp split: if_splits)
  have m: "(3 * k + 1) mod 3 = (1::nat)" "(3 * k + 2) mod 3 = (2::nat)" for k :: nat by presburger+
  have 1: "service a (p, h) = (?p, h\<lparr>cnt := cnt h + 1\<rparr>)"
    using Cons.prems by (simp add: service_def)
  have 2: "service b (?p, h\<lparr>cnt := cnt h + 1\<rparr>) = (?p, h\<lparr>cnt := cnt h + 2\<rparr>)"
    using Cons.prems m by (simp add: service_def)
  have 3: "service c (?p, h\<lparr>cnt := cnt h + 2\<rparr>) = (?p, ?h)"
    using Cons.prems m w by (simp add: service_def next_word_def offset_of_def Let_def)
  have three: "services qs (p, h) = services rest (?p, ?h)"
    unfolding qs services.simps 1 2 3 Let_def using Cons.prems(6) by (simp add: strobe_def split_beta)
  show ?case
  proof (cases "ws = []")
    case True
    then have "rest = []" using qs(2) by simp
    then show ?thesis
      using Cons.prems(1-3) True unfolding three by (simp add: next_word_def offset_of_def Let_def)
  next
    case False
    have "wi h \<noteq> 255" using Cons.prems(3) False by (cases ws) auto
    then have h: "st ?h = WCAP" "cnt ?h = 3 * wi ?h" "wi ?h + length ws = 256" "tgt ?h = tgt h" "lba ?h = lba h" "wi ?h = wi h + 1"
        "was_write ?h = was_write h" "fetches ?h = fetches h" "flushes ?h = flushes h"
        "written ?h = store_pair (offset_of h) w (written h)"
      using Cons.prems False by (simp_all add: next_word_def Let_def)
    have "offset_of ?h = offset_of h + 2" unfolding offset_of_def h(5,6) by simp
    moreover have "(if tgt ?h = 0 then sd_buff_din_0 else sd_buff_din_1) (rest ! (3 * j + 2)) = ws ! j" if "j < length ws" for j
      using Cons.prems(7) [of "Suc j"] that unfolding qs h(4) by simp
    moreover have "\<not> sd_buff_wr ?p" using Cons.prems(6) by simp
    ultimately show ?thesis
      using Cons.IH [OF h(1-3) False qs(2), of ?p] unfolding three h(7-) by simp
  qed
qed

lemma idle_read:
  assumes "st h = IDLE" "bit (io_rd q) 0"
  shows "service q (p, h) = (p\<lparr>sd_buff_wr := False, io_ack := 0\<rparr>, h\<lparr>tgt := 0, lba := io_lba_0 q, was_write := False, st := WAIT, cnt := 0\<rparr>)"
  using assms by (simp add: service_def lba_of_def)

lemma idle_write:
  assumes "st h = IDLE" "io_rd q = 0" "\<not> bit (io_wr q) 0" "bit (io_wr q) 1"
  shows "service q (p, h) = (p\<lparr>sd_buff_wr := False, io_ack := 0\<rparr>, h\<lparr>tgt := 1, lba := io_lba_1 q, was_write := True, st := WWAIT, cnt := 0\<rparr>)"
  using assms by (simp add: service_def lba_of_def)

lemma finish_step:
  assumes "st h = FINISH"
  shows "service q (p, h) = (p\<lparr>sd_buff_wr := False, io_ack := 0\<rparr>,
    (if was_write h then h\<lparr>flushes := flushes h + 1\<rparr> else h\<lparr>fetches := fetches h + 1\<rparr>)\<lparr>st := IDLE\<rparr>)"
  using assms by (simp add: service_def)

section \<open>The timing of a bus cycle\<close>

definition one :: "'d eval \<Rightarrow> 'd bench \<Rightarrow> 'd bench" where
  "one ev b = snd (run_state (tick ev) b)"

definition after :: "'d eval \<Rightarrow> nat \<Rightarrow> 'd bench \<Rightarrow> 'd bench" where
  "after ev n = one ev ^^ n"

lemma run_tick: "run_state (tick ev) b = ((), one ev b)"
  by (simp add: one_def prod_eq_iff)

lemma after_simps [simp]: "after ev 0 b = b" "after ev (Suc n) b = after ev n (one ev b)"
  by (simp_all add: after_def funpow_swap1)

lemma after_after [simp]: "after ev n (after ev m b) = after ev (m + n) b"
  by (induction m arbitrary: b) simp_all

lemma run_ticks: "run_state (ticks ev n) b = ((), after ev n b)"
  by (induction n arbitrary: b) (simp_all add: run_tick)

lemma cyc_one [simp]: "cyc (one ev b) = Suc (cyc b)"
  by (simp add: one_def tick_def drive_def eval_def hps_service_def change_def split_beta)

lemma cyc_after [simp]: "cyc (after ev n b) = cyc b + n"
  by (induction n arbitrary: b) simp_all

lemma run_fetch [simp]: "run_state (fetch f) b = (f b, b)"
  by (simp add: fetch_def)

lemma run_change [simp]: "run_state (change f) b = ((), f b)"
  by (simp add: change_def)

lemma run_drive [simp]: "run_state (drive f) b = ((), b\<lparr>b_pins := f (b_pins b)\<rparr>)"
  by (simp add: drive_def)

lemma wait_dreq_ready:
  assumes "dreq (b_outs (after ev k b))" "\<And>j. j < k \<Longrightarrow> \<not> dreq (b_outs (after ev j b))" "w + k < DREQ_TIMEOUT"
  shows "run_state (wait_dreq ev w) b = ((True, w + k), after ev k b)"
  using assms
proof (induction k arbitrary: b w)
  case 0
  then show ?case by (subst wait_dreq.simps) simp
next
  case (Suc k)
  have n: "\<not> dreq (b_outs b)" using Suc.prems(2) [of 0] by simp
  have "run_state (wait_dreq ev (w + 1)) (one ev b) = ((True, w + 1 + k), after ev k (one ev b))"
    using Suc.prems(1,3) Suc.prems(2) [of "Suc j" for j] by (intro Suc.IH) auto
  then show ?case
    using n Suc.prems(3) by (subst wait_dreq.simps) (simp add: run_tick)
qed

lemma wait_dreq_times_out:
  assumes "\<And>j. j < k \<Longrightarrow> \<not> dreq (b_outs (after ev j b))" "w + k = DREQ_TIMEOUT" "0 < k"
  shows "run_state (wait_dreq ev w) b = ((False, DREQ_TIMEOUT), after ev k b)"
  using assms
proof (induction k arbitrary: b w)
  case 0
  then show ?case by simp
next
  case (Suc k)
  have n: "\<not> dreq (b_outs b)" using Suc.prems(1) [of 0] by simp
  show ?case
  proof (cases "k = 0")
    case True
    then show ?thesis using n Suc.prems(2) by (subst wait_dreq.simps) (simp add: run_tick)
  next
    case False
    have "run_state (wait_dreq ev (w + 1)) (one ev b) = ((False, DREQ_TIMEOUT), after ev k (one ev b))"
      using Suc.prems(2) Suc.prems(1) [of "Suc j" for j] False by (intro Suc.IH) auto
    then show ?thesis
      using n Suc.prems(2) False by (subst wait_dreq.simps) (simp add: run_tick)
  qed
qed

text \<open>The bench once a read cycle is on the bus.\<close>

definition read_started :: "bool \<Rightarrow> bool \<Rightarrow> bool \<Rightarrow> 'd bench \<Rightarrow> 'd bench" where
  "read_started word long sec b = b\<lparr>b_pins := (b_pins b)\<lparr>bus_cs := True, dack := True, ior := True, iow := False, bus_rs := 0,
     dma_word := word, dma_longword := long, dma_second_word := sec\<rparr>\<rparr>"

lemma cyc_started [simp]: "cyc (read_started w l s b) = cyc b"
  by (simp add: read_started_def)

lemma ramp_EE: "(0xEE :: u8) = ramp d \<longleftrightarrow> d mod 256 = 238"
proof -
  have "unat (ramp d) = d mod 256" by (simp add: ramp_def unat_of_nat take_bit_eq_mod)
  moreover have "unat (0xEE :: u8) = 238" by simp
  ultimately show ?thesis by (simp only: word_unat_eq_iff) auto
qed

lemma lost_block: "length (filter (\<lambda>d. (0xEE :: u8) \<noteq> ramp d) [256 * n..<256 * n + 256]) = 255"
proof -
  let ?P = "\<lambda>d. (0xEE :: u8) \<noteq> ramp d"
  have u: "[256 * n..<256 * n + 256] = [256 * n..<256 * n + 238] @ (256 * n + 238) # [256 * n + 239..<256 * n + 256]"
  proof -
    define a where "a = 256 * n"
    have "[a..<a + 256] = [a..<a + 238] @ [a + 238..<a + 256]" by (rule upt_append) simp_all
    also have "[a + 238..<a + 256] = (a + 238) # [Suc (a + 238)..<a + 256]" by (rule upt_conv_Cons) simp
    also have "Suc (a + 238) = a + 239" by simp
    finally show ?thesis by (simp only: a_def)
  qed
  have 1: "filter ?P [256 * n..<256 * n + 238] = [256 * n..<256 * n + 238]"
  proof (rule filter_True, rule ballI)
    fix d
    assume "d \<in> set [256 * n..<256 * n + 238]"
    then obtain k where "d = 256 * n + k" "k < 238" by (auto simp: le_iff_add)
    then have "d mod 256 \<noteq> 238" by simp
    then show "?P d" by (simp add: ramp_EE)
  qed
  have 2: "filter ?P [256 * n + 239..<256 * n + 256] = [256 * n + 239..<256 * n + 256]"
  proof (rule filter_True, rule ballI)
    fix d
    assume "d \<in> set [256 * n + 239..<256 * n + 256]"
    then obtain k where "d = 256 * n + (239 + k)" "k < 17" by (auto simp: le_iff_add)
    then have "d mod 256 \<noteq> 238" unfolding mod_mult_self4 by simp
    then show "?P d" by (simp add: ramp_EE)
  qed
  have 3: "\<not> ?P (256 * n + 238)" by (simp add: ramp_EE)
  show ?thesis unfolding u filter_append filter.simps(2) 1 2 using 3 by simp
qed

lemma lost_blocks: "length (filter (\<lambda>d. (0xEE :: u8) \<noteq> ramp d) [0..<256 * n]) = 255 * n"
proof (induction n)
  case 0
  then show ?case by simp
next
  case (Suc n)
  have "[0..<256 * Suc n] = [0..<256 * n] @ [256 * n..<256 * n + 256]"
    using upt_append [of 0 "256 * n" "256 * n + 256"] by (simp add: add.commute)
  then show ?case using Suc lost_block [of n] by simp
qed

section \<open>Properties\<close>

text \<open>C6: A fetch of the block device model. From idle, a read request of target 0 makes the next
  \<open>max 1 latency + 513\<close> calls of \<open>service\<close>, whatever the circuit does meanwhile, strobe exactly the
  256 words of the requested sector of the ramp disk into the buffer, in order, each at its address
  with the first byte high; then the model is idle, the acknowledge dropped, one more fetch counted
  and the captured image untouched.\<close>

theorem hps_fetch:
  assumes "st h = IDLE" "bit (io_rd q) 0" "int (length qs) = max 1 (latency h) + 513"
  shows "\<exists>p' h'. services (q # qs) (p, h) =
      ((p', h'), map (\<lambda>j. (of_nat j, word_at (unat (io_lba_0 q) * 512 + j * 2))) [0..<256]) \<and>
    st h' = IDLE \<and> io_ack p' = 0 \<and> fetches h' = fetches h + 1 \<and> written h' = written h"
proof -
  let ?p = "p\<lparr>sd_buff_wr := False, io_ack := 0\<rparr>"
  let ?h = "h\<lparr>tgt := 0, lba := io_lba_0 q, was_write := False, st := WAIT, cnt := 0\<rparr>"
  let ?n = "nat (max 1 (latency h))"
  obtain as bs f where qs: "qs = as @ bs @ [f]" "int (length as) = max 1 (latency h)" "length bs = 2 * 256"
  proof
    show "qs = take ?n qs @ butlast (drop ?n qs) @ [last (drop ?n qs)]"
      using assms(3) by (subst append_butlast_last_id) (auto simp: append_take_drop_id)
  qed (use assms(3) in auto)
  have 1: "services as (?p, ?h) = ((?p\<lparr>io_ack := 1\<rparr>, ?h\<lparr>st := STREAM, wi := 0, cnt := 0\<rparr>), [])"
    using wait_run [of ?h WAIT STREAM ?p as] qs(2) by simp
  obtain p' h' where 2: "services bs (?p\<lparr>io_ack := 1\<rparr>, ?h\<lparr>st := STREAM, wi := 0, cnt := 0\<rparr>) =
      ((p', h'), map (\<lambda>j. (of_nat j, word_at (unat (io_lba_0 q) * 512 + j * 2))) [0..<256])"
    "st h' = FINISH" "was_write h' = False" "written h' = written h" "fetches h' = fetches h"
    using stream_run [of "?h\<lparr>st := STREAM, wi := 0, cnt := 0\<rparr>" 256 bs "?p\<lparr>io_ack := 1\<rparr>"] qs(3) by auto
  show ?thesis
    unfolding qs(1) services.simps idle_read [OF assms(1,2)] services_append 1 Let_def prod.case 2(1)
      finish_step [OF 2(2)]
    using 2(3-) by (simp add: strobe_def)
qed

theorem hps_fetch_witness:
  "\<exists>p' h'. services (outs_init\<lparr>io_rd := 1, io_lba_0 := 2\<rparr> # replicate 1113 outs_init) (pins_init, hps_init) =
      ((p', h'), map (\<lambda>j. (of_nat j, word_at (1024 + j * 2))) [0..<256]) \<and> fetches h' = 1"
  using hps_fetch [of hps_init "outs_init\<lparr>io_rd := 1, io_lba_0 := 2\<rparr>" "replicate 1113 outs_init" pins_init]
  by (auto simp: hps_init_def bit_0)



text \<open>C24: The verdict is sound in every mode. From any state of the bench and with any circuit, a read of
  \<open>n\<close> sectors either times out or has read exactly \<open>512 * n\<close> bytes (never more, never fewer, for
  byte, word, long and mixed reads alike), and the comparison loop counts exactly the positions
  where they differ from the ramp.\<close>

theorem data_phase_verdict:
  "s_timeout (fst (run_state (data_phase ev m (512 * n) ds gap lat) b)) \<or>
   length (s_got (fst (run_state (data_phase ev m (512 * n) ds gap lat) b))) = 512 * n \<and>
   mismatches (compare 0 (s_got (fst (run_state (data_phase ev m (512 * n) ds gap lat) b))) run_result_init) =
     length (filter (\<lambda>d. s_got (fst (run_state (data_phase ev m (512 * n) ds gap lat) b)) ! d \<noteq> ramp d) [0..<512 * n])"
proof -
  define s where "s = fst (run_state (data_phase ev m (512 * n) ds gap lat) b)"
  have "4 dvd 512 * n" by (rule dvd_mult2) simp
  from pred_state_run_state [OF data_phase_sized [OF this, of ev m ds gap lat], of b]
  have "sized (512 * n) s" by (simp only: s_def)
  then have "s_timeout s \<or> length (s_got s) = 512 * n \<and>
      mismatches (compare 0 (s_got s) run_result_init) = length (filter (\<lambda>d. s_got s ! d \<noteq> ramp d) [0..<512 * n])"
    by (auto simp: sized_def mismatches_compare run_result_init_def)
  then show ?thesis by (simp only: s_def)
qed

text \<open>C22: The timing of a pseudo-DMA read. When the circuit first raises its request \<open>k\<close> clocks after the
  first clock of the cycle (fewer than the time-out), the value taken is its data output exactly
  \<open>ds\<close> clocks after the request, the record says \<open>k\<close> clocks waited and calls the read unstable just
  when the output at the request was another one, and the cycle takes \<open>k + ds + gap + 2\<close> clocks.\<close>

theorem dma_read_timing:
  assumes "dreq (b_outs (after ev (1 + k) (read_started word long sec b)))"
    and "\<And>j. j < k \<Longrightarrow> \<not> dreq (b_outs (after ev (1 + j) (read_started word long sec b)))" "k < DREQ_TIMEOUT"
  shows "\<exists>r b'. run_state (dma_read16 ev word long sec ds gap r0) b =
      (Some (rdata (b_outs (after ev (1 + k + ds) (read_started word long sec b))), r), b') \<and>
    wait_cycles r = k \<and> cyc b' = cyc b + (k + ds + gap + 2) \<and>
    (unstable r \<longleftrightarrow> rdata (b_outs (after ev (1 + k) (read_started word long sec b))) \<noteq>
      rdata (b_outs (after ev (1 + k + ds) (read_started word long sec b))))"
proof -
  define c where "c = one ev (read_started word long sec b)"
  have a: "dreq (b_outs (after ev k c))" "\<And>j. j < k \<Longrightarrow> \<not> dreq (b_outs (after ev j c))"
    using assms(1,2) by (simp_all add: c_def)
  have w: "run_state (wait_dreq ev 0) c = ((True, k), after ev k c)"
    using wait_dreq_ready [OF a, of 0] assms(3) by simp
  have c: "cyc c = Suc (cyc b)" by (simp add: c_def)
  show ?thesis
    by (cases "ds = 0")
      (simp_all add: dma_read16_def bus_release_def run_tick run_ticks w c Let_def flip: read_started_def c_def)
qed

text \<open>A circuit whose outputs never change, for the witnesses.\<close>

definition steady :: "outs \<Rightarrow> unit eval" where
  "steady q p d = (q, d)"

lemma outs_one_steady: "b_outs (one (steady q) b) = q"
  by (simp add: one_def tick_def eval_def hps_service_def change_def drive_def steady_def split_beta)

lemma outs_steady: "b_outs (after (steady q) (Suc n) b) = q"
proof (induction n arbitrary: b)
  case 0
  then show ?case by (simp add: outs_one_steady)
next
  case (Suc n)
  then show ?case by (simp only: after_simps(2) [of _ "Suc n"])
qed

theorem dma_read_timing_witness:
  "\<exists>r b'. run_state (dma_read16 (steady (outs_init\<lparr>dreq := True, rdata := 0x1234\<rparr>)) True False False 2 3 (read_rec_init 0)) (bench_init ()) =
      (Some (0x1234, r), b') \<and> wait_cycles r = 0 \<and> cyc b' = 7 \<and> \<not> unstable r"
proof -
  let ?q = "outs_init\<lparr>dreq := True, rdata := 0x1234\<rparr>"
  have "dreq (b_outs (after (steady ?q) (1 + 0) (read_started True False False (bench_init ()))))"
    using outs_steady [of ?q 0] by simp
  from dma_read_timing [OF this, of 2 3 "read_rec_init 0"] show ?thesis
    using outs_steady [of ?q 0] outs_steady [of ?q 2]
    by (auto simp: DREQ_TIMEOUT_def bench_init_def numeral_2_eq_2)
qed

text \<open>C23: The time-out. When the circuit never raises its request, the read gives up after exactly
  \<open>DREQ_TIMEOUT\<close> further clocks: it returns nothing and leaves the bus released.\<close>

theorem dma_read_timeout:
  assumes "\<And>j. j < DREQ_TIMEOUT \<Longrightarrow> \<not> dreq (b_outs (after ev (1 + j) (read_started word long sec b)))"
  shows "\<exists>b'. run_state (dma_read16 ev word long sec ds gap r0) b = (None, b') \<and>
    cyc b' = cyc b + 1 + DREQ_TIMEOUT \<and> b_pins b' = released (b_pins b')"
proof -
  define c where "c = one ev (read_started word long sec b)"
  have w: "run_state (wait_dreq ev 0) c = ((False, DREQ_TIMEOUT), after ev DREQ_TIMEOUT c)"
    using assms by (intro wait_dreq_times_out) (simp_all add: c_def DREQ_TIMEOUT_def)
  have c: "cyc c = Suc (cyc b)" by (simp add: c_def)
  show ?thesis
    by (simp add: dma_read16_def bus_release_def run_tick w c released_def flip: read_started_def c_def)
qed

theorem dma_read_timeout_witness:
  "\<exists>b'. run_state (dma_read16 (steady outs_init) True False False 2 3 (read_rec_init 0)) (bench_init ()) = (None, b') \<and>
    cyc b' = 500001"
proof -
  have "\<not> dreq (b_outs (after (steady outs_init) (1 + j) (read_started True False False (bench_init ()))))" for j
    using outs_steady [of outs_init j] by (simp add: outs_init_def)
  from dma_read_timeout [OF this, of 2 3 "read_rec_init 0"] show ?thesis
    by (auto simp: DREQ_TIMEOUT_def bench_init_def)
qed

text \<open>The write sweep tests one gap. \<open>run_write\<close> takes the gap between bus cycles as an argument and
  never uses it: every run is the run with any other gap.\<close>

theorem run_write_ignores_gap:
  "run_write ev word_mode sectors gap hps_lat scsi_id id_slot = run_write ev word_mode sectors gap' hps_lat scsi_id id_slot"
  by (simp add: run_write_def)

text \<open>A lost flush is not counted in full. When nothing at all was flushed, the check of a write of
  \<open>n\<close> sectors counts \<open>510 * n\<close> bad bytes, not \<open>512 * n\<close>: missing bytes are taken to be \<open>0xEE\<close>, which
  the ramp also writes twice in every sector.\<close>

theorem lost_flush_undercounted:
  "mismatches (compare 0 (map (flushed_byte []) [0..<512 * n]) run_result_init) = 510 * n"
proof -
  have "filter (\<lambda>k. map (flushed_byte []) [0..<512 * n] ! k \<noteq> ramp (0 + k)) [0..<length (map (flushed_byte []) [0..<512 * n])] =
      filter (\<lambda>d. 0xEE \<noteq> ramp d) [0..<512 * n]"
    by (rule filter_cong) (auto simp: flushed_byte_def)
  then show ?thesis unfolding mismatches_compare using lost_blocks [of "2 * n"] by (simp add: run_result_init_def)
qed

text \<open>The sweeps do not look at the completion. Whatever status and message the target ended with, a
  cell of the sweep is judged the same, although a single run fails without a clean completion.\<close>

theorem sweep_ignores_completion:
  "cell_of (r\<lparr>status := x, message := y, completion_ok := False\<rparr>) = cell_of r \<and>
   failed (r\<lparr>status := x, message := y, completion_ok := False\<rparr>)"
  by (simp add: cell_of_def failed_def)

end
