(* ===== verification/FlineDasm.thy ===== *)
theory FlineDasm
  imports Prelude
begin

text \<open>
  The disassembler of 68881 instructions that the floating-point bench prints
  (\<open>src/SingleStepTests/fpu/fline_disasm.h\<close>): the operation and condition tables, effective
  addresses, and the eight instruction types. \<open>snprintf\<close> into a buffer of \<open>n\<close> bytes keeps the first
  \<open>n - 1\<close> characters.
\<close>

section \<open>Formatting\<close>

definition cut :: "nat \<Rightarrow> string \<Rightarrow> string" where
  "cut n s = take (n - 1) s"

definition hex_digit :: "nat \<Rightarrow> char" where
  "hex_digit d = ''0123456789ABCDEF'' ! (d mod 16)"

text \<open>\<open>%u\<close> of a field below ten, \<open>%04X\<close> of a word, \<open>%02X\<close> of a byte.\<close>

definition dec1 :: "nat \<Rightarrow> string" where "dec1 d = [hex_digit d]"

definition hex4 :: "u16 \<Rightarrow> string" where
  "hex4 w = map (\<lambda>k. hex_digit (unat (drop_bit k w))) [12, 8, 4, 0]"

definition hex2 :: "u16 \<Rightarrow> string" where
  "hex2 w = map (\<lambda>k. hex_digit (unat (drop_bit k w))) [4, 0]"

text \<open>Bits \<open>k\<close> and up of a word, cut to a mask of \<open>n\<close> bits.\<close>

definition field :: "nat \<Rightarrow> nat \<Rightarrow> u16 \<Rightarrow> nat" where
  "field k n w = unat (drop_bit k w AND mask n)"

section \<open>Tables\<close>

definition mnemonics :: "(nat \<times> string) list" where
  "mnemonics =
    [(0x00, ''FMOVE''), (0x01, ''FINT''), (0x02, ''FSINH''), (0x03, ''FINTRZ''), (0x04, ''FSQRT''), (0x06, ''FLOGNP1''),
     (0x08, ''FETOXM1''), (0x09, ''FTANH''), (0x0A, ''FATAN''), (0x0C, ''FASIN''), (0x0D, ''FATANH''), (0x0E, ''FSIN''),
     (0x0F, ''FTAN''), (0x10, ''FETOX''), (0x11, ''FTWOTOX''), (0x12, ''FTENTOX''), (0x14, ''FLOGN''), (0x15, ''FLOG10''),
     (0x16, ''FLOG2''), (0x18, ''FABS''), (0x19, ''FCOSH''), (0x1A, ''FNEG''), (0x1C, ''FACOS''), (0x1D, ''FCOS''),
     (0x1E, ''FGETEXP''), (0x1F, ''FGETMAN''), (0x20, ''FDIV''), (0x21, ''FMOD''), (0x22, ''FADD''), (0x23, ''FMUL''),
     (0x24, ''FSGLDIV''), (0x25, ''FREM''), (0x26, ''FSCALE''), (0x27, ''FSGLMUL''), (0x28, ''FSUB''), (0x38, ''FCMP''),
     (0x3A, ''FTST'')]"

definition gen_mnem :: "nat \<Rightarrow> string option" where
  "gen_mnem op7 =
    (case map_of mnemonics op7 of
       Some s \<Rightarrow> Some s
     | None \<Rightarrow> if op7 div 8 = 6 then Some ''FSINCOS'' else None)"

definition fmt_letter :: "nat \<Rightarrow> char" where
  "fmt_letter spec = ''LSXPWDB?'' ! (spec mod 8)"

definition conditions :: "string list" where
  "conditions =
    [''F'', ''EQ'', ''OGT'', ''OGE'', ''OLT'', ''OLE'', ''OGL'', ''OR'', ''UN'', ''UEQ'', ''UGT'', ''UGE'', ''ULT'', ''ULE'', ''NE'', ''T'',
     ''SF'', ''SEQ'', ''GT'', ''GE'', ''LT'', ''LE'', ''GL'', ''GLE'', ''NGLE'', ''NGL'', ''NLE'', ''NLT'', ''NGE'', ''NGT'', ''SNE'', ''ST'']"

definition cc_mnem :: "nat \<Rightarrow> string" where
  "cc_mnem cc = conditions ! (cc mod 32)"

definition ea_text :: "nat \<Rightarrow> nat \<Rightarrow> string" where
  "ea_text mode reg =
    (if mode = 0 then ''D'' @ dec1 reg
     else if mode = 1 then ''A'' @ dec1 reg
     else if mode = 2 then ''(A'' @ dec1 reg @ '')''
     else if mode = 3 then ''(A'' @ dec1 reg @ '')+''
     else if mode = 4 then ''-(A'' @ dec1 reg @ '')''
     else if mode = 5 then ''d16(A'' @ dec1 reg @ '')''
     else if mode = 6 then ''d8(A'' @ dec1 reg @ '',Xn)''
     else if reg = 0 then ''(xxx).W''
     else if reg = 1 then ''(xxx).L''
     else if reg = 2 then ''d16(PC)''
     else if reg = 3 then ''d8(PC,Xn)''
     else if reg = 4 then ''#imm''
     else ''(7,'' @ dec1 reg @ ''?)'')"

definition ea_str :: "nat \<Rightarrow> nat \<Rightarrow> string" where
  "ea_str mode reg = cut 16 (ea_text mode reg)"

section \<open>The disassembler\<close>

text \<open>General instructions: the family of the extension word.\<close>

definition gen_text :: "u16 \<Rightarrow> u16 \<Rightarrow> string" where
  "gen_text opword ext =
    (let family = field 13 3 ext; src = field 10 3 ext; dst = field 7 3 ext; op7 = field 0 7 ext;
         mn = (case gen_mnem op7 of Some s \<Rightarrow> s | None \<Rightarrow> ''FxOP'');
         ea = ea_str (field 3 3 opword) (field 0 3 opword)
     in if family = 0 then mn @ ''.X FP'' @ dec1 src @ '',FP'' @ dec1 dst
        else if family = 2 then ''FMOVE.'' @ [fmt_letter src] @ '' FP'' @ dec1 dst @ '','' @ ea
        else if family = 4 then mn @ ''.'' @ [fmt_letter src] @ '' '' @ ea @ '',FP'' @ dec1 dst
        else if family = 5 then ''FMOVECR #$'' @ hex2 (ext AND 0x7F) @ '',FP'' @ dec1 dst
        else if family = 6 \<or> family = 7 then ''FMOVEM ext=$'' @ hex4 ext @ '','' @ ea
        else ''cpGEN $'' @ hex4 opword @ '' $'' @ hex4 ext)"

definition cond_text :: "u16 \<Rightarrow> u16 \<Rightarrow> string" where
  "cond_text opword ext =
    (let mode = field 3 3 opword; reg = field 0 3 opword; cc = field 0 6 ext in
     if mode = 1 then ''FDB'' @ cc_mnem cc @ '' D'' @ dec1 reg @ '',disp''
     else if mode = 7 \<and> (reg = 2 \<or> reg = 3 \<or> reg = 4) then ''FTRAP'' @ cc_mnem cc
     else ''FS'' @ cc_mnem cc @ ''.B '' @ ea_str mode reg)"

definition fline_text :: "u16 \<Rightarrow> u16 \<Rightarrow> string" where
  "fline_text opword ext =
    (let cop = field 9 3 opword; type = field 6 3 opword; ea = ea_str (field 3 3 opword) (field 0 3 opword) in
     if cop \<noteq> 1 then ''cp'' @ dec1 cop @ ''.??? $'' @ hex4 opword @ '' $'' @ hex4 ext
     else if type = 0 then gen_text opword ext
     else if type = 1 then cond_text opword ext
     else if type = 2 then ''FB'' @ cc_mnem (field 0 6 opword) @ ''.W disp=$'' @ hex4 ext
     else if type = 3 then ''FB'' @ cc_mnem (field 0 6 opword) @ ''.L disp_hi=$'' @ hex4 ext
     else if type = 4 then ''FSAVE '' @ ea
     else if type = 5 then ''FRESTORE '' @ ea
     else ''F? $'' @ hex4 opword @ '' $'' @ hex4 ext)"

definition disasm :: "u16 \<Rightarrow> u16 \<Rightarrow> string" where
  "disasm opword ext = cut 64 (fline_text opword ext)"

section \<open>Lengths\<close>

lemma length_format [simp]:
  "length (dec1 d) = 1" "length (hex4 w) = 4" "length (hex2 w) = 2"
  by (simp_all add: dec1_def hex4_def hex2_def)

lemma length_mnem: "gen_mnem n = Some s \<Longrightarrow> length s \<le> 7"
proof -
  assume s: "gen_mnem n = Some s"
  have "list_all (\<lambda>(k, m). length m \<le> 7) mnemonics" by (simp add: mnemonics_def)
  then have "map_of mnemonics n = Some s \<Longrightarrow> length s \<le> 7"
    by (auto simp: list_all_iff dest: map_of_SomeD)
  then show ?thesis using s by (auto simp: gen_mnem_def split: option.splits if_splits)
qed

lemma length_cc: "length (cc_mnem n) \<le> 4"
proof -
  have "list_all (\<lambda>m. length m \<le> 4) conditions" "length conditions = 32" by (simp_all add: conditions_def)
  then show ?thesis by (simp add: cc_mnem_def list_all_length)
qed

lemma length_ea: "length (ea_text m r) \<le> 10"
  by (simp add: ea_text_def)

lemma length_ea_str: "length (ea_str m r) \<le> 10"
  using length_ea [of m r] by (simp add: ea_str_def cut_def)

lemma length_gen: "length (gen_text p q) \<le> 31"
proof -
  have mn: "length (case gen_mnem n of Some s \<Rightarrow> s | None \<Rightarrow> ''FxOP'') \<le> 7" for n
    by (auto dest: length_mnem split: option.splits)
  show ?thesis
    using mn [of "field 0 7 q"] length_ea_str [of "field 3 3 p" "field 0 3 p"] by (auto simp: gen_text_def Let_def)
qed

lemma length_cond: "length (cond_text p q) \<le> 31"
  using length_cc [of "field 0 6 q"] length_ea_str [of "field 3 3 p" "field 0 3 p"] by (auto simp: cond_text_def Let_def)

lemma length_fline: "length (fline_text p q) \<le> 31"
  using length_gen [of p q] length_cond [of p q] length_cc [of "field 0 6 p"] length_ea_str [of "field 3 3 p" "field 0 3 p"]
  by (auto simp: fline_text_def Let_def)

lemma field_eq: "field k n w = unat w div 2 ^ k mod 2 ^ n"
proof -
  have "field k n w = take_bit n (drop_bit k (unat w))"
    unfolding field_def take_bit_eq_mask [symmetric] unsigned_take_bit_eq unat_drop_bit_eq ..
  then show ?thesis by (simp only: take_bit_eq_mod drop_bit_eq_div)
qed

lemma hex4_eq: "hex4 w = map (\<lambda>k. hex_digit (unat w div 2 ^ k)) [12, 8, 4, 0]"
  unfolding hex4_def unat_drop_bit_eq by (simp only: drop_bit_eq_div)

lemmas disasm_eval = disasm_def cut_def fline_text_def gen_text_def cond_text_def ea_str_def ea_text_def field_eq hex4_eq
  dec1_def hex_digit_def gen_mnem_def mnemonics_def fmt_letter_def cc_mnem_def conditions_def

section \<open>Properties\<close>

text \<open>Nothing is cut. For all \<open>2 ^ 32\<close> pairs of words the text is at most 31 characters and every
  effective address at most 10, so neither the 64-byte buffer nor the 16-byte one ever truncates.\<close>

theorem disasm_never_truncates:
  "disasm opword ext = fline_text opword ext \<and> length (disasm opword ext) \<le> 31 \<and> ea_str m r = ea_text m r"
  using length_fline [of opword ext] length_ea [of m r] by (simp add: disasm_def cut_def ea_str_def)

text \<open>Moves into the coprocessor are shown backwards. The instruction that the integrated bench runs
  as \<open>FMOVE.L D0,FP0\<close> (\<open>$F200 $4000\<close>) is printed as a move out of \<open>FP0\<close>, and its way back,
  \<open>FMOVE.L FP0,D1\<close> (\<open>$F201 $6000\<close>), is not decoded at all.\<close>

theorem fmove_shown_backwards:
  "disasm 0xF200 0x4000 = ''FMOVE.L FP0,D0'' \<and> disasm 0xF201 0x6000 = ''cpGEN $F201 $6000''"
  by (simp add: disasm_eval)

text \<open>The self test's instructions. The eight words pairs that the bench prints without a corpus are
  decoded as the instructions it names.\<close>

theorem self_test_decodes:
  "map (\<lambda>(p, q). disasm p q)
     [(0xF200, 0x0080), (0xF200, 0x0022), (0xF210, 0x8423), (0xF200, 0x0038), (0xF248, 0x0001), (0xF28E, 0x1234),
      (0xF327, 0x0000), (0xF35F, 0x0000)] =
   [''FMOVE.X FP0,FP1'', ''FADD.X FP0,FP0'', ''FMUL.S (A0),FP0'', ''FCMP.X FP0,FP0'', ''FDBEQ D0,disp'', ''FBNE.W disp=$1234'',
    ''FSAVE -(A7)'', ''FRESTORE (A7)+'']"
proof -
  have "disasm 0xF200 0x0080 = ''FMOVE.X FP0,FP1''" by (simp add: disasm_eval)
  moreover have "disasm 0xF200 0x0022 = ''FADD.X FP0,FP0''" by (simp add: disasm_eval)
  moreover have "disasm 0xF210 0x8423 = ''FMUL.S (A0),FP0''" by (simp add: disasm_eval)
  moreover have "disasm 0xF200 0x0038 = ''FCMP.X FP0,FP0''" by (simp add: disasm_eval)
  moreover have "disasm 0xF248 0x0001 = ''FDBEQ D0,disp''" by (simp add: disasm_eval)
  moreover have "disasm 0xF28E 0x1234 = ''FBNE.W disp=$1234''" by (simp add: disasm_eval)
  moreover have "disasm 0xF327 0x0000 = ''FSAVE -(A7)''" by (simp add: disasm_eval)
  moreover have "disasm 0xF35F 0x0000 = ''FRESTORE (A7)+''" by (simp add: disasm_eval)
  ultimately show ?thesis by (simp only: list.map prod.case)
qed

end
