(* ===== verification/SstBench.thy ===== *)
theory SstBench
  imports DasmStub
begin

text \<open>
  The single-step bench of the TG68K processor (\<open>src/SingleStepTests/tg68k/sim_main.cpp\<close>): its 16 MiB
  memory and bus service, the clock, register injection, the program it plants for a test, the
  capture of the result, the comparison with the corpus, and the run over a corpus. The generated
  processor is an argument \<open>ev\<close>: from its pins and its state an evaluation gives its outputs and its
  next state. The JSON library is an argument \<open>parse\<close>; tests with missing or mistyped fields, which
  it refuses by exceptions, are outside the model. The file of a corpus is the list of its lines.
\<close>

section \<open>Memory\<close>

text \<open>Indices are below \<open>2 ^ 24\<close> wherever the code reads or writes.\<close>

type_synonym bytes = "nat \<Rightarrow> u8"

definition even_index :: "u32 \<Rightarrow> nat" where
  "even_index a = unat (a AND 0x00FFFFFE)"

definition join16 :: "u8 \<Rightarrow> u8 \<Rightarrow> u16" where
  "join16 h l = push_bit 8 (ucast h) OR ucast l"

definition ram_read16 :: "bytes \<Rightarrow> u32 \<Rightarrow> u16" where
  "ram_read16 r a = (let i = even_index a in join16 (r i) (r (i + 1)))"

definition ram_write16 :: "u32 \<Rightarrow> u16 \<Rightarrow> bool \<Rightarrow> bool \<Rightarrow> bytes \<Rightarrow> bytes" where
  "ram_write16 a v uds lds r =
    (let i = even_index a;
         r = (if uds then r(i := ucast (drop_bit 8 v)) else r)
     in if lds then r(i + 1 := ucast (v AND 0xFF)) else r)"

text \<open>Bytes stored one after the other, and the bytes of a long, high byte first.\<close>

fun poke :: "nat \<Rightarrow> u8 list \<Rightarrow> bytes \<Rightarrow> bytes" where
  "poke i [] r = r"
| "poke i (b # bs) r = poke (i + 1) bs (r(i := b))"

definition long_bytes :: "u32 \<Rightarrow> u8 list" where
  "long_bytes v = [ucast (drop_bit 24 v), ucast (drop_bit 16 v), ucast (drop_bit 8 v), ucast v]"

section \<open>The processor and the clock\<close>

record spins =
  p_reset :: bool
  clkena_in :: bool
  p_clk :: bool
  data_in :: u16

record souts =
  busstate :: u8
  addr_out :: u32
  data_write :: u16
  nUDS :: bool
  nLDS :: bool
  pc_out :: u32
  sr_out :: u16
  usp_out :: u32

text \<open>The register file is split; \<open>inner\<close> is everything else.\<close>

record 'd tg68k =
  regfile_n1 :: "nat \<Rightarrow> u8"
  regfile_n2 :: "nat \<Rightarrow> u32"
  inner :: 'd

type_synonym 'd tg68k_eval = "spins \<Rightarrow> 'd tg68k \<Rightarrow> souts \<times> 'd tg68k"

record 'd sst =
  s_pins :: spins
  s_outs :: souts
  s_cpu :: "'d tg68k"
  s_ram :: bytes
  s_time :: nat

abbreviation (input) "BS_FETCH \<equiv> 0 :: u8"
abbreviation (input) "BS_IDLE \<equiv> 1 :: u8"
abbreviation (input) "BS_READ \<equiv> 2 :: u8"
abbreviation (input) "BS_WRITE \<equiv> 3 :: u8"

definition service_bus :: "'d sst \<Rightarrow> 'd sst" where
  "service_bus s =
    (let bs = busstate (s_outs s); a = addr_out (s_outs s) in
     if bs = BS_IDLE then s
     else if bs = BS_FETCH \<or> bs = BS_READ then s\<lparr>s_pins := (s_pins s)\<lparr>data_in := ram_read16 (s_ram s) a\<rparr>\<rparr>
     else if bs = BS_WRITE
     then s\<lparr>s_ram := ram_write16 a (data_write (s_outs s)) (\<not> nUDS (s_outs s)) (\<not> nLDS (s_outs s)) (s_ram s)\<rparr>
     else s)"

definition cpu_eval :: "'d tg68k_eval \<Rightarrow> 'd sst \<Rightarrow> 'd sst" where
  "cpu_eval ev s = (let (q, c) = ev (s_pins s) (s_cpu s) in s\<lparr>s_outs := q, s_cpu := c\<rparr>)"

definition cpu_tick :: "'d tg68k_eval \<Rightarrow> bool \<Rightarrow> 'd sst \<Rightarrow> 'd sst" where
  "cpu_tick ev clkena s =
    (let s = s\<lparr>s_pins := (s_pins s)\<lparr>clkena_in := clkena, p_clk := False\<rparr>\<rparr>;
         s = cpu_eval ev s;
         s = s\<lparr>s_time := s_time s + 1\<rparr>;
         s = s\<lparr>s_pins := (s_pins s)\<lparr>p_clk := True\<rparr>\<rparr>;
         s = cpu_eval ev s;
         s = (if clkena then service_bus s else s)
     in s\<lparr>s_time := s_time s + 1\<rparr>)"

definition cpu_ticks :: "'d tg68k_eval \<Rightarrow> nat \<Rightarrow> 'd sst \<Rightarrow> 'd sst" where
  "cpu_ticks ev n = cpu_tick ev True ^^ n"

definition set_reg :: "nat \<Rightarrow> u32 \<Rightarrow> 'd sst \<Rightarrow> 'd sst" where
  "set_reg i v s = s\<lparr>s_cpu := (s_cpu s)\<lparr>regfile_n1 := (regfile_n1 (s_cpu s))(i := ucast (v AND 0xFF)),
     regfile_n2 := (regfile_n2 (s_cpu s))(i := drop_bit 8 v AND 0xFFFFFF)\<rparr>\<rparr>"

definition get_reg :: "nat \<Rightarrow> 'd sst \<Rightarrow> u32" where
  "get_reg i s = push_bit 8 (regfile_n2 (s_cpu s) i) OR ucast (regfile_n1 (s_cpu s) i)"

definition pulse_reset :: "'d tg68k_eval \<Rightarrow> 'd sst \<Rightarrow> 'd sst" where
  "pulse_reset ev s =
    (let s = s\<lparr>s_pins := (s_pins s)\<lparr>p_reset := True\<rparr>\<rparr>;
         s = cpu_ticks ev 32 s
     in s\<lparr>s_pins := (s_pins s)\<lparr>p_reset := False\<rparr>\<rparr>)"

text \<open>\<open>main\<close> up to its modes: empty memory, a first reset.\<close>

definition sst_start :: "'d tg68k_eval \<Rightarrow> 'd sst \<Rightarrow> 'd sst" where
  "sst_start ev s = pulse_reset ev (s\<lparr>s_ram := (\<lambda>_. 0), s_pins := (s_pins s)\<lparr>data_in := 0\<rparr>\<rparr>)"

text \<open>\<open>--probe-regs\<close>: a store of D0, injected before the processor starts. The exit status.\<close>

definition probe_program :: "bytes \<Rightarrow> bytes" where
  "probe_program r =
    (let r = poke 0 [0x00, 0xFF, 0xFF, 0xF8] r;
         r = poke 4 [0x00, 0x00, 0x10, 0x00] r;
         r = poke 0x1000 [0x23, 0xC0, 0x00, 0x00, 0x02, 0x00] r
     in poke 0x1006 [0x4E, 0x72, 0x27, 0x00] r)"

definition probe_regs :: "'d tg68k_eval \<Rightarrow> 'd sst \<Rightarrow> 'd sst \<times> nat" where
  "probe_regs ev s =
    (let s = s\<lparr>s_ram := probe_program (s_ram s)\<rparr>;
         s = pulse_reset ev s;
         s = set_reg 0 0xDEADBEEF s;
         s = cpu_ticks ev 200 s;
         r = s_ram s;
         result = push_bit 24 (ucast (r 0x200)) OR push_bit 16 (ucast (r 0x201)) OR push_bit 8 (ucast (r 0x202)) OR
           (ucast (r 0x203) :: u32)
     in (s, if result = 0xDEADBEEF then 0 else 1))"

section \<open>A test\<close>

text \<open>The fields of \<open>CpuTestSpec\<close> that the bench reads, and the snapshots of the corpus.\<close>

record spec =
  test :: "u8 list"
  hw_unsafe :: bool
  ccr_mask :: u8

record snapshot =
  snap_d :: "u32 list"
  snap_a :: "u32 list"
  snap_ccr :: u8
  snap_ram :: "u8 list"
  snap_pc :: "u32 option"
  snap_sr :: "u16 option"
  snap_usp :: "u32 option"

record corpus_test =
  ct_name :: string
  ct_initial :: snapshot
  ct_final :: snapshot

definition move_ccr_addr :: "spec \<Rightarrow> nat" where
  "move_ccr_addr sp = 0x1004 + length (test sp)"

definition plant_vectors :: "u32 \<Rightarrow> bytes \<Rightarrow> bytes" where
  "plant_vectors addr = fold (\<lambda>v. poke (v * 4) (long_bytes addr)) [2..<256]"

definition plant :: "spec \<Rightarrow> snapshot \<Rightarrow> bytes" where
  "plant sp init =
    (let pc = move_ccr_addr sp;
         r = poke 0 (long_bytes (snap_a init ! 7)) (\<lambda>_. 0);
         r = poke 4 [0x00, 0x00, 0x10, 0x00] r;
         r = poke 0x1000 [0x44, 0xFC, 0x00, snap_ccr init] r;
         r = poke 0x1004 (test sp) r;
         r = poke pc [0x42, 0xF9, 0x00, 0x00, 0x19, 0x00] r;
         r = poke (pc + 6) [0x4E, 0x72, 0x27, 0x00] r;
         r = plant_vectors (of_nat pc) r
     in poke 0x1800 (map (\<lambda>i. snap_ram init ! i) [0..<64]) r)"

definition inject :: "snapshot \<Rightarrow> 'd sst \<Rightarrow> 'd sst" where
  "inject init = fold (\<lambda>r s. set_reg (8 + r) (snap_a init ! r) (set_reg r (snap_d init ! r) s)) [0..<8]"

definition prepare :: "'d tg68k_eval \<Rightarrow> spec \<Rightarrow> snapshot \<Rightarrow> 'd sst \<Rightarrow> 'd sst" where
  "prepare ev sp init s = inject init (pulse_reset ev (s\<lparr>s_ram := plant sp init\<rparr>))"

section \<open>The capture\<close>

record capture =
  saw_test_done :: bool
  saw_ccr_write :: bool
  got_pc :: u32
  got_usp :: u32
  got_sr :: u16

definition capture_init :: capture where
  "capture_init = \<lparr>saw_test_done = False, saw_ccr_write = False, got_pc = 0, got_usp = 0, got_sr = 0\<rparr>"

definition sees_done :: "u32 \<Rightarrow> souts \<Rightarrow> bool" where
  "sees_done addr q \<longleftrightarrow> busstate q = BS_FETCH \<and> addr_out q AND 0xFFFFFFFE = addr AND 0xFFFFFFFE"

definition sees_dump :: "souts \<Rightarrow> bool" where
  "sees_dump q \<longleftrightarrow> busstate q = BS_WRITE \<and> addr_out q AND 0xFFFFFFFE = 0x1900"

definition note_done :: "u32 \<Rightarrow> souts \<Rightarrow> capture \<Rightarrow> capture" where
  "note_done addr q c =
    (if \<not> saw_test_done c \<and> sees_done addr q then c\<lparr>saw_test_done := True, got_pc := pc_out q\<rparr> else c)"

fun capture_loop :: "'d tg68k_eval \<Rightarrow> u32 \<Rightarrow> nat \<Rightarrow> 'd sst \<times> capture \<Rightarrow> 'd sst \<times> capture" where
  "capture_loop ev addr 0 sc = sc"
| "capture_loop ev addr (Suc n) (s, c) =
    (if saw_ccr_write c then (s, c)
     else
       (let s = cpu_tick ev True s; q = s_outs s; c = note_done addr q c
        in if sees_dump q
           then capture_loop ev addr n (cpu_ticks ev 16 s, c\<lparr>saw_ccr_write := True, got_sr := sr_out q, got_usp := usp_out q\<rparr>)
           else capture_loop ev addr n (s, c)))"

section \<open>The comparison\<close>

datatype reason = TimeOut | CcrDiffers | DDiffers nat | ADiffers nat | PcDiffers | SrDiffers | UspDiffers | RamDiffers nat

text \<open>Each check runs only while nothing has failed.\<close>

definition check :: "bool \<Rightarrow> reason \<Rightarrow> reason option \<Rightarrow> reason option" where
  "check ok why r = (case r of Some w \<Rightarrow> Some w | None \<Rightarrow> if ok then None else Some why)"

definition check_each :: "(nat \<Rightarrow> bool) \<Rightarrow> (nat \<Rightarrow> reason) \<Rightarrow> nat \<Rightarrow> reason option \<Rightarrow> reason option" where
  "check_each ok why n = fold (\<lambda>i. check (ok i) (why i)) [0..<n]"

definition sr_mask :: "spec \<Rightarrow> u16" where
  "sr_mask sp = (NOT 0x0700 AND 0xFFE0) OR ucast (ccr_mask sp AND 0x1F)"

definition pc_agrees :: "capture \<Rightarrow> snapshot \<Rightarrow> snapshot \<Rightarrow> bool" where
  "pc_agrees c init final =
    (case (saw_test_done c, snap_pc final, snap_pc init) of
       (True, Some f, Some i) \<Rightarrow> got_pc c = 0x1004 + (f - i)
     | _ \<Rightarrow> True)"

definition sr_agrees :: "spec \<Rightarrow> capture \<Rightarrow> snapshot \<Rightarrow> bool" where
  "sr_agrees sp c final =
    (case snap_sr final of None \<Rightarrow> True | Some f \<Rightarrow> got_sr c AND sr_mask sp = f AND sr_mask sp)"

definition usp_agrees :: "capture \<Rightarrow> snapshot \<Rightarrow> bool" where
  "usp_agrees c final =
    (case (saw_test_done c, snap_usp final) of (True, Some f) \<Rightarrow> got_usp c = f | _ \<Rightarrow> True)"

definition judge :: "spec \<Rightarrow> snapshot \<Rightarrow> snapshot \<Rightarrow> 'd sst \<times> capture \<Rightarrow> reason option" where
  "judge sp init final sc =
    (let (s, c) = sc;
         r = check (saw_ccr_write c) TimeOut None;
         r = check (s_ram s 0x1901 AND ccr_mask sp = snap_ccr final AND ccr_mask sp) CcrDiffers r;
         r = check_each (\<lambda>i. get_reg i s = snap_d final ! i) DDiffers 8 r;
         r = check_each (\<lambda>i. get_reg (8 + i) s = snap_a final ! i) ADiffers 8 r;
         r = check (pc_agrees c init final) PcDiffers r;
         r = check (sr_agrees sp c final) SrDiffers r;
         r = check (usp_agrees c final) UspDiffers r
     in check_each (\<lambda>i. s_ram s (0x1800 + i) = snap_ram final ! i) RamDiffers 64 r)"

definition run_test :: "'d tg68k_eval \<Rightarrow> spec \<Rightarrow> corpus_test \<Rightarrow> 'd sst \<Rightarrow> 'd sst \<times> reason option" where
  "run_test ev sp t s =
    (let sc = capture_loop ev (of_nat (move_ccr_addr sp)) 5000 (prepare ev sp (ct_initial t) s, capture_init)
     in (fst sc, judge sp (ct_initial t) (ct_final t) sc))"

section \<open>The run over a corpus\<close>

record tally =
  passed :: nat
  failed :: nat
  skipped :: nat

text \<open>One line: the empty ones are ignored, tests without bytes or unsafe ones skipped.\<close>

definition run_line :: "'d tg68k_eval \<Rightarrow> (string \<Rightarrow> corpus_test) \<Rightarrow> (string \<Rightarrow> spec option) \<Rightarrow> string \<Rightarrow>
    'd sst \<times> tally \<Rightarrow> 'd sst \<times> tally" where
  "run_line ev parse specs l st =
    (let (s, n) = st in
     if l = [] then (s, n)
     else
       (let t = parse l in
        case specs (ct_name t) of
          None \<Rightarrow> (s, n\<lparr>skipped := skipped n + 1\<rparr>)
        | Some sp \<Rightarrow>
            if hw_unsafe sp then (s, n\<lparr>skipped := skipped n + 1\<rparr>)
            else
              (let (s, r) = run_test ev sp t s
               in (s, if r = None then n\<lparr>passed := passed n + 1\<rparr> else n\<lparr>failed := failed n + 1\<rparr>))))"

text \<open>The program: \<open>None\<close> for a corpus that cannot be opened. The tally and the exit status.\<close>

definition sst_main :: "'d tg68k_eval \<Rightarrow> (string \<Rightarrow> string list option) \<Rightarrow> (string \<Rightarrow> corpus_test) \<Rightarrow>
    (string \<Rightarrow> spec option) \<Rightarrow> string list \<Rightarrow> 'd sst \<Rightarrow> tally option \<times> nat" where
  "sst_main ev corpus parse specs argv s =
    (let s = sst_start ev s in
     if argv \<noteq> [] \<and> hd argv = ''--probe-regs'' then (None, snd (probe_regs ev s))
     else case corpus (case argv of [] \<Rightarrow> ''../results/cpu/mame_baseline_2026-05-16.json'' | a # _ \<Rightarrow> a) of
       None \<Rightarrow> (None, 1)
     | Some ls \<Rightarrow>
         (let n = snd (fold (run_line ev parse specs) ls (s, \<lparr>passed = 0, failed = 0, skipped = 0\<rparr>))
          in (Some n, if failed n \<noteq> 0 then 1 else 0)))"


section \<open>Memory and registers\<close>

lemma even_mask: "(0x00FFFFFE :: u32) = push_bit 1 (mask 23)"
  by (simp add: mask_eq_exp_minus_1 push_bit_eq_mult)

lemma even_index_even: "even (even_index a)"
proof (rule ccontr)
  assume "odd (even_index a)"
  then have "bit (even_index a) 0" by (simp add: bit_0)
  then have "bit (a AND push_bit 1 (mask 23)) 0" by (simp only: even_index_def even_mask bit_unsigned_iff)
  then show False unfolding bit_and_iff bit_push_bit_iff by simp
qed

lemma even_index_odd: "even_index a \<noteq> Suc (even_index b)"
  using even_index_even even_Suc by metis

text \<open>A word of which only the strobed halves are replaced.\<close>

definition lanes :: "bool \<Rightarrow> bool \<Rightarrow> u16 \<Rightarrow> u16 \<Rightarrow> u16" where
  "lanes u l v old = push_bit 8 (drop_bit 8 (if u then v else old)) OR take_bit 8 (if l then v else old)"

lemma bit_byte: "bit (b :: u8) n \<Longrightarrow> n < 8"
  by (auto dest: bit_imp_le_length)

lemma lanes_full [simp]: "lanes True True v old = v"
  by (rule bit_word_eqI) (auto simp: lanes_def bit_simps)

lemma low_and: "ucast (v AND 0xFF) = (ucast v :: u8)" for v :: u16
proof -
  have m: "(0xFF :: u16) = mask 8" by (simp add: mask_eq_exp_minus_1)
  show ?thesis unfolding m by (rule bit_word_eqI) (auto simp: bit_simps)
qed

lemma lanes_join:
  "lanes u l v (join16 h k) = join16 (if u then ucast (drop_bit 8 v) else h) (if l then ucast (v AND 0xFF) else k)"
  unfolding low_and
  by (rule bit_word_eqI) (auto simp: lanes_def join16_def bit_simps dest: bit_byte)

lemma ram_read_write:
  "ram_read16 (ram_write16 a v u l r) b =
     (if even_index a = even_index b then lanes u l v (ram_read16 r b) else ram_read16 r b)"
  by (cases u; cases l)
    (auto simp: ram_read16_def ram_write16_def Let_def even_index_odd even_index_odd [symmetric] lanes_join
      simp del: lanes_full)

interpretation sst_ram: word_memory ram_read16 "\<lambda>a v. ram_write16 a v True True" "Some \<circ> even_index"
  by unfold_locales (simp add: ram_read_write)

lemma get_set_reg: "get_reg i (set_reg j v s) = (if i = j then v else get_reg i s)"
proof -
  have m: "(0xFF :: u32) = mask 8" "(0xFFFFFF :: u32) = mask 24" by (simp_all add: mask_eq_exp_minus_1)
  have "push_bit 8 (drop_bit 8 v AND mask 24) OR ucast (ucast (v AND mask 8) :: u8) = v"
    by (rule bit_word_eqI) (auto simp: bit_simps)
  then show ?thesis by (auto simp: get_reg_def set_reg_def m)
qed


section \<open>Samples\<close>

text \<open>A test, a snapshot, a processor that never leaves the idle state, and a bench in front of it.\<close>

definition moveq :: spec where
  "moveq = \<lparr>test = [0x70, 0x01], hw_unsafe = False, ccr_mask = 0xFF\<rparr>"

definition snap0 :: snapshot where
  "snap0 = \<lparr>snap_d = [9, 8, 7, 6, 5, 4, 3, 2], snap_a = [1, 2, 3, 4, 5, 6, 7, 0x2000], snap_ccr = 0x1F,
     snap_ram = replicate 64 0xA5, snap_pc = None, snap_sr = None, snap_usp = None\<rparr>"

definition idle_outs :: souts where
  "idle_outs = \<lparr>busstate = 1, addr_out = 0, data_write = 0, nUDS = True, nLDS = True, pc_out = 0, sr_out = 0, usp_out = 0\<rparr>"

definition idle_cpu :: "nat tg68k_eval" where
  "idle_cpu p c = (idle_outs, c)"

definition sst0 :: "nat sst" where
  "sst0 = \<lparr>s_pins = \<lparr>p_reset = False, clkena_in = True, p_clk = False, data_in = 0\<rparr>, s_outs = idle_outs,
     s_cpu = \<lparr>regfile_n1 = \<lambda>_. 0, regfile_n2 = \<lambda>_. 0, inner = 0\<rparr>, s_ram = \<lambda>_. 0, s_time = 0\<rparr>"

section \<open>The planted program\<close>

lemma poke_at: "poke i bs r j = (if i \<le> j \<and> j < i + length bs then bs ! (j - i) else r j)"
proof (induction bs arbitrary: i r)
  case (Cons b bs)
  then show ?case
    by (cases "j = i") (auto simp: Suc_le_eq nth_Cons' Suc_diff_Suc)
qed auto

lemma poke_outside: "j < i \<or> i + length bs \<le> j \<Longrightarrow> poke i bs r j = r j"
  by (auto simp: poke_at)

lemma length_long_bytes [simp]: "length (long_bytes v) = 4"
  by (simp add: long_bytes_def)

lemma poke_vector:
  "poke (v * 4) (long_bytes a) r j = (if v * 4 \<le> j \<and> j < v * 4 + 4 then long_bytes a ! (j mod 4) else r j)"
proof -
  have "j - v * 4 = j mod 4" if "v * 4 \<le> j" "j < v * 4 + 4"
  proof -
    from that(1) obtain k where k: "j = v * 4 + k" by (auto simp: le_iff_add)
    with that(2) have "k mod 4 = k" by simp
    then show ?thesis unfolding k by simp
  qed
  then show ?thesis by (simp add: poke_at)
qed

lemma plant_vectors_upto:
  "fold (\<lambda>v. poke (v * 4) (long_bytes a)) [2..<n] r j =
     (if 8 \<le> j \<and> j < n * 4 then long_bytes a ! (j mod 4) else r j)"
proof (induction n)
  case (Suc n)
  show ?case
  proof (cases "2 \<le> n")
    case True
    then have "fold (\<lambda>v. poke (v * 4) (long_bytes a)) [2..<Suc n] r j =
      poke (n * 4) (long_bytes a) (fold (\<lambda>v. poke (v * 4) (long_bytes a)) [2..<n] r) j" by simp
    also have "\<dots> = (if 8 \<le> j \<and> j < Suc n * 4 then long_bytes a ! (j mod 4) else r j)"
      unfolding poke_vector Suc using True by auto
    finally show ?thesis .
  next
    case False
    then have "n = 0 \<or> n = 1" by auto
    then show ?thesis by auto
  qed
qed simp

lemma plant_vectors_at:
  "plant_vectors a r j = (if 8 \<le> j \<and> j < 1024 then long_bytes a ! (j mod 4) else r j)"
  unfolding plant_vectors_def plant_vectors_upto by simp

lemma map_poke: "i \<le> a \<Longrightarrow> b \<le> i + length bs \<Longrightarrow> map (poke i bs r) [a..<b] = take (b - a) (drop (a - i) bs)"
  by (rule nth_equalityI) (auto simp: poke_at)

lemma map_poke_outside: "b \<le> i \<or> i + length bs \<le> a \<Longrightarrow> map (poke i bs r) [a..<b] = map r [a..<b]"
  by (auto simp: poke_at)

lemma map_plant_vectors: "b \<le> 8 \<or> 1024 \<le> a \<Longrightarrow> map (plant_vectors v r) [a..<b] = map r [a..<b]"
  by (auto simp: plant_vectors_at)


text \<open>Reading a test's memory, part by part.\<close>

definition planted :: "spec \<Rightarrow> snapshot \<Rightarrow> nat \<Rightarrow> u8" where
  "planted sp init j =
    (let e = move_ccr_addr sp in
     if j < 4 then long_bytes (snap_a init ! 7) ! j
     else if j < 8 then [0, 0, 0x10, 0] ! (j - 4)
     else if j < 1024 then long_bytes (of_nat e) ! (j mod 4)
     else if j < 0x1000 then 0
     else if j < 0x1004 then [0x44, 0xFC, 0, snap_ccr init] ! (j - 0x1000)
     else if j < e then test sp ! (j - 0x1004)
     else if j < e + 6 then [0x42, 0xF9, 0, 0, 0x19, 0] ! (j - e)
     else if j < e + 10 then [0x4E, 0x72, 0x27, 0] ! (j - (e + 6))
     else if 0x1800 \<le> j \<and> j < 0x1840 then snap_ram init ! (j - 0x1800)
     else 0)"

lemma plant_at:
  assumes "length (test sp) \<le> 18"
  shows "plant sp init j = planted sp init j"
proof -
  define xs where "xs = map ((!) (snap_ram init)) [0..<64]"
  have xs: "length xs = 64" by (simp add: xs_def)
  have nth: "xs ! (j - 0x1800) = snap_ram init ! (j - 0x1800)" if "j < 0x1840"
    unfolding xs_def by (subst nth_map) (use that in simp_all)
  have "move_ccr_addr sp \<le> 0x1016" "move_ccr_addr sp = 0x1004 + length (test sp)"
    using assms by (simp_all add: move_ccr_addr_def)
  then show ?thesis
    unfolding plant_def planted_def Let_def poke_at plant_vectors_at length_long_bytes xs_def [symmetric] xs
    by (simp add: nth)
qed

lemma map_shift: "(\<And>k. k < length xs \<Longrightarrow> f (a + k) = xs ! k) \<Longrightarrow> b = a + length xs \<Longrightarrow> map f [a..<b] = xs"
  by (rule nth_equalityI) auto

lemma map_upt_append:
  "map f [a..<a + length xs] = xs \<Longrightarrow> map f [a + length xs..<b] = ys \<Longrightarrow> a + length xs \<le> b \<Longrightarrow>
    map f [a..<b] = xs @ ys"
  using upt_append [of a "a + length xs" b] by simp

text \<open>C18: a test's memory is exactly the reset vectors with the test's stack pointer and start address
  0x1000, every other vector at the dump, the program (MOVE CCR, the test's bytes, the dump of CCR to
  0x1900, STOP) in one piece, the scratch bytes at 0x1800 and zeros; the parts do not overlap.
\<close>

theorem planted_image:
  assumes "length (test sp) \<le> 18" "length (snap_ram init) = 64"
  shows "map (plant sp init) [0..<8] = long_bytes (snap_a init ! 7) @ [0, 0, 0x10, 0] \<and>
    (\<forall>v\<in>{2..<256}. map (plant sp init) [v * 4..<v * 4 + 4] = long_bytes (of_nat (move_ccr_addr sp))) \<and>
    map (plant sp init) [0x1000..<move_ccr_addr sp + 10] =
      [0x44, 0xFC, 0, snap_ccr init] @ test sp @ [0x42, 0xF9, 0, 0, 0x19, 0] @ [0x4E, 0x72, 0x27, 0] \<and>
    map (plant sp init) [0x1800..<0x1840] = snap_ram init \<and>
    (\<forall>j. 1024 \<le> j \<and> j < 0x1000 \<or> move_ccr_addr sp + 10 \<le> j \<and> j < 0x1800 \<or> 0x1840 \<le> j \<longrightarrow> plant sp init j = 0)"
proof -
  have p: "plant sp init = planted sp init" using plant_at [OF assms(1)] by blast
  have e: "move_ccr_addr sp = 0x1004 + length (test sp)" by (simp add: move_ccr_addr_def)
  have vec: "map (planted sp init) [v * 4..<v * 4 + 4] = long_bytes (of_nat (move_ccr_addr sp))"
    if "2 \<le> v" "v < 256" for v
    by (rule map_shift) (use that in \<open>auto simp: planted_def Let_def\<close>)
  have reset: "map (planted sp init) [0..<8] = long_bytes (snap_a init ! 7) @ [0, 0, 0x10, 0]"
    by (rule map_shift) (auto simp: planted_def nth_append)
  have prog: "map (planted sp init) [0x1000..<move_ccr_addr sp + 10] =
      [0x44, 0xFC, 0, snap_ccr init] @ test sp @ [0x42, 0xF9, 0, 0, 0x19, 0] @ [0x4E, 0x72, 0x27, 0]"
    by (intro map_upt_append; (rule map_shift)?) (auto simp: planted_def e Let_def)
  have scratch: "map (planted sp init) [0x1800..<0x1840] = snap_ram init"
    by (rule map_shift) (use assms in \<open>auto simp: planted_def e Let_def\<close>)
  have rest: "planted sp init j = 0"
    if "1024 \<le> j \<and> j < 0x1000 \<or> move_ccr_addr sp + 10 \<le> j \<and> j < 0x1800 \<or> 0x1840 \<le> j" for j
    using that assms(1) by (auto simp: planted_def e Let_def)
  show ?thesis unfolding p using vec reset prog scratch rest by (intro conjI) auto
qed

lemma planted_image_witness:
  "map (plant moveq snap0) [0x1000..<move_ccr_addr moveq + 10] =
     [0x44, 0xFC, 0, 0x1F, 0x70, 0x01, 0x42, 0xF9, 0, 0, 0x19, 0, 0x4E, 0x72, 0x27, 0]"
  using planted_image [of moveq snap0] by (simp add: moveq_def snap0_def)


section \<open>Injection\<close>

lemma get_reg_ram [simp]: "get_reg i (s\<lparr>s_ram := r\<rparr>) = get_reg i s"
  by (simp add: get_reg_def)

lemma inject_upto:
  "n \<le> 8 \<Longrightarrow> i < 16 \<Longrightarrow>
   get_reg i (fold (\<lambda>r s. set_reg (8 + r) (snap_a init ! r) (set_reg r (snap_d init ! r) s)) [0..<n] s) =
     (if i < n then snap_d init ! i else if 8 \<le> i \<and> i < 8 + n then snap_a init ! (i - 8) else get_reg i s)"
  by (induction n) (auto simp: get_set_reg less_Suc_eq)

lemma set_reg_frame [simp]: "s_ram (set_reg i v s) = s_ram s" "s_outs (set_reg i v s) = s_outs s"
  by (simp_all add: set_reg_def)

lemma fold_frame: "(\<And>x s. f (g x s) = f s) \<Longrightarrow> f (fold g xs s) = f s"
  by (induction xs arbitrary: s) auto

lemma inject_ram: "s_ram (inject init s) = s_ram s"
  unfolding inject_def by (rule fold_frame) simp

lemma inject_reg:
  "i < 8 \<Longrightarrow> get_reg i (inject init s) = snap_d init ! i"
  "i < 8 \<Longrightarrow> get_reg (8 + i) (inject init s) = snap_a init ! i"
  unfolding inject_def using inject_upto [of 8 i init s] inject_upto [of 8 "8 + i" init s] by simp_all

text \<open>Whatever the processor, and whatever the previous test left in it, a prepared test starts from
  its own data and address registers, after a reset of 32 ticks over its own memory image.
\<close>

theorem prepare_loads:
  assumes "i < 8"
  shows "get_reg i (prepare ev sp init s) = snap_d init ! i \<and>
    get_reg (8 + i) (prepare ev sp init s) = snap_a init ! i \<and>
    s_ram (prepare ev sp init s) = s_ram (cpu_ticks ev 32 (s\<lparr>s_ram := plant sp init, s_pins := (s_pins s)\<lparr>p_reset := True\<rparr>\<rparr>))"
  using assms by (simp add: prepare_def inject_ram pulse_reset_def Let_def inject_reg)

lemma prepare_loads_witness:
  "get_reg 3 (prepare idle_cpu moveq snap0 sst0) = 6 \<and> get_reg 15 (prepare idle_cpu moveq snap0 sst0) = 0x2000"
  using prepare_loads [of 3 idle_cpu moveq snap0 sst0] prepare_loads [of 7 idle_cpu moveq snap0 sst0]
  by (simp add: snap0_def)

section \<open>The capture, by cycles\<close>

lemma cpu_ticks_0 [simp]: "cpu_ticks ev 0 s = s"
  by (simp add: cpu_ticks_def)

lemma cpu_ticks_Suc: "cpu_ticks ev (Suc n) s = cpu_ticks ev n (cpu_tick ev True s)"
  by (simp add: cpu_ticks_def funpow_Suc_right del: funpow.simps)

lemma cpu_ticks_add: "cpu_ticks ev (m + n) s = cpu_ticks ev n (cpu_ticks ev m s)"
  by (simp add: cpu_ticks_def add.commute [of m] funpow_add)

text \<open>The outputs after the tick of cycle \<open>k\<close>, counted from 0 as the loop counts.\<close>

definition cycle :: "'d tg68k_eval \<Rightarrow> 'd sst \<Rightarrow> nat \<Rightarrow> souts" where
  "cycle ev s k = s_outs (cpu_ticks ev (Suc k) s)"

lemma cycle_Suc: "cycle ev s (Suc k) = cycle ev (cpu_tick ev True s) k"
  by (simp add: cycle_def cpu_ticks_Suc)

lemma cycle_0: "cycle ev s 0 = s_outs (cpu_tick ev True s)"
  by (simp add: cycle_def cpu_ticks_Suc)

fun noted :: "'d tg68k_eval \<Rightarrow> u32 \<Rightarrow> 'd sst \<Rightarrow> nat \<Rightarrow> capture \<Rightarrow> capture" where
  "noted ev addr s 0 c = c"
| "noted ev addr s (Suc n) c = noted ev addr (cpu_tick ev True s) n (note_done addr (cycle ev s 0) c)"

lemma note_done_frame [simp]:
  "saw_ccr_write (note_done addr q c) = saw_ccr_write c"
  "got_sr (note_done addr q c) = got_sr c" "got_usp (note_done addr q c) = got_usp c"
  by (simp_all add: note_done_def)

lemma noted_frame [simp]: "saw_ccr_write (noted ev addr s n c) = saw_ccr_write c"
  by (induction n arbitrary: s c) auto

lemma note_done_seen: "saw_test_done c \<Longrightarrow> note_done addr q c = c"
  by (simp add: note_done_def)

lemma noted_seen: "saw_test_done c \<Longrightarrow> noted ev addr s n c = c"
  by (induction n arbitrary: s c) (auto simp: note_done_seen)

lemma note_done_new:
  "\<not> saw_test_done c \<Longrightarrow> note_done addr q c = (if sees_done addr q then c\<lparr>saw_test_done := True, got_pc := pc_out q\<rparr> else c)"
  by (simp add: note_done_def)

lemma noted_none: "\<forall>j<n. \<not> sees_done addr (cycle ev s j) \<Longrightarrow> noted ev addr s n c = c"
proof (induction n arbitrary: s)
  case (Suc n)
  then have "\<not> sees_done addr (cycle ev s 0)" by simp
  moreover have "\<forall>j<n. \<not> sees_done addr (cycle ev (cpu_tick ev True s) j)"
    using Suc.prems by (auto simp flip: cycle_Suc)
  ultimately show ?case using Suc.IH by (simp add: note_done_def)
qed simp

lemma noted_first:
  assumes "j < n" "sees_done addr (cycle ev s j)" "\<forall>i<j. \<not> sees_done addr (cycle ev s i)" "\<not> saw_test_done c"
  shows "noted ev addr s n c = c\<lparr>saw_test_done := True, got_pc := pc_out (cycle ev s j)\<rparr>"
  using assms
proof (induction n arbitrary: s j)
  case (Suc n)
  show ?case
  proof (cases j)
    case 0
    with Suc.prems show ?thesis by (simp add: note_done_new noted_seen)
  next
    case (Suc i)
    then have "\<not> sees_done addr (cycle ev s 0)" using Suc.prems(3) by auto
    moreover have "noted ev addr (cpu_tick ev True s) n c =
        c\<lparr>saw_test_done := True, got_pc := pc_out (cycle ev (cpu_tick ev True s) i)\<rparr>"
      using Suc.prems by (intro Suc.IH) (auto simp: \<open>j = Suc i\<close> simp flip: cycle_Suc)
    ultimately show ?thesis by (simp add: note_done_def \<open>j = Suc i\<close> cycle_Suc)
  qed
qed simp

lemma capture_idle: "saw_ccr_write c \<Longrightarrow> capture_loop ev addr n (s, c) = (s, c)"
  by (cases n) auto

lemma capture_none:
  "\<forall>k<n. \<not> sees_dump (cycle ev s k) \<Longrightarrow> \<not> saw_ccr_write c \<Longrightarrow>
    capture_loop ev addr n (s, c) = (cpu_ticks ev n s, noted ev addr s n c)"
proof (induction n arbitrary: s c)
  case (Suc n)
  then have "\<not> sees_dump (cycle ev s 0)" by simp
  moreover have "\<forall>k<n. \<not> sees_dump (cycle ev (cpu_tick ev True s) k)"
    using Suc.prems by (auto simp flip: cycle_Suc)
  ultimately show ?case using Suc.IH Suc.prems(2) by (simp add: Let_def cycle_0 cpu_ticks_Suc)
qed simp

text \<open>The capture record once the dump is seen at cycle \<open>k\<close>.\<close>

definition dumped :: "souts \<Rightarrow> capture \<Rightarrow> capture" where
  "dumped q c = c\<lparr>saw_ccr_write := True, got_sr := sr_out q, got_usp := usp_out q\<rparr>"

lemma capture_at:
  "k < n \<Longrightarrow> \<forall>j<k. \<not> sees_dump (cycle ev s j) \<Longrightarrow> sees_dump (cycle ev s k) \<Longrightarrow> \<not> saw_ccr_write c \<Longrightarrow>
    capture_loop ev addr n (s, c) = (cpu_ticks ev 16 (cpu_ticks ev (Suc k) s), dumped (cycle ev s k) (noted ev addr s (Suc k) c))"
proof (induction n arbitrary: s c k)
  case (Suc n)
  show ?case
  proof (cases k)
    case 0
    with Suc.prems show ?thesis by (simp add: Let_def cycle_0 capture_idle dumped_def cpu_ticks_Suc)
  next
    case (Suc i)
    then have "\<not> sees_dump (cycle ev s 0)" using Suc.prems(2) by auto
    moreover have "capture_loop ev addr n (cpu_tick ev True s, note_done addr (cycle ev s 0) c) =
        (cpu_ticks ev 16 (cpu_ticks ev (Suc i) (cpu_tick ev True s)),
         dumped (cycle ev (cpu_tick ev True s) i) (noted ev addr (cpu_tick ev True s) (Suc i) (note_done addr (cycle ev s 0) c)))"
      using Suc.prems by (intro Suc.IH) (auto simp: \<open>k = Suc i\<close> simp flip: cycle_Suc)
    ultimately show ?thesis using Suc.prems(4)
      by (simp add: Let_def \<open>k = Suc i\<close> cycle_Suc cpu_ticks_Suc flip: cycle_0)
  qed
qed simp


text \<open>C10: if the dump is first seen in cycle \<open>k\<close> (of 5000), the status and the user stack pointer are those
  of that cycle, the program counter is the one of the first fetch at the dump's address up to then,
  if any, and the processor is run for exactly 16 ticks more.
\<close>

theorem capture_at_dump:
  assumes "k < 5000" "sees_dump (cycle ev s k)" "\<forall>j<k. \<not> sees_dump (cycle ev s j)"
  shows "case capture_loop ev addr 5000 (s, capture_init) of (s', c) \<Rightarrow>
    s' = cpu_ticks ev (k + 17) s \<and> saw_ccr_write c \<and>
    got_sr c = sr_out (cycle ev s k) \<and> got_usp c = usp_out (cycle ev s k) \<and>
    (saw_test_done c \<longleftrightarrow> (\<exists>j\<le>k. sees_done addr (cycle ev s j))) \<and>
    (\<forall>j\<le>k. sees_done addr (cycle ev s j) \<and> (\<forall>i<j. \<not> sees_done addr (cycle ev s i)) \<longrightarrow>
       got_pc c = pc_out (cycle ev s j))"
proof -
  let ?c = "noted ev addr s (Suc k) capture_init"
  have l: "capture_loop ev addr 5000 (s, capture_init) = (cpu_ticks ev (k + 17) s, dumped (cycle ev s k) ?c)"
    using capture_at [OF assms(1,3,2), of capture_init addr]
    by (simp add: capture_init_def add.commute [of k] del: noted.simps flip: cpu_ticks_add)
  have first: "?c = capture_init\<lparr>saw_test_done := True, got_pc := pc_out (cycle ev s j)\<rparr>"
    if "j \<le> k" "sees_done addr (cycle ev s j)" "\<forall>i<j. \<not> sees_done addr (cycle ev s i)" for j
    using that by (intro noted_first) (auto simp: capture_init_def)
  have "saw_test_done ?c \<longleftrightarrow> (\<exists>j\<le>k. sees_done addr (cycle ev s j))"
  proof (cases "\<exists>j\<le>k. sees_done addr (cycle ev s j)")
    case True
    define j where "j = (LEAST j. sees_done addr (cycle ev s j))"
    from True obtain m where m: "m \<le> k" "sees_done addr (cycle ev s m)" by blast
    have "j \<le> k" using m Least_le [of "\<lambda>j. sees_done addr (cycle ev s j)" m] by (simp add: j_def)
    moreover have "sees_done addr (cycle ev s j)" using m(2) unfolding j_def by (rule LeastI)
    moreover have "\<forall>i<j. \<not> sees_done addr (cycle ev s i)" unfolding j_def using not_less_Least by blast
    ultimately have "saw_test_done ?c" by (subst first) auto
    with True show ?thesis by blast
  next
    case False
    then have "?c = capture_init" by (intro noted_none) (auto simp: less_Suc_eq_le)
    then have "\<not> saw_test_done ?c" by (simp only:) (simp add: capture_init_def)
    with False show ?thesis by blast
  qed
  moreover have "got_pc ?c = pc_out (cycle ev s j)"
    if "j \<le> k" "sees_done addr (cycle ev s j)" "\<forall>i<j. \<not> sees_done addr (cycle ev s i)" for j
    by (simp only: first [OF that]) simp
  ultimately show ?thesis unfolding l by (simp del: noted.simps add: dumped_def)
qed

lemma sees_frame [simp]: "s_outs (service_bus s) = s_outs s" "s_cpu (service_bus s) = s_cpu s"
  by (simp_all add: service_bus_def Let_def)

text \<open>A processor that fetches at the dump's address in its first cycle and writes the dump ever after.\<close>

definition quick_cpu :: "nat tg68k_eval" where
  "quick_cpu p c =
    (\<lparr>busstate = if inner c < 2 then 0 else 3, addr_out = if inner c < 2 then 0x1006 else 0x1900, data_write = 0,
       nUDS = False, nLDS = False, pc_out = 0x1008, sr_out = 0x2704, usp_out = 0\<rparr>, c\<lparr>inner := inner c + 1\<rparr>)"

lemma quick_cycles:
  assumes "inner (s_cpu s) = 0"
  shows "sees_dump (cycle quick_cpu s 1)" "\<not> sees_dump (cycle quick_cpu s 0)"
    "sees_done 0x1006 (cycle quick_cpu s 0)" "sr_out (cycle quick_cpu s 1) = 0x2704"
  using assms
  by (simp_all add: cycle_Suc cycle_0 cpu_tick_def cpu_eval_def quick_cpu_def Let_def sees_dump_def sees_done_def)

lemma capture_at_dump_witness:
  "case capture_loop quick_cpu 0x1006 5000 (sst0, capture_init) of (s', c) \<Rightarrow>
     saw_ccr_write c \<and> got_sr c = 0x2704 \<and> saw_test_done c"
proof -
  have i: "inner (s_cpu sst0) = 0" by (simp add: sst0_def)
  note q = quick_cycles [OF i]
  have "\<exists>j\<le>1. sees_done 0x1006 (cycle quick_cpu sst0 j)" using q(3) by blast
  with capture_at_dump [of 1 quick_cpu sst0 "0x1006"] q show ?thesis
    by (auto split: prod.splits)
qed

section \<open>The verdict\<close>

lemma check_None [simp]: "check ok why r = None \<longleftrightarrow> r = None \<and> ok"
  by (simp add: check_def split: option.splits)

lemma check_Some [simp]: "check ok why (Some w) = Some w"
  by (simp add: check_def)

lemma check_each_None [simp]: "check_each ok why n r = None \<longleftrightarrow> r = None \<and> (\<forall>i<n. ok i)"
  unfolding check_each_def by (induction n) (auto simp: less_Suc_eq)

lemma check_each_Some [simp]: "check_each ok why n (Some w) = Some w"
  unfolding check_each_def by (induction n) auto

text \<open>C26: a test whose dump is not seen in 5000 cycles ends after exactly 5000 ticks and fails by time-out,
  whatever the registers and the memory hold: the loop always ends.
\<close>

theorem no_dump_times_out:
  assumes "\<forall>k<5000. \<not> sees_dump (cycle ev (prepare ev sp (ct_initial t) s) k)"
  shows "run_test ev sp t s = (cpu_ticks ev 5000 (prepare ev sp (ct_initial t) s), Some TimeOut)"
proof -
  have w: "\<not> saw_ccr_write capture_init" by (simp add: capture_init_def)
  show ?thesis
    unfolding run_test_def capture_none [OF assms w] Let_def
    using w by (simp add: judge_def check_def [of False])
qed

lemma idle_cycles: "cycle idle_cpu s k = idle_outs"
  by (induction k arbitrary: s) (simp_all add: cycle_0 cycle_Suc cpu_tick_def cpu_eval_def idle_cpu_def Let_def)

lemma no_dump_times_out_witness:
  "snd (run_test idle_cpu moveq \<lparr>ct_name = ''MOVEQ'', ct_initial = snap0, ct_final = snap0\<rparr> sst0) = Some TimeOut"
  by (simp add: no_dump_times_out idle_cycles sees_dump_def idle_outs_def)

lemma bit_sr_mask: "bit (sr_mask sp) n \<longleftrightarrow> n < 16 \<and> n \<notin> {8, 9, 10} \<and> (n < 5 \<longrightarrow> bit (ccr_mask sp) n)"
proof -
  have m: "(0x0700 :: u16) = push_bit 8 (mask 3)" "(0x1F :: u8) = mask 5" "(0xFFE0 :: u16) = NOT (mask 5)"
    by (simp_all add: mask_eq_exp_minus_1 push_bit_eq_mult not_eq_complement)
  have ipl: "n \<in> {8, 9, 10} \<longleftrightarrow> 8 \<le> n \<and> n - 8 < 3" by auto
  show ?thesis
    unfolding sr_mask_def m by (auto simp: bit_simps ipl [symmetric])
qed

lemma masked_eq_iff: "x AND m = y AND m \<longleftrightarrow> (\<forall>n. bit m n \<longrightarrow> bit x n = bit y n)" for x :: "'a::len word"
proof -
  have "u = v \<longleftrightarrow> (\<forall>n. bit u n = bit v n)" for u v :: "'a word"
    by (auto intro: bit_word_eqI)
  from this [of "x AND m" "y AND m"] show ?thesis by (auto simp: bit_and_iff)
qed

text \<open>C9: a test passes just when the dump was seen and every compared bit agrees: the flags under the
  test's mask, the 16 registers, the 64 scratch bytes, the status bits except the interrupt level and
  the masked flags (where the corpus has a status), and, where the fetch of the dump was seen, the
  user stack pointer and the distance the program counter moved.
\<close>

theorem judge_passes:
  "judge sp init final (s, c) = None \<longleftrightarrow>
    saw_ccr_write c \<and>
    (\<forall>n. bit (ccr_mask sp) n \<longrightarrow> bit (s_ram s 0x1901) n = bit (snap_ccr final) n) \<and>
    (\<forall>i<8. get_reg i s = snap_d final ! i \<and> get_reg (8 + i) s = snap_a final ! i) \<and>
    (\<forall>i<64. s_ram s (0x1800 + i) = snap_ram final ! i) \<and>
    (\<forall>f. snap_sr final = Some f \<longrightarrow>
      (\<forall>n. n < 16 \<and> n \<notin> {8, 9, 10} \<and> (n < 5 \<longrightarrow> bit (ccr_mask sp) n) \<longrightarrow> bit (got_sr c) n = bit f n)) \<and>
    (saw_test_done c \<longrightarrow>
      (\<forall>f. snap_usp final = Some f \<longrightarrow> got_usp c = f) \<and>
      (\<forall>f i. snap_pc final = Some f \<and> snap_pc init = Some i \<longrightarrow> got_pc c - 0x1004 = f - i))"
proof -
  have "sr_agrees sp c final \<longleftrightarrow> (\<forall>f. snap_sr final = Some f \<longrightarrow>
      (\<forall>n. n < 16 \<and> n \<notin> {8, 9, 10} \<and> (n < 5 \<longrightarrow> bit (ccr_mask sp) n) \<longrightarrow> bit (got_sr c) n = bit f n))"
    by (auto simp: sr_agrees_def masked_eq_iff bit_sr_mask split: option.splits)
  moreover have "usp_agrees c final \<longleftrightarrow> (saw_test_done c \<longrightarrow> (\<forall>f. snap_usp final = Some f \<longrightarrow> got_usp c = f))"
    by (auto simp: usp_agrees_def split: option.splits bool.splits)
  moreover have "pc_agrees c init final \<longleftrightarrow> (saw_test_done c \<longrightarrow>
      (\<forall>f i. snap_pc final = Some f \<and> snap_pc init = Some i \<longrightarrow> got_pc c - 0x1004 = f - i))"
    by (auto simp: pc_agrees_def algebra_simps split: option.splits bool.splits)
  ultimately show ?thesis
    unfolding judge_def Let_def by (auto simp: masked_eq_iff)
qed

text \<open>The sample test, its dump in memory and its registers as the corpus has them.\<close>

definition done0 :: "nat sst" where
  "done0 = inject snap0 (sst0\<lparr>s_ram := (plant moveq snap0)(0x1901 := 0x1F)\<rparr>)"

lemma judge_passes_witness:
  "judge moveq snap0 snap0 (done0, \<lparr>saw_test_done = True, saw_ccr_write = True, got_pc = 0, got_usp = 0, got_sr = 0\<rparr>) = None"
proof -
  have ram: "s_ram done0 = (planted moveq snap0)(0x1901 := 0x1F)"
    using plant_at [of moveq snap0] by (auto simp: done0_def inject_ram moveq_def)
  have "s_ram done0 (0x1800 + i) = snap_ram snap0 ! i" if "i < 64" for i
    using that unfolding ram by (simp add: planted_def move_ccr_addr_def moveq_def)
  moreover have "s_ram done0 0x1901 = snap_ccr snap0" unfolding ram by (simp add: snap0_def)
  ultimately show ?thesis
    unfolding judge_passes by (simp add: done0_def inject_reg) (simp add: snap0_def)
qed

section \<open>The run\<close>

definition tests :: "tally \<Rightarrow> nat" where
  "tests n = passed n + failed n + skipped n"

lemma run_line_counts: "tests (snd (run_line ev parse specs l (s, n))) = tests n + (if l = [] then 0 else 1)"
  by (auto simp: run_line_def tests_def Let_def split: option.splits prod.splits)

lemma run_lines_count:
  "tests (snd (fold (run_line ev parse specs) ls st)) = tests (snd st) + length (filter (\<lambda>l. l \<noteq> []) ls)"
proof (induction ls arbitrary: st)
  case (Cons l ls)
  then show ?case using run_line_counts [of ev parse specs l "fst st" "snd st"] by simp
qed simp

text \<open>A corpus run accounts for every non-empty line once, as passed, failed or skipped, and exits with
  status 0 just when the corpus could be opened and no test failed.
\<close>

theorem sst_main_verdict:
  assumes "argv \<noteq> [] \<longrightarrow> hd argv \<noteq> ''--probe-regs''"
  shows "case sst_main ev corpus parse specs argv s of
      (None, r) \<Rightarrow> r = 1 \<and> corpus (case argv of [] \<Rightarrow> ''../results/cpu/mame_baseline_2026-05-16.json'' | a # _ \<Rightarrow> a) = None
    | (Some n, r) \<Rightarrow> (r = 0 \<longleftrightarrow> failed n = 0) \<and>
        (\<exists>ls. corpus (case argv of [] \<Rightarrow> ''../results/cpu/mame_baseline_2026-05-16.json'' | a # _ \<Rightarrow> a) = Some ls \<and>
          passed n + failed n + skipped n = length (filter (\<lambda>l. l \<noteq> []) ls))"
  using assms run_lines_count [of ev parse specs _ "(sst_start ev s, \<lparr>passed = 0, failed = 0, skipped = 0\<rparr>)"]
  by (auto simp: sst_main_def Let_def tests_def split: option.splits)

lemma sst_main_verdict_witness:
  "case sst_main idle_cpu (\<lambda>_. Some [''a'', '''', ''b'']) (\<lambda>l. \<lparr>ct_name = l, ct_initial = snap0, ct_final = snap0\<rparr>)
      (\<lambda>_. Some moveq) [''corpus''] sst0 of
     (None, r) \<Rightarrow> False | (Some n, r) \<Rightarrow> passed n + failed n + skipped n = 2"
  using sst_main_verdict [where argv = "[''corpus'']" and ev = idle_cpu and corpus = "\<lambda>_. Some [''a'', '''', ''b'']" and
      parse = "\<lambda>l. \<lparr>ct_name = l, ct_initial = snap0, ct_final = snap0\<rparr>" and specs = "\<lambda>_. Some moveq" and s = sst0]
  by (auto split: prod.splits option.splits)

text \<open>A fetch or read that follows a write gets the written word on the strobed byte lanes and the old
  bytes on the others, when the addresses agree in bits 1 to 23; every other word is unchanged.
\<close>

theorem bus_roundtrip:
  assumes "busstate w = 3" "busstate r = 0 \<or> busstate r = 2"
  shows "data_in (s_pins (service_bus ((service_bus (s\<lparr>s_outs := w\<rparr>))\<lparr>s_outs := r\<rparr>))) =
    (let old = ram_read16 (s_ram s) (addr_out r) in
     if even_index (addr_out w) = even_index (addr_out r)
     then lanes (\<not> nUDS w) (\<not> nLDS w) (data_write w) old else old)"
  using assms by (auto simp: service_bus_def Let_def ram_read_write)

lemma bus_roundtrip_witness:
  "data_in (s_pins (service_bus ((service_bus (sst0\<lparr>s_outs := idle_outs\<lparr>busstate := 3, addr_out := 0xFF001901,
       data_write := 0x1234, nUDS := False, nLDS := False\<rparr>\<rparr>))\<lparr>s_outs := idle_outs\<lparr>busstate := 2, addr_out := 0x1900\<rparr>\<rparr>))) = 0x1234"
  by (subst bus_roundtrip) (simp_all add: even_index_def)

end
