(* ===== verification/CoproBench.thy ===== *)
theory CoproBench
  imports SstBench Cmdline FlineDasm
begin

text \<open>
  The two benches of the 68881 coprocessor: the bus driver of the coprocessor alone
  (\<open>src/SingleStepTests/fpu/sim_main.cpp\<close>), and the bench that runs programs on the processor and
  the coprocessor together (\<open>src/SingleStepTests/cpu_fpu/sim_main.cpp\<close>): its memory, clock phases,
  smoke test, corpus runner, the two traces and the command line. The generated circuits are
  arguments \<open>ev\<close>; the JSON library and the files are the argument that gives the parsed tests of a
  corpus. \<open>ram_read16\<close>, \<open>ram_write16\<close> and the split register file are the same code as in the
  single-step bench.
\<close>

section \<open>The coprocessor alone\<close>

record cir_pins =
  c_clk :: bool
  c_reset :: bool
  a_in :: u8
  d_in :: u32
  size_n :: u8
  rw :: bool
  cs_n :: bool
  as_in :: bool
  ds_n :: bool

record cir_outs =
  dsack0_n :: bool
  dsack1_n :: bool
  d_out :: u32
  status_valid :: bool

type_synonym 'd cir_eval = "cir_pins \<Rightarrow> 'd \<Rightarrow> cir_outs \<times> 'd"

record 'd cir_bench =
  c_pins :: cir_pins
  c_outs :: cir_outs
  c_state :: 'd
  c_time :: nat

definition cir_clock :: "'d cir_eval \<Rightarrow> bool \<Rightarrow> 'd cir_bench \<Rightarrow> 'd cir_bench" where
  "cir_clock ev v s =
    (let p = (c_pins s)\<lparr>c_clk := v\<rparr>; (q, d) = ev p (c_state s)
     in s\<lparr>c_pins := p, c_outs := q, c_state := d, c_time := c_time s + 1\<rparr>)"

definition cir_tick :: "'d cir_eval \<Rightarrow> 'd cir_bench \<Rightarrow> 'd cir_bench" where
  "cir_tick ev s = cir_clock ev True (cir_clock ev False s)"

definition no_ack :: "'d cir_bench \<Rightarrow> bool" where
  "no_ack s \<longleftrightarrow> dsack0_n (c_outs s) \<and> dsack1_n (c_outs s)"

text \<open>\<open>while (no ack && watchdog--) tick();\<close>\<close>

fun watch :: "'d cir_eval \<Rightarrow> nat \<Rightarrow> 'd cir_bench \<Rightarrow> 'd cir_bench" where
  "watch ev 0 s = s"
| "watch ev (Suc w) s = (if no_ack s then watch ev w (cir_tick ev s) else s)"

definition cir_drive :: "u8 \<Rightarrow> bool \<Rightarrow> u8 \<Rightarrow> u32 \<Rightarrow> 'd cir_bench \<Rightarrow> 'd cir_bench" where
  "cir_drive offset write size_code wdata s =
    s\<lparr>c_pins := (c_pins s)\<lparr>a_in := offset AND 0x1F, size_n := size_code AND 0x3, rw := \<not> write, d_in := wdata,
        cs_n := False, as_in := False, ds_n := False\<rparr>\<rparr>"

definition bus_cycle :: "'d cir_eval \<Rightarrow> u8 \<Rightarrow> bool \<Rightarrow> u8 \<Rightarrow> u32 \<Rightarrow> 'd cir_bench \<Rightarrow> u32 \<times> 'd cir_bench" where
  "bus_cycle ev offset write size_code wdata s =
    (let s = watch ev 1000 (cir_drive offset write size_code wdata s);
         result = d_out (c_outs s);
         s = s\<lparr>c_pins := (c_pins s)\<lparr>cs_n := True, as_in := True, ds_n := True\<rparr>\<rparr>
     in (result, cir_tick ev s))"

text \<open>\<open>main\<close>: the reset, and its three modes, with the lines of the disassembler's self test.\<close>

definition cir_start :: "'d cir_eval \<Rightarrow> 'd cir_bench \<Rightarrow> 'd cir_bench" where
  "cir_start ev s =
    (let s = s\<lparr>c_pins := (c_pins s)\<lparr>a_in := 0, d_in := 0, size_n := 3, as_in := True, cs_n := True, rw := True, ds_n := True,
           c_reset := True\<rparr>\<rparr>;
         s = (cir_tick ev ^^ 32) s;
         s = s\<lparr>c_pins := (c_pins s)\<lparr>c_reset := False\<rparr>\<rparr>
     in (cir_tick ev ^^ 8) s)"

definition dasm_cases :: "(u16 \<times> u16) list" where
  "dasm_cases = [(0xF200, 0x0080), (0xF200, 0x0022), (0xF210, 0x8423), (0xF200, 0x0038),
     (0xF248, 0x0001), (0xF28E, 0x1234), (0xF327, 0x0000), (0xF35F, 0x0000)]"

definition cir_main :: "'d cir_eval \<Rightarrow> (string \<Rightarrow> bool) \<Rightarrow> string list \<Rightarrow> 'd cir_bench \<Rightarrow> string list \<times> nat" where
  "cir_main ev readable argv s =
    (case argv of
       [] \<Rightarrow> (map (\<lambda>(op, ext). disasm op ext) dasm_cases, 0)
     | f # _ \<Rightarrow> ([], if readable f then 0 else 1))"

section \<open>Processor and coprocessor: memory and clock\<close>

record fpins =
  f_reset :: bool
  f_clk :: bool
  phi1 :: bool
  phi2 :: bool
  f_data_in :: u16
  ram_waits :: u8

text \<open>The signals the bench reads; \<open>f_dbg\<close> gives those that the traces only print.\<close>

record fouts =
  as_n :: bool
  fpu_select :: bool
  f_addr :: u32
  rw_n :: bool
  f_data :: u16
  uds_n :: bool
  lds_n :: bool
  f_fc :: u8
  fpu_d_out_obs :: u32
  micro_state :: u8
  cir_state :: u8
  xfer_word_idx :: u8
  fpu_bus_write :: u8
  move_pending :: u8
  launch_alu :: u8
  xfer_phase :: u8
  f_dbg :: "string \<Rightarrow> u32"

text \<open>
  What is printed: a logged store, a line of the coprocessor's state, the start of a bus access (smoke
  test), and a whole access with the cycles it began and ended in (corpus).
\<close>

datatype fpu_event =
    BusWrite u32 fouts
  | Micro nat fouts
  | BusFall nat fouts u16
  | BusSpan nat nat u8 bool u32 u16 bool

type_synonym 'd fpu_eval = "fpins \<Rightarrow> 'd tg68k \<Rightarrow> fouts \<times> 'd tg68k"

record 'd fpu_bench =
  f_pins :: fpins
  f_outs :: fouts
  f_cpu :: "'d tg68k"
  f_ram :: bytes
  f_time :: nat
  f_phase :: nat
  buslog :: bool
  f_log :: "fpu_event list"

definition report :: "fpu_event \<Rightarrow> 'd fpu_bench \<Rightarrow> 'd fpu_bench" where
  "report e s = s\<lparr>f_log := f_log s @ [e]\<rparr>"

definition service_ram :: "'d fpu_bench \<Rightarrow> 'd fpu_bench" where
  "service_ram s =
    (let q = f_outs s; a = f_addr q in
     if as_n q then s
     else if fpu_select q then s
     else if rw_n q then s\<lparr>f_pins := (f_pins s)\<lparr>f_data_in := ram_read16 (f_ram s) a\<rparr>\<rparr>
     else
       (let s = s\<lparr>f_ram := ram_write16 a (f_data q) (\<not> uds_n q) (\<not> lds_n q) (f_ram s)\<rparr>
        in if buslog s \<and> 0x3000 \<le> a \<and> a < 0x5000 then report (BusWrite a q) s else s))"

definition fpu_eval_step :: "'d fpu_eval \<Rightarrow> bool \<Rightarrow> 'd fpu_bench \<Rightarrow> 'd fpu_bench" where
  "fpu_eval_step ev v s =
    (let p = (f_pins s)\<lparr>f_clk := v\<rparr>; (q, c) = ev p (f_cpu s) in s\<lparr>f_pins := p, f_outs := q, f_cpu := c\<rparr>)"

definition fpu_tick :: "'d fpu_eval \<Rightarrow> 'd fpu_bench \<Rightarrow> 'd fpu_bench" where
  "fpu_tick ev s =
    (let s = s\<lparr>f_pins := (f_pins s)\<lparr>phi1 := (f_phase s = 0), phi2 := (f_phase s = 1)\<rparr>\<rparr>;
         s = fpu_eval_step ev False s;
         s = s\<lparr>f_time := f_time s + 1\<rparr>;
         s = fpu_eval_step ev True s;
         s = service_ram s
     in s\<lparr>f_time := f_time s + 1, f_phase := (if f_phase s = 0 then 1 else 0)\<rparr>)"

definition fpu_reg :: "nat \<Rightarrow> 'd fpu_bench \<Rightarrow> u32" where
  "fpu_reg i s = push_bit 8 (regfile_n2 (f_cpu s) i) OR ucast (regfile_n1 (f_cpu s) i)"

text \<open>\<open>PROG_BASE\<close> is \<open>0x1000\<close> and \<open>RESET_SSP\<close> is \<open>0x00FFFFF8\<close>.\<close>

definition plant_program :: "u8 list \<Rightarrow> 'd fpu_bench \<Rightarrow> 'd fpu_bench" where
  "plant_program prog s =
    s\<lparr>f_ram := poke 0x1000 prog (poke 4 (long_bytes 0x1000) (poke 0 (long_bytes 0x00FFFFF8) (\<lambda>_. 0)))\<rparr>"

definition fpu_reset :: "'d fpu_eval \<Rightarrow> 'd fpu_bench \<Rightarrow> 'd fpu_bench" where
  "fpu_reset ev s =
    (let s = s\<lparr>f_pins := (f_pins s)\<lparr>f_reset := True, f_data_in := 0\<rparr>, f_phase := 0\<rparr>;
         s = (fpu_tick ev ^^ 32) s
     in s\<lparr>f_pins := (f_pins s)\<lparr>f_reset := False\<rparr>\<rparr>)"

definition reset_and_run :: "'d fpu_eval \<Rightarrow> nat \<Rightarrow> 'd fpu_bench \<Rightarrow> 'd fpu_bench" where
  "reset_and_run ev n s = (fpu_tick ev ^^ n) (fpu_reset ev s)"

section \<open>The smoke test\<close>

definition smoke_program :: "u8 list" where
  "smoke_program = [0x70, 0x01, 0xF2, 0x00, 0x40, 0x00, 0xF2, 0x01, 0x60, 0x00, 0x4E, 0x72, 0x27, 0x00]"

definition smoke_sig :: "fouts \<Rightarrow> u32" where
  "smoke_sig q = push_bit 16 (ucast (micro_state q)) OR push_bit 8 (ucast (cir_state q)) OR
     push_bit 4 (ucast (xfer_word_idx q)) OR push_bit 1 (ucast (fpu_bus_write q)) OR ucast (move_pending q)"

record smoke_trace =
  sm_sig :: u32
  sm_as :: bool

definition smoke_cycle :: "'d fpu_eval \<Rightarrow> bool \<Rightarrow> nat \<Rightarrow> 'd fpu_bench \<times> smoke_trace \<Rightarrow> 'd fpu_bench \<times> smoke_trace" where
  "smoke_cycle ev trace cyc st =
    (let (s, c) = st; s = fpu_tick ev s; q = f_outs s in
     if trace
     then
       (let (s, c) = (if smoke_sig q \<noteq> sm_sig c then (report (Micro cyc q) s, c\<lparr>sm_sig := smoke_sig q\<rparr>) else (s, c));
            data = (if rw_n q then (if fpu_select q then ucast (fpu_d_out_obs q AND 0xFFFF) else ram_read16 (f_ram s) (f_addr q))
                    else f_data q);
            s = (if sm_as c \<and> \<not> as_n q then report (BusFall cyc q data) s else s)
        in (s, c\<lparr>sm_as := as_n q\<rparr>))
     else (s, c))"

definition run_smoke :: "'d fpu_eval \<Rightarrow> bool \<Rightarrow> 'd fpu_bench \<Rightarrow> 'd fpu_bench \<times> nat" where
  "run_smoke ev trace s =
    (let s = fpu_reset ev (plant_program smoke_program s);
         s = fst (fold (smoke_cycle ev trace) [0..<20000] (s, \<lparr>sm_sig = 0xFFFFFFFF, sm_as = True\<rparr>))
     in (s, if fpu_reg 0 s = 1 \<and> fpu_reg 1 s = 1 then 0 else 1))"

section \<open>The corpus\<close>

record fpu_test =
  program :: "u8 list"
  result_reg :: nat
  expected :: u32

definition corpus_sig :: "fouts \<Rightarrow> u32" where
  "corpus_sig q = push_bit 16 (ucast (micro_state q)) OR push_bit 8 (ucast (cir_state q)) OR
     push_bit 6 (ucast (xfer_phase q)) OR push_bit 4 (ucast (move_pending q)) OR ucast (launch_alu q)"

record bus_trace =
  prev_sig :: u32
  prev_as :: bool
  at_addr :: u32
  at_rw :: bool
  at_fpu :: bool
  at_fc :: u8
  at_cyc :: nat
  at_data :: u16

definition bus_trace_init :: bus_trace where
  "bus_trace_init = \<lparr>prev_sig = 0xFFFFFFFF, prev_as = True, at_addr = 0, at_rw = True, at_fpu = False, at_fc = 0,
     at_cyc = 0, at_data = 0\<rparr>"

definition bus_fall :: "nat \<Rightarrow> fouts \<Rightarrow> bus_trace \<Rightarrow> bus_trace" where
  "bus_fall cyc q c =
    (if prev_as c \<and> \<not> as_n q
     then c\<lparr>at_addr := f_addr q, at_rw := rw_n q, at_fpu := fpu_select q, at_fc := f_fc q, at_cyc := cyc, at_data := f_data q\<rparr>
     else c)"

definition bus_rise :: "nat \<Rightarrow> bus_trace \<Rightarrow> 'd fpu_bench \<Rightarrow> 'd fpu_bench" where
  "bus_rise cyc c s =
    (let q = f_outs s in
     if \<not> prev_as c \<and> as_n q
     then
       (let rd_data = (if at_fpu c then ucast (fpu_d_out_obs q AND 0xFFFF) else ram_read16 (f_ram s) (at_addr c))
        in report (BusSpan (at_cyc c) cyc (at_fc c) (at_rw c) (at_addr c) (if at_rw c then rd_data else at_data c) (at_fpu c)) s)
     else s)"

definition traced_cycle :: "'d fpu_eval \<Rightarrow> nat \<Rightarrow> 'd fpu_bench \<times> bus_trace \<Rightarrow> 'd fpu_bench \<times> bus_trace" where
  "traced_cycle ev cyc st =
    (let (s, c) = st; s = fpu_tick ev s; q = f_outs s;
         c = bus_fall cyc q c;
         s = bus_rise cyc c s;
         c = c\<lparr>prev_as := as_n q\<rparr>
     in if corpus_sig q \<noteq> prev_sig c then (report (Micro cyc q) s, c\<lparr>prev_sig := corpus_sig q\<rparr>) else (s, c))"

definition fpu_run_test :: "'d fpu_eval \<Rightarrow> bool \<Rightarrow> fpu_test \<Rightarrow> 'd fpu_bench \<Rightarrow> 'd fpu_bench \<times> bool" where
  "fpu_run_test ev trace t s =
    (let s = plant_program (program t) s;
         s = (if trace then fst (fold (traced_cycle ev) [0..<5000] (fpu_reset ev s, bus_trace_init)) else reset_and_run ev 5000 s)
     in (s, fpu_reg (result_reg t) s = expected t))"

definition count_test :: "'d fpu_eval \<Rightarrow> bool \<Rightarrow> fpu_test \<Rightarrow> 'd fpu_bench \<times> nat \<times> nat \<Rightarrow> 'd fpu_bench \<times> nat \<times> nat" where
  "count_test ev trace t st =
    (let (s, passed, failed) = st; (s, ok) = fpu_run_test ev trace t s
     in (s, if ok then (passed + 1, failed) else (passed, failed + 1)))"

definition run_corpus :: "'d fpu_eval \<Rightarrow> (string \<Rightarrow> fpu_test list option) \<Rightarrow> string \<Rightarrow> bool \<Rightarrow> 'd fpu_bench \<Rightarrow>
    'd fpu_bench \<times> (nat \<times> nat) option \<times> nat" where
  "run_corpus ev corpus f trace s =
    (case corpus f of
       None \<Rightarrow> (s, None, 1)
     | Some ts \<Rightarrow>
         (let (s, passed, failed) = fold (count_test ev trace) ts (s, 0, 0)
          in (s, Some (passed, failed), if failed \<noteq> 0 then 1 else 0)))"

section \<open>The command line\<close>

fun fpu_args :: "string list \<Rightarrow> bool \<Rightarrow> 'd fpu_bench \<Rightarrow> string list \<times> bool \<times> 'd fpu_bench" where
  "fpu_args [] trace s = ([], trace, s)"
| "fpu_args (a # r) trace s =
    (if a = ''--trace'' then fpu_args r True s
     else if a = ''--waits'' \<and> r \<noteq> []
     then fpu_args (tl r) trace (s\<lparr>f_pins := (f_pins s)\<lparr>ram_waits := word_of_int (atoi (hd r)) AND 0xF\<rparr>\<rparr>)
     else if a = ''--buslog'' then fpu_args r trace (s\<lparr>buslog := True\<rparr>)
     else (a # r, trace, s))"

definition fpu_main :: "'d fpu_eval \<Rightarrow> (string \<Rightarrow> fpu_test list option) \<Rightarrow> string list \<Rightarrow> 'd fpu_bench \<Rightarrow>
    'd fpu_bench \<times> (nat \<times> nat) option \<times> nat" where
  "fpu_main ev corpus argv s =
    (let s = s\<lparr>f_ram := (\<lambda>_. 0), f_pins := (f_pins s)\<lparr>ram_waits := 0\<rparr>\<rparr>;
         (rest, trace, s) = fpu_args argv False s
     in case rest of
          [] \<Rightarrow> (let (s, r) = run_smoke ev trace s in (s, None, r))
        | f # _ \<Rightarrow> run_corpus ev corpus f trace s)"

section \<open>The watchdog\<close>

lemma cir_tick_time: "c_time (cir_tick ev s) = c_time s + 2"
  by (simp add: cir_tick_def cir_clock_def Let_def split: prod.splits)

lemma cir_ticks_time: "c_time ((cir_tick ev ^^ n) s) = c_time s + 2 * n"
  by (induction n) (simp_all add: cir_tick_time)

lemma watch_stops:
  "\<exists>w\<le>n. watch ev n s = (cir_tick ev ^^ w) s \<and> (w < n \<longrightarrow> \<not> no_ack ((cir_tick ev ^^ w) s)) \<and>
    (\<forall>j<w. no_ack ((cir_tick ev ^^ j) s))"
proof (induction n arbitrary: s)
  case (Suc n)
  show ?case
  proof (cases "no_ack s")
    case True
    obtain w where w: "w \<le> n" "watch ev n (cir_tick ev s) = (cir_tick ev ^^ w) (cir_tick ev s)"
      "w < n \<longrightarrow> \<not> no_ack ((cir_tick ev ^^ w) (cir_tick ev s))" "\<forall>j<w. no_ack ((cir_tick ev ^^ j) (cir_tick ev s))"
      using Suc.IH by blast
    have "\<forall>j<Suc w. no_ack ((cir_tick ev ^^ j) s)"
      using w(4) True by (auto simp: less_Suc_eq_0_disj funpow_Suc_right simp del: funpow.simps(2))
    with w True show ?thesis
      by (intro exI [of _ "Suc w"]) (simp add: funpow_Suc_right del: funpow.simps(2))
  qed (auto intro: exI [of _ 0])
qed simp

text \<open>A bus cycle of the coprocessor always ends. It clocks the coprocessor until it acknowledges or
  1000 clocks have passed, whichever is first, takes the data of that moment, and releases the bus
  for one clock more; after a time-out the data is taken all the same.
\<close>

theorem bus_cycle_ends:
  "\<exists>w\<le>1000. let t = (cir_tick ev ^^ w) (cir_drive offset write size_code wdata s) in
     (w < 1000 \<longrightarrow> \<not> no_ack t) \<and> (\<forall>j<w. no_ack ((cir_tick ev ^^ j) (cir_drive offset write size_code wdata s))) \<and>
     fst (bus_cycle ev offset write size_code wdata s) = d_out (c_outs t) \<and>
     c_time (snd (bus_cycle ev offset write size_code wdata s)) = c_time s + 2 * (w + 1)"
proof -
  obtain w where "w \<le> 1000"
    "watch ev 1000 (cir_drive offset write size_code wdata s) = (cir_tick ev ^^ w) (cir_drive offset write size_code wdata s)"
    "w < 1000 \<longrightarrow> \<not> no_ack ((cir_tick ev ^^ w) (cir_drive offset write size_code wdata s))"
    "\<forall>j<w. no_ack ((cir_tick ev ^^ j) (cir_drive offset write size_code wdata s))"
    using watch_stops by blast
  then show ?thesis
    by (intro exI [of _ w]) (simp add: bus_cycle_def Let_def cir_tick_time cir_ticks_time cir_drive_def)
qed

text \<open>A coprocessor that never acknowledges, and a bench in front of it.\<close>

definition mute :: "unit cir_eval" where
  "mute p d = (\<lparr>dsack0_n = True, dsack1_n = True, d_out = 7, status_valid = False\<rparr>, d)"

definition cir0 :: "unit cir_bench" where
  "cir0 = \<lparr>c_pins = \<lparr>c_clk = False, c_reset = False, a_in = 0, d_in = 0, size_n = 3, rw = True, cs_n = True, as_in = True, ds_n = True\<rparr>,
     c_outs = fst (mute undefined ()), c_state = (), c_time = 0\<rparr>"

lemma mute_never: "c_outs s = fst (mute undefined ()) \<Longrightarrow> c_outs ((cir_tick mute ^^ n) s) = fst (mute undefined ())"
  by (induction n) (simp_all add: cir_tick_def cir_clock_def mute_def Let_def)

lemma bus_cycle_ends_witness:
  "fst (bus_cycle mute 0x20 False 0 0 cir0) = 7 \<and> c_time (snd (bus_cycle mute 0x20 False 0 0 cir0)) = 2002"
proof -
  let ?s = "cir_drive 0x20 False 0 0 cir0"
  have o: "c_outs ((cir_tick mute ^^ n) ?s) = fst (mute undefined ())" for n
    by (rule mute_never) (simp add: cir_drive_def cir0_def)
  have "no_ack ((cir_tick mute ^^ n) ?s)" for n unfolding no_ack_def o by (simp add: mute_def)
  moreover have "d_out (c_outs ((cir_tick mute ^^ n) ?s)) = 7" for n unfolding o by (simp add: mute_def)
  moreover have "c_time cir0 = 0" by (simp add: cir0_def)
  ultimately show ?thesis
    using bus_cycle_ends [of mute "0x20" False 0 0 cir0]
    by (auto simp: Let_def dest!: le_imp_less_or_eq)
qed

section \<open>Tracing is transparent\<close>

text \<open>A bench without what it has printed.\<close>

definition quiet :: "'d fpu_bench \<Rightarrow> 'd fpu_bench" where
  "quiet s = s\<lparr>buslog := False, f_log := []\<rparr>"

lemma quiet_report [simp]: "quiet (report e s) = quiet s"
  by (simp add: quiet_def report_def)

lemma quiet_fields [simp]:
  "f_outs (quiet s) = f_outs s" "f_ram (quiet s) = f_ram s" "f_cpu (quiet s) = f_cpu s" "f_pins (quiet s) = f_pins s"
  "fpu_reg i (quiet s) = fpu_reg i s"
  by (simp_all add: quiet_def fpu_reg_def)

lemma quiet_service: "quiet (service_ram s) = service_ram (quiet s)"
  by (cases s) (simp add: service_ram_def quiet_def report_def Let_def)

lemma quiet_eval: "quiet (fpu_eval_step ev v s) = fpu_eval_step ev v (quiet s)"
  by (simp add: fpu_eval_step_def quiet_def Let_def split: prod.splits)

lemma time_frame [simp]:
  "f_time (fpu_eval_step ev v s) = f_time s" "f_phase (fpu_eval_step ev v s) = f_phase s"
  "f_time (service_ram s) = f_time s" "f_phase (service_ram s) = f_phase s"
  "f_time (quiet s) = f_time s" "f_phase (quiet s) = f_phase s"
  by (simp_all add: fpu_eval_step_def service_ram_def report_def quiet_def Let_def split: prod.splits)

lemma quiet_updates:
  "quiet (s\<lparr>f_pins := p\<rparr>) = (quiet s)\<lparr>f_pins := p\<rparr>" "quiet (s\<lparr>f_ram := r\<rparr>) = (quiet s)\<lparr>f_ram := r\<rparr>"
  "quiet (s\<lparr>f_time := n\<rparr>) = (quiet s)\<lparr>f_time := n\<rparr>" "quiet (s\<lparr>f_phase := k\<rparr>) = (quiet s)\<lparr>f_phase := k\<rparr>"
  "quiet (s\<lparr>buslog := b\<rparr>) = quiet s" "quiet (quiet s) = quiet s"
  by (simp_all add: quiet_def)

lemma quiet_tick: "quiet (fpu_tick ev s) = fpu_tick ev (quiet s)"
  unfolding fpu_tick_def Let_def by (simp add: quiet_updates quiet_service quiet_eval)

lemma quiet_ticks: "quiet ((fpu_tick ev ^^ n) s) = (fpu_tick ev ^^ n) (quiet s)"
  by (induction n) (simp_all add: quiet_tick)

lemma quiet_reset: "quiet (fpu_reset ev s) = fpu_reset ev (quiet s)"
proof -
  have i: "quiet (s\<lparr>f_pins := (f_pins s)\<lparr>f_reset := True, f_data_in := 0\<rparr>, f_phase := 0\<rparr>) =
      (quiet s)\<lparr>f_pins := (f_pins (quiet s))\<lparr>f_reset := True, f_data_in := 0\<rparr>, f_phase := 0\<rparr>"
    by (simp add: quiet_def)
  have r: "quiet (x\<lparr>f_pins := (f_pins x)\<lparr>f_reset := False\<rparr>\<rparr>) = (quiet x)\<lparr>f_pins := (f_pins (quiet x))\<lparr>f_reset := False\<rparr>\<rparr>" for x :: "'a fpu_bench"
    by (simp add: quiet_def)
  show ?thesis unfolding fpu_reset_def Let_def r quiet_ticks i ..
qed

lemma quiet_plant: "quiet (plant_program prog s) = plant_program prog (quiet s)"
  by (simp add: plant_program_def quiet_def)

lemma quiet_smoke_cycle: "quiet (fst (smoke_cycle ev trace cyc (s, c))) = fpu_tick ev (quiet s)"
  by (simp add: smoke_cycle_def Let_def split_beta quiet_tick)

lemma quiet_rise [simp]: "quiet (bus_rise cyc c s) = quiet s"
  by (simp add: bus_rise_def Let_def)

lemma quiet_traced_cycle: "quiet (fst (traced_cycle ev cyc (s, c))) = fpu_tick ev (quiet s)"
  by (simp add: traced_cycle_def Let_def quiet_tick)

lemma quiet_fold:
  assumes "\<And>x s c. quiet (fst (f x (s, c))) = fpu_tick ev (quiet s)"
  shows "quiet (fst (fold f xs (s, c))) = (fpu_tick ev ^^ length xs) (quiet s)"
proof (induction xs arbitrary: s c)
  case (Cons x xs)
  then show ?case
    using assms [of x s c] by (cases "f x (s, c)") (simp add: funpow_Suc_right del: funpow.simps)
qed simp

lemma quiet_smoke: "quiet (fst (run_smoke ev trace s)) = (fpu_tick ev ^^ 20000) (fpu_reset ev (plant_program smoke_program (quiet s)))"
  unfolding run_smoke_def Let_def fst_conv
  by (subst quiet_fold [OF quiet_smoke_cycle]) (simp only: length_upt quiet_reset quiet_plant diff_zero)

lemma smoke_status: "snd (run_smoke ev trace s) = snd (run_smoke ev trace' (quiet s))"
proof -
  have r: "snd (run_smoke ev t x) = (if fpu_reg 0 (quiet (fst (run_smoke ev t x))) = 1 \<and> fpu_reg 1 (quiet (fst (run_smoke ev t x))) = 1 then 0 else 1)"
    for t and x :: "'a fpu_bench"
    by (simp add: run_smoke_def Let_def)
  show ?thesis unfolding r quiet_smoke quiet_updates ..
qed

lemma quiet_test: "quiet (fst (fpu_run_test ev trace t s)) = (fpu_tick ev ^^ 5000) (fpu_reset ev (plant_program (program t) (quiet s)))"
proof (cases trace)
  case True
  then show ?thesis
    unfolding fpu_run_test_def Let_def fst_conv
    by (simp only: if_True) (subst quiet_fold [OF quiet_traced_cycle], simp only: length_upt quiet_reset quiet_plant diff_zero)
next
  case False
  then show ?thesis
    unfolding fpu_run_test_def Let_def fst_conv reset_and_run_def
    by (simp only: if_False quiet_ticks quiet_reset quiet_plant)
qed

lemma test_verdict: "snd (fpu_run_test ev trace t s) \<longleftrightarrow>
    fpu_reg (result_reg t) ((fpu_tick ev ^^ 5000) (fpu_reset ev (plant_program (program t) (quiet s)))) = expected t"
proof -
  have "snd (fpu_run_test ev trace t s) \<longleftrightarrow> fpu_reg (result_reg t) (quiet (fst (fpu_run_test ev trace t s))) = expected t"
    by (simp add: fpu_run_test_def Let_def)
  then show ?thesis unfolding quiet_test .
qed

lemma count_tests_quiet:
  "quiet (fst (fold (count_test ev trace) ts (s, n))) = quiet (fst (fold (count_test ev trace') ts (quiet s, n))) \<and>
   snd (fold (count_test ev trace) ts (s, n)) = snd (fold (count_test ev trace') ts (quiet s, n))"
proof (induction ts arbitrary: s n rule: rev_induct)
  case (snoc t ts)
  let ?x = "fold (count_test ev trace) ts (s, n)" and ?y = "fold (count_test ev trace') ts (quiet s, n)"
  have c: "count_test ev tr t x = (fst (fpu_run_test ev tr t (fst x)),
      if snd (fpu_run_test ev tr t (fst x)) then (fst (snd x) + 1, snd (snd x)) else (fst (snd x), snd (snd x) + 1))" for tr x
    by (cases x) (simp add: count_test_def Let_def split_beta)
  show ?case
    using snoc.IH [of s n] by (simp add: c quiet_test test_verdict)
qed (simp add: quiet_updates)

lemma corpus_status: "snd (run_corpus ev corpus f trace s) = snd (run_corpus ev corpus f trace' (quiet s))"
  using count_tests_quiet [of ev trace _ s "(0, 0)" trace']
  by (auto simp: run_corpus_def split_beta Let_def split: option.splits)

lemma args_quiet:
  "quiet s = quiet s' \<Longrightarrow> fst (fpu_args argv trace s) = fst (fpu_args argv trace' s') \<and>
    quiet (snd (snd (fpu_args argv trace s))) = quiet (snd (snd (fpu_args argv trace' s')))"
proof (induction argv trace s arbitrary: trace' s' rule: fpu_args.induct)
  case (2 a r trace s)
  have p: "f_pins s = f_pins s'" using 2(4) quiet_fields(4) by metis
  have w: "quiet (s\<lparr>f_pins := q\<rparr>) = quiet (s'\<lparr>f_pins := q\<rparr>)" for q
    using 2(4) by (simp add: quiet_updates)
  have b: "quiet (s\<lparr>buslog := True\<rparr>) = quiet (s'\<lparr>buslog := True\<rparr>)"
    using 2(4) by (simp add: quiet_updates)
  consider "a = ''--trace''" | "a \<noteq> ''--trace''" "a = ''--waits'' \<and> r \<noteq> []"
    | "a \<noteq> ''--trace''" "\<not> (a = ''--waits'' \<and> r \<noteq> [])" "a = ''--buslog''"
    | "a \<noteq> ''--trace''" "\<not> (a = ''--waits'' \<and> r \<noteq> [])" "a \<noteq> ''--buslog''" by blast
  then show ?case
  proof cases
    case 1
    with 2(1) [OF 1 2(4), of True] show ?thesis by simp
  next
    case c: 2
    with 2(2) [OF c w, of trace'] show ?thesis by (simp add: p)
  next
    case c: 3
    with 2(3) [OF c b, of trace'] show ?thesis by simp
  next
    case 4
    with 2(4) show ?thesis by auto
  qed
qed simp

text \<open>Tracing changes nothing but what is printed. With \<open>--trace\<close> or \<open>--buslog\<close> in front, the bench
  counts the same tests as passed and failed and exits with the same status as without, whatever the
  circuit, the corpus and the other arguments.
\<close>

theorem tracing_transparent:
  "snd (fpu_main ev corpus (''--trace'' # argv) s) = snd (fpu_main ev corpus argv s) \<and>
   snd (fpu_main ev corpus (''--buslog'' # argv) s) = snd (fpu_main ev corpus argv s)"
proof -
  let ?s = "s\<lparr>f_ram := (\<lambda>_. 0), f_pins := (f_pins s)\<lparr>ram_waits := 0\<rparr>\<rparr>"
  have m: "snd (fpu_main ev corpus as s) =
      (let A = fpu_args as False ?s; q = quiet (snd (snd A)) in
       case fst A of [] \<Rightarrow> (None, snd (run_smoke ev False q)) | f # _ \<Rightarrow> snd (run_corpus ev corpus f False q))" for as
  proof -
    obtain rest trace x where A: "fpu_args as False ?s = (rest, trace, x)" by (cases "fpu_args as False ?s")
    show ?thesis
      unfolding fpu_main_def A Let_def
      using smoke_status [of ev trace x False] corpus_status [of ev corpus _ trace x False]
      by (auto simp: split_beta split: list.splits)
  qed
  have "fst (fpu_args (''--trace'' # argv) False ?s) = fst (fpu_args argv False ?s)"
    "quiet (snd (snd (fpu_args (''--trace'' # argv) False ?s))) = quiet (snd (snd (fpu_args argv False ?s)))"
    using args_quiet [of ?s ?s argv True False] by simp_all
  moreover have "fst (fpu_args (''--buslog'' # argv) False ?s) = fst (fpu_args argv False ?s)"
    "quiet (snd (snd (fpu_args (''--buslog'' # argv) False ?s))) = quiet (snd (snd (fpu_args argv False ?s)))"
    using args_quiet [of "?s\<lparr>buslog := True\<rparr>" ?s argv False False] by (simp_all add: quiet_updates)
  ultimately show ?thesis unfolding m Let_def by metis
qed

section \<open>The bus trace\<close>

text \<open>
  The accesses in the first \<open>n\<close> cycles of a run with the outputs \<open>out\<close>, in the order of their ends:
  a longest run of cycles \<open>i\<close> to \<open>j - 1\<close> with the address strobe low that ends at \<open>j\<close>, with the
  function code, direction, address and select of its first cycle, and the data if it is a write.
\<close>

definition access :: "(nat \<Rightarrow> fouts) \<Rightarrow> nat \<Rightarrow> nat \<Rightarrow> bool" where
  "access out i j \<longleftrightarrow> as_n (out j) \<and> (\<forall>k\<in>{i..<j}. \<not> as_n (out k)) \<and> (i = 0 \<or> as_n (out (i - 1)))"

type_synonym span = "nat \<times> nat \<times> u8 \<times> bool \<times> u32 \<times> bool \<times> u16 option"

definition span_at :: "(nat \<Rightarrow> fouts) \<Rightarrow> nat \<Rightarrow> nat \<Rightarrow> span" where
  "span_at out i j = (let q = out i in
     (i, j, f_fc q, rw_n q, f_addr q, fpu_select q, if rw_n q then None else Some (f_data q)))"

definition spans :: "(nat \<Rightarrow> fouts) \<Rightarrow> nat \<Rightarrow> span list" where
  "spans out n = concat (map (\<lambda>j. map (\<lambda>i. span_at out i j) (filter (\<lambda>i. access out i j) [0..<j])) [0..<n])"

fun span_of :: "fpu_event \<Rightarrow> span list" where
  "span_of (BusSpan i j fc w a d fpu) = [(i, j, fc, w, a, fpu, if w then None else Some d)]"
| "span_of _ = []"

definition logged_spans :: "'d fpu_bench \<Rightarrow> span list" where
  "logged_spans s = concat (map span_of (f_log s))"

lemma logged_report [simp]: "logged_spans (report e s) = logged_spans s @ span_of e"
  by (simp add: logged_spans_def report_def)

lemma logged_updates [simp]:
  "logged_spans (s\<lparr>f_pins := p\<rparr>) = logged_spans s" "logged_spans (s\<lparr>f_ram := r\<rparr>) = logged_spans s"
  "logged_spans (s\<lparr>f_time := n\<rparr>) = logged_spans s" "logged_spans (s\<lparr>f_phase := n\<rparr>) = logged_spans s"
  "logged_spans (s\<lparr>f_outs := q\<rparr>) = logged_spans s" "logged_spans (s\<lparr>f_cpu := x\<rparr>) = logged_spans s"
  by (simp_all add: logged_spans_def)

lemma logged_service [simp]: "logged_spans (service_ram s) = logged_spans s"
  by (simp add: service_ram_def Let_def)

lemma logged_eval [simp]: "logged_spans (fpu_eval_step ev v s) = logged_spans s"
  by (simp add: fpu_eval_step_def Let_def logged_spans_def split: prod.splits)

lemma logged_tick [simp]: "logged_spans (fpu_tick ev s) = logged_spans s"
  by (simp add: fpu_tick_def Let_def logged_spans_def [of "_\<lparr>f_time := _, f_phase := _\<rparr>"] flip: logged_spans_def)

text \<open>What the tracer remembers after \<open>n\<close> cycles.\<close>

definition tracks :: "(nat \<Rightarrow> fouts) \<Rightarrow> nat \<Rightarrow> bus_trace \<Rightarrow> bool" where
  "tracks out n c \<longleftrightarrow>
    (if n = 0 then prev_as c else prev_as c = as_n (out (n - 1))) \<and>
    (prev_as c \<or>
      (let i = at_cyc c in
       i < n \<and> (\<forall>k\<in>{i..<n}. \<not> as_n (out k)) \<and> (i = 0 \<or> as_n (out (i - 1))) \<and>
       at_addr c = f_addr (out i) \<and> at_rw c = rw_n (out i) \<and> at_fpu c = fpu_select (out i) \<and>
       at_fc c = f_fc (out i) \<and> at_data c = f_data (out i)))"

lemma tracks_fall: "tracks out n c \<Longrightarrow> tracks out (Suc n) ((bus_fall n (out n) c)\<lparr>prev_as := as_n (out n)\<rparr>)"
  by (cases "n = 0") (auto simp: tracks_def bus_fall_def Let_def less_Suc_eq atLeastLessThanSuc)

lemma filter_only: "i < n \<Longrightarrow> (\<And>k. k < n \<Longrightarrow> P k \<longleftrightarrow> k = i) \<Longrightarrow> filter P [0..<n] = [i]"
proof (induction n)
  case (Suc n)
  show ?case
  proof (cases "i = n")
    case True
    then have "filter P [0..<n] = []" using Suc.prems(2) by (auto simp: filter_empty_conv)
    with True Suc.prems show ?thesis by simp
  next
    case False
    with Suc show ?thesis by simp
  qed
qed simp

lemma access_open:
  assumes "tracks out n c" "\<not> prev_as c" "as_n (out n)"
  shows "filter (\<lambda>i. access out i n) [0..<n] = [at_cyc c]"
proof (rule filter_only)
  show "at_cyc c < n" using assms by (auto simp: tracks_def Let_def)
next
  fix k assume k: "k < n"
  have low: "\<not> as_n (out m)" if "at_cyc c \<le> m" "m < n" for m
    using assms that by (auto simp: tracks_def Let_def)
  have start: "at_cyc c = 0 \<or> as_n (out (at_cyc c - 1))" using assms by (auto simp: tracks_def Let_def)
  show "access out k n \<longleftrightarrow> k = at_cyc c"
  proof
    assume a: "access out k n"
    show "k = at_cyc c"
    proof (rule ccontr)
      assume "k \<noteq> at_cyc c"
      then consider "k < at_cyc c" | "at_cyc c < k" by linarith
      then show False
      proof cases
        case 1
        then have "k \<le> at_cyc c - 1" "at_cyc c - 1 < n" "at_cyc c \<noteq> 0" using assms by (auto simp: tracks_def Let_def)
        with a start show False by (auto simp: access_def)
      next
        case 2
        then have "\<not> as_n (out (k - 1))" using k by (intro low) auto
        with a 2 show False by (auto simp: access_def)
      qed
    qed
  next
    assume "k = at_cyc c"
    with low start assms(3) show "access out k n" by (auto simp: access_def)
  qed
qed

lemma access_none:
  assumes "tracks out n c" "prev_as c \<or> \<not> as_n (out n)"
  shows "filter (\<lambda>i. access out i n) [0..<n] = []"
proof -
  have "\<not> access out i n" if "i < n" for i
  proof
    assume a: "access out i n"
    then have "\<not> as_n (out (n - 1))" "as_n (out n)" using that by (auto simp: access_def)
    with assms that show False by (auto simp: tracks_def split: if_splits)
  qed
  then show ?thesis by (simp add: filter_empty_conv)
qed

lemma logged_rise:
  assumes "tracks out n c" "f_outs s = out n"
  shows "logged_spans (bus_rise n (bus_fall n (out n) c) s) =
    logged_spans s @ map (\<lambda>i. span_at out i n) (filter (\<lambda>i. access out i n) [0..<n])"
proof (cases "\<not> prev_as c \<and> as_n (out n)")
  case True
  then have f: "bus_fall n (out n) c = c" by (simp add: bus_fall_def)
  from True assms(1) have l: "filter (\<lambda>i. access out i n) [0..<n] = [at_cyc c]" by (intro access_open) auto
  show ?thesis
    using True assms unfolding f l
    by (auto simp: bus_rise_def Let_def span_at_def tracks_def)
next
  case False
  then have l: "filter (\<lambda>i. access out i n) [0..<n] = []" using assms(1) by (intro access_none) auto
  have "prev_as (bus_fall n (out n) c) = prev_as c" by (simp add: bus_fall_def)
  with False assms(2) show ?thesis unfolding l by (auto simp: bus_rise_def Let_def)
qed

lemma traced_cycle_logged:
  assumes "tracks out n c" "f_outs (fpu_tick ev s) = out n"
  shows "logged_spans (fst (traced_cycle ev n (s, c))) =
      logged_spans s @ map (\<lambda>i. span_at out i n) (filter (\<lambda>i. access out i n) [0..<n])"
    and "tracks out (Suc n) (snd (traced_cycle ev n (s, c)))"
proof -
  let ?s = "bus_rise n (bus_fall n (out n) c) (fpu_tick ev s)"
  have l: "logged_spans ?s = logged_spans s @ map (\<lambda>i. span_at out i n) (filter (\<lambda>i. access out i n) [0..<n])"
    using logged_rise [OF assms] by simp
  have t: "tracks out (Suc n) ((bus_fall n (out n) c)\<lparr>prev_as := as_n (out n)\<rparr>)"
    using assms(1) by (rule tracks_fall)
  then have u: "tracks out (Suc n) ((bus_fall n (out n) c)\<lparr>prev_as := as_n (out n), prev_sig := v\<rparr>)" for v
    by (simp add: tracks_def)
  show "logged_spans (fst (traced_cycle ev n (s, c))) =
      logged_spans s @ map (\<lambda>i. span_at out i n) (filter (\<lambda>i. access out i n) [0..<n])"
    using l by (simp add: traced_cycle_def Let_def assms(2))
  show "tracks out (Suc n) (snd (traced_cycle ev n (s, c)))"
    using t u by (simp add: traced_cycle_def Let_def assms(2))
qed

text \<open>The outputs after the tick of cycle \<open>k\<close>.\<close>

definition outs_at :: "'d fpu_eval \<Rightarrow> 'd fpu_bench \<Rightarrow> nat \<Rightarrow> fouts" where
  "outs_at ev s k = f_outs ((fpu_tick ev ^^ Suc k) s)"

lemma spans_Suc: "spans out (Suc n) = spans out n @ map (\<lambda>i. span_at out i n) (filter (\<lambda>i. access out i n) [0..<n])"
  by (simp add: spans_def)

text \<open>The bus trace is complete and exact. Over any number of cycles after a reset it lists exactly the
  bus accesses that have ended, each once, in order, with the cycles it began and ended in and with
  the address, direction, select, function code and written data of its first cycle.
\<close>

theorem bus_trace_exact:
  "logged_spans (fst (fold (traced_cycle ev) [0..<n] (s, bus_trace_init))) = logged_spans s @ spans (outs_at ev s) n"
proof -
  have "logged_spans (fst (fold (traced_cycle ev) [0..<n] (s, bus_trace_init))) = logged_spans s @ spans (outs_at ev s) n \<and>
    tracks (outs_at ev s) n (snd (fold (traced_cycle ev) [0..<n] (s, bus_trace_init)))"
  proof (induction n)
    case 0
    show ?case by (simp add: spans_def tracks_def bus_trace_init_def)
  next
    case (Suc n)
    obtain x c where xc: "fold (traced_cycle ev) [0..<n] (s, bus_trace_init) = (x, c)"
      by (cases "fold (traced_cycle ev) [0..<n] (s, bus_trace_init)")
    have "quiet x = (fpu_tick ev ^^ n) (quiet s)"
      using quiet_fold [where f = "traced_cycle ev" and ev = ev, OF quiet_traced_cycle, of "[0..<n]" s bus_trace_init]
      unfolding xc by simp
    then have "quiet (fpu_tick ev x) = quiet ((fpu_tick ev ^^ Suc n) s)"
      by (simp add: quiet_tick quiet_ticks)
    then have o: "f_outs (fpu_tick ev x) = outs_at ev s n"
      unfolding outs_at_def using quiet_fields(1) by metis
    have t: "tracks (outs_at ev s) n c" using Suc.IH unfolding xc by simp
    from traced_cycle_logged [OF t o] Suc.IH show ?case
      unfolding xc by (simp add: spans_Suc xc)
  qed
  then show ?thesis ..
qed

end
