(* ===== verification/JsonlWriter.thy ===== *)
theory JsonlWriter
  imports Prelude
begin

text \<open>
  The run-time of the benches that boot on the Macintosh itself
  (\<open>src/SingleStepTests/preboot/common/runtime\<close>): the memory and number helpers of
  \<open>freestanding.h\<close>, and \<open>jsonl_writer.c\<close>, which collects the result lines in batches of 16 KB and
  writes them to a pre-allocated file with raw sector writes. The Device Manager's \<open>_Write\<close> trap is
  code of the ROM: an argument \<open>io\<close>, from the driver, the drive, the byte offset and the data to the
  new state of the medium and the \<open>ioResult\<close>.
\<close>

section \<open>Memory and numbers\<close>

type_synonym bytes = "u8 list"
type_synonym ram = "u32 \<Rightarrow> u8"

fun f_memset :: "u32 \<Rightarrow> u8 \<Rightarrow> nat \<Rightarrow> ram \<Rightarrow> ram" where
  "f_memset p c 0 m = m"
| "f_memset p c (Suc n) m = f_memset (p + 1) c n (m(p := c))"

fun f_memcpy :: "u32 \<Rightarrow> u32 \<Rightarrow> nat \<Rightarrow> ram \<Rightarrow> ram" where
  "f_memcpy d s 0 m = m"
| "f_memcpy d s (Suc n) m = f_memcpy (d + 1) (s + 1) n (m(d := m s))"

lemma div_ten_less: "v \<noteq> 0 \<Longrightarrow> unat (v div 10 :: u32) < unat v"
  by (simp add: unat_div unat_eq_zero div_less_dividend unat_gt_0)

function putul_digits :: "u32 \<Rightarrow> bytes" where
  "putul_digits v = (if v = 0 then [] else ucast (48 + v mod 10) # putul_digits (v div 10))"
  by auto
termination by (relation "measure unat") (simp_all add: div_ten_less)

declare putul_digits.simps [simp del]

definition f_putul :: "u32 \<Rightarrow> bytes" where
  "f_putul v = (if v = 0 then [48] else rev (putul_digits v))"

section \<open>The writer\<close>

definition JW_BATCH_BYTES :: nat where "JW_BATCH_BYTES = 16384"

record JwCtx =
  jc_refnum :: u16
  jc_drive :: u16
  jc_base_offset :: u32
  jc_max_bytes :: u32

record JsonlWriter =
  jw_ctx :: JwCtx
  jw_sector :: bytes
  jw_used :: u32
  jw_written :: u32
  jw_last_err :: u16

type_synonym 'd jw_io = "u16 \<Rightarrow> u16 \<Rightarrow> u32 \<Rightarrow> bytes \<Rightarrow> 'd \<Rightarrow> 'd \<times> u16"

definition driver_write_sector :: "'d jw_io \<Rightarrow> JwCtx \<Rightarrow> u32 \<Rightarrow> bytes \<Rightarrow> 'd \<Rightarrow> 'd \<times> u16" where
  "driver_write_sector io c sector_idx buf d =
    io (jc_refnum c) (jc_drive c) (jc_base_offset c + sector_idx * of_nat JW_BATCH_BYTES) buf d"

definition jw_init :: "JwCtx \<Rightarrow> JsonlWriter" where
  "jw_init c = \<lparr>jw_ctx = c, jw_sector = replicate JW_BATCH_BYTES 0, jw_used = 0, jw_written = 0, jw_last_err = 0\<rparr>"

definition write_current_batch :: "'d jw_io \<Rightarrow> JsonlWriter \<times> 'd \<Rightarrow> JsonlWriter \<times> 'd" where
  "write_current_batch io = (\<lambda>(w, d).
    (let w = (if jw_used w < of_nat JW_BATCH_BYTES
              then w\<lparr>jw_sector := take (unat (jw_used w)) (jw_sector w) @ replicate (JW_BATCH_BYTES - unat (jw_used w)) 0\<rparr> else w);
         batch_idx = jw_written w div of_nat JW_BATCH_BYTES;
         (d, r) = driver_write_sector io (jw_ctx w) batch_idx (jw_sector w) d
     in (if r \<noteq> 0 \<and> jw_last_err w = 0 then w\<lparr>jw_last_err := r\<rparr> else w, d)))"

definition flush_sector :: "'d jw_io \<Rightarrow> JsonlWriter \<times> 'd \<Rightarrow> JsonlWriter \<times> 'd" where
  "flush_sector io wd =
    (let (w, d) = write_current_batch io wd
     in (w\<lparr>jw_written := jw_written w + of_nat JW_BATCH_BYTES, jw_used := 0\<rparr>, d))"

definition jw_putc :: "'d jw_io \<Rightarrow> u8 \<Rightarrow> JsonlWriter \<times> 'd \<Rightarrow> JsonlWriter \<times> 'd" where
  "jw_putc io c = (\<lambda>(w, d).
    (if jw_written w + jw_used w \<ge> jc_max_bytes (jw_ctx w) then (w, d)
     else
       (let w = w\<lparr>jw_sector := (jw_sector w)[unat (jw_used w) := c], jw_used := jw_used w + 1\<rparr>
        in if jw_used w = of_nat JW_BATCH_BYTES then flush_sector io (w, d) else (w, d))))"

definition jw_puts :: "'d jw_io \<Rightarrow> bytes \<Rightarrow> JsonlWriter \<times> 'd \<Rightarrow> JsonlWriter \<times> 'd" where
  "jw_puts io s wd = fold (jw_putc io) s wd"

definition jw_putul :: "'d jw_io \<Rightarrow> u32 \<Rightarrow> JsonlWriter \<times> 'd \<Rightarrow> JsonlWriter \<times> 'd" where
  "jw_putul io v wd = fold (jw_putc io) (f_putul v) wd"

definition jw_commit_line :: "'d jw_io \<Rightarrow> JsonlWriter \<times> 'd \<Rightarrow> JsonlWriter \<times> 'd" where
  "jw_commit_line io wd = (if jw_used (fst wd) = 0 then wd else write_current_batch io wd)"

definition jw_flush :: "'d jw_io \<Rightarrow> JsonlWriter \<times> 'd \<Rightarrow> JsonlWriter \<times> 'd" where
  "jw_flush io wd = (if jw_used (fst wd) > 0 then flush_sector io wd else wd)"

section \<open>The helpers\<close>

lemma f_memset_spec:
  "unat p + n \<le> 2 ^ 32 \<Longrightarrow> f_memset p c n m a = (if unat p \<le> unat a \<and> unat a < unat p + n then c else m a)"
proof (induction n arbitrary: p m)
  case (Suc n)
  show ?case
  proof (cases "n = 0")
    case True
    then show ?thesis by (auto simp: word_unat_eq_iff)
  next
    case False
    then have p: "unat (p + 1) = Suc (unat p)"
      using Suc.prems by (simp add: unat_word_ariths)
    show ?thesis using Suc.IH [of "p + 1"] Suc.prems by (auto simp: p word_unat_eq_iff)
  qed
qed auto

text \<open>The decimal digits of a number, read back.\<close>

definition dec_value :: "bytes \<Rightarrow> nat" where
  "dec_value ds = foldl (\<lambda>a b. a * 10 + (unat b - 48)) 0 ds"

lemma unat_digit: "unat (ucast (48 + v mod 10 :: u32) :: u8) = 48 + unat v mod 10"
proof -
  have m: "unat (v mod 10) = unat v mod 10" by (simp add: unat_mod)
  then have "unat (48 + v mod 10) = 48 + unat v mod 10"
    by (simp add: unat_word_ariths m)
  then show ?thesis by (simp add: unsigned_ucast_eq take_bit_eq_mod m)
qed

lemma putul_digits_value: "dec_value (rev (putul_digits v)) = unat v"
proof (induction v rule: putul_digits.induct)
  case (1 v)
  show ?case
  proof (cases "v = 0")
    case False
    then have "dec_value (rev (putul_digits v)) = dec_value (rev (putul_digits (v div 10))) * 10 + unat v mod 10"
      by (subst putul_digits.simps) (simp add: dec_value_def unat_digit)
    also have "\<dots> = unat v" using 1 False by (simp add: unat_div)
    finally show ?thesis .
  qed (simp add: putul_digits.simps dec_value_def)
qed

lemma putul_digits_range: "b \<in> set (putul_digits v) \<Longrightarrow> 48 \<le> unat b \<and> unat b \<le> 57"
proof (induction v rule: putul_digits.induct)
  case (1 v)
  show ?case
  proof (cases "v = 0")
    case False
    then have "b = ucast (48 + v mod 10) \<or> b \<in> set (putul_digits (v div 10))"
      using 1(2) by (subst (asm) putul_digits.simps) simp
    then show ?thesis using 1(1) False by (auto simp: unat_digit)
  qed (use 1 in \<open>simp add: putul_digits.simps\<close>)
qed

text \<open>The decimal text written for a number consists of digits only and reads back as that number.\<close>

theorem putul_roundtrip:
  "dec_value (f_putul v) = unat v \<and> list_all (\<lambda>b. 48 \<le> unat b \<and> unat b \<le> 57) (f_putul v) \<and> f_putul v \<noteq> []"
proof -
  have "putul_digits v \<noteq> []" if "v \<noteq> 0" using that by (simp add: putul_digits.simps)
  then show ?thesis
    using putul_digits_value [of v] by (auto simp: f_putul_def list_all_iff dec_value_def dest: putul_digits_range)
qed

section \<open>What the writer promises\<close>

text \<open>The abstract view: the log is the text so far; a flush pads it to whole batches. \<open>store\<close> is a
  medium that keeps what is written to it.\<close>

datatype jw_op = Putc u8 | Commit | Flush

fun jw_exec :: "'d jw_io \<Rightarrow> jw_op \<Rightarrow> JsonlWriter \<times> 'd \<Rightarrow> JsonlWriter \<times> 'd" where
  "jw_exec io (Putc c) = jw_putc io c"
| "jw_exec io Commit = jw_commit_line io"
| "jw_exec io Flush = jw_flush io"

definition jw_pad :: "bytes \<Rightarrow> bytes" where
  "jw_pad l = l @ replicate ((JW_BATCH_BYTES - length l mod JW_BATCH_BYTES) mod JW_BATCH_BYTES) 0"

fun log_op :: "nat \<Rightarrow> jw_op \<Rightarrow> bytes \<Rightarrow> bytes" where
  "log_op limit (Putc c) l = (if length l < limit then l @ [c] else l)"
| "log_op limit Commit l = l"
| "log_op limit Flush l = jw_pad l"

definition store :: "u32 \<Rightarrow> bytes \<Rightarrow> ram \<Rightarrow> ram" where
  "store off xs m a = (if unat off \<le> unat a \<and> unat a < unat off + length xs then xs ! (unat a - unat off) else m a)"

lemma B_pos [simp]: "0 < JW_BATCH_BYTES" by (simp add: JW_BATCH_BYTES_def)

lemma unat_B [simp]: "unat (of_nat JW_BATCH_BYTES :: u32) = JW_BATCH_BYTES"
  by (simp add: JW_BATCH_BYTES_def)

lemma pad_full: "JW_BATCH_BYTES dvd length l \<Longrightarrow> jw_pad l = l"
  by (simp add: jw_pad_def)

lemma pad_part:
  assumes "length l = k + u" "JW_BATCH_BYTES dvd k" "0 < u" "u \<le> JW_BATCH_BYTES"
  shows "jw_pad l = l @ replicate (JW_BATCH_BYTES - u) 0"
proof (cases "u = JW_BATCH_BYTES")
  case True
  then show ?thesis using assms by (simp add: pad_full)
next
  case False
  then have "length l mod JW_BATCH_BYTES = u" using assms by (auto elim!: dvdE)
  then show ?thesis using assms False by (simp add: jw_pad_def)
qed

lemma dvd_next:
  assumes "b dvd k" "b dvd m" "k < m" "0 < b"
  shows "k + b \<le> (m :: nat)"
proof -
  have "b dvd m - k" using assms by (simp add: dvd_diff_nat)
  then have "b \<le> m - k" using assms by (intro dvd_imp_le) auto
  then show ?thesis using assms by simp
qed

definition medium_ok :: "'d jw_io \<Rightarrow> ('d \<Rightarrow> ram) \<Rightarrow> JwCtx \<Rightarrow> bool" where
  "medium_ok io disk c \<longleftrightarrow> (\<forall>off data d. disk (fst (io (jc_refnum c) (jc_drive c) off data d)) = store off data (disk d) \<and>
     snd (io (jc_refnum c) (jc_drive c) off data d) = 0)"

definition jw_space :: "JwCtx \<Rightarrow> bool" where
  "jw_space c \<longleftrightarrow> JW_BATCH_BYTES dvd unat (jc_max_bytes c) \<and> unat (jc_base_offset c) + unat (jc_max_bytes c) < 2 ^ 32"

text \<open>The invariant: what is written is on the medium, what is pending is in the sector buffer, and no byte
  outside the batches begun has changed.\<close>

definition jw_inv :: "('d \<Rightarrow> ram) \<Rightarrow> JwCtx \<Rightarrow> ram \<Rightarrow> bytes \<Rightarrow> JsonlWriter \<times> 'd \<Rightarrow> bool" where
  "jw_inv disk c m0 l wd \<longleftrightarrow>
    (let (w, d) = wd; base = unat (jc_base_offset c); k = unat (jw_written w); u = unat (jw_used w) in
     jw_ctx w = c \<and> jw_last_err w = 0 \<and> length (jw_sector w) = JW_BATCH_BYTES \<and> JW_BATCH_BYTES dvd k \<and> u \<le> JW_BATCH_BYTES \<and>
     length l = k + u \<and> length l \<le> unat (jc_max_bytes c) \<and> take u (jw_sector w) = drop k l \<and>
     (\<forall>a. base \<le> unat a \<and> unat a < base + k \<longrightarrow> disk d a = l ! (unat a - base)) \<and>
     (\<forall>a. \<not> (base \<le> unat a \<and> unat a < base + length (jw_pad l)) \<longrightarrow> disk d a = m0 a))"

lemma inv_init: "jw_inv disk c (disk d) [] (jw_init c, d)"
  by (auto simp: jw_inv_def jw_init_def jw_pad_def Let_def)

lemma batch_offset:
  assumes "JW_BATCH_BYTES dvd unat (k :: u32)"
  shows "k div of_nat JW_BATCH_BYTES * of_nat JW_BATCH_BYTES = k"
proof -
  have "unat (k div of_nat JW_BATCH_BYTES) * JW_BATCH_BYTES = unat k"
    using assms by (simp add: unat_div dvd_div_mult_self)
  then have "unat (k div of_nat JW_BATCH_BYTES * of_nat JW_BATCH_BYTES) = unat k mod 2 ^ 32"
    by (simp add: unat_word_ariths(2))
  moreover have "unat k < 2 ^ LENGTH(32)" by (rule unsigned_less)
  ultimately have "unat (k div of_nat JW_BATCH_BYTES * of_nat JW_BATCH_BYTES) = unat k" by simp
  then show ?thesis by (simp add: word_unat_eq_iff)
qed

lemma write_batch:
  assumes inv: "jw_inv disk c m0 l (w, d)" and u: "0 < jw_used w" and m: "medium_ok io disk c" and sp: "jw_space c"
  obtains w' d' where "write_current_batch io (w, d) = (w', d')" "jw_inv disk c m0 l (w', d')"
    "jw_written w' = jw_written w" "jw_used w' = jw_used w" "length (jw_pad l) = unat (jw_written w) + JW_BATCH_BYTES"
    "\<forall>a. disk d' a = store (jc_base_offset c) (jw_pad l) m0 a" "length (jw_pad l) \<le> unat (jc_max_bytes c)"
proof -
  let ?k = "unat (jw_written w)" and ?u = "unat (jw_used w)" and ?B = JW_BATCH_BYTES
  have i: "jw_ctx w = c" "jw_last_err w = 0" "length (jw_sector w) = ?B" "?B dvd ?k" "?u \<le> ?B" "length l = ?k + ?u"
    "length l \<le> unat (jc_max_bytes c)" "take ?u (jw_sector w) = drop ?k l"
    and on: "\<And>a. unat (jc_base_offset c) \<le> unat a \<Longrightarrow> unat a < unat (jc_base_offset c) + ?k \<Longrightarrow> disk d a = l ! (unat a - unat (jc_base_offset c))"
    and off: "\<And>a. \<not> (unat (jc_base_offset c) \<le> unat a \<and> unat a < unat (jc_base_offset c) + length (jw_pad l)) \<Longrightarrow> disk d a = m0 a"
    using inv by (simp_all add: jw_inv_def Let_def)
  have u0: "0 < ?u" using u by (simp add: word_less_nat_alt)
  have pad: "jw_pad l = l @ replicate (?B - ?u) 0" using pad_part i u0 by blast
  then have lp: "length (jw_pad l) = ?k + ?B" using i by simp
  have fits: "?k + ?B \<le> unat (jc_max_bytes c)"
    using dvd_next [of ?B ?k "unat (jc_max_bytes c)"] i sp u0 by (simp add: jw_space_def)
  define sec where "sec = take ?u (jw_sector w) @ replicate (?B - ?u) 0"
  let ?w1 = "w\<lparr>jw_sector := sec\<rparr>"
  have s1: "(if jw_used w < of_nat ?B then ?w1 else w) = ?w1"
  proof (cases "?u < ?B")
    case True
    then show ?thesis by (simp add: word_less_nat_alt)
  next
    case False
    then have "sec = jw_sector w" using i by (simp add: sec_def)
    then show ?thesis by simp
  qed
  have s2: "sec = drop ?k (jw_pad l)" and ls: "length sec = ?B" using i pad by (simp_all add: sec_def)
  let ?off = "jc_base_offset c + jw_written w"
  have uoff: "unat ?off = unat (jc_base_offset c) + ?k"
    using sp fits by (simp add: unat_word_ariths jw_space_def)
  define r where "r = io (jc_refnum c) (jc_drive c) ?off sec d"
  have r: "disk (fst r) = store ?off sec (disk d)" "snd r = 0" using m by (simp_all add: medium_ok_def r_def)
  have eq: "write_current_batch io (w, d) = (?w1, fst r)"
    unfolding write_current_batch_def prod.case Let_def sec_def [symmetric] s1
    using r(2) i by (simp add: driver_write_sector_def batch_offset split_beta r_def)
  have l: "jw_pad l ! j = l ! j" if "j < ?k" for j using that i pad by (simp add: nth_append)
  have img: "disk (fst r) a = store (jc_base_offset c) (jw_pad l) m0 a" for a
  proof -
    consider "unat a < unat (jc_base_offset c)" | "unat (jc_base_offset c) \<le> unat a" "unat a < unat (jc_base_offset c) + ?k"
      | "unat (jc_base_offset c) + ?k \<le> unat a" "unat a < unat (jc_base_offset c) + ?k + ?B"
      | "unat (jc_base_offset c) + ?k + ?B \<le> unat a" by linarith
    then show ?thesis
    proof cases
      case 1
      then show ?thesis using off [of a] by (simp add: r store_def uoff ls)
    next
      case 2
      then show ?thesis using on [of a] lp l [of "unat a - unat (jc_base_offset c)"] by (simp add: r store_def uoff ls)
    next
      case 3
      then have "sec ! (unat a - (unat (jc_base_offset c) + ?k)) = jw_pad l ! (unat a - unat (jc_base_offset c))"
        unfolding s2 by (subst nth_drop) (use lp 3 in \<open>simp_all\<close>)
      then show ?thesis using 3 i lp by (simp add: r store_def uoff ls)
    next
      case 4
      then show ?thesis using off [of a] i lp by (simp add: r store_def uoff ls)
    qed
  qed
  have "jw_inv disk c m0 l (?w1, fst r)"
    using i ls by (auto simp: jw_inv_def Let_def img store_def lp l sec_def)
  then show ?thesis using that eq img lp fits by auto
qed

lemma flush_inv:
  assumes inv: "jw_inv disk c m0 l (w, d)" and u: "0 < jw_used w" and m: "medium_ok io disk c" and sp: "jw_space c"
  shows "jw_inv disk c m0 (jw_pad l) (flush_sector io (w, d))" "jw_used (fst (flush_sector io (w, d))) = 0"
proof -
  obtain w' d' where b: "write_current_batch io (w, d) = (w', d')" "jw_inv disk c m0 l (w', d')" "jw_written w' = jw_written w"
    "jw_used w' = jw_used w" "length (jw_pad l) = unat (jw_written w) + JW_BATCH_BYTES"
    "\<forall>a. disk d' a = store (jc_base_offset c) (jw_pad l) m0 a" "length (jw_pad l) \<le> unat (jc_max_bytes c)"
    using write_batch [OF inv u m sp] .
  have dv: "JW_BATCH_BYTES dvd unat (jw_written w)" using inv by (simp add: jw_inv_def Let_def)
  have "unat (jw_written w + of_nat JW_BATCH_BYTES) = unat (jw_written w) + JW_BATCH_BYTES"
    using b(5,7) sp by (simp add: unat_word_ariths jw_space_def)
  moreover have "jw_pad (jw_pad l) = jw_pad l" using b(5) dv by (intro pad_full) simp
  ultimately show "jw_inv disk c m0 (jw_pad l) (flush_sector io (w, d))"
    using b dv by (auto simp: flush_sector_def jw_inv_def Let_def store_def)
  show "jw_used (fst (flush_sector io (w, d))) = 0" by (simp add: flush_sector_def split_beta Let_def)
qed

lemma putc_inv:
  assumes inv: "jw_inv disk c m0 l (w, d)" and lt: "unat (jw_used w) < JW_BATCH_BYTES" and m: "medium_ok io disk c" and sp: "jw_space c"
  shows "jw_inv disk c m0 (log_op (unat (jc_max_bytes c)) (Putc x) l) (jw_putc io x (w, d)) \<and>
    unat (jw_used (fst (jw_putc io x (w, d)))) < JW_BATCH_BYTES"
proof -
  let ?k = "unat (jw_written w)" and ?u = "unat (jw_used w)"
  have i: "jw_ctx w = c" "length (jw_sector w) = JW_BATCH_BYTES" "JW_BATCH_BYTES dvd ?k" "length l = ?k + ?u"
    "length l \<le> unat (jc_max_bytes c)" "take ?u (jw_sector w) = drop ?k l"
    using inv by (simp_all add: jw_inv_def Let_def)
  have sum: "unat (jw_written w + jw_used w) = ?k + ?u"
    using i sp by (simp add: unat_word_ariths jw_space_def)
  show ?thesis
  proof (cases "length l < unat (jc_max_bytes c)")
    case False
    then have "jw_putc io x (w, d) = (w, d)" using i sum by (simp add: jw_putc_def word_le_nat_alt)
    then show ?thesis using inv lt False by simp
  next
    case True
    let ?w = "w\<lparr>jw_sector := (jw_sector w)[?u := x], jw_used := jw_used w + 1\<rparr>"
    have u1: "unat (jw_used w + 1) = ?u + 1"
      using lt by (simp add: unat_word_ariths JW_BATCH_BYTES_def)
    have pad: "jw_pad (l @ [x]) = (l @ [x]) @ replicate (JW_BATCH_BYTES - (?u + 1)) 0"
      using i lt by (intro pad_part [of _ ?k]) auto
    have lpad: "length (jw_pad l) \<le> ?k + JW_BATCH_BYTES"
    proof (cases "?u = 0")
      case True
      then show ?thesis using i by (simp add: pad_full)
    next
      case False
      then show ?thesis using i lt pad_part [of l ?k ?u] by simp
    qed
    have tk: "take (?u + 1) ((jw_sector w)[?u := x]) = drop ?k (l @ [x])"
      using i lt by (simp add: take_Suc_conv_app_nth)
    have inv': "jw_inv disk c m0 (l @ [x]) (?w, d)"
      using inv True lt tk pad lpad i by (auto simp: jw_inv_def Let_def u1 nth_append)
    have p: "jw_putc io x (w, d) = (if ?u + 1 = JW_BATCH_BYTES then flush_sector io (?w, d) else (?w, d))"
    proof -
      have "jw_used w + 1 = of_nat JW_BATCH_BYTES \<longleftrightarrow> ?u + 1 = JW_BATCH_BYTES"
        unfolding word_unat_eq_iff u1 unat_B ..
      then show ?thesis using True i sum by (simp add: jw_putc_def word_le_nat_alt)
    qed
    show ?thesis
    proof (cases "?u + 1 = JW_BATCH_BYTES")
      case False
      then show ?thesis using inv' lt True p u1 by simp
    next
      case full: True
      then have "jw_pad (l @ [x]) = l @ [x]" using pad by simp
      moreover have "0 < jw_used ?w" using u1 by (simp add: word_less_nat_alt)
      ultimately show ?thesis using flush_inv [OF inv' _ m sp] full True p by simp
    qed
  qed
qed

lemma exec_inv:
  assumes inv: "jw_inv disk c m0 l wd" and lt: "unat (jw_used (fst wd)) < JW_BATCH_BYTES" and m: "medium_ok io disk c" and sp: "jw_space c"
  shows "jw_inv disk c m0 (log_op (unat (jc_max_bytes c)) op l) (jw_exec io op wd) \<and>
    unat (jw_used (fst (jw_exec io op wd))) < JW_BATCH_BYTES"
proof -
  obtain w d where wd: "wd = (w, d)" by (cases wd)
  have zero: "jw_pad l = l" if "jw_used w = 0"
    using inv that by (intro pad_full) (simp add: wd jw_inv_def Let_def)
  show ?thesis
  proof (cases op)
    case (Putc x)
    then show ?thesis using putc_inv inv lt m sp unfolding wd by fastforce
  next
    case Commit
    show ?thesis
    proof (cases "jw_used w = 0")
      case False
      then have "0 < jw_used w" by (simp add: word_neq_0_conv)
      obtain w' d' where b: "write_current_batch io (w, d) = (w', d')" "jw_inv disk c m0 l (w', d')" "jw_used w' = jw_used w"
        using write_batch [OF inv [unfolded wd] \<open>0 < jw_used w\<close> m sp] by metis
      then have "jw_exec io op wd = (w', d')" using Commit False by (simp add: wd jw_commit_line_def)
      then show ?thesis using b lt Commit by (simp add: wd)
    qed (use inv lt Commit in \<open>simp add: wd jw_commit_line_def\<close>)
  next
    case Flush
    show ?thesis
    proof (cases "jw_used w = 0")
      case False
      then have "0 < jw_used w" by (simp add: word_neq_0_conv)
      then show ?thesis using flush_inv [OF inv [unfolded wd] _ m sp] Flush by (simp add: wd jw_flush_def)
    qed (use inv lt Flush zero in \<open>simp add: wd jw_flush_def\<close>)
  qed
qed

lemma run_inv:
  assumes m: "medium_ok io disk c" and sp: "jw_space c"
  shows "jw_inv disk c (disk d) (fold (log_op (unat (jc_max_bytes c))) ops []) (fold (jw_exec io) ops (jw_init c, d)) \<and>
    unat (jw_used (fst (fold (jw_exec io) ops (jw_init c, d)))) < JW_BATCH_BYTES"
proof (induction ops rule: rev_induct)
  case Nil
  have "unat (jw_used (jw_init c)) < JW_BATCH_BYTES" by (simp add: jw_init_def)
  then show ?case by (simp add: inv_init)
next
  case (snoc op ops)
  let ?wd = "fold (jw_exec io) ops (jw_init c, d)"
  have "jw_inv disk c (disk d) (fold (log_op (unat (jc_max_bytes c))) ops []) ?wd" "unat (jw_used (fst ?wd)) < JW_BATCH_BYTES"
    using snoc by auto
  from exec_inv [OF this m sp, of op] show ?case by simp
qed


definition kept_medium :: "ram jw_io" where
  "kept_medium r dr off data d = (store off data d, 0)"


text \<open>The error kept is the first one, whatever the medium answers; the results of a run in order.\<close>

fun first_error :: "u16 list \<Rightarrow> u16" where
  "first_error [] = 0"
| "first_error (r # rs) = (if r \<noteq> 0 then r else first_error rs)"

lemma first_error_snoc: "first_error (rs @ [r]) = (if first_error rs = 0 then r else first_error rs)"
  by (induction rs) auto

lemma first_error_zero: "first_error rs = 0 \<longleftrightarrow> list_all (\<lambda>r. r = 0) rs"
  by (induction rs) auto

definition logged_io :: "'d jw_io \<Rightarrow> ('d \<times> u16 list) jw_io" where
  "logged_io io r dr off data = (\<lambda>(d, rs). let (d', e) = io r dr off data d in ((d', rs @ [e]), e))"

definition errs_ok :: "JsonlWriter \<times> 'd \<times> u16 list \<Rightarrow> bool" where
  "errs_ok wd \<longleftrightarrow> jw_last_err (fst wd) = first_error (snd (snd wd))"

lemma batch_errs: "errs_ok wd \<Longrightarrow> errs_ok (write_current_batch (logged_io io) wd)"
  by (cases wd) (simp add: errs_ok_def write_current_batch_def driver_write_sector_def logged_io_def Let_def split_beta first_error_snoc)

lemma errs_same: "jw_last_err w' = jw_last_err w \<Longrightarrow> errs_ok (w, d) \<Longrightarrow> errs_ok (w', d)"
  by (simp add: errs_ok_def)

lemma flush_errs: "errs_ok wd \<Longrightarrow> errs_ok (flush_sector (logged_io io) wd)"
  using batch_errs [of wd io] by (simp add: flush_sector_def split_beta Let_def errs_ok_def)

lemma exec_errs: "errs_ok wd \<Longrightarrow> errs_ok (jw_exec (logged_io io) op wd)"
proof (cases op)
  case (Putc x)
  assume "errs_ok wd"
  then show ?thesis using Putc flush_errs [of "(_, snd wd)" io] errs_same [of _ "fst wd" "snd wd"]
    by (cases wd) (simp add: jw_putc_def Let_def)
qed (simp_all add: jw_commit_line_def jw_flush_def batch_errs flush_errs)


end
