(* ===== verification/GuestScreen.thy ===== *)
theory GuestScreen
  imports JsonlWriter
begin

text \<open>
  The text display of the benches that boot on the Macintosh itself
  (\<open>preboot/common/display/display_1bpp.c\<close>): an 8 by 8 font and a painter that writes glyphs straight
  into the frame buffer, whose address the ROM keeps at \<open>$0824\<close>. A row of the screen is \<open>rb\<close> bytes, the
  constant \<open>ROW_BYTES\<close> of the build. Memory is a function from addresses to bytes.
\<close>

section \<open>The font\<close>

definition g_glyphs :: "bytes list" where
  "g_glyphs =
    [[0x00, 0x00, 0x00, 0x00, 0x00, 0x00, 0x00, 0x00],
     [0x18, 0x18, 0x18, 0x18, 0x18, 0x00, 0x18, 0x00],
     [0x36, 0x36, 0x14, 0x00, 0x00, 0x00, 0x00, 0x00],
     [0x14, 0x14, 0x7F, 0x14, 0x7F, 0x14, 0x14, 0x00],
     [0x08, 0x3E, 0x40, 0x3C, 0x02, 0x7C, 0x10, 0x00],
     [0x62, 0x64, 0x08, 0x10, 0x26, 0x46, 0x00, 0x00],
     [0x30, 0x48, 0x30, 0x52, 0x4C, 0x32, 0x00, 0x00],
     [0x18, 0x18, 0x10, 0x00, 0x00, 0x00, 0x00, 0x00],
     [0x0C, 0x10, 0x20, 0x20, 0x20, 0x10, 0x0C, 0x00],
     [0x30, 0x08, 0x04, 0x04, 0x04, 0x08, 0x30, 0x00],
     [0x00, 0x24, 0x18, 0x7E, 0x18, 0x24, 0x00, 0x00],
     [0x00, 0x08, 0x08, 0x3E, 0x08, 0x08, 0x00, 0x00],
     [0x00, 0x00, 0x00, 0x00, 0x00, 0x18, 0x18, 0x10],
     [0x00, 0x00, 0x00, 0x3E, 0x00, 0x00, 0x00, 0x00],
     [0x00, 0x00, 0x00, 0x00, 0x00, 0x18, 0x18, 0x00],
     [0x02, 0x04, 0x08, 0x10, 0x20, 0x40, 0x00, 0x00],
     [0x3C, 0x42, 0x46, 0x4A, 0x52, 0x62, 0x3C, 0x00],
     [0x18, 0x28, 0x08, 0x08, 0x08, 0x08, 0x3E, 0x00],
     [0x3C, 0x42, 0x02, 0x0C, 0x30, 0x40, 0x7E, 0x00],
     [0x3C, 0x42, 0x02, 0x1C, 0x02, 0x42, 0x3C, 0x00],
     [0x04, 0x0C, 0x14, 0x24, 0x7E, 0x04, 0x04, 0x00],
     [0x7E, 0x40, 0x7C, 0x02, 0x02, 0x42, 0x3C, 0x00],
     [0x1C, 0x20, 0x40, 0x7C, 0x42, 0x42, 0x3C, 0x00],
     [0x7E, 0x02, 0x04, 0x08, 0x10, 0x20, 0x20, 0x00],
     [0x3C, 0x42, 0x42, 0x3C, 0x42, 0x42, 0x3C, 0x00],
     [0x3C, 0x42, 0x42, 0x3E, 0x02, 0x04, 0x38, 0x00],
     [0x00, 0x18, 0x18, 0x00, 0x18, 0x18, 0x00, 0x00],
     [0x00, 0x18, 0x18, 0x00, 0x18, 0x18, 0x10, 0x00],
     [0x04, 0x08, 0x10, 0x20, 0x10, 0x08, 0x04, 0x00],
     [0x00, 0x00, 0x7E, 0x00, 0x7E, 0x00, 0x00, 0x00],
     [0x20, 0x10, 0x08, 0x04, 0x08, 0x10, 0x20, 0x00],
     [0x3C, 0x42, 0x02, 0x0C, 0x10, 0x00, 0x10, 0x00],
     [0x3C, 0x42, 0x5E, 0x52, 0x5E, 0x40, 0x3E, 0x00],
     [0x3C, 0x42, 0x42, 0x7E, 0x42, 0x42, 0x42, 0x00],
     [0x7C, 0x42, 0x42, 0x7C, 0x42, 0x42, 0x7C, 0x00],
     [0x3C, 0x42, 0x40, 0x40, 0x40, 0x42, 0x3C, 0x00],
     [0x78, 0x44, 0x42, 0x42, 0x42, 0x44, 0x78, 0x00],
     [0x7E, 0x40, 0x40, 0x7C, 0x40, 0x40, 0x7E, 0x00],
     [0x7E, 0x40, 0x40, 0x7C, 0x40, 0x40, 0x40, 0x00],
     [0x3C, 0x42, 0x40, 0x4E, 0x42, 0x42, 0x3C, 0x00],
     [0x42, 0x42, 0x42, 0x7E, 0x42, 0x42, 0x42, 0x00],
     [0x3E, 0x08, 0x08, 0x08, 0x08, 0x08, 0x3E, 0x00],
     [0x02, 0x02, 0x02, 0x02, 0x02, 0x42, 0x3C, 0x00],
     [0x42, 0x44, 0x48, 0x70, 0x48, 0x44, 0x42, 0x00],
     [0x40, 0x40, 0x40, 0x40, 0x40, 0x40, 0x7E, 0x00],
     [0x42, 0x66, 0x5A, 0x42, 0x42, 0x42, 0x42, 0x00],
     [0x42, 0x62, 0x52, 0x4A, 0x46, 0x42, 0x42, 0x00],
     [0x3C, 0x42, 0x42, 0x42, 0x42, 0x42, 0x3C, 0x00],
     [0x7C, 0x42, 0x42, 0x7C, 0x40, 0x40, 0x40, 0x00],
     [0x3C, 0x42, 0x42, 0x42, 0x4A, 0x44, 0x3A, 0x00],
     [0x7C, 0x42, 0x42, 0x7C, 0x48, 0x44, 0x42, 0x00],
     [0x3C, 0x42, 0x40, 0x3C, 0x02, 0x42, 0x3C, 0x00],
     [0x7F, 0x08, 0x08, 0x08, 0x08, 0x08, 0x08, 0x00],
     [0x42, 0x42, 0x42, 0x42, 0x42, 0x42, 0x3C, 0x00],
     [0x42, 0x42, 0x42, 0x42, 0x42, 0x24, 0x18, 0x00],
     [0x42, 0x42, 0x42, 0x42, 0x5A, 0x66, 0x42, 0x00],
     [0x42, 0x42, 0x24, 0x18, 0x24, 0x42, 0x42, 0x00],
     [0x42, 0x42, 0x42, 0x3C, 0x18, 0x18, 0x18, 0x00],
     [0x7E, 0x02, 0x04, 0x18, 0x20, 0x40, 0x7E, 0x00],
     [0x1C, 0x10, 0x10, 0x10, 0x10, 0x10, 0x1C, 0x00],
     [0x40, 0x20, 0x10, 0x08, 0x04, 0x02, 0x00, 0x00],
     [0x38, 0x08, 0x08, 0x08, 0x08, 0x08, 0x38, 0x00],
     [0x18, 0x24, 0x42, 0x00, 0x00, 0x00, 0x00, 0x00],
     [0x00, 0x00, 0x00, 0x00, 0x00, 0x00, 0x00, 0x7E],
     [0x18, 0x18, 0x08, 0x00, 0x00, 0x00, 0x00, 0x00],
     [0x00, 0x00, 0x3C, 0x02, 0x3E, 0x42, 0x3E, 0x00],
     [0x40, 0x40, 0x7C, 0x42, 0x42, 0x42, 0x7C, 0x00],
     [0x00, 0x00, 0x3C, 0x42, 0x40, 0x42, 0x3C, 0x00],
     [0x02, 0x02, 0x3E, 0x42, 0x42, 0x42, 0x3E, 0x00],
     [0x00, 0x00, 0x3C, 0x42, 0x7E, 0x40, 0x3C, 0x00],
     [0x0C, 0x10, 0x3E, 0x10, 0x10, 0x10, 0x10, 0x00],
     [0x00, 0x00, 0x3E, 0x42, 0x42, 0x3E, 0x02, 0x3C],
     [0x40, 0x40, 0x7C, 0x42, 0x42, 0x42, 0x42, 0x00],
     [0x08, 0x00, 0x18, 0x08, 0x08, 0x08, 0x1C, 0x00],
     [0x04, 0x00, 0x0C, 0x04, 0x04, 0x04, 0x44, 0x38],
     [0x40, 0x40, 0x44, 0x48, 0x70, 0x48, 0x44, 0x00],
     [0x18, 0x08, 0x08, 0x08, 0x08, 0x08, 0x1C, 0x00],
     [0x00, 0x00, 0x76, 0x49, 0x49, 0x49, 0x49, 0x00],
     [0x00, 0x00, 0x7C, 0x42, 0x42, 0x42, 0x42, 0x00],
     [0x00, 0x00, 0x3C, 0x42, 0x42, 0x42, 0x3C, 0x00],
     [0x00, 0x00, 0x7C, 0x42, 0x42, 0x7C, 0x40, 0x40],
     [0x00, 0x00, 0x3E, 0x42, 0x42, 0x3E, 0x02, 0x02],
     [0x00, 0x00, 0x5C, 0x62, 0x40, 0x40, 0x40, 0x00],
     [0x00, 0x00, 0x3E, 0x40, 0x3C, 0x02, 0x7C, 0x00],
     [0x10, 0x10, 0x3E, 0x10, 0x10, 0x12, 0x0C, 0x00],
     [0x00, 0x00, 0x42, 0x42, 0x42, 0x42, 0x3E, 0x00],
     [0x00, 0x00, 0x42, 0x42, 0x42, 0x24, 0x18, 0x00],
     [0x00, 0x00, 0x42, 0x42, 0x49, 0x49, 0x36, 0x00],
     [0x00, 0x00, 0x42, 0x24, 0x18, 0x24, 0x42, 0x00],
     [0x00, 0x00, 0x42, 0x42, 0x42, 0x3E, 0x02, 0x3C],
     [0x00, 0x00, 0x7E, 0x04, 0x18, 0x20, 0x7E, 0x00],
     [0x0C, 0x10, 0x10, 0x60, 0x10, 0x10, 0x0C, 0x00],
     [0x18, 0x18, 0x18, 0x18, 0x18, 0x18, 0x18, 0x00],
     [0x30, 0x08, 0x08, 0x06, 0x08, 0x08, 0x30, 0x00],
     [0x00, 0x00, 0x32, 0x4C, 0x00, 0x00, 0x00, 0x00]]"

definition g_font :: bytes where
  "g_font = concat g_glyphs"

section \<open>Painting\<close>

definition paint_glyph_at :: "u32 \<Rightarrow> u32 \<Rightarrow> u8 \<Rightarrow> ram \<Rightarrow> ram" where
  "paint_glyph_at rb p c m =
    (let c = (if c < 0x20 \<or> 0x7E < c then 63 else c); g = unat (c - 0x20) * 8
     in fold (\<lambda>row m. m(p + of_nat row * rb := NOT (g_font ! (g + row)))) [0..<8] m)"

text \<open>The two loops of \<open>paint_string\<close>: the characters up to the NUL, then blanks; \<open>n\<close> cells are left. The
  string ends with its list (the NUL of the source) or at a NUL in it.\<close>

fun paint_chars :: "u32 \<Rightarrow> u32 \<Rightarrow> bytes \<Rightarrow> nat \<Rightarrow> ram \<Rightarrow> ram" where
  "paint_chars rb p s 0 m = m"
| "paint_chars rb p [] (Suc n) m = paint_chars rb (p + 1) [] n (paint_glyph_at rb p 32 m)"
| "paint_chars rb p (c # s) (Suc n) m =
    (if c = 0 then paint_chars rb (p + 1) [] n (paint_glyph_at rb p 32 m)
     else paint_chars rb (p + 1) s n (paint_glyph_at rb p c m))"

definition long_at :: "u32 \<Rightarrow> ram \<Rightarrow> u32" where
  "long_at a m = push_bit 24 (ucast (m a)) OR push_bit 16 (ucast (m (a + 1))) OR push_bit 8 (ucast (m (a + 2))) OR ucast (m (a + 3))"

definition paint_string :: "u32 \<Rightarrow> u32 \<Rightarrow> u32 \<Rightarrow> bytes \<Rightarrow> nat \<Rightarrow> ram \<Rightarrow> ram" where
  "paint_string rb row col_byte s max_chars m =
    (let fb = long_at 0x0824 m in
     if fb = 0 \<or> fb < 0x00100000 then m
     else paint_chars rb (fb + row * rb + col_byte) s max_chars m)"

section \<open>Glyphs\<close>

lemma concat_nth: "\<forall>x\<in>set xs. length x = n \<Longrightarrow> i < length xs \<Longrightarrow> r < n \<Longrightarrow> concat xs ! (i * n + r) = xs ! i ! r"
proof (induction xs arbitrary: i)
  case (Cons x xs)
  show ?case
  proof (cases i)
    case (Suc j)
    then show ?thesis using Cons by (simp add: nth_append add.assoc)
  qed (use Cons in \<open>simp add: nth_append\<close>)
qed simp

lemma glyphs_shape: "length g_glyphs = 95" "\<forall>g\<in>set g_glyphs. length g = 8"
  by (simp_all add: g_glyphs_def)

lemma glyphs_distinct: "distinct g_glyphs"
  unfolding g_glyphs_def by code_simp

definition glyph :: "u8 \<Rightarrow> bytes" where
  "glyph c = g_glyphs ! unat ((if c < 0x20 \<or> 0x7E < c then 63 else c) - 0x20)"
lemma font_glyph:
  assumes "r < 8"
  shows "g_font ! (unat ((if c < 0x20 \<or> 0x7E < c then 63 else c) - 0x20 :: u8) * 8 + r) = glyph c ! r"
proof -
  have "unat ((if c < 0x20 \<or> 0x7E < c then 63 else c) - 0x20 :: u8) < 95"
    by (auto simp: word_less_nat_alt unat_sub word_le_nat_alt not_less)
  then show ?thesis
    unfolding g_font_def glyph_def using glyphs_shape assms by (intro concat_nth) simp_all
qed

lemma fold_upd_other: "a \<notin> f ` set rs \<Longrightarrow> fold (\<lambda>r m. m(f r := v r)) rs m a = m a"
  by (induction rs arbitrary: m) auto

lemma fold_upd_in: "inj_on f (set rs) \<Longrightarrow> distinct rs \<Longrightarrow> r \<in> set rs \<Longrightarrow> fold (\<lambda>r m. m(f r := v r)) rs m (f r) = v r"
proof (induction rs arbitrary: m)
  case (Cons x rs)
  show ?case
  proof (cases "x = r")
    case True
    then have "f r \<notin> f ` set rs" using Cons.prems by (auto simp: inj_on_def)
    from fold_upd_other [OF this, of v "m(f r := v r)"] show ?thesis using True by (simp del: fun_upd_apply add: fun_upd_same)
  next
    case False
    then show ?thesis using Cons by (simp add: inj_on_def)
  qed
qed simp

section \<open>Where a string goes\<close>

text \<open>The cells of a line do not overlap and stay inside the address space.\<close>

definition line_fits :: "u32 \<Rightarrow> u32 \<Rightarrow> nat \<Rightarrow> bool" where
  "line_fits rb p n \<longleftrightarrow> n \<le> unat rb \<and> 0 < rb \<and> unat p + 7 * unat rb + n \<le> 2 ^ 32"

definition cell_addr :: "u32 \<Rightarrow> u32 \<Rightarrow> nat \<Rightarrow> nat \<Rightarrow> u32" where
  "cell_addr rb p j r = p + of_nat j + of_nat r * rb"

lemma cell_addr_unat:
  assumes "line_fits rb p n" "j < n" "r < 8"
  shows "unat (cell_addr rb p j r) = unat p + j + r * unat rb"
proof -
  have "r * unat rb \<le> 7 * unat rb" using assms(3) by (intro mult_right_mono) auto
  then have "unat p + j + r * unat rb < 2 ^ 32" using assms(1,2) unfolding line_fits_def by linarith
  moreover have "cell_addr rb p j r = of_nat (unat p + j + r * unat rb)" by (simp add: cell_addr_def)
  ultimately show ?thesis using take_bit_nat_eq_self [of "unat p + j + r * unat rb" 32] by (simp only: unsigned_of_nat) simp
qed

lemma cell_addr_eq:
  assumes "line_fits rb p n" "j < n" "r < 8" "j' < n" "r' < 8"
  shows "cell_addr rb p j r = cell_addr rb p j' r' \<longleftrightarrow> j = j' \<and> r = r'"
proof
  assume "cell_addr rb p j r = cell_addr rb p j' r'"
  then have e: "j + r * unat rb = j' + r' * unat rb"
    using cell_addr_unat [OF assms(1-3)] cell_addr_unat [OF assms(1,4,5)] by simp
  have b: "j < unat rb" "j' < unat rb" using assms by (simp_all add: line_fits_def)
  then have "(j + r * unat rb) div unat rb = r" "(j' + r' * unat rb) div unat rb = r'" by simp_all
  then have "r = r'" using e by simp
  then show "j = j' \<and> r = r'" using e by simp
qed simp

lemma cell_addr_Suc: "cell_addr rb p (Suc j) r = cell_addr rb (p + 1) j r"
  by (simp add: cell_addr_def algebra_simps)

lemma line_fits_Suc: "line_fits rb p (Suc n) \<Longrightarrow> line_fits rb (p + 1) n"
proof -
  assume a: "line_fits rb p (Suc n)"
  then have "0 < unat rb" by (simp add: line_fits_def word_less_nat_alt)
  then have "unat p + 1 < 2 ^ 32" using a by (simp add: line_fits_def)
  then have "unat (p + 1) = unat p + 1" by (simp add: unat_word_ariths)
  then show ?thesis using a by (simp add: line_fits_def)
qed

lemma glyph_frame: "\<forall>r<8. a \<noteq> cell_addr rb p 0 r \<Longrightarrow> paint_glyph_at rb p c m a = m a"
  unfolding paint_glyph_at_def Let_def by (rule fold_upd_other) (auto simp: cell_addr_def)

lemma glyph_painted:
  assumes "line_fits rb p (Suc n)" "r < 8"
  shows "paint_glyph_at rb p c m (cell_addr rb p 0 r) = NOT (glyph c ! r)"
proof -
  have "inj_on (\<lambda>row. p + of_nat row * rb) (set [0..<8])"
    using cell_addr_eq [OF assms(1), of 0 _ 0] by (auto simp: inj_on_def cell_addr_def)
  moreover have "r \<in> set [0..<8]" using assms(2) by simp
  ultimately have "paint_glyph_at rb p c m (p + of_nat r * rb) =
      NOT (g_font ! (unat ((if c < 0x20 \<or> 0x7E < c then 63 else c) - 0x20) * 8 + r))"
    unfolding paint_glyph_at_def Let_def by (intro fold_upd_in distinct_upt)
  then show ?thesis unfolding font_glyph [OF assms(2)] by (simp add: cell_addr_def)
qed

fun shown :: "bytes \<Rightarrow> nat \<Rightarrow> bytes" where
  "shown s 0 = []"
| "shown [] (Suc n) = 32 # shown [] n"
| "shown (c # s) (Suc n) = (if c = 0 then 32 # shown [] n else c # shown s n)"

lemma length_shown [simp]: "length (shown s n) = n"
  by (induction s n rule: shown.induct) auto

lemma chars_frame: "\<forall>j<n. \<forall>r<8. a \<noteq> cell_addr rb p j r \<Longrightarrow> paint_chars rb p s n m a = m a"
proof (induction rb p s n m rule: paint_chars.induct)
  case (2 rb p n m)
  then have "\<forall>j<n. \<forall>r<8. a \<noteq> cell_addr rb (p + 1) j r" by (metis Suc_less_eq cell_addr_Suc)
  then show ?case using 2 by (simp add: glyph_frame)
next
  case (3 rb p c s n m)
  then have "\<forall>j<n. \<forall>r<8. a \<noteq> cell_addr rb (p + 1) j r" by (metis Suc_less_eq cell_addr_Suc)
  then show ?case using 3 by (simp add: glyph_frame)
qed simp

lemma rest_keeps_first:
  assumes "line_fits rb p (Suc n)" "r < 8"
  shows "paint_chars rb (p + 1) s n m (cell_addr rb p 0 r) = m (cell_addr rb p 0 r)"
proof (rule chars_frame, intro allI impI)
  fix j r' :: nat assume "j < n" "r' < 8"
  then show "cell_addr rb p 0 r \<noteq> cell_addr rb (p + 1) j r'"
    using cell_addr_eq [OF assms(1), of 0 r "Suc j" r'] assms(2) by (simp add: cell_addr_Suc)
qed

lemma chars_painted:
  "line_fits rb p n \<Longrightarrow> j < n \<Longrightarrow> r < 8 \<Longrightarrow> paint_chars rb p s n m (cell_addr rb p j r) = NOT (glyph (shown s n ! j) ! r)"
proof (induction rb p s n m arbitrary: j rule: paint_chars.induct)
  case (2 rb p n m)
  show ?case
  proof (cases j)
    case 0
    then show ?thesis using 2 rest_keeps_first glyph_painted by simp
  next
    case (Suc i)
    then show ?thesis using 2 line_fits_Suc by (simp add: cell_addr_Suc)
  qed
next
  case (3 rb p c s n m)
  show ?case
  proof (cases j)
    case 0
    then show ?thesis using 3 rest_keeps_first glyph_painted by simp
  next
    case (Suc i)
    then show ?thesis using 3 line_fits_Suc by (simp add: cell_addr_Suc)
  qed
qed simp

section \<open>What the painter promises\<close>

text \<open>Reading a cell back: the glyph seen, and the character it stands for.\<close>

definition seen_glyph :: "u32 \<Rightarrow> u32 \<Rightarrow> nat \<Rightarrow> ram \<Rightarrow> bytes" where
  "seen_glyph rb p j m = map (\<lambda>r. NOT (m (cell_addr rb p j r))) [0..<8]"

definition read_glyph :: "bytes \<Rightarrow> u8" where
  "read_glyph g = of_nat (32 + length (takeWhile (\<lambda>x. x \<noteq> g) g_glyphs))"

abbreviation printable :: "u8 \<Rightarrow> bool" where "printable c \<equiv> 0x20 \<le> c \<and> c \<le> 0x7E"

lemma read_glyph_nth:
  assumes "i < 95" shows "read_glyph (g_glyphs ! i) = of_nat (32 + i)"
proof -
  have "takeWhile (\<lambda>x. x \<noteq> g_glyphs ! i) g_glyphs = take i g_glyphs"
    using assms glyphs_distinct glyphs_shape(1)
    by (intro takeWhile_eq_take_P_nth) (auto simp: nth_eq_iff_index_eq)
  then show ?thesis using assms glyphs_shape(1) by (simp add: read_glyph_def)
qed

lemma read_glyph_of: "printable c \<Longrightarrow> read_glyph (glyph c) = c"
proof -
  assume c: "printable c"
  then have "unat (c - 0x20) = unat c - 32" "32 \<le> unat c" "unat c \<le> 126"
    by (simp_all add: unat_sub word_le_nat_alt)
  moreover have "\<not> c < 0x20" "\<not> 0x7E < c" using c by (simp_all add: not_less)
  then have "glyph c = g_glyphs ! unat (c - 0x20)" by (simp add: glyph_def)
  ultimately show ?thesis by (simp add: read_glyph_nth)
qed

lemma length_glyph [simp]: "length (glyph c) = 8"
proof -
  have "unat ((if c < 0x20 \<or> 0x7E < c then 63 else c) - 0x20 :: u8) < 95"
    by (auto simp: word_less_nat_alt unat_sub word_le_nat_alt not_less)
  then show ?thesis unfolding glyph_def using glyphs_shape nth_mem by metis
qed

lemma seen_painted:
  "line_fits rb p n \<Longrightarrow> j < n \<Longrightarrow> seen_glyph rb p j (paint_chars rb p s n m) = glyph (shown s n ! j)"
  by (rule nth_equalityI) (simp_all add: seen_glyph_def chars_painted del: upt_Suc)

lemma shown_text: "\<forall>c\<in>set s. printable c \<Longrightarrow> shown s n = take n s @ replicate (n - length s) 32"
  by (induction s n rule: shown.induct) auto



end
