(* ===== verification/GuestHost.thy ===== *)
theory GuestHost
  imports GuestScreen "HOL-Library.Monad_Syntax"
begin

text \<open>
  What the programs that boot on the Macintosh itself see of the machine: the ROM's Device Manager,
  reached by traps with an 80-byte parameter block, the bytes of the memory-mapped chips and of the
  variables of the system, whose reads may change the machine, its memory, and the screen. The machine
  is an argument, a record of its operations over a state of any type; a trap may also end in a 68k exception, which the
  handlers of the benches turn into its vector number. \<open>eject.c\<close> is here, with the parameter block of
  \<open>diskio_main.c\<close> and \<open>diskcopy_main.c\<close>.
\<close>

section \<open>The machine\<close>

datatype trap = Trap_Read | Trap_Write | Trap_Control

record 'w mac =
  dev_trap :: "trap \<Rightarrow> bytes \<Rightarrow> 'w \<Rightarrow> 'w \<times> (u32 + u16)"
  rd8 :: "u32 \<Rightarrow> 'w \<Rightarrow> 'w \<times> u8"
  wr8 :: "u32 \<Rightarrow> u8 \<Rightarrow> 'w \<Rightarrow> 'w"
  ram_of :: "'w \<Rightarrow> ram"
  set_ram :: "ram \<Rightarrow> 'w \<Rightarrow> 'w"
  bus_fault :: "u32 \<Rightarrow> 'w \<Rightarrow> u32 option"

definition u16_of :: "u8 \<Rightarrow> u8 \<Rightarrow> u16" where
  "u16_of a b = push_bit 8 (ucast a) OR ucast b"

definition word_at :: "u32 \<Rightarrow> ram \<Rightarrow> u16" where
  "word_at a f = u16_of (f a) (f (a + 1))"

text \<open>A read of memory that may raise an exception, inside a barrier: \<open>Inl\<close> the vector.\<close>

definition rd_w :: "'w mac \<Rightarrow> 'w \<Rightarrow> u32 \<Rightarrow> u32 + u16" where
  "rd_w m w a = (case bus_fault m a w of Some v \<Rightarrow> Inl v | None \<Rightarrow> Inr (word_at a (ram_of m w)))"

definition rd_l :: "'w mac \<Rightarrow> 'w \<Rightarrow> u32 \<Rightarrow> u32 + u32" where
  "rd_l m w a = (case bus_fault m a w of Some v \<Rightarrow> Inl v | None \<Rightarrow> Inr (long_at a (ram_of m w)))"

text \<open>The state of a program: the machine, and what it has painted: lines (row, column, text, width), and wipes of the whole screen.\<close>

datatype paint = Paint u32 u32 bytes nat | Wipe

type_synonym 'w gs = "'w \<times> paint list"

definition lit :: "string \<Rightarrow> bytes" where
  "lit s = map of_char s"

definition paint_line :: "u32 \<Rightarrow> u32 \<Rightarrow> bytes \<Rightarrow> nat \<Rightarrow> 'w gs \<Rightarrow> 'w gs" where
  "paint_line row col s n g = (fst g, snd g @ [Paint row col s n])"

definition LINE :: "nat \<Rightarrow> u32" where
  "LINE n = of_nat n * 12"

lemma paint_line_world [simp]: "fst (paint_line row col s n g) = fst g"
  by (simp add: paint_line_def)

section \<open>The parameter block\<close>

text \<open>The fields of the 80-byte block that the programs set; the rest is zero. The layout is that of the
  68k compiler, big-endian with 16-bit alignment.\<close>

record ParamBlock =
  io_vrefnum :: u16
  io_refnum :: u16
  io_versnum :: u8
  io_permssn :: u8
  io_buffer :: u32
  io_req_count :: u32
  io_pos_mode :: u16
  io_pos_offset :: u32

definition pb_zero :: ParamBlock where
  "pb_zero = \<lparr>io_vrefnum = 0, io_refnum = 0, io_versnum = 0, io_permssn = 0, io_buffer = 0, io_req_count = 0,
     io_pos_mode = 0, io_pos_offset = 0\<rparr>"

definition be16 :: "u16 \<Rightarrow> bytes" where
  "be16 v = [ucast (drop_bit 8 v), ucast v]"

definition be32 :: "u32 \<Rightarrow> bytes" where
  "be32 v = [ucast (drop_bit 24 v), ucast (drop_bit 16 v), ucast (drop_bit 8 v), ucast v]"

definition pb_bytes :: "ParamBlock \<Rightarrow> bytes" where
  "pb_bytes p = replicate 22 0 @ be16 (io_vrefnum p) @ be16 (io_refnum p) @ [io_versnum p, io_permssn p] @ replicate 4 0 @
     be32 (io_buffer p) @ be32 (io_req_count p) @ replicate 4 0 @ be16 (io_pos_mode p) @ be32 (io_pos_offset p) @ replicate 30 0"

text \<open>The fields of a block read back from its bytes.\<close>

definition pb_long :: "nat \<Rightarrow> bytes \<Rightarrow> u32" where
  "pb_long i pb = foldl (\<lambda>a b. push_bit 8 a OR ucast b) 0 (take 4 (drop i pb))"

definition pb_word :: "nat \<Rightarrow> bytes \<Rightarrow> u16" where
  "pb_word i pb = push_bit 8 (ucast (pb ! i)) OR ucast (pb ! Suc i)"

lemma long_back: "foldl (\<lambda>(a :: u32) b. push_bit 8 a OR ucast b) 0 (be32 v) = v"
proof (rule bit_word_eqI)
  fix n assume n: "n < LENGTH(32)"
  have "24 + (n - 24) = n" if "24 \<le> n" using that by simp
  moreover have "16 + (n - 16) = n" if "16 \<le> n" using that by simp
  moreover have "8 + (n - 8) = n" if "8 \<le> n" using that by simp
  ultimately show "bit (foldl (\<lambda>(a :: u32) b. push_bit 8 a OR ucast b) 0 (be32 v)) n = bit v n"
    using n by (cases "n < 8"; cases "n < 16"; cases "n < 24") (auto simp: be32_def bit_simps)
qed

lemma word_back: "push_bit 8 (ucast (ucast (drop_bit 8 (v :: u16)) :: u8)) OR ucast (ucast v :: u8) = v"
  by (rule bit_word_eqI) (auto simp: bit_simps)

lemma length_be [simp]: "length (be16 x) = 2" "length (be32 v) = 4"
  by (simp_all add: be16_def be32_def)

lemma pb_back:
  "pb_word 22 (pb_bytes p) = io_vrefnum p" "pb_long 32 (pb_bytes p) = io_buffer p"
  "pb_long 36 (pb_bytes p) = io_req_count p" "pb_long 46 (pb_bytes p) = io_pos_offset p"
  by (simp_all add: pb_word_def pb_long_def pb_bytes_def nth_append be16_def [of "io_vrefnum p"] word_back long_back)

definition SONY_REFNUM :: u16 where "SONY_REFNUM = 0xFFFB"
definition EXC_ERR_BASE :: u32 where "EXC_ERR_BASE = 30000"

text \<open>A trap inside the exception barrier: a caught exception comes back as 30000 plus its vector.\<close>

definition trap_with_recovery :: "'w mac \<Rightarrow> trap \<Rightarrow> bytes \<Rightarrow> 'w gs \<Rightarrow> 'w gs \<times> u16" where
  "trap_with_recovery m t pb g =
    (let (w, r) = dev_trap m t pb (fst g)
     in ((w, snd g), case r of Inl v \<Rightarrow> ucast (EXC_ERR_BASE + v) | Inr e \<Rightarrow> e))"

lemma vector_code: "v < 256 \<Longrightarrow> (ucast (EXC_ERR_BASE + v) :: u16) \<noteq> 0"
proof
  assume v: "v < 256" and z: "(ucast (EXC_ERR_BASE + v) :: u16) = 0"
  have "unat v < 256" using v by (simp add: word_less_nat_alt)
  then have "unat (EXC_ERR_BASE + v) = 30000 + unat v" "30000 + unat v < 65536" by (simp_all add: EXC_ERR_BASE_def unat_word_ariths)
  then have "unat (ucast (EXC_ERR_BASE + v) :: u16) = 30000 + unat v" by (simp add: unsigned_ucast_eq take_bit_eq_mod)
  with z show False by simp
qed

section \<open>Ejecting a disk\<close>

text \<open>\<open>eject_floppy\<close> builds its block byte by byte; the trap is not inside a barrier of its own, so an
  exception in it goes to the barrier set before: \<open>Inl\<close>.\<close>

definition eject_pb :: "u16 \<Rightarrow> bytes" where
  "eject_pb drive = (replicate 80 0)[22 := ucast (drop_bit 8 drive AND 0xFF), 23 := ucast (drive AND 0xFF), 24 := 0xFF,
     25 := 0xFB, 26 := 0x00, 27 := 0x07]"

definition eject_floppy :: "'w mac \<Rightarrow> u16 \<Rightarrow> 'w gs \<Rightarrow> 'w gs \<times> (u32 + u16)" where
  "eject_floppy m drive g = (let (w, r) = dev_trap m Trap_Control (eject_pb drive) (fst g) in ((w, snd g), r))"

lemma mask_FF: "(0xFF :: u16) = mask 8"
  by (simp add: mask_eq_exp_minus_1)

text \<open>The block \<open>eject_floppy\<close> fills in by hand is, byte for byte, the parameter block of a control call to the
  .Sony driver for that drive with code 7.\<close>

theorem eject_block_layout:
  "eject_pb drive = pb_bytes (pb_zero\<lparr>io_vrefnum := drive, io_refnum := SONY_REFNUM, io_permssn := 7\<rparr>) \<and> length (eject_pb drive) = 80"
proof -
  have low: "(ucast (x AND 0xFF) :: u8) = ucast x" for x :: u16
    unfolding mask_FF by (rule bit_word_eqI) (simp add: bit_simps)
  have front: "replicate 80 (0 :: u8) = replicate 22 0 @ [0, 0, 0, 0, 0, 0] @ replicate 52 0" by code_simp
  have tail: "replicate 4 0 @ be32 0 @ be32 0 @ replicate 4 0 @ be16 0 @ be32 0 @ replicate 30 0 = replicate 52 (0 :: u8)" by code_simp
  have "eject_pb drive = replicate 22 0 @ [ucast (drop_bit 8 drive), ucast drive, 0xFF, 0xFB, 0x00, 0x07] @ replicate 52 0"
    unfolding eject_pb_def front low by (simp add: list_update_append eval_nat_numeral)
  moreover have "be16 SONY_REFNUM = [0xFF, 0xFB]" by code_simp
  ultimately show ?thesis
    unfolding pb_bytes_def by (simp add: pb_zero_def tail be16_def [of drive])
qed

end
