(* ===== verification/DiskCopy.thy ===== *)
theory DiskCopy
  imports GuestHost
begin

text \<open>
  The floppy duplicator (\<open>preboot/diskcopy/diskcopy_main.c\<close>), which boots on the Macintosh, reads an
  800 KB disk into RAM and writes it to another: prompts by key, transfers in chunks with progress,
  retries, formatting and ejection. Waiting for a key and retrying may last for ever, so those loops
  are options; \<open>Some True\<close> is the final "copy complete", \<open>Some False\<close> the abort, each of which ends in
  an endless loop in the source. An exception while a disk is ejected is outside every barrier and
  gives \<open>None\<close>.
\<close>

section \<open>Keys\<close>

definition KEYMAP_BASE :: u32 where "KEYMAP_BASE = 0x174"
definition KC_1 :: u8 where "KC_1 = 0x12"
definition KC_2 :: u8 where "KC_2 = 0x13"
definition KC_RETURN :: u8 where "KC_RETURN = 0x24"
definition KC_ESC :: u8 where "KC_ESC = 0x35"

definition KEY_DOWN :: "'w mac \<Rightarrow> u8 \<Rightarrow> 'w gs \<Rightarrow> 'w gs \<times> bool" where
  "KEY_DOWN m kc g =
    (let (w, b) = rd8 m (KEYMAP_BASE + ucast (drop_bit 3 kc)) (fst g)
     in ((w, snd g), b AND push_bit (unat (kc AND 7)) 1 \<noteq> 0))"

text \<open>The two loops of \<open>wait_key\<close>: sample until the key is down, then until it is up.\<close>

partial_function (option) key_until :: "'w mac \<Rightarrow> u8 \<Rightarrow> bool \<Rightarrow> 'w gs \<Rightarrow> 'w gs option" where
  "key_until m kc want g = (let (g', d) = KEY_DOWN m kc g in if d = want then Some g' else key_until m kc want g')"

definition wait_key :: "'w mac \<Rightarrow> u8 \<Rightarrow> 'w gs \<Rightarrow> 'w gs option" where
  "wait_key m kc g = do { g \<leftarrow> key_until m kc True g; key_until m kc False g }"

text \<open>A prompt with two keys: \<open>True\<close> for the first.\<close>

partial_function (option) choose_key :: "'w mac \<Rightarrow> u8 \<Rightarrow> u8 \<Rightarrow> 'w gs \<Rightarrow> (bool \<times> 'w gs) option" where
  "choose_key m k1 k2 g =
    (let (g, d) = KEY_DOWN m k1 g in
     if d then do { g \<leftarrow> wait_key m k1 g; Some (True, g) }
     else
       (let (g, d) = KEY_DOWN m k2 g in
        if d then do { g \<leftarrow> wait_key m k2 g; Some (False, g) }
        else choose_key m k1 k2 g))"

section \<open>Text\<close>

definition put_dec :: "u32 \<Rightarrow> nat \<Rightarrow> bytes" where
  "put_dec v width =
    (let ds = f_putul v in if length ds \<le> width then replicate (width - length ds) 32 @ ds else take width ds)"

definition blanks :: "nat \<Rightarrow> bytes" where "blanks n = replicate n 32"

definition paint_lit :: "nat \<Rightarrow> u32 \<Rightarrow> string \<Rightarrow> nat \<Rightarrow> 'w gs \<Rightarrow> 'w gs" where
  "paint_lit line col s n = paint_line (LINE line) col (lit s) n"

definition paint_blank :: "nat \<Rightarrow> nat \<Rightarrow> 'w gs \<Rightarrow> 'w gs" where
  "paint_blank line n = paint_line (LINE line) 1 (blanks n) n"

definition result_text :: "string \<Rightarrow> u16 \<Rightarrow> bytes" where
  "result_text label res =
    (let v = (scast res :: u32); neg = v <s 0; v = (if neg then - v else v);
         ds = dropWhile (\<lambda>c. c = 32) (put_dec v 5)
     in take 24 (lit label) @ lit ''res='' @ (if neg then [45] else []) @ (if ds = [] then [48] else ds))"

definition paint_result :: "u32 \<Rightarrow> string \<Rightarrow> u16 \<Rightarrow> 'w gs \<Rightarrow> 'w gs" where
  "paint_result row label res = (let t = result_text label res in paint_line row 1 t (length t))"

section \<open>Transfers\<close>

definition SECTOR_BYTES :: u32 where "SECTOR_BYTES = 512"
definition DISK_BYTES :: u32 where "DISK_BYTES = 819200"
definition CHUNK_BYTES :: u32 where "CHUNK_BYTES = 32768"
definition IOBUF_BASE :: u32 where "IOBUF_BASE = 0x00200000"

definition pb_init :: "u16 \<Rightarrow> u32 \<Rightarrow> u32 \<Rightarrow> u32 \<Rightarrow> ParamBlock" where
  "pb_init drive buf offset len =
    pb_zero\<lparr>io_refnum := SONY_REFNUM, io_vrefnum := drive, io_buffer := buf, io_req_count := len, io_pos_mode := 1,
      io_pos_offset := offset\<rparr>"

definition xfer :: "'w mac \<Rightarrow> bool \<Rightarrow> u16 \<Rightarrow> u32 \<Rightarrow> u32 \<Rightarrow> u32 \<Rightarrow> 'w gs \<Rightarrow> 'w gs \<times> u16" where
  "xfer m is_write drive buf offset len g =
    trap_with_recovery m (if is_write then Trap_Write else Trap_Read) (pb_bytes (pb_init drive buf offset len)) g"

definition sony_format :: "'w mac \<Rightarrow> u16 \<Rightarrow> 'w gs \<Rightarrow> 'w gs \<times> u16" where
  "sony_format m drive g =
    trap_with_recovery m Trap_Control (pb_bytes (pb_zero\<lparr>io_vrefnum := drive, io_refnum := SONY_REFNUM, io_versnum := 0, io_permssn := 6\<rparr>)) g"

definition progress_text :: "string \<Rightarrow> u32 \<Rightarrow> bytes" where
  "progress_text phase off =
    (let p = take 12 (lit phase) in
     p @ replicate (13 - length p) 32 @ filter (\<lambda>c. c \<noteq> 32) (put_dec (off * 100 div DISK_BYTES) 3) @ lit ''% ('' @
     put_dec (off div SECTOR_BYTES) 4 @ lit ''/1600)'')"

lemma disk_less: "off < DISK_BYTES \<Longrightarrow> unat off < 819200"
  by (simp add: DISK_BYTES_def word_less_nat_alt)

lemma chunk_progress:
  assumes "off < DISK_BYTES"
  shows "unat (off + min (DISK_BYTES - off) CHUNK_BYTES) = unat off + min (819200 - unat off) 32768"
proof -
  have o': "unat off < 819200" using assms by (simp add: DISK_BYTES_def word_less_nat_alt)
  have "unat (DISK_BYTES - off) = 819200 - unat off"
    using assms by (simp add: DISK_BYTES_def unat_sub word_less_nat_alt word_le_nat_alt)
  then have "unat (min (DISK_BYTES - off) CHUNK_BYTES) = min (819200 - unat off) 32768"
    by (simp add: min_def word_le_nat_alt CHUNK_BYTES_def)
  then show ?thesis using o' by (simp add: unat_word_ariths min_def)
qed

function transfer_from :: "'w mac \<Rightarrow> bool \<Rightarrow> u16 \<Rightarrow> string \<Rightarrow> u32 \<Rightarrow> u32 \<Rightarrow> 'w gs \<Rightarrow> 'w gs \<times> u16" where
  "transfer_from m is_write drive phase prog_row off g =
    (if off < DISK_BYTES
     then
       (let chunk = min (DISK_BYTES - off) CHUNK_BYTES;
            (g, r) = xfer m is_write drive (IOBUF_BASE + off) off chunk g
        in if r \<noteq> 0 then (g, r)
           else (let off = off + chunk; t = progress_text phase off
                 in transfer_from m is_write drive phase prog_row off (paint_line prog_row 1 t (length t) g)))
     else (g, 0))"
  by auto
termination by (relation "measure (\<lambda>(m, i, d, p, r, off, g). 819200 - unat off)") (auto simp: chunk_progress dest: disk_less)

declare transfer_from.simps [simp del]

definition transfer_all :: "'w mac \<Rightarrow> bool \<Rightarrow> u16 \<Rightarrow> string \<Rightarrow> u32 \<Rightarrow> 'w gs \<Rightarrow> 'w gs \<times> u16" where
  "transfer_all m is_write drive phase prog_row g = transfer_from m is_write drive phase prog_row 0 g"

text \<open>\<open>True\<close> when the disk went through, \<open>False\<close> when the user gave up.\<close>

partial_function (option) transfer_with_retry :: "'w mac \<Rightarrow> bool \<Rightarrow> u16 \<Rightarrow> string \<Rightarrow> u32 \<Rightarrow> u32 \<Rightarrow> 'w gs \<Rightarrow> (bool \<times> 'w gs) option" where
  "transfer_with_retry m is_write drive phase prog_row msg_row g =
    (let (g, r) = transfer_all m is_write drive phase prog_row g in
     if r = 0 then Some (True, g)
     else do {
       (again, g) \<leftarrow> choose_key m KC_RETURN KC_ESC
         (paint_line (msg_row + 12) 1 (lit ''RETURN=retry  ESC=abort                 '') 40
           (paint_result msg_row (if is_write then ''WRITE failed '' else ''READ failed '') r g));
       if again
       then transfer_with_retry m is_write drive phase prog_row msg_row
              (paint_line (msg_row + 12) 1 (blanks 40) 40 (paint_line msg_row 1 (blanks 40) 40 g))
       else Some (False, g)
     })"

section \<open>The copy\<close>

definition steps :: "('w gs \<Rightarrow> 'w gs) list \<Rightarrow> 'w gs \<Rightarrow> 'w gs" where
  "steps fs g = fold (\<lambda>f. f) fs g"

text \<open>Mode selection: the destination drive.\<close>

definition digit_at :: "nat \<Rightarrow> u32 \<Rightarrow> u16 \<Rightarrow> 'w gs \<Rightarrow> 'w gs" where
  "digit_at line col v = paint_line (LINE line) col (put_dec (scast v) 1) 1"

definition select_mode :: "'w mac \<Rightarrow> u16 \<Rightarrow> 'w gs \<Rightarrow> (bool \<times> u16 \<times> 'w gs) option" where
  "select_mode m src g = do {
     (one, g) \<leftarrow> choose_key m KC_1 KC_2 (steps
       [paint_lit 0 1 ''DISKCOPY: 800K floppy duplicator'' 32,
        paint_lit 2 1 ''Boot/source drive:'' 18, digit_at 2 20 src,
        paint_lit 4 1 ''Choose copy mode:'' 17,
        paint_lit 5 1 ''  1 = single-drive (swap source then dest)'' 42,
        paint_lit 6 1 ''  2 = two-drive (source=boot drive, dest=other)'' 47,
        paint_lit 7 1 ''Press 1 or 2 ...'' 16] g);
     let two_drive = (\<not> one);
     let dst = (if two_drive then (if src = 1 then 2 else 1) else src);
     Some (two_drive, dst, steps
       [paint_blank 4 50, paint_blank 5 50, paint_blank 6 50, paint_blank 7 50,
        paint_lit 4 1 (if two_drive then ''Mode: TWO-DRIVE'' else ''Mode: SINGLE-DRIVE (swap)'') 25,
        paint_lit 5 1 ''Source drive:'' 13, digit_at 5 15 src, paint_lit 5 18 ''Dest drive:'' 11, digit_at 5 30 dst] g)
   }"

definition warning_text :: "u16 \<Rightarrow> bytes" where
  "warning_text dst = lit ''ALL DATA on DEST drive '' @ put_dec (scast dst) 1 @ lit '' will be ERASED''"

definition confirm :: "'w mac \<Rightarrow> u16 \<Rightarrow> 'w gs \<Rightarrow> (bool \<times> 'w gs) option" where
  "confirm m dst g = choose_key m KC_RETURN KC_ESC (steps
     [paint_lit 7 1 ''*** WARNING ***'' 15,
      paint_line (LINE 8) 1 (warning_text dst) (length (warning_text dst)),
      paint_lit 9 1 ''(destination is low-level formatted first)'' 42,
      paint_lit 10 1 ''RETURN=continue   ESC=abort'' 27] g)"

text \<open>Ejection with its result painted; an exception in it is outside the barriers.\<close>

definition eject_shown :: "'w mac \<Rightarrow> u16 \<Rightarrow> nat \<Rightarrow> string \<Rightarrow> 'w gs \<Rightarrow> 'w gs option" where
  "eject_shown m drive line label g =
    (case eject_floppy m drive g of (g, Inl v) \<Rightarrow> None | (g, Inr r) \<Rightarrow> Some (paint_result (LINE line) label r g))"

definition stage_source :: "'w mac \<Rightarrow> bool \<Rightarrow> u16 \<Rightarrow> 'w gs \<Rightarrow> 'w gs option" where
  "stage_source m two_drive src g = do {
     g \<leftarrow> eject_shown m src 7 ''Eject boot disk '' (steps [paint_blank 7 50, paint_blank 8 50, paint_blank 9 50, paint_blank 10 50] g);
     g \<leftarrow> wait_key m KC_RETURN (steps
       ((if two_drive
         then [paint_lit 9 1 ''Insert SOURCE in boot drive,'' 28, paint_lit 10 1 ''blank DEST in other drive.'' 26]
         else [paint_lit 9 1 ''Insert SOURCE disk in the drive.'' 32, paint_lit 10 1 ''(destination comes later)'' 25]) @
        [paint_lit 11 1 ''Press RETURN when ready ...'' 27]) g);
     Some (paint_blank 11 40 g)
   }"

definition swap_disks :: "'w mac \<Rightarrow> u16 \<Rightarrow> 'w gs \<Rightarrow> 'w gs option" where
  "swap_disks m src g = do {
     g \<leftarrow> eject_shown m src 11 ''Eject source '' g;
     g \<leftarrow> wait_key m KC_RETURN (steps
       [paint_lit 9 1 ''Insert DEST disk (will be erased).      '' 40, paint_blank 10 40,
        paint_lit 12 1 ''Press RETURN when ready ...'' 27] g);
     Some (paint_blank 12 40 g)
   }"

partial_function (option) format_dest :: "'w mac \<Rightarrow> u16 \<Rightarrow> 'w gs \<Rightarrow> (bool \<times> 'w gs) option" where
  "format_dest m dst g =
    (let (g, fr) = sony_format m dst (paint_lit 13 1 ''Formatting dest ...                     '' 40 g) in
     if fr = 0 then Some (True, paint_lit 13 1 ''Formatting dest ... done                '' 40 g)
     else do {
       (again, g) \<leftarrow> choose_key m KC_RETURN KC_ESC
         (paint_lit 17 1 ''RETURN=retry   ESC=abort                '' 40 (paint_result (LINE 16) ''FORMAT failed '' fr g));
       if again then format_dest m dst (paint_blank 17 40 (paint_blank 16 40 g)) else Some (False, g)
     })"

text \<open>Everything up to the end of the read: \<open>None\<close> in the result when the user gave up.\<close>

definition read_source :: "'w mac \<Rightarrow> u16 \<Rightarrow> 'w gs \<Rightarrow> ((bool \<times> u16) option \<times> 'w gs) option" where
  "read_source m src g = do {
     (two_drive, dst, g) \<leftarrow> select_mode m src g;
     (go, g) \<leftarrow> confirm m dst g;
     if \<not> go then Some (None, g)
     else do {
       g \<leftarrow> stage_source m two_drive src g;
       (ok, g) \<leftarrow> transfer_with_retry m False src ''Reading'' (LINE 13) (LINE 16) g;
       Some (if ok then Some (two_drive, dst) else None, g)
     }
   }"

definition write_dest :: "'w mac \<Rightarrow> bool \<Rightarrow> u16 \<Rightarrow> u16 \<Rightarrow> 'w gs \<Rightarrow> (bool \<times> 'w gs) option" where
  "write_dest m two_drive src dst g = do {
     g \<leftarrow> (if two_drive then Some g else swap_disks m src g);
     (ok, g) \<leftarrow> format_dest m dst g;
     if \<not> ok then Some (False, g)
     else transfer_with_retry m True dst ''Writing'' (LINE 14) (LINE 16) g
   }"

text \<open>With two drives both disks are ejected before either result is painted.\<close>

definition eject_all :: "'w mac \<Rightarrow> bool \<Rightarrow> u16 \<Rightarrow> u16 \<Rightarrow> 'w gs \<Rightarrow> 'w gs option" where
  "eject_all m two_drive src dst g =
    (if two_drive
     then
       (case eject_floppy m src g of (g, Inl v) \<Rightarrow> None | (g, Inr e1) \<Rightarrow>
         (case eject_floppy m dst g of (g, Inl v) \<Rightarrow> None | (g, Inr e2) \<Rightarrow>
           Some (paint_result (LINE 17) ''Eject dest '' e2 (paint_result (LINE 16) ''Eject source '' e1 g))))
     else eject_shown m dst 16 ''Eject dest '' g)"

definition aborted :: "'w gs \<Rightarrow> (bool \<times> 'w gs) option" where
  "aborted g = Some (False, paint_lit 19 1 ''ABORTED. Power-cycle when done.'' 31 g)"

definition diskcopy_main :: "'w mac \<Rightarrow> u16 \<Rightarrow> 'w gs \<Rightarrow> (bool \<times> 'w gs) option" where
  "diskcopy_main m src g = do {
     (r, g) \<leftarrow> read_source m src g;
     case r of None \<Rightarrow> aborted g
     | Some (two_drive, dst) \<Rightarrow> do {
         (ok, g) \<leftarrow> write_dest m two_drive src dst g;
         if \<not> ok then aborted g
         else do {
           g \<leftarrow> eject_all m two_drive src dst g;
           Some (True, paint_lit 19 1 ''COPY COMPLETE. Power-cycle when done.'' 37 g)
         }
       }
   }"

section \<open>The contract of the disk driver\<close>

text \<open>\<open>buf\<close> is the content of the buffer in RAM, \<open>disk\<close> the content of the disk in a drive. A successful read
  or write moves the bytes asked for; no trap but a read, and no sampling of the keys, touches the
  buffer; vector numbers of the 68000 are below 256. Nothing is assumed of failing calls, of what eject and format do to the disks, or of when the
  operator exchanges disks.\<close>

definition extent :: "ram \<Rightarrow> u32 \<Rightarrow> u32 \<Rightarrow> bytes" where
  "extent f off len = map (\<lambda>i. f (off + of_nat i)) [0..<unat len]"

definition sony_contract :: "'w mac \<Rightarrow> ('w \<Rightarrow> ram) \<Rightarrow> ('w \<Rightarrow> u16 \<Rightarrow> ram) \<Rightarrow> bool" where
  "sony_contract m buf disk \<longleftrightarrow>
    (\<forall>drive b off len w w'. dev_trap m Trap_Read (pb_bytes (pb_init drive b off len)) w = (w', Inr 0) \<longrightarrow>
       buf w' = store b (extent (disk w drive) off len) (buf w) \<and> disk w' = disk w) \<and>
    (\<forall>drive b off len w w'. dev_trap m Trap_Write (pb_bytes (pb_init drive b off len)) w = (w', Inr 0) \<longrightarrow>
       disk w' drive = store off (extent (buf w) b len) (disk w drive)) \<and>
    (\<forall>t pb w. t \<noteq> Trap_Read \<longrightarrow> buf (fst (dev_trap m t pb w)) = buf w) \<and>
    (\<forall>a w. buf (fst (rd8 m a w)) = buf w) \<and>
    (\<forall>t pb w w' v. dev_trap m t pb w = (w', Inl v) \<longrightarrow> v < 256)"

definition same_image :: "ram \<Rightarrow> ram \<Rightarrow> bool" where
  "same_image f h \<longleftrightarrow> (\<forall>j<819200. f (of_nat j) = h (of_nat j))"

definition buffered :: "ram \<Rightarrow> ram" where
  "buffered b a = b (IOBUF_BASE + a)"

lemma contractD:
  assumes "sony_contract m buf disk"
  shows sony_read: "dev_trap m Trap_Read (pb_bytes (pb_init drive b off len)) w = (w', Inr 0) \<Longrightarrow>
      buf w' = store b (extent (disk w drive) off len) (buf w) \<and> disk w' = disk w"
    and sony_write: "dev_trap m Trap_Write (pb_bytes (pb_init drive b off len)) w = (w', Inr 0) \<Longrightarrow>
      disk w' drive = store off (extent (buf w) b len) (disk w drive)"
    and sony_frame: "t \<noteq> Trap_Read \<Longrightarrow> buf (fst (dev_trap m t pb w)) = buf w"
    and sony_keys: "buf (fst (rd8 m a w)) = buf w"
    and sony_vector: "dev_trap m t pb w = (w', Inl v) \<Longrightarrow> v < 256"
  using assms by (simp_all add: sony_contract_def)

lemma trap_ok:
  assumes "sony_contract m buf disk" "trap_with_recovery m t pb g = (g', 0)"
  shows "dev_trap m t pb (fst g) = (fst g', Inr 0)"
proof (cases "dev_trap m t pb (fst g)")
  case (Pair w r)
  show ?thesis
  proof (cases r)
    case (Inl v)
    then have "(ucast (EXC_ERR_BASE + v) :: u16) \<noteq> 0" using sony_vector [OF assms(1)] Pair by (intro vector_code) blast
    then show ?thesis using assms(2) Pair Inl by (simp add: trap_with_recovery_def)
  next
    case (Inr e)
    then show ?thesis using assms(2) Pair by (auto simp: trap_with_recovery_def)
  qed
qed

lemma trap_frame:
  assumes "trap_with_recovery m t pb g = (g', r)" "sony_contract m buf disk" "t \<noteq> Trap_Read"
  shows "buf (fst g') = buf (fst g)"
  using assms(1) sony_frame [OF assms(2, 3), of pb "fst g"] by (auto simp: trap_with_recovery_def split_beta)

section \<open>The transfer loop\<close>

lemma length_extent [simp]: "length (extent f off len) = unat len"
  by (simp add: extent_def)

lemma chunk_facts:
  assumes "off < DISK_BYTES" "chunk = min (DISK_BYTES - off) CHUNK_BYTES"
  shows "unat chunk = min (819200 - unat off) 32768" "unat (off + chunk) = unat off + unat chunk" "unat off < 819200"
    "unat (IOBUF_BASE + off) = 2097152 + unat off"
proof -
  show o': "unat off < 819200" by (rule disk_less [OF assms(1)])
  have "unat (DISK_BYTES - off) = 819200 - unat off"
    using assms(1) by (simp add: DISK_BYTES_def unat_sub word_less_nat_alt word_le_nat_alt)
  then show c: "unat chunk = min (819200 - unat off) 32768"
    using assms(2) by (simp add: min_def word_le_nat_alt CHUNK_BYTES_def)
  show "unat (off + chunk) = unat off + unat chunk" unfolding c using o' by (simp add: unat_word_ariths c min_def)
  show "unat (IOBUF_BASE + off) = 2097152 + unat off" using o' by (simp add: unat_word_ariths IOBUF_BASE_def)
qed

lemma of_nat_disk: "j < 819200 \<Longrightarrow> unat (of_nat j :: u32) = j"
  by (simp add: unsigned_of_nat take_bit_nat_eq_self)

lemma buffer_index: "j < 819200 \<Longrightarrow> unat (IOBUF_BASE + of_nat j) = 2097152 + j"
  by (simp add: unat_word_ariths IOBUF_BASE_def of_nat_disk unsigned_of_nat take_bit_nat_eq_self)

lemma extent_nth: "unat off \<le> j \<Longrightarrow> j < unat off + unat len \<Longrightarrow> extent f (b + off) len ! (j - unat off) = f (b + of_nat j)"
  by (simp add: extent_def nth_upt less_diff_conv2 of_nat_diff add.assoc)

lemma chunk_read:
  assumes "off < DISK_BYTES" "chunk = min (DISK_BYTES - off) CHUNK_BYTES" "j < 819200"
  shows "buffered (store (IOBUF_BASE + off) (extent f off chunk) b) (of_nat j) =
    (if unat off \<le> j \<and> j < unat off + unat chunk then f (of_nat j) else buffered b (of_nat j))"
  using assms(3) chunk_facts(4) [OF assms(1, 2)] extent_nth [of off j chunk f 0]
  by (simp add: buffered_def store_def buffer_index)

lemma chunk_written:
  assumes "off < DISK_BYTES" "chunk = min (DISK_BYTES - off) CHUNK_BYTES" "j < 819200"
  shows "store off (extent b (IOBUF_BASE + off) chunk) f (of_nat j) =
    (if unat off \<le> j \<and> j < unat off + unat chunk then buffered b (of_nat j) else f (of_nat j))"
  using assms(3) extent_nth [of off j chunk b IOBUF_BASE] by (simp add: buffered_def store_def of_nat_disk)

lemma transfer_end: "\<not> off < DISK_BYTES \<Longrightarrow> transfer_from m w d ph row off g = (g, 0)"
  by (simp add: transfer_from.simps)

lemma transfer_step:
  assumes "transfer_from m w d ph row off g = (g', 0)" "off < DISK_BYTES"
  obtains chunk g1 g2 where "chunk = min (DISK_BYTES - off) CHUNK_BYTES" "xfer m w d (IOBUF_BASE + off) off chunk g = (g1, 0)"
    "fst g2 = fst g1" "transfer_from m w d ph row (off + chunk) g2 = (g', 0)"
proof -
  define chunk where "chunk = min (DISK_BYTES - off) CHUNK_BYTES"
  obtain g1 r where x: "xfer m w d (IOBUF_BASE + off) off chunk g = (g1, r)" by fastforce
  have "r = 0" using assms x by (subst (asm) transfer_from.simps) (auto simp: Let_def chunk_def split: if_splits)
  moreover have "transfer_from m w d ph row (off + chunk) (paint_line row 1 (progress_text ph (off + chunk)) (length (progress_text ph (off + chunk))) g1) = (g', 0)"
    using assms x \<open>r = 0\<close> by (subst (asm) transfer_from.simps) (auto simp: Let_def chunk_def split: if_splits)
  ultimately show thesis by (intro that [OF chunk_def]) (use x in simp_all)
qed

lemma read_loop:
  assumes c: "sony_contract m buf disk"
  shows "transfer_from m False drive ph row off g = (g', 0) \<Longrightarrow>
    disk (fst g') = disk (fst g) \<and>
    (\<forall>j<819200. buffered (buf (fst g')) (of_nat j) = (if unat off \<le> j then disk (fst g) drive (of_nat j) else buffered (buf (fst g)) (of_nat j)))"
proof (induction "819200 - unat off" arbitrary: off g rule: less_induct)
  case less
  show ?case
  proof (cases "off < DISK_BYTES")
    case False
    then have "819200 \<le> unat off" by (simp add: DISK_BYTES_def word_less_nat_alt)
    with False less.prems show ?thesis by (auto simp: transfer_end)
  next
    case True
    obtain chunk g1 g2 where k: "chunk = min (DISK_BYTES - off) CHUNK_BYTES" and x: "xfer m False drive (IOBUF_BASE + off) off chunk g = (g1, 0)"
      and g2: "fst g2 = fst g1" and rest: "transfer_from m False drive ph row (off + chunk) g2 = (g', 0)"
      using transfer_step [OF less.prems True] by metis
    note f = chunk_facts [OF True k]
    have one: "buf (fst g1) = store (IOBUF_BASE + off) (extent (disk (fst g) drive) off chunk) (buf (fst g)) \<and> disk (fst g1) = disk (fst g)"
      using x by (auto simp: xfer_def dest!: trap_ok [OF c] sony_read [OF c])
    have "819200 - unat (off + chunk) < 819200 - unat off" using f by (simp add: min_def split: if_splits)
    from less.hyps [OF this rest] g2 one show ?thesis
      using f by (auto simp: chunk_read [OF True k])
  qed
qed

lemma write_loop:
  assumes c: "sony_contract m buf disk"
  shows "transfer_from m True drive ph row off g = (g', 0) \<Longrightarrow>
    (\<forall>j<819200. disk (fst g') drive (of_nat j) = (if unat off \<le> j then buffered (buf (fst g)) (of_nat j) else disk (fst g) drive (of_nat j)))"
proof (induction "819200 - unat off" arbitrary: off g rule: less_induct)
  case less
  show ?case
  proof (cases "off < DISK_BYTES")
    case False
    then have "819200 \<le> unat off" by (simp add: DISK_BYTES_def word_less_nat_alt)
    with False less.prems show ?thesis by (auto simp: transfer_end)
  next
    case True
    obtain chunk g1 g2 where k: "chunk = min (DISK_BYTES - off) CHUNK_BYTES" and x: "xfer m True drive (IOBUF_BASE + off) off chunk g = (g1, 0)"
      and g2: "fst g2 = fst g1" and rest: "transfer_from m True drive ph row (off + chunk) g2 = (g', 0)"
      using transfer_step [OF less.prems True] by metis
    note f = chunk_facts [OF True k]
    have one: "disk (fst g1) drive = store off (extent (buf (fst g)) (IOBUF_BASE + off) chunk) (disk (fst g) drive)"
      using x by (auto simp: xfer_def dest!: trap_ok [OF c] sony_write [OF c])
    have b: "buf (fst g1) = buf (fst g)" using x by (auto simp: xfer_def dest: trap_frame [OF _ c])
    have "819200 - unat (off + chunk) < 819200 - unat off" using f by (simp add: min_def split: if_splits)
    from less.hyps [OF this rest] g2 one b show ?thesis
      using f by (auto simp: chunk_written [OF True k])
  qed
qed

section \<open>What leaves the buffer alone\<close>

lemma keys_frame:
  assumes c: "sony_contract m buf disk"
  shows "KEY_DOWN m kc g = (g', d) \<Longrightarrow> buf (fst g') = buf (fst g)"
  using sony_keys [OF c, of "KEYMAP_BASE + ucast (drop_bit 3 kc)" "fst g"] by (auto simp: KEY_DOWN_def split_beta)

lemma key_until_frame:
  assumes c: "sony_contract m buf disk" and r: "key_until m kc want g = Some g'"
  shows "buf (fst g') = buf (fst g)"
proof -
  have "sony_contract m buf disk \<longrightarrow> buf (fst g') = buf (fst g)"
  proof (rule key_until.raw_induct [where P = "\<lambda>n kc want g g'. sony_contract n buf disk \<longrightarrow> buf (fst g') = buf (fst g)", OF _ r])
    fix f n kc want g g'
    assume IH: "\<And>n kc want g g'. f n kc want g = Some g' \<Longrightarrow> sony_contract n buf disk \<longrightarrow> buf (fst g') = buf (fst g)"
      and eq: "(let (g', d) = KEY_DOWN n kc g in if d = want then Some g' else f n kc want g') = Some g'"
    obtain g1 d where k: "KEY_DOWN n kc g = (g1, d)" by fastforce
    show "sony_contract n buf disk \<longrightarrow> buf (fst g') = buf (fst g)"
    proof
      assume n: "sony_contract n buf disk"
      have "buf (fst g1) = buf (fst g)" by (rule keys_frame [OF n k])
      then show "buf (fst g') = buf (fst g)" using eq k IH [of n kc want g1 g'] n by (auto split: if_splits)
    qed
  qed
  with c show ?thesis by simp
qed

lemma wait_key_frame: "wait_key m kc g = Some g' \<Longrightarrow> sony_contract m buf disk \<Longrightarrow> buf (fst g') = buf (fst g)"
  unfolding wait_key_def bind_eq_Some_conv by (metis key_until_frame)

lemma choose_key_frame:
  assumes c: "sony_contract m buf disk" and r: "choose_key m k1 k2 g = Some (b, g')"
  shows "buf (fst g') = buf (fst g)"
proof -
  have "sony_contract m buf disk \<longrightarrow> buf (fst (snd (b, g'))) = buf (fst g)"
  proof (rule choose_key.raw_induct [where P = "\<lambda>n k1 k2 g y. sony_contract n buf disk \<longrightarrow> buf (fst (snd y)) = buf (fst g)", OF _ r])
    fix f n k1 k2 g y
    assume IH: "\<And>n k1 k2 g y. f n k1 k2 g = Some y \<Longrightarrow> sony_contract n buf disk \<longrightarrow> buf (fst (snd y)) = buf (fst g)"
      and eq: "(let (g, d) = KEY_DOWN n k1 g in if d then do { g \<leftarrow> wait_key n k1 g; Some (True, g) }
        else (let (g, d) = KEY_DOWN n k2 g in if d then do { g \<leftarrow> wait_key n k2 g; Some (False, g) } else f n k1 k2 g)) = Some y"
    obtain g1 d1 where a: "KEY_DOWN n k1 g = (g1, d1)" by fastforce
    obtain g2 d2 where b: "KEY_DOWN n k2 g1 = (g2, d2)" by fastforce
    show "sony_contract n buf disk \<longrightarrow> buf (fst (snd y)) = buf (fst g)"
    proof
      assume n: "sony_contract n buf disk"
      note frame = keys_frame [OF n a] keys_frame [OF n b]
      consider "d1" | "\<not> d1" "d2" | "\<not> d1" "\<not> d2" by blast
      then show "buf (fst (snd y)) = buf (fst g)"
      proof cases
        case 1
        then obtain g3 where "wait_key n k1 g1 = Some g3" "y = (True, g3)" using eq a by (auto simp: bind_eq_Some_conv)
        then show ?thesis using frame wait_key_frame [OF _ n] by fastforce
      next
        case 2
        then obtain g3 where "wait_key n k2 g2 = Some g3" "y = (False, g3)" using eq a b by (auto simp: bind_eq_Some_conv)
        then show ?thesis using frame wait_key_frame [OF _ n] by fastforce
      next
        case 3
        then show ?thesis using eq a b IH [of n k1 k2 g2 y] n frame by auto
      qed
    qed
  qed
  with c show ?thesis by simp
qed

lemma paints_frame [simp]:
  "fst (paint_lit l c t n g) = fst g" "fst (paint_blank l n g) = fst g" "fst (paint_result row lab r g) = fst g"
  "fst (digit_at l c v g) = fst g"
  by (simp_all add: paint_lit_def paint_blank_def paint_result_def digit_at_def Let_def)

lemma steps_simps [simp]: "steps [] g = g" "steps (f # fs) g = steps fs (f g)"
  by (simp_all add: steps_def)

lemma eject_frame: "eject_floppy m drive g = (g', r) \<Longrightarrow> sony_contract m buf disk \<Longrightarrow> buf (fst g') = buf (fst g)"
  using sony_frame [of m buf disk Trap_Control "eject_pb drive" "fst g"] by (auto simp: eject_floppy_def split_beta)

lemma eject_shown_frame:
  assumes "eject_shown m drive l lab g = Some g'" and c: "sony_contract m buf disk"
  shows "buf (fst g') = buf (fst g)"
proof -
  obtain g1 r where e: "eject_floppy m drive g = (g1, r)" by fastforce
  show ?thesis using assms(1) eject_frame [OF e c] by (auto simp: eject_shown_def e split: sum.splits)
qed

lemma swap_frame:
  assumes "swap_disks m src g = Some g'" and c: "sony_contract m buf disk"
  shows "buf (fst g') = buf (fst g)"
proof -
  obtain g1 g2 where 1: "eject_shown m src 11 ''Eject source '' g = Some g1" and 2: "wait_key m KC_RETURN (steps
       [paint_lit 9 1 ''Insert DEST disk (will be erased).      '' 40, paint_blank 10 40,
        paint_lit 12 1 ''Press RETURN when ready ...'' 27] g1) = Some g2" and 3: "fst g' = fst g2"
    using assms(1) by (auto simp: swap_disks_def bind_eq_Some_conv)
  show ?thesis using eject_shown_frame [OF 1 c] wait_key_frame [OF 2 c] 3 by simp
qed

lemma format_trap_frame: "sony_format m dst g = (g', r) \<Longrightarrow> sony_contract m buf disk \<Longrightarrow> buf (fst g') = buf (fst g)"
  unfolding sony_format_def by (erule trap_frame) simp_all

lemma format_frame:
  assumes c: "sony_contract m buf disk" and r: "format_dest m dst g = Some (b, g')"
  shows "buf (fst g') = buf (fst g)"
proof -
  have "sony_contract m buf disk \<longrightarrow> buf (fst (snd (b, g'))) = buf (fst g)"
  proof (rule format_dest.raw_induct [where P = "\<lambda>n dst g y. sony_contract n buf disk \<longrightarrow> buf (fst (snd y)) = buf (fst g)", OF _ r])
    fix f n dst g y
    assume IH: "\<And>n dst g y. f n dst g = Some y \<Longrightarrow> sony_contract n buf disk \<longrightarrow> buf (fst (snd y)) = buf (fst g)"
      and eq: "(let (g, fr) = sony_format n dst (paint_lit 13 1 ''Formatting dest ...                     '' 40 g) in
       if fr = 0 then Some (True, paint_lit 13 1 ''Formatting dest ... done                '' 40 g)
       else do {
         (again, g) \<leftarrow> choose_key n KC_RETURN KC_ESC
           (paint_lit 17 1 ''RETURN=retry   ESC=abort                '' 40 (paint_result (LINE 16) ''FORMAT failed '' fr g));
         if again then f n dst (paint_blank 17 40 (paint_blank 16 40 g)) else Some (False, g)
       }) = Some y"
    obtain g1 fr where a: "sony_format n dst (paint_lit 13 1 ''Formatting dest ...                     '' 40 g) = (g1, fr)" by fastforce
    show "sony_contract n buf disk \<longrightarrow> buf (fst (snd y)) = buf (fst g)"
    proof
      assume n: "sony_contract n buf disk"
      have 1: "buf (fst g1) = buf (fst g)" using format_trap_frame [OF a n] by simp
      show "buf (fst (snd y)) = buf (fst g)"
      proof (cases "fr = 0")
        case True
        then show ?thesis using eq a 1 by auto
      next
        case False
        then obtain again g2 where ch: "choose_key n KC_RETURN KC_ESC
            (paint_lit 17 1 ''RETURN=retry   ESC=abort                '' 40 (paint_result (LINE 16) ''FORMAT failed '' fr g1)) = Some (again, g2)"
          and y: "(if again then f n dst (paint_blank 17 40 (paint_blank 16 40 g2)) else Some (False, g2)) = Some y"
          using eq a by (auto simp: bind_eq_Some_conv)
        have "buf (fst g2) = buf (fst g)" using choose_key_frame [OF n ch] 1 by simp
        then show ?thesis using y IH [of n dst "paint_blank 17 40 (paint_blank 16 40 g2)" y] n by (auto split: if_splits)
      qed
    qed
  qed
  with c show ?thesis by simp
qed

section \<open>Transfers with retries, and the copy\<close>

lemma transfer_frame:
  assumes c: "sony_contract m buf disk"
  shows "transfer_from m True drive ph row off g = (g', r) \<Longrightarrow> buf (fst g') = buf (fst g)"
proof (induction "819200 - unat off" arbitrary: off g rule: less_induct)
  case less
  show ?case
  proof (cases "off < DISK_BYTES")
    case False
    then show ?thesis using less.prems by (simp add: transfer_end)
  next
    case True
    define chunk where "chunk = min (DISK_BYTES - off) CHUNK_BYTES"
    note f = chunk_facts [OF True chunk_def]
    obtain g1 e where x: "xfer m True drive (IOBUF_BASE + off) off chunk g = (g1, e)" by fastforce
    have 1: "buf (fst g1) = buf (fst g)" using x by (auto simp: xfer_def dest: trap_frame [OF _ c])
    have lt: "819200 - unat (off + chunk) < 819200 - unat off" using f by (simp add: min_def split: if_splits)
    show ?thesis
    proof (cases "e = 0")
      case False
      then show ?thesis using less.prems True x 1
        by (subst (asm) transfer_from.simps) (auto simp: Let_def chunk_def [symmetric])
    next
      case z: True
      have "transfer_from m True drive ph row (off + chunk)
          (paint_line row 1 (progress_text ph (off + chunk)) (length (progress_text ph (off + chunk))) g1) = (g', r)"
        using less.prems True x z by (subst (asm) transfer_from.simps) (auto simp: Let_def chunk_def [symmetric])
      from less.hyps [OF lt this] 1 show ?thesis by simp
    qed
  qed
qed

definition moved :: "bool \<Rightarrow> ram \<Rightarrow> ram \<Rightarrow> ram \<Rightarrow> bool" where
  "moved is_write b0 b f = (if is_write then same_image f (buffered b0) \<and> b = b0 else same_image (buffered b) f)"

lemma transfer_moves:
  assumes c: "sony_contract m buf disk" and r: "transfer_all m is_write drive ph row g = (g', 0)"
  shows "moved is_write (buf (fst g)) (buf (fst g')) (disk (fst g') drive)"
proof (cases is_write)
  case True
  then show ?thesis using r write_loop [OF c, of drive ph row 0 g g'] transfer_frame [OF c, of drive ph row 0 g g' 0]
    by (simp add: transfer_all_def moved_def same_image_def)
next
  case False
  then show ?thesis using r read_loop [OF c, of drive ph row 0 g g'] by (simp add: transfer_all_def moved_def same_image_def)
qed

lemma transfer_write_frame: "transfer_all m True drive ph row g = (g', r) \<Longrightarrow> sony_contract m buf disk \<Longrightarrow> buf (fst g') = buf (fst g)"
  using transfer_frame by (simp add: transfer_all_def)

lemma retry_moves:
  assumes c: "sony_contract m buf disk" and r: "transfer_with_retry m is_write drive ph row msg g = Some (True, g')"
  shows "moved is_write (buf (fst g)) (buf (fst g')) (disk (fst g') drive)"
proof -
  let ?P = "\<lambda>n wr dr ph row msg g y. sony_contract n buf disk \<longrightarrow> fst y \<longrightarrow> moved wr (buf (fst g)) (buf (fst (snd y))) (disk (fst (snd y)) dr)"
  have "?P m is_write drive ph row msg g (True, g')"
  proof (rule transfer_with_retry.raw_induct [where P = ?P, OF _ r])
    fix f n wr dr ph row msg g y
    assume IH: "\<And>n wr dr ph row msg g y. f n wr dr ph row msg g = Some y \<Longrightarrow> ?P n wr dr ph row msg g y"
      and eq: "(let (g, r) = transfer_all n wr dr ph row g in
         if r = 0 then Some (True, g)
         else do {
           (again, g) \<leftarrow> choose_key n KC_RETURN KC_ESC
             (paint_line (msg + 12) 1 (lit ''RETURN=retry  ESC=abort                 '') 40
               (paint_result msg (if wr then ''WRITE failed '' else ''READ failed '') r g));
           if again
           then f n wr dr ph row msg (paint_line (msg + 12) 1 (blanks 40) 40 (paint_line msg 1 (blanks 40) 40 g))
           else Some (False, g)
         }) = Some y"
    obtain g1 e where a: "transfer_all n wr dr ph row g = (g1, e)" by fastforce
    show "?P n wr dr ph row msg g y"
    proof (intro impI)
      assume n: "sony_contract n buf disk" and ok: "fst y"
      show "moved wr (buf (fst g)) (buf (fst (snd y))) (disk (fst (snd y)) dr)"
      proof (cases "e = 0")
        case True
        then show ?thesis using eq a transfer_moves [OF n, of wr dr ph row g g1] by (cases y) simp
      next
        case False
        let ?shown = "paint_line (msg + 12) 1 (lit ''RETURN=retry  ESC=abort                 '') 40
               (paint_result msg (if wr then ''WRITE failed '' else ''READ failed '') e g1)"
        obtain again g2 where ch: "choose_key n KC_RETURN KC_ESC ?shown = Some (again, g2)"
          and y: "(if again then f n wr dr ph row msg (paint_line (msg + 12) 1 (blanks 40) 40 (paint_line msg 1 (blanks 40) 40 g2))
            else Some (False, g2)) = Some y"
          using eq a False by (auto simp: bind_eq_Some_conv)
        have again using y ok by (auto split: if_splits)
        then have m2: "moved wr (buf (fst g2)) (buf (fst (snd y))) (disk (fst (snd y)) dr)"
          using IH [of n wr dr ph row msg "paint_line (msg + 12) 1 (blanks 40) 40 (paint_line msg 1 (blanks 40) 40 g2)" y] y n ok by simp
        have "wr \<Longrightarrow> buf (fst g2) = buf (fst g)"
          using choose_key_frame [OF n ch] transfer_write_frame [of n dr ph row g g1 e buf disk] a n by simp
        then show ?thesis using m2 by (auto simp: moved_def)
      qed
    qed
  qed
  with c show ?thesis by simp
qed

lemma write_dest_moves:
  assumes c: "sony_contract m buf disk" and r: "write_dest m two src dst g = Some (True, g')"
  shows "same_image (disk (fst g') dst) (buffered (buf (fst g)))"
proof -
  obtain g1 where s: "(if two then Some g else swap_disks m src g) = Some g1"
    and "do { (ok, g) \<leftarrow> format_dest m dst g1; if \<not> ok then Some (False, g)
         else transfer_with_retry m True dst ''Writing'' (LINE 14) (LINE 16) g } = Some (True, g')"
    using r by (auto simp: write_dest_def bind_eq_Some_conv)
  then obtain g2 where f: "format_dest m dst g1 = Some (True, g2)" and t: "transfer_with_retry m True dst ''Writing'' (LINE 14) (LINE 16) g2 = Some (True, g')"
    by (auto simp: bind_eq_Some_conv split: if_splits)
  have "buf (fst g1) = buf (fst g)" using s swap_frame [OF _ c] by (auto split: if_splits)
  then have "buf (fst g2) = buf (fst g)" using format_frame [OF c f] by simp
  then show ?thesis using retry_moves [OF c t] by (simp add: moved_def same_image_def)
qed

lemma read_source_moves:
  assumes c: "sony_contract m buf disk" and r: "read_source m src g = Some (Some (two, dst), g')"
  shows "same_image (buffered (buf (fst g'))) (disk (fst g') src)"
proof -
  obtain g1 where "transfer_with_retry m False src ''Reading'' (LINE 13) (LINE 16) g1 = Some (True, g')"
    using r by (auto simp: read_source_def bind_eq_Some_conv split: if_splits)
  from retry_moves [OF c this] show ?thesis by (simp add: moved_def same_image_def)
qed

text \<open>C29: A completed copy is a true copy: when the duplicator ends with "copy complete", the 819200 bytes on the
  destination disk, at the end of the writing, are those that were on the source disk at the end of the
  reading, whichever mode was chosen, however many reads, writes and formats failed and were retried,
  and whatever disks were exchanged meanwhile.\<close>

theorem diskcopy_faithful:
  assumes "sony_contract m buf disk" "diskcopy_main m src g0 = Some (True, g)"
  shows "\<exists>two_drive dst g1 g2. read_source m src g0 = Some (Some (two_drive, dst), g1) \<and>
    write_dest m two_drive src dst g1 = Some (True, g2) \<and> same_image (disk (fst g2) dst) (disk (fst g1) src)"
proof -
  obtain res g1 where r: "read_source m src g0 = Some (res, g1)"
    and rest: "(case res of None \<Rightarrow> aborted g1
     | Some (two_drive, dst) \<Rightarrow> do {
         (ok, g) \<leftarrow> write_dest m two_drive src dst g1;
         if \<not> ok then aborted g
         else do {
           g \<leftarrow> eject_all m two_drive src dst g;
           Some (True, paint_lit 19 1 ''COPY COMPLETE. Power-cycle when done.'' 37 g)
         }
       }) = Some (True, g)"
    using assms(2) by (auto simp: diskcopy_main_def bind_eq_Some_conv)
  obtain two dst where res: "res = Some (two, dst)" using rest by (cases res) (auto simp: aborted_def)
  obtain g2 where w: "write_dest m two src dst g1 = Some (True, g2)"
    using rest by (auto simp: res bind_eq_Some_conv aborted_def split: if_splits)
  from r res have r': "read_source m src g0 = Some (Some (two, dst), g1)" by simp
  have "same_image (disk (fst g2) dst) (disk (fst g1) src)"
    using read_source_moves [OF assms(1) r'] write_dest_moves [OF assms(1) w] by (simp add: same_image_def)
  with r' w show ?thesis by blast
qed

section \<open>A copy that completes\<close>

text \<open>A machine whose drive serves every call, and an operator who presses each key asked for and lets it go:
  \<open>phase\<close> tells whether the next sample finds the keys down.\<close>

definition helpful :: "'w mac \<Rightarrow> ('w \<Rightarrow> bool) \<Rightarrow> bool" where
  "helpful m phase \<longleftrightarrow> (\<forall>t pb w. snd (dev_trap m t pb w) = Inr 0 \<and> phase (fst (dev_trap m t pb w)) = phase w) \<and>
    (\<forall>a w. snd (rd8 m a w) = (if phase w then 0xFF else 0) \<and> phase (fst (rd8 m a w)) = (\<not> phase w))"

lemma key_mask: "(0xFF :: u8) AND push_bit (unat (kc AND 7 :: u8)) 1 \<noteq> 0"
proof -
  have "unat (kc AND 7) < 8"
  proof -
    have "kc AND 7 \<le> 7" by (rule word_and_le1)
    then show ?thesis by (simp add: word_le_nat_alt)
  qed
  then have "unat (kc AND 7) \<in> {0, 1, 2, 3, 4, 5, 6, 7}" by auto
  then show ?thesis by auto
qed

lemma helpful_key:
  assumes h: "helpful m phase"
  obtains g' where "KEY_DOWN m kc g = (g', phase (fst g))" "phase (fst g') = (\<not> phase (fst g))"
proof -
  let ?r = "rd8 m (KEYMAP_BASE + ucast (drop_bit 3 kc)) (fst g)"
  have "snd ?r = (if phase (fst g) then 0xFF else 0)" "phase (fst ?r) = (\<not> phase (fst g))" using h by (simp_all add: helpful_def)
  then have "KEY_DOWN m kc g = ((fst ?r, snd g), phase (fst g))" using key_mask by (simp add: KEY_DOWN_def split_beta)
  then show thesis using that \<open>phase (fst ?r) = _\<close> by simp
qed

lemma helpful_until:
  assumes h: "helpful m phase"
  shows "\<exists>g'. key_until m kc want g = Some g' \<and> phase (fst g') = (\<not> want)"
proof -
  have now: "\<exists>g'. key_until m kc want g = Some g' \<and> phase (fst g') = (\<not> want)" if "phase (fst g) = want" for g
    using that by (subst key_until.simps, cases rule: helpful_key [OF h, of kc g]) simp
  show ?thesis
  proof (cases "phase (fst g) = want")
    case False
    obtain g1 where k: "KEY_DOWN m kc g = (g1, phase (fst g))" "phase (fst g1) = (\<not> phase (fst g))" by (rule helpful_key [OF h])
    then have "phase (fst g1) = want" using False by simp
    from now [OF this] show ?thesis using k False by (subst key_until.simps) simp
  qed (rule now)
qed

lemma helpful_wait:
  assumes h: "helpful m phase"
  shows "\<exists>g'. wait_key m kc g = Some g' \<and> phase (fst g')"
proof -
  obtain g1 where "key_until m kc True g = Some g1" using helpful_until [OF h] by blast
  moreover obtain g2 where "key_until m kc False g1 = Some g2" "phase (fst g2)" using helpful_until [OF h, of kc False g1] by blast
  ultimately show ?thesis by (simp add: wait_key_def)
qed

lemma helpful_choose:
  assumes h: "helpful m phase" and p: "phase (fst g)"
  shows "\<exists>g'. choose_key m k1 k2 g = Some (True, g') \<and> phase (fst g')"
proof -
  obtain g1 where k: "KEY_DOWN m k1 g = (g1, phase (fst g))" by (rule helpful_key [OF h])
  obtain g2 where "wait_key m k1 g1 = Some g2" "phase (fst g2)" using helpful_wait [OF h] by blast
  then show ?thesis using k p by (subst choose_key.simps) simp
qed

lemma helpful_trap:
  assumes h: "helpful m phase"
  obtains g' where "trap_with_recovery m t pb g = (g', 0)" "phase (fst g') = phase (fst g)"
proof -
  have "snd (dev_trap m t pb (fst g)) = Inr 0" "phase (fst (dev_trap m t pb (fst g))) = phase (fst g)" using h by (simp_all add: helpful_def)
  then show thesis using that by (auto simp: trap_with_recovery_def split_beta)
qed

lemma helpful_transfer_from:
  assumes h: "helpful m phase"
  shows "\<exists>g'. transfer_from m wr d ph row off g = (g', 0) \<and> phase (fst g') = phase (fst g)"
proof (induction "819200 - unat off" arbitrary: off g rule: less_induct)
  case less
  show ?case
  proof (cases "off < DISK_BYTES")
    case False
    then show ?thesis by (simp add: transfer_end)
  next
    case True
    define chunk where "chunk = min (DISK_BYTES - off) CHUNK_BYTES"
    define t where "t = progress_text ph (off + chunk)"
    note f = chunk_facts [OF True chunk_def]
    obtain g1 where x: "xfer m wr d (IOBUF_BASE + off) off chunk g = (g1, 0)" and p: "phase (fst g1) = phase (fst g)"
      unfolding xfer_def by (rule helpful_trap [OF h])
    have "819200 - unat (off + chunk) < 819200 - unat off" using f by (simp add: min_def split: if_splits)
    from less.hyps [OF this] obtain g' where "transfer_from m wr d ph row (off + chunk) (paint_line row 1 t (length t) g1) = (g', 0)"
      "phase (fst g') = phase (fst g)" using p by (metis paint_line_world)
    then show ?thesis using True x by (subst transfer_from.simps) (auto simp: Let_def chunk_def [symmetric] t_def [symmetric])
  qed
qed

lemma helpful_transfer:
  assumes h: "helpful m phase"
  shows "\<exists>g'. transfer_with_retry m wr d ph row msg g = Some (True, g') \<and> phase (fst g') = phase (fst g)"
proof -
  obtain g' where "transfer_all m wr d ph row g = (g', 0)" "phase (fst g') = phase (fst g)"
    using helpful_transfer_from [OF h] unfolding transfer_all_def by blast
  then show ?thesis by (subst transfer_with_retry.simps) simp
qed

lemma helpful_eject:
  assumes h: "helpful m phase"
  shows "\<exists>g'. eject_shown m d l lab g = Some g' \<and> phase (fst g') = phase (fst g)"
proof -
  let ?r = "dev_trap m Trap_Control (eject_pb d) (fst g)"
  have "snd ?r = Inr 0" "phase (fst ?r) = phase (fst g)" using h by (simp_all add: helpful_def)
  then show ?thesis by (simp add: eject_shown_def eject_floppy_def split_beta)
qed

lemma helpful_select:
  assumes h: "helpful m phase" and p: "phase (fst g)"
  shows "\<exists>g'. select_mode m src g = Some (False, src, g') \<and> phase (fst g')"
proof -
  have "phase (fst (steps
       [paint_lit 0 1 ''DISKCOPY: 800K floppy duplicator'' 32,
        paint_lit 2 1 ''Boot/source drive:'' 18, digit_at 2 20 src,
        paint_lit 4 1 ''Choose copy mode:'' 17,
        paint_lit 5 1 ''  1 = single-drive (swap source then dest)'' 42,
        paint_lit 6 1 ''  2 = two-drive (source=boot drive, dest=other)'' 47,
        paint_lit 7 1 ''Press 1 or 2 ...'' 16] g))" using p by simp
  from helpful_choose [OF h this] obtain g1 where "choose_key m KC_1 KC_2 (steps
       [paint_lit 0 1 ''DISKCOPY: 800K floppy duplicator'' 32,
        paint_lit 2 1 ''Boot/source drive:'' 18, digit_at 2 20 src,
        paint_lit 4 1 ''Choose copy mode:'' 17,
        paint_lit 5 1 ''  1 = single-drive (swap source then dest)'' 42,
        paint_lit 6 1 ''  2 = two-drive (source=boot drive, dest=other)'' 47,
        paint_lit 7 1 ''Press 1 or 2 ...'' 16] g) = Some (True, g1)" "phase (fst g1)" by blast
  then show ?thesis by (simp add: select_mode_def del: steps_simps) (simp add: Let_def)
qed

lemma helpful_confirm:
  assumes h: "helpful m phase" and p: "phase (fst g)"
  shows "\<exists>g'. confirm m dst g = Some (True, g') \<and> phase (fst g')"
  unfolding confirm_def by (rule helpful_choose [OF h]) (simp add: p)

lemma helpful_stage:
  assumes h: "helpful m phase"
  shows "\<exists>g'. stage_source m two src g = Some g' \<and> phase (fst g')"
proof -
  obtain g1 where e: "eject_shown m src 7 ''Eject boot disk '' (steps [paint_blank 7 50, paint_blank 8 50, paint_blank 9 50, paint_blank 10 50] g) = Some g1"
    using helpful_eject [OF h] by blast
  obtain g2 where "wait_key m KC_RETURN (steps
       ((if two
         then [paint_lit 9 1 ''Insert SOURCE in boot drive,'' 28, paint_lit 10 1 ''blank DEST in other drive.'' 26]
         else [paint_lit 9 1 ''Insert SOURCE disk in the drive.'' 32, paint_lit 10 1 ''(destination comes later)'' 25]) @
        [paint_lit 11 1 ''Press RETURN when ready ...'' 27]) g1) = Some g2" "phase (fst g2)" using helpful_wait [OF h] by blast
  with e show ?thesis by (simp add: stage_source_def del: steps_simps)
qed

lemma helpful_swap:
  assumes h: "helpful m phase"
  shows "\<exists>g'. swap_disks m src g = Some g' \<and> phase (fst g')"
proof -
  obtain g1 where e: "eject_shown m src 11 ''Eject source '' g = Some g1" using helpful_eject [OF h] by blast
  obtain g2 where "wait_key m KC_RETURN (steps
       [paint_lit 9 1 ''Insert DEST disk (will be erased).      '' 40, paint_blank 10 40,
        paint_lit 12 1 ''Press RETURN when ready ...'' 27] g1) = Some g2" "phase (fst g2)" using helpful_wait [OF h] by blast
  with e show ?thesis by (simp add: swap_disks_def del: steps_simps)
qed

lemma helpful_format:
  assumes h: "helpful m phase"
  shows "\<exists>g'. format_dest m dst g = Some (True, g') \<and> phase (fst g') = phase (fst g)"
proof -
  let ?g = "paint_lit 13 1 ''Formatting dest ...                     '' 40 g"
  let ?pb = "pb_bytes (pb_zero\<lparr>io_vrefnum := dst, io_refnum := SONY_REFNUM, io_versnum := 0, io_permssn := 6\<rparr>)"
  obtain g1 where t: "trap_with_recovery m Trap_Control ?pb ?g = (g1, 0)" and p: "phase (fst g1) = phase (fst ?g)"
    by (rule helpful_trap [OF h])
  have "sony_format m dst ?g = (g1, 0)" "phase (fst g1) = phase (fst g)" unfolding sony_format_def using t p by simp_all
  then show ?thesis by (subst format_dest.simps) simp
qed

lemma helpful_completes:
  assumes h: "helpful m phase" and p: "phase (fst g0)"
  shows "\<exists>g. diskcopy_main m src g0 = Some (True, g)"
proof -
  obtain g1 where 1: "select_mode m src g0 = Some (False, src, g1)" "phase (fst g1)" using helpful_select [OF h p] by blast
  obtain g2 where 2: "confirm m src g1 = Some (True, g2)" "phase (fst g2)" using helpful_confirm [OF h 1(2)] by blast
  obtain g3 where 3: "stage_source m False src g2 = Some g3" "phase (fst g3)" using helpful_stage [OF h] by blast
  obtain g4 where 4: "transfer_with_retry m False src ''Reading'' (LINE 13) (LINE 16) g3 = Some (True, g4)" using helpful_transfer [OF h] by blast
  have r: "read_source m src g0 = Some (Some (False, src), g4)" using 1 2 3 4 by (simp add: read_source_def)
  obtain g5 where 5: "swap_disks m src g4 = Some g5" using helpful_swap [OF h] by blast
  obtain g6 where 6: "format_dest m src g5 = Some (True, g6)" using helpful_format [OF h] by blast
  obtain g7 where 7: "transfer_with_retry m True src ''Writing'' (LINE 14) (LINE 16) g6 = Some (True, g7)" using helpful_transfer [OF h] by blast
  have w: "write_dest m False src src g4 = Some (True, g7)" using 5 6 7 by (simp add: write_dest_def)
  obtain g8 where "eject_shown m src 16 ''Eject dest '' g7 = Some g8" using helpful_eject [OF h] by blast
  then show ?thesis using r w by (simp add: diskcopy_main_def eject_all_def)
qed


text \<open>A machine that keeps both contracts: a counter of key samples, a buffer and the disks. Blocks are told apart
  by the trap, and their fields read back from the bytes.\<close>

type_synonym floppies = "bool \<times> ram \<times> (u16 \<Rightarrow> ram)"

definition floppy_trap :: "trap \<Rightarrow> bytes \<Rightarrow> floppies \<Rightarrow> floppies \<times> (u32 + u16)" where
  "floppy_trap t pb = (\<lambda>(p, b, d).
    let drive = pb_word 22 pb; a = pb_long 32 pb; len = pb_long 36 pb; off = pb_long 46 pb in
    (case t of Trap_Read \<Rightarrow> (p, store a (extent (d drive) off len) b, d)
     | Trap_Write \<Rightarrow> (p, b, d(drive := store off (extent b a len) (d drive)))
     | Trap_Control \<Rightarrow> (p, b, d), Inr 0))"

definition floppy_mac :: "floppies mac" where
  "floppy_mac = \<lparr>dev_trap = floppy_trap, rd8 = (\<lambda>a (p, b, d). ((\<not> p, b, d), if p then 0xFF else 0)), wr8 = (\<lambda>a v w. w),
     ram_of = fst \<circ> snd, set_ram = (\<lambda>b (p, c, d). (p, b, d)), bus_fault = (\<lambda>a w. None)\<rparr>"

lemma floppy_contract: "sony_contract floppy_mac (fst \<circ> snd) (snd \<circ> snd)"
  by (auto simp: sony_contract_def floppy_mac_def floppy_trap_def pb_back Let_def pb_init_def split: trap.splits)

lemma floppy_helpful: "helpful floppy_mac fst"
  by (simp add: helpful_def floppy_mac_def floppy_trap_def split_beta Let_def split: trap.splits)


lemma floppy_completes: "\<exists>g. diskcopy_main floppy_mac 1 ((True, (\<lambda>a. 0), (\<lambda>d a. 7)), []) = Some (True, g)"
  by (rule helpful_completes [OF floppy_helpful]) simp

theorem diskcopy_faithful_witness:
  "\<exists>two_drive dst g1 g2. read_source floppy_mac 1 ((True, (\<lambda>a. 0), (\<lambda>d a. 7)), []) = Some (Some (two_drive, dst), g1) \<and>
    write_dest floppy_mac two_drive 1 dst g1 = Some (True, g2) \<and>
    same_image ((snd \<circ> snd) (fst g2) dst) ((snd \<circ> snd) (fst g1) 1)"
proof -
  obtain g where "diskcopy_main floppy_mac 1 ((True, (\<lambda>a. 0), (\<lambda>d a. 7)), []) = Some (True, g)" using floppy_completes by blast
  from diskcopy_faithful [OF floppy_contract this] show ?thesis .
qed

end
