(* ===== verification/MacDevices.thy ===== *)
theory MacDevices
  imports GuestHost
begin

text \<open>
  The hardware and system tables that the disk bench reads (\<open>preboot/iotest\<close>): the ROM's drive queue
  (\<open>drive_enum.c\<close>), the registers of the SCSI controller (\<open>scsi_probe.c\<close>), the sense data of a failing
  device (\<open>scsi_sense.c\<close>, over the ROM's SCSI Manager, an argument), and the timer of the VIA
  (\<open>timing.c\<close>). A wait for the VIA that need not end is an option.
\<close>

section \<open>The drive queue\<close>

datatype DriveType = DRIVE_TYPE_FLOPPY | DRIVE_TYPE_SCSI | DRIVE_TYPE_CDROM | DRIVE_TYPE_UNKNOWN

record DriveInfo =
  drive_num :: u16
  drive_refnum :: u16
  fs_id :: u16
  blocks :: u32
  drive_type :: DriveType
  is_boot :: bool
  drive_name :: bytes

definition classify_refnum :: "u16 \<Rightarrow> DriveType" where
  "classify_refnum r =
    (if r = - 5 then DRIVE_TYPE_FLOPPY else if r = - 41 then DRIVE_TYPE_CDROM else DRIVE_TYPE_SCSI)"

definition refnum_name :: "u16 \<Rightarrow> string option" where
  "refnum_name r = (if r = - 5 then Some ''.Sony'' else if r = - 33 then Some ''.SCSI'' else if r = - 41 then Some ''.AppleCD'' else None)"

fun drive_type_name :: "DriveType \<Rightarrow> string" where
  "drive_type_name DRIVE_TYPE_FLOPPY = ''FLP ''"
| "drive_type_name DRIVE_TYPE_SCSI = ''SCSI''"
| "drive_type_name DRIVE_TYPE_CDROM = ''CD  ''"
| "drive_type_name DRIVE_TYPE_UNKNOWN = ''?   ''"

text \<open>One queue element, read field by field; the size has a high word only for \<open>qType\<close> 1.\<close>

definition drive_entry :: "'w mac \<Rightarrow> 'w \<Rightarrow> u16 \<Rightarrow> u32 \<Rightarrow> u32 + DriveInfo" where
  "drive_entry m w boot dqe =
    (case rd_w m w (dqe + 4) of Inl v \<Rightarrow> Inl v | Inr qtype \<Rightarrow>
     case rd_w m w (dqe + 6) of Inl v \<Rightarrow> Inl v | Inr num \<Rightarrow>
     case rd_w m w (dqe + 8) of Inl v \<Rightarrow> Inl v | Inr ref \<Rightarrow>
     case rd_w m w (dqe + 10) of Inl v \<Rightarrow> Inl v | Inr fs \<Rightarrow>
     case rd_w m w (dqe + 12) of Inl v \<Rightarrow> Inl v | Inr lo \<Rightarrow>
     case (if qtype = 1 then rd_w m w (dqe + 14) else Inr 0) of Inl v \<Rightarrow> Inl v | Inr hi \<Rightarrow>
     Inr \<lparr>drive_num = num, drive_refnum = ref, fs_id = fs, blocks = ucast lo OR push_bit 16 (ucast hi),
       drive_type = classify_refnum ref, is_boot = (num = boot), drive_name = []\<rparr>)"

function enum_from :: "'w mac \<Rightarrow> 'w \<Rightarrow> u16 \<Rightarrow> int \<Rightarrow> nat \<Rightarrow> nat \<Rightarrow> u32 \<Rightarrow> u32 + DriveInfo list" where
  "enum_from m w boot max_drives n hops dqe =
    (if dqe \<noteq> 0 \<and> int n < max_drives \<and> hops < 32
     then
       (case drive_entry m w boot dqe of Inl v \<Rightarrow> Inl v | Inr d \<Rightarrow>
        case rd_l m w dqe of Inl v \<Rightarrow> Inl v | Inr link \<Rightarrow>
        case enum_from m w boot max_drives (n + 1) (hops + 1) link of Inl v \<Rightarrow> Inl v | Inr ds \<Rightarrow> Inr (d # ds))
     else Inr [])"
  by auto
termination by (relation "measure (\<lambda>(m, w, b, x, n, hops, d). 32 - hops)") auto

declare enum_from.simps [simp del]

definition enum_drives :: "'w mac \<Rightarrow> 'w \<Rightarrow> int \<Rightarrow> u32 + DriveInfo list" where
  "enum_drives m w max_drives =
    (case rd_w m w 0x0210 of Inl v \<Rightarrow> Inl v | Inr boot \<Rightarrow>
     case rd_l m w 0x030A of Inl v \<Rightarrow> Inl v | Inr dqe \<Rightarrow> enum_from m w boot max_drives 0 0 dqe)"

text \<open>The search for the name of the volume on a drive, which nothing calls yet.\<close>

definition pstr_to_cstr :: "u32 \<Rightarrow> u32 \<Rightarrow> ram \<Rightarrow> bytes" where
  "pstr_to_cstr dst_max src f =
    (let len = ucast (f src); len = (if dst_max \<le> len then dst_max - 1 else len)
     in map (\<lambda>i. f (src + 1 + of_nat i)) [0..<unat len])"

function volume_from :: "'w mac \<Rightarrow> 'w \<Rightarrow> u16 \<Rightarrow> u32 \<Rightarrow> nat \<Rightarrow> u32 \<Rightarrow> u32 + bytes" where
  "volume_from m w drive out_max hops vcb =
    (if vcb \<noteq> 0 \<and> hops < 32
     then
       (case rd_w m w (vcb + 72) of Inl v \<Rightarrow> Inl v | Inr d \<Rightarrow>
        if d = drive then Inr (pstr_to_cstr out_max (vcb + 44) (ram_of m w))
        else (case rd_l m w vcb of Inl v \<Rightarrow> Inl v | Inr link \<Rightarrow> volume_from m w drive out_max (hops + 1) link))
     else Inr [])"
  by auto
termination by (relation "measure (\<lambda>(m, w, d, x, hops, v). 32 - hops)") auto

declare volume_from.simps [simp del]

definition find_volume_name :: "'w mac \<Rightarrow> 'w \<Rightarrow> u16 \<Rightarrow> u32 \<Rightarrow> u32 + bytes" where
  "find_volume_name m w drive out_max =
    (case rd_l m w (0x0356 + 2) of Inl v \<Rightarrow> Inl v | Inr vcb \<Rightarrow> volume_from m w drive out_max 0 vcb)"

text \<open>The specification: a queue in memory is the list of the addresses of its elements.\<close>

fun linked :: "ram \<Rightarrow> u32 \<Rightarrow> u32 list \<Rightarrow> bool" where
  "linked f a [] \<longleftrightarrow> a = 0"
| "linked f a (x # xs) \<longleftrightarrow> a = x \<and> x \<noteq> 0 \<and> linked f (long_at x f) xs"

definition drive_at :: "ram \<Rightarrow> u32 \<Rightarrow> DriveInfo" where
  "drive_at f x = \<lparr>drive_num = word_at (x + 6) f, drive_refnum = word_at (x + 8) f, fs_id = word_at (x + 10) f,
     blocks = (if word_at (x + 4) f = 1 then ucast (word_at (x + 12) f) OR push_bit 16 (ucast (word_at (x + 14) f)) else ucast (word_at (x + 12) f)),
     drive_type = classify_refnum (word_at (x + 8) f), is_boot = (word_at (x + 6) f = word_at 0x0210 f), drive_name = []\<rparr>"

abbreviation no_fault :: "'w mac \<Rightarrow> 'w \<Rightarrow> bool" where
  "no_fault m w \<equiv> \<forall>a. bus_fault m a w = None"

lemma reads_ok: "no_fault m w \<Longrightarrow> rd_w m w a = Inr (word_at a (ram_of m w))" "no_fault m w \<Longrightarrow> rd_l m w a = Inr (long_at a (ram_of m w))"
  by (simp_all add: rd_w_def rd_l_def)

lemma drive_entry_ok: "no_fault m w \<Longrightarrow> drive_entry m w (word_at 0x0210 (ram_of m w)) x = Inr (drive_at (ram_of m w) x)"
  by (simp add: drive_entry_def reads_ok drive_at_def)

lemma enum_from_queue:
  assumes ok: "no_fault m w" and f: "f = ram_of m w"
  shows "linked f a xs \<Longrightarrow> enum_from m w (word_at 0x0210 f) k n n a = Inr (map (drive_at f) (take (min (32 - n) (nat (k - int n))) xs))"
proof (induction xs arbitrary: a n)
  case Nil
  then show ?case by (subst enum_from.simps) simp
next
  case (Cons x xs)
  show ?case
  proof (cases "int n < k \<and> n < 32")
    case True
    then have "min (32 - n) (nat (k - int n)) = Suc (min (32 - (n + 1)) (nat (k - int (n + 1))))" by arith
    then show ?thesis using Cons.prems Cons.IH [of "long_at x f" "n + 1"] True ok
      by (subst enum_from.simps) (simp add: f drive_entry_ok reads_ok)
  next
    case False
    then show ?thesis using Cons.prems by (subst enum_from.simps) auto
  qed
qed

lemma enum_from_bounded: "enum_from m w boot k n hops a = Inr ds \<Longrightarrow> length ds \<le> 32 - hops \<and> length ds \<le> nat (k - int n)"
proof (induction m w boot k n hops a arbitrary: ds rule: enum_from.induct)
  case (1 m w boot k n hops a)
  show ?case
  proof (cases "a \<noteq> 0 \<and> int n < k \<and> hops < 32")
    case True
    then obtain d link es where p: "drive_entry m w boot a = Inr d" "rd_l m w a = Inr link"
      "enum_from m w boot k (n + 1) (hops + 1) link = Inr es" "ds = d # es"
      using 1(2) by (subst (asm) enum_from.simps) (auto split: sum.splits)
    from 1(1) [OF True p(1, 2, 3)] show ?thesis using True p(4) by auto
  next
    case False
    then show ?thesis using 1(2) by (subst (asm) enum_from.simps) auto
  qed
qed


text \<open>A memory with a queue of one element.\<close>

definition queue_mac :: "ram mac" where
  "queue_mac = \<lparr>dev_trap = (\<lambda>t pb w. (w, Inr 0)), rd8 = (\<lambda>a w. (w, w a)), wr8 = (\<lambda>a v w. w(a := v)), ram_of = (\<lambda>w. w),
     set_ram = (\<lambda>f w. f), bus_fault = (\<lambda>a w. None)\<rparr>"

definition queue_ram :: ram where
  "queue_ram = (\<lambda>a. 0)(0x030C := 0x10, 0x1007 := 2, 0x1008 := 0xFF, 0x1009 := 0xFB, 0x100C := 0x06, 0x100D := 0x40)"


section \<open>The registers of the SCSI controller\<close>

definition hex_digit :: "u8 \<Rightarrow> u8" where
  "hex_digit v = lit ''0123456789ABCDEF'' ! unat (v AND 0xF)"

definition put_hex8 :: "u8 \<Rightarrow> bytes" where
  "put_hex8 v = [hex_digit (drop_bit 4 v), hex_digit v]"

definition NCR5380_REG :: "nat \<Rightarrow> u32" where
  "NCR5380_REG n = 0x50F10000 + push_bit 4 (of_nat n)"

definition scsi_read_ncr5380 :: "'w mac \<Rightarrow> 'w \<Rightarrow> 'w \<times> bytes" where
  "scsi_read_ncr5380 m w = fold (\<lambda>i (w, out). let (w, b) = rd8 m (NCR5380_REG i) w in (w, out @ [b])) [0..<8] (w, [])"

definition scsi_fmt_ncr5380 :: "bytes \<Rightarrow> bytes" where
  "scsi_fmt_ncr5380 regs = concat (map (\<lambda>i. put_hex8 (regs ! i) @ (if i < 7 then [32] else [])) [0..<8]) @ [32]"

definition scsi_probe_format :: "'w mac \<Rightarrow> 'w \<Rightarrow> 'w \<times> bytes" where
  "scsi_probe_format m w = (let (w, regs) = scsi_read_ncr5380 m w in (w, scsi_fmt_ncr5380 regs))"

section \<open>The sense data of a failed command\<close>

text \<open>The SCSI Manager: each call may also end in an exception. The blind read gives the bytes that arrived.\<close>

record 'w scsi_mgr =
  sm_get :: "'w \<Rightarrow> 'w \<times> (u32 + u16)"
  sm_select :: "u8 \<Rightarrow> 'w \<Rightarrow> 'w \<times> (u32 + u16)"
  sm_cmd :: "bytes \<Rightarrow> 'w \<Rightarrow> 'w \<times> (u32 + u16)"
  sm_rblind :: "u32 list \<Rightarrow> 'w \<Rightarrow> 'w \<times> bytes \<times> (u32 + u16)"
  sm_complete :: "u32 \<Rightarrow> 'w \<Rightarrow> 'w \<times> (u32 + u16)"

definition cdb_request_sense :: bytes where
  "cdb_request_sense = [0x03, 0x00, 0x00, 0x00, 0x12, 0x00]"

definition sense_tib :: "u32 \<Rightarrow> u32 list" where
  "sense_tib out = [0, 18, out, 6, 0, 0]"

definition arrived :: "bytes \<Rightarrow> bytes" where
  "arrived xs = take 18 (xs @ replicate (18 - length xs) 0)"

definition sense_cleanup :: "'w scsi_mgr \<Rightarrow> u16 \<Rightarrow> bytes \<Rightarrow> 'w \<Rightarrow> 'w \<times> (u32 + u16 \<times> bytes)" where
  "sense_cleanup S r sense w = (case sm_complete S 60 w of (w, Inl v) \<Rightarrow> (w, Inl v) | (w, Inr _) \<Rightarrow> (w, Inr (r, sense)))"

definition scsi_request_sense :: "'w scsi_mgr \<Rightarrow> u8 \<Rightarrow> u32 \<Rightarrow> 'w \<Rightarrow> 'w \<times> (u32 + u16 \<times> bytes)" where
  "scsi_request_sense S scsi_id out w =
    (let zeros = replicate 18 0 in
     case sm_get S w of (w, Inl v) \<Rightarrow> (w, Inl v) | (w, Inr r) \<Rightarrow>
     if r \<noteq> 0 then (w, Inr (r, zeros))
     else (case sm_select S scsi_id w of (w, Inl v) \<Rightarrow> (w, Inl v) | (w, Inr r) \<Rightarrow>
     if r \<noteq> 0 then sense_cleanup S r zeros w
     else (case sm_cmd S cdb_request_sense w of (w, Inl v) \<Rightarrow> (w, Inl v) | (w, Inr r) \<Rightarrow>
     if r \<noteq> 0 then sense_cleanup S r zeros w
     else (case sm_rblind S (sense_tib out) w of (w, xs, Inl v) \<Rightarrow> (w, Inl v) | (w, xs, Inr r) \<Rightarrow>
     sense_cleanup S r (arrived xs) w))))"

definition scsi_request_sense_safe :: "'w scsi_mgr \<Rightarrow> u8 \<Rightarrow> u32 \<Rightarrow> 'w \<Rightarrow> 'w \<times> u16 \<times> bytes" where
  "scsi_request_sense_safe S scsi_id out w =
    (case scsi_request_sense S scsi_id out w of (w, Inl v) \<Rightarrow> (w, ucast (EXC_ERR_BASE + v), replicate 18 0) | (w, Inr r) \<Rightarrow> (w, r))"

text \<open>Whenever the bus was acquired and nothing raised an exception, completing the command is the last thing done.\<close>

lemma cleanup_last: "sense_cleanup S r sense w = (w', Inr y) \<Longrightarrow> y = (r, sense) \<and> (\<exists>c. sm_complete S 60 w = (w', Inr c))"
  by (auto simp: sense_cleanup_def split: prod.splits sum.splits)

lemma sense_releases_bus:
  assumes "sm_get S w = (w0, Inr 0)" "scsi_request_sense S i out w = (w', Inr (r, sense))"
  shows "\<exists>w1 c. sm_complete S 60 w1 = (w', Inr c)"
  using assms by (auto simp: scsi_request_sense_def Let_def split: prod.splits sum.splits if_splits dest!: cleanup_last)

lemma length_arrived [simp]: "length (arrived xs) = 18"
  by (simp add: arrived_def)

lemma sense_size: "scsi_request_sense S i out w = (w', Inr (r, sense)) \<Longrightarrow> length sense = 18"
  by (auto simp: scsi_request_sense_def Let_def split: prod.splits sum.splits if_splits dest!: cleanup_last)

section \<open>The timer of the VIA\<close>

definition VIA1_T2CL :: u32 where "VIA1_T2CL = 0x50F00000 + 0x200 * 8"
definition VIA1_T2CH :: u32 where "VIA1_T2CH = 0x50F00000 + 0x200 * 9"
definition VIA1_IER :: u32 where "VIA1_IER = 0x50F00000 + 0x200 * 14"
definition VIA1_IFR :: u32 where "VIA1_IFR = 0x50F00000 + 0x200 * 13"
definition VIA1_ACR :: u32 where "VIA1_ACR = 0x50F00000 + 0x200 * 11"
definition IER_T2 :: u8 where "IER_T2 = 0x20"

record T2Timer =
  wrap_count :: u32
  start_t2 :: u16

definition timer_start :: "'w mac \<Rightarrow> 'w \<Rightarrow> 'w \<times> T2Timer" where
  "timer_start m w =
    (let (w, acr) = rd8 m VIA1_ACR w;
         w = wr8 m VIA1_ACR (acr AND NOT 0x20) w;
         w = wr8 m VIA1_IER IER_T2 w;
         w = wr8 m VIA1_T2CL 0xFF w;
         w = wr8 m VIA1_T2CH 0xFF w;
         w = wr8 m VIA1_IFR IER_T2 w
     in (w, \<lparr>wrap_count = 0, start_t2 = 0xFFFF\<rparr>))"

partial_function (option) drain_wraps :: "'w mac \<Rightarrow> 'w \<Rightarrow> T2Timer \<Rightarrow> ('w \<times> T2Timer) option" where
  "drain_wraps m w t =
    (let (w, ifr) = rd8 m VIA1_IFR w in
     if ifr AND IER_T2 \<noteq> 0 then drain_wraps m (wr8 m VIA1_IFR IER_T2 w) (t\<lparr>wrap_count := wrap_count t + 1\<rparr>)
     else Some (w, t))"

definition read_t2 :: "'w mac \<Rightarrow> 'w \<Rightarrow> 'w \<times> u16" where
  "read_t2 m w = (let (w, lo) = rd8 m VIA1_T2CL w; (w, hi) = rd8 m VIA1_T2CH w in (w, u16_of hi lo))"

definition read_ticks_since_start :: "'w mac \<Rightarrow> 'w \<Rightarrow> T2Timer \<Rightarrow> ('w \<times> T2Timer \<times> u32) option" where
  "read_ticks_since_start m w t =
    (case drain_wraps m w t of None \<Rightarrow> None | Some (w, t) \<Rightarrow>
      (let (w, t2) = read_t2 m w;
           (w, ifr) = rd8 m VIA1_IFR w;
           (w, t, t2) =
             (if ifr AND IER_T2 \<noteq> 0
              then (let w = wr8 m VIA1_IFR IER_T2 w; (w, t2) = read_t2 m w in (w, t\<lparr>wrap_count := wrap_count t + 1\<rparr>, t2))
              else (w, t, t2))
       in Some (w, t, ucast (start_t2 t) - ucast t2 + push_bit 16 (wrap_count t))))"

definition ticks_to_us :: "u32 \<Rightarrow> u32" where
  "ticks_to_us ticks = ticks * 100 div 127"

definition timer_elapsed_us :: "'w mac \<Rightarrow> 'w \<Rightarrow> T2Timer \<Rightarrow> ('w \<times> T2Timer \<times> u32) option" where
  "timer_elapsed_us m w t = (case read_ticks_since_start m w t of None \<Rightarrow> None | Some (w, t, ticks) \<Rightarrow> Some (w, t, ticks_to_us ticks))"

text \<open>The reported time is short: a tick of the 783360 Hz timer lasts 1.2766 microseconds, but ticks are multiplied by
  100/127, so for every span below 42949672 ticks the microseconds reported are under 62 percent of those
  that passed (and at least 61, apart from rounding down); longer spans overflow and report less than 34 seconds.\<close>

theorem timer_underreports:
  "unat (ticks_to_us t) \<le> 33818640 \<and>
   (unat t \<le> 42949672 \<longrightarrow> 783360 * 100 * unat (ticks_to_us t) \<le> 62 * (1000000 * unat t) \<and>
     61 * (1000000 * unat t) \<le> 783360 * 100 * (unat (ticks_to_us t) + 1))"
proof (intro conjI impI)
  have lim: "unat (t * 100) < 2 ^ LENGTH(32)" by (rule unsigned_less)
  then show "unat (ticks_to_us t) \<le> 33818640" by (simp add: ticks_to_us_def unat_div)
  assume "unat t \<le> 42949672"
  then have q: "unat (ticks_to_us t) = unat t * 100 div 127" by (simp add: ticks_to_us_def unat_div unat_word_ariths)
  define n where "n = unat t"
  define u where "u = unat (ticks_to_us t)"
  have "127 * u \<le> 100 * n" "100 * n < 127 * (u + 1)" unfolding u_def n_def q by simp_all
  then have "783360 * 100 * u \<le> 62 * (1000000 * n)" "61 * (1000000 * n) \<le> 783360 * 100 * (u + 1)" by linarith+
  then show "783360 * 100 * unat (ticks_to_us t) \<le> 62 * (1000000 * unat t)"
    "61 * (1000000 * unat t) \<le> 783360 * 100 * (unat (ticks_to_us t) + 1)" unfolding u_def n_def .
qed

theorem timer_underreports_witness:
  "783360 * 100 * unat (ticks_to_us 1000000) \<le> 62 * (1000000 * unat (1000000 :: u32))"
  using timer_underreports [of 1000000] by simp

text \<open>A span without a wrap: the ticks are those the counter went down.\<close>

lemma ticks_without_wrap:
  assumes "\<forall>w. rd8 m VIA1_IFR w = (w, 0)" "\<forall>w. rd8 m VIA1_T2CL w = (w, lo)" "\<forall>w. rd8 m VIA1_T2CH w = (w, hi)"
  shows "timer_elapsed_us m w \<lparr>wrap_count = 0, start_t2 = 0xFFFF\<rparr> =
    Some (w, \<lparr>wrap_count = 0, start_t2 = 0xFFFF\<rparr>, ticks_to_us (0xFFFF - ucast (u16_of hi lo)))"
  using assms by (simp add: timer_elapsed_us_def read_ticks_since_start_def drain_wraps.simps read_t2_def)

end
