(* ===== verification/IoTest.thy ===== *)
theory IoTest
  imports MacDevices
begin

text \<open>
  The disk bench that boots on the Macintosh (\<open>preboot/iotest/diskio_main.c\<close> and \<open>sizes.c\<close>): for each size
  it times a read, then a write of a pattern that is read back and compared, and reports on the screen
  and in the log. The build variants (hard disk or floppy, read-only) and the offsets that the image
  builder patches into the table are arguments.
\<close>

section \<open>Configuration\<close>

record IoTestSize =
  size_label :: string
  size_length :: u32
  read_offset :: u32
  write_offset :: u32

record io_cfg =
  cf_hda :: bool
  cf_read_only :: bool
  cf_refnum :: u16
  cf_drive :: u16
  cf_results :: u32
  cf_offsets :: "nat \<Rightarrow> u32 \<times> u32"

definition iotest_lengths :: "bool \<Rightarrow> (string \<times> u32) list" where
  "iotest_lengths hda =
    [(''1B'', 1), (''512B'', 512), (''1KB'', 1024), (''2KB'', 2048), (''16KB'', 16384), (''32KB'', 32768), (''64KB'', 65536)] @
    (if hda then [(''256KB'', 262144), (''512KB'', 524288), (''1MB'', 1048576), (''2MB'', 2097152), (''4MB'', 4194304)]
     else [(''128KB'', 131072)])"

definition iotest_sizes :: "io_cfg \<Rightarrow> IoTestSize list" where
  "iotest_sizes c = map (\<lambda>(i, (lab, len)). \<lparr>size_label = lab, size_length = len, read_offset = fst (cf_offsets c i), write_offset = snd (cf_offsets c i)\<rparr>)
     (enumerate 0 (iotest_lengths (cf_hda c)))"

section \<open>Transfers\<close>

definition IO_BUF :: u32 where "IO_BUF = 0x00200000"

definition sector_round_up :: "u32 \<Rightarrow> u32" where
  "sector_round_up n = (if n = 0 then 512 else (n + (512 - 1)) AND NOT (512 - 1))"

definition io_pb :: "io_cfg \<Rightarrow> u32 \<Rightarrow> u32 \<Rightarrow> u32 \<Rightarrow> ParamBlock" where
  "io_pb c buf offset len =
    pb_zero\<lparr>io_refnum := cf_refnum c, io_vrefnum := cf_drive c, io_buffer := buf, io_req_count := sector_round_up len,
      io_pos_mode := 1, io_pos_offset := offset\<rparr>"

definition pattern_byte :: "u32 \<Rightarrow> u8 \<Rightarrow> u8" where
  "pattern_byte i seed = ucast ((i XOR drop_bit 8 i XOR ucast seed) AND 0xFF)"

definition fill_pattern :: "u32 \<Rightarrow> u32 \<Rightarrow> u8 \<Rightarrow> ram \<Rightarrow> ram" where
  "fill_pattern buf len seed = fold (\<lambda>i f. f(buf + of_nat i := pattern_byte (of_nat i) seed)) [0..<unat len]"

definition clear_buffer :: "u32 \<Rightarrow> u32 \<Rightarrow> ram \<Rightarrow> ram" where
  "clear_buffer buf len = fold (\<lambda>i f. f(buf + of_nat i := 0)) [0..<4 * unat ((len + 3) div 4)]"

definition VERIFY_MATCH :: u32 where "VERIFY_MATCH = - 1"

record VerifyResult =
  first_off :: u32
  vr_count :: u32
  vr_expected :: u8
  vr_actual :: u8

definition verify_byte :: "ram \<Rightarrow> u32 \<Rightarrow> u8 \<Rightarrow> nat \<Rightarrow> VerifyResult \<Rightarrow> VerifyResult" where
  "verify_byte f buf seed i r =
    (let ex = pattern_byte (of_nat i) seed; b = f (buf + of_nat i) in
     if b \<noteq> ex
     then (if first_off r = VERIFY_MATCH then r\<lparr>first_off := of_nat i, vr_expected := ex, vr_actual := b\<rparr> else r)
            \<lparr>vr_count := vr_count r + 1\<rparr>
     else r)"

definition verify_pattern :: "ram \<Rightarrow> u32 \<Rightarrow> u32 \<Rightarrow> u8 \<Rightarrow> VerifyResult" where
  "verify_pattern f buf len seed =
    fold (verify_byte f buf seed) [0..<unat len] \<lparr>first_off = VERIFY_MATCH, vr_count = 0, vr_expected = 0, vr_actual = 0\<rparr>"

section \<open>The log\<close>

definition skip_line :: "IoTestSize \<Rightarrow> string \<Rightarrow> u32 \<Rightarrow> bytes list" where
  "skip_line s reason mem_top =
    [lit ''{\"size\":\"'', lit (size_label s), lit ''\",\"len\":'', f_putul (size_length s),
     lit '',\"op\":\"skip\",\"reason\":\"'', lit reason, lit ''\",\"mem_top\":0x'', f_putul mem_top,
     lit '',\"iobuf_base\":0x'', f_putul IO_BUF, lit ''}'', [10]]"

definition sense_fields :: "bytes \<Rightarrow> bytes list" where
  "sense_fields sense =
    [lit '',\"sense_key\":'', f_putul (ucast (sense ! 2 AND 0x0F)), lit '',\"asc\":'', f_putul (ucast (sense ! 12)),
     lit '',\"ascq\":'', f_putul (ucast (sense ! 13)), lit '',\"sense_raw\":\"'',
     concat (map (\<lambda>i. put_hex8 (sense ! i)) [0..<18]), lit ''\"'']"

definition sense_part :: "bytes option \<Rightarrow> bytes list" where
  "sense_part x = (case x of None \<Rightarrow> [] | Some sense \<Rightarrow> sense_fields sense)"

definition read_line :: "IoTestSize \<Rightarrow> u32 \<Rightarrow> u16 \<Rightarrow> bytes option \<Rightarrow> bytes list" where
  "read_line s us err sense =
    [lit ''{\"size\":\"'', lit (size_label s), lit ''\",\"len\":'', f_putul (size_length s),
     lit '',\"op\":\"read\",\"us\":'', f_putul us, lit '',\"err\":'', f_putul (scast err)] @ sense_part sense @ [lit ''}'', [10]]"

definition write_line :: "IoTestSize \<Rightarrow> u32 \<Rightarrow> u16 \<Rightarrow> u32 \<Rightarrow> u16 \<Rightarrow> VerifyResult \<Rightarrow> bytes option \<Rightarrow> bytes list" where
  "write_line s write_us write_err read_us read_err vr sense =
    [lit ''{\"size\":\"'', lit (size_label s), lit ''\",\"len\":'', f_putul (size_length s),
     lit '',\"op\":\"write\",\"us\":'', f_putul write_us, lit '',\"err\":'', f_putul (scast write_err),
     lit '',\"readback_us\":'', f_putul read_us, lit '',\"readback_err\":'', f_putul (scast read_err),
     lit '',\"verified\":'', f_putul (if read_err = 0 \<and> vr_count vr = 0 then 1 else 0)] @
    (if vr_count vr \<noteq> 0
     then [lit '',\"mismatch_offset\":'', f_putul (first_off vr), lit '',\"expected\":'', f_putul (ucast (vr_expected vr)),
           lit '',\"actual\":'', f_putul (ucast (vr_actual vr)), lit '',\"mismatch_count\":'', f_putul (vr_count vr)]
     else []) @ sense_part sense @ [lit ''}'', [10]]"

section \<open>The screen\<close>

definition ioerr_names :: "(int \<times> string) list" where
  "ioerr_names =
    [(-33, ''dirFull''), (-34, ''dskFull''), (-35, ''nsvErr''), (-36, ''ioErr''), (-37, ''bdNamErr''), (-38, ''fnOpnErr''),
     (-39, ''eofErr''), (-40, ''posErr''), (-42, ''tmfoErr''), (-43, ''fnfErr''), (-49, ''opWrErr''), (-50, ''paramErr''),
     (-51, ''rfNumErr''), (-53, ''volOffLn''), (-54, ''permErr''), (-55, ''volOnLn''), (-56, ''nsDrvErr''), (-57, ''noMacDsk''),
     (-58, ''extFSErr''), (-59, ''fsRnErr''), (-60, ''badMDB''), (-61, ''wrPermErr''), (-64, ''lastDsk''), (-65, ''offLine''),
     (-66, ''noNibble''), (-67, ''noAdrMrk''), (-68, ''dataVerf'')]"

definition copy_padded :: "nat \<Rightarrow> bytes \<Rightarrow> bytes" where
  "copy_padded n src = take n src @ replicate (n - length src) 32"

text \<open>Decimal digits by a table of powers of ten, without leading zeros; digits above the table are lost.\<close>

definition dec_table :: "nat \<Rightarrow> u32 \<Rightarrow> bytes" where
  "dec_table n v =
    (let ds = map (\<lambda>d. v div 10 ^ (n - 1 - d) mod 10) [0..<n]
     in map (\<lambda>x. ucast (48 + x)) (dropWhile (\<lambda>x. x = 0) (butlast ds) @ [last ds]))"

definition fmt_status :: "u16 \<Rightarrow> bytes" where
  "fmt_status err =
    (if err = 0 then copy_padded 8 (lit ''pass'')
     else (case map_of ioerr_names (sint err) of Some name \<Rightarrow> copy_padded 8 (lit name)
       | None \<Rightarrow>
         (let v = (scast err :: u32); neg = v <s 0; v = (if neg then - v else v)
          in copy_padded 8 ([69, if neg then 45 else 32] @ dec_table 5 v))))"

definition fmt_verify_fail :: "VerifyResult \<Rightarrow> bytes" where
  "fmt_verify_fail vr =
    (let off = first_off vr in
     copy_padded 8 ([64] @ (if off \<ge> 10 then [ucast (48 + off div 10 mod 10)] else []) @ [ucast (48 + off mod 10), 32] @
       put_hex8 (vr_expected vr) @ [47] @ put_hex8 (vr_actual vr)))"

definition mismatch_detail :: "VerifyResult \<Rightarrow> bytes" where
  "mismatch_detail vr =
    lit ''Mismatched byte @'' @ dec_table 7 (first_off vr) @ lit '' ex:'' @ put_hex8 (vr_expected vr) @ lit '' ac:'' @ put_hex8 (vr_actual vr)"

definition LINE_RESULT :: "nat \<Rightarrow> u32" where "LINE_RESULT i = LINE (8 + i)"

record 'w iot =
  it_w :: 'w
  it_shown :: "paint list"
  it_jw :: JsonlWriter

definition show_line :: "u32 \<Rightarrow> u32 \<Rightarrow> bytes \<Rightarrow> nat \<Rightarrow> 'w iot \<Rightarrow> 'w iot" where
  "show_line row col t n s = s\<lparr>it_shown := it_shown s @ [Paint row col t n]\<rparr>"

definition emit :: "'w jw_io \<Rightarrow> bytes list \<Rightarrow> 'w iot \<Rightarrow> 'w iot" where
  "emit io ps s = (let (jw, w) = jw_commit_line io (jw_puts io (concat ps) (it_jw s, it_w s)) in s\<lparr>it_jw := jw, it_w := w\<rparr>)"

definition paint_row_skeleton :: "io_cfg \<Rightarrow> nat \<Rightarrow> string \<Rightarrow> 'w iot \<Rightarrow> 'w iot" where
  "paint_row_skeleton c i label s =
    (let dots = lit ''. . . . '';
         s = show_line (LINE_RESULT i) 1 (lit label) 8 s;
         s = show_line (LINE_RESULT i) 10 dots 8 s
     in if cf_read_only c then s else show_line (LINE_RESULT i) 20 dots 8 s)"

definition paint_cell :: "nat \<Rightarrow> u32 \<Rightarrow> bytes \<Rightarrow> 'w iot \<Rightarrow> 'w iot" where
  "paint_cell i col t = show_line (LINE_RESULT i) col t 8"

text \<open>The table of drives.\<close>

definition type_label :: "DriveType \<Rightarrow> string" where
  "type_label t = (case t of DRIVE_TYPE_FLOPPY \<Rightarrow> ''Floppy'' | DRIVE_TYPE_CDROM \<Rightarrow> ''CD-ROM'' | DRIVE_TYPE_SCSI \<Rightarrow> ''SCSI Disk''
     | DRIVE_TYPE_UNKNOWN \<Rightarrow> ''Drive'')"

definition human_size :: "u32 \<Rightarrow> bytes" where
  "human_size blks =
    (let b = blks * 512
     in if b \<ge> 1048576 then f_putul ((b + 524288) div 1048576) @ lit ''MB'' else f_putul ((b + 512) div 1024) @ lit ''KB'')"

definition drive_row :: "DriveInfo \<Rightarrow> bytes" where
  "drive_row d =
    (let dn = sint (drive_num d) in
     (if dn \<ge> 10 then [of_int (48 + dn div 10 mod 10)] else []) @ [of_int (48 + (if dn < 0 then - (- dn mod 10) else dn mod 10)), 32] @
     lit (type_label (drive_type d)) @ [32] @ human_size (blocks d) @ (if is_boot d then lit '' *BOOT'' else []))"

definition paint_drives :: "'w mac \<Rightarrow> 'w iot \<Rightarrow> 'w iot" where
  "paint_drives m s =
    (case enum_drives m (it_w s) 4 of
       Inl exc \<Rightarrow>
         (let t = lit ''DRIVES: exception vec '' @ (if exc \<ge> 10 then [ucast (48 + exc div 10 mod 10)] else []) @ [ucast (48 + exc mod 10)]
          in show_line (LINE 1) 1 t (length t) s)
     | Inr ds \<Rightarrow>
         (let s = show_line (LINE 1) 1 (lit ''DRIVES'') 6 s;
              s = fold (\<lambda>(j, d). show_line (LINE (2 + j)) 1 (drive_row d) (length (drive_row d))) (enumerate 0 ds) s
          in fold (\<lambda>j. show_line (LINE (2 + j)) 1 (replicate 40 32) 40) [length ds..<4] s))"

section \<open>The bench\<close>

definition timed_trap :: "'w mac \<Rightarrow> trap \<Rightarrow> bytes \<Rightarrow> 'w iot \<Rightarrow> ('w iot \<times> u32 \<times> u16) option" where
  "timed_trap m t pb s =
    (let (w, tm) = timer_start m (it_w s);
         (g, err) = trap_with_recovery m t pb (w, it_shown s)
     in case timer_elapsed_us m (fst g) tm of None \<Rightarrow> None | Some (w, tm, us) \<Rightarrow> Some (s\<lparr>it_w := w\<rparr>, us, err))"

definition on_ram :: "'w mac \<Rightarrow> (ram \<Rightarrow> ram) \<Rightarrow> 'w iot \<Rightarrow> 'w iot" where
  "on_ram m h s = s\<lparr>it_w := set_ram m (h (ram_of m (it_w s))) (it_w s)\<rparr>"

definition write_readback ::
  "'w mac \<Rightarrow> io_cfg \<Rightarrow> u8 \<Rightarrow> IoTestSize \<Rightarrow> 'w iot \<Rightarrow> ('w iot \<times> u32 \<times> u16 \<times> u32 \<times> u16 \<times> VerifyResult) option" where
  "write_readback m c seed z s =
    (let pb = pb_bytes (io_pb c IO_BUF (write_offset z) (size_length z));
         s = on_ram m (fill_pattern IO_BUF (size_length z) seed) s
     in case timed_trap m Trap_Write pb s of None \<Rightarrow> None | Some (s, wr_us, wr_err) \<Rightarrow>
        (case timed_trap m Trap_Read pb (on_ram m (clear_buffer IO_BUF (size_length z)) s) of None \<Rightarrow> None | Some (s, us, err) \<Rightarrow>
         Some (s, wr_us, wr_err, us, err, verify_pattern (ram_of m (it_w s)) IO_BUF (size_length z) seed)))"

definition paint_write_cell :: "nat \<Rightarrow> u16 \<Rightarrow> u16 \<Rightarrow> VerifyResult \<Rightarrow> 'w iot \<Rightarrow> 'w iot" where
  "paint_write_cell i wr_err err vr s =
    (if wr_err \<noteq> 0 then paint_cell i 20 (fmt_status wr_err) s
     else if err \<noteq> 0 then paint_cell i 20 (fmt_status err) s
     else if vr_count vr \<noteq> 0
     then paint_cell i 20 (fmt_verify_fail vr) (show_line (LINE 21) 1 (mismatch_detail vr) (length (mismatch_detail vr)) s)
     else paint_cell i 20 (fmt_status 0) s)"

definition too_big :: "u32 \<Rightarrow> u32 \<Rightarrow> bool" where
  "too_big mem_top len \<longleftrightarrow> IO_BUF + len > mem_top \<or> len > mem_top - IO_BUF"

definition run_size :: "'w mac \<Rightarrow> io_cfg \<Rightarrow> 'w jw_io \<Rightarrow> u32 \<Rightarrow> nat \<Rightarrow> IoTestSize \<Rightarrow> 'w iot \<Rightarrow> 'w iot option" where
  "run_size m c io mem_top i z s =
    (let s = paint_row_skeleton c i (size_label z) s in
     if too_big mem_top (size_length z)
     then
       (let s = paint_cell i 10 (lit ''SKIP    '') s;
            s = (if cf_read_only c then s else paint_cell i 20 (lit ''SKIP    '') s)
        in Some (emit io (skip_line z ''insufficient_ram'' mem_top) s))
     else
       (case timed_trap m Trap_Read (pb_bytes (io_pb c IO_BUF (read_offset z) (size_length z))) s of None \<Rightarrow> None | Some (s, us, err) \<Rightarrow>
        (let s = paint_cell i 10 (fmt_status err) (emit io (read_line z us err None) s) in
         if cf_read_only c then Some s
         else
           (case write_readback m c (of_nat i) z s of None \<Rightarrow> None | Some (s, wr_us, wr_err, us, err, vr) \<Rightarrow>
            Some (paint_write_cell i wr_err err vr (emit io (write_line z wr_us wr_err us err vr None) s))))))"

fun run_sizes :: "'w mac \<Rightarrow> io_cfg \<Rightarrow> 'w jw_io \<Rightarrow> u32 \<Rightarrow> nat \<Rightarrow> IoTestSize list \<Rightarrow> 'w iot \<Rightarrow> 'w iot option" where
  "run_sizes m c io mem_top i [] s = Some s"
| "run_sizes m c io mem_top i (z # zs) s =
    (case run_size m c io mem_top i z s of None \<Rightarrow> None | Some s \<Rightarrow> run_sizes m c io mem_top (i + 1) zs s)"

definition io_ctx :: "io_cfg \<Rightarrow> JwCtx" where
  "io_ctx c = \<lparr>jc_refnum = cf_refnum c, jc_drive = cf_drive c, jc_base_offset = cf_results c, jc_max_bytes = 32 * 1024\<rparr>"

definition paint_headers :: "io_cfg \<Rightarrow> 'w iot \<Rightarrow> 'w iot" where
  "paint_headers c s =
    (let s = show_line (LINE 7) 1 (lit ''SIZE'') 4 s; s = show_line (LINE 7) 10 (lit ''READ'') 4 s
     in if cf_read_only c then s else show_line (LINE 7) 20 (lit ''WRITE'') 5 s)"

definition finish_io :: "'w mac \<Rightarrow> io_cfg \<Rightarrow> 'w jw_io \<Rightarrow> 'w iot \<Rightarrow> 'w iot option" where
  "finish_io m c io s =
    (let (jw, w) = jw_flush io (it_jw s, it_w s);
         s = show_line (LINE 21 + 12) 1 (lit ''Done!'') 5 (s\<lparr>it_jw := jw, it_w := w\<rparr>)
     in if cf_hda c then Some s
        else
          (case eject_floppy m (cf_drive c) (it_w s, it_shown s) of
             (g, Inl v) \<Rightarrow> None
           | (g, Inr ej) \<Rightarrow> Some (show_line (LINE 21 + 24) 10 (fmt_status ej) 8 (show_line (LINE 21 + 24) 1 (lit ''EJECT:'') 6 (s\<lparr>it_w := fst g\<rparr>)))))"

definition iotest_main :: "'w mac \<Rightarrow> io_cfg \<Rightarrow> 'w jw_io \<Rightarrow> 'w \<Rightarrow> 'w iot option" where
  "iotest_main m c io w =
    (let s = \<lparr>it_w = w, it_shown = [], it_jw = jw_init (io_ctx c)\<rparr>;
         s = (if cf_hda c then show_line (LINE 0) 1 (lit ''IOTEST: HARD DISK I/O BENCH'') 28 s
              else show_line (LINE 0) 1 (lit ''IOTEST: FLOPPY DISK I/O BENCH'') 30 s);
         s = paint_headers c (paint_drives m s)
     in case run_sizes m c io (long_at 0x0108 (ram_of m (it_w s))) 0 (iotest_sizes c) s of
          None \<Rightarrow> None | Some s \<Rightarrow> finish_io m c io s)"

section \<open>Whole sectors\<close>

lemma and_not_mask9: "(n :: u32) AND NOT 511 = push_bit 9 (drop_bit 9 n)"
proof -
  have "(511 :: u32) = mask 9" by (simp add: mask_eq_exp_minus_1)
  show ?thesis unfolding \<open>511 = mask 9\<close>
  proof (rule bit_word_eqI)
    fix k assume "k < LENGTH(32)"
    moreover have "9 + (k - 9) = k" if "9 \<le> k" using that by simp
    ultimately show "bit (n AND NOT (mask 9)) k = bit (push_bit 9 (drop_bit 9 n)) k" by (cases "9 \<le> k") (auto simp: bit_simps)
  qed
qed

lemma sector_round_up_unat:
  assumes "unat n \<le> 2 ^ 32 - 512"
  shows "unat (sector_round_up n) = (if n = 0 then 512 else (unat n + 511) div 512 * 512)"
proof (cases "n = 0")
  case False
  let ?k = "(unat n + 511) div 512"
  have s: "unat (n + 511) = unat n + 511" using assms by (simp add: unat_word_ariths)
  have d: "unat (drop_bit 9 (n + 511)) = ?k" 
    using assms unfolding unsigned_drop_bit_eq by (simp add: drop_bit_eq_div take_bit_nat_eq_self s)
  have "?k * 512 \<le> unat n + 511" by simp
  then have "?k * 512 < 2 ^ 32" using assms by simp
  then have "unat (push_bit 9 (drop_bit 9 (n + 511))) = ?k * 512"
    by (simp add: push_bit_eq_mult unat_word_ariths(2) d mult.commute)
  moreover have "sector_round_up n = push_bit 9 (drop_bit 9 (n + 511))"
    using False and_not_mask9 [of "n + 511"] by (simp add: sector_round_up_def)
  ultimately show ?thesis using False by simp
qed (simp add: sector_round_up_def)

lemma sector_round_up_covers:
  assumes "unat n \<le> 2 ^ 32 - 512"
  shows "unat n \<le> unat (sector_round_up n)" "512 dvd unat (sector_round_up n)" "unat (sector_round_up n) < unat n + 513"
  using sector_round_up_unat [OF assms] by (auto split: if_splits)

section \<open>The comparison\<close>

definition mismatches :: "ram \<Rightarrow> u32 \<Rightarrow> u8 \<Rightarrow> nat \<Rightarrow> nat list" where
  "mismatches f buf seed n = filter (\<lambda>i. f (buf + of_nat i) \<noteq> pattern_byte (of_nat i) seed) [0..<n]"

lemma of_nat_u32: "i < 2 ^ 32 \<Longrightarrow> unat (of_nat i :: u32) = i"
  by (simp add: unsigned_of_nat take_bit_nat_eq_self)

lemma VERIFY_MATCH_unat: "unat VERIFY_MATCH = 4294967295"
  by (simp add: VERIFY_MATCH_def unsigned_minus_1_eq_mask mask_eq_exp_minus_1)

text \<open>What the result of the comparison of the first \<open>n\<close> bytes must be.\<close>

definition verify_spec :: "ram \<Rightarrow> u32 \<Rightarrow> u8 \<Rightarrow> nat \<Rightarrow> VerifyResult \<Rightarrow> bool" where
  "verify_spec f buf seed n r \<longleftrightarrow> vr_count r = of_nat (length (mismatches f buf seed n)) \<and>
    (case mismatches f buf seed n of [] \<Rightarrow> first_off r = VERIFY_MATCH
     | i # is \<Rightarrow> first_off r = of_nat i \<and> vr_expected r = pattern_byte (of_nat i) seed \<and> vr_actual r = f (buf + of_nat i) \<and> i < n)"

lemma mismatches_Suc:
  "mismatches f buf seed (Suc n) = mismatches f buf seed n @ (if f (buf + of_nat n) \<noteq> pattern_byte (of_nat n) seed then [n] else [])"
  by (simp add: mismatches_def)

lemma off_not_mark: "i < 4294967295 \<Longrightarrow> of_nat i \<noteq> VERIFY_MATCH"
proof
  assume i: "i < 4294967295" and "of_nat i = VERIFY_MATCH"
  moreover have "unat (of_nat i :: u32) = i" using i by (intro of_nat_u32) simp
  ultimately have "i = 4294967295" using VERIFY_MATCH_unat by simp
  with i show False by simp
qed

lemma verify_step:
  assumes "verify_spec f buf seed n r" "Suc n < 2 ^ 32"
  shows "verify_spec f buf seed (Suc n) (verify_byte f buf seed n r)"
proof (cases "mismatches f buf seed n")
  case Nil
  then show ?thesis using assms(1) by (simp add: verify_spec_def mismatches_Suc verify_byte_def Let_def)
next
  case (Cons i rest)
  then have "first_off r \<noteq> VERIFY_MATCH" using assms off_not_mark [of i] by (simp add: verify_spec_def)
  then show ?thesis using assms(1) Cons by (simp add: verify_spec_def mismatches_Suc verify_byte_def Let_def)
qed

lemma verify_prefix:
  "n < 2 ^ 32 \<Longrightarrow> verify_spec f buf seed n (fold (verify_byte f buf seed) [0..<n] \<lparr>first_off = VERIFY_MATCH, vr_count = 0, vr_expected = 0, vr_actual = 0\<rparr>)"
proof (induction n)
  case 0
  then show ?case by (simp add: verify_spec_def mismatches_def)
next
  case (Suc n)
  then show ?case using verify_step [OF Suc.IH [OF Suc_lessD [OF Suc.prems]] Suc.prems] by simp
qed

lemma verify_none:
  "vr_count (verify_pattern f buf len seed) = 0 \<longleftrightarrow> (\<forall>i<unat len. f (buf + of_nat i) = pattern_byte (of_nat i) seed)"
proof -
  have lim: "unat len < 2 ^ LENGTH(32)" by (rule unsigned_less)
  have "length (mismatches f buf seed (unat len)) \<le> unat len" by (simp add: mismatches_def order.trans [OF length_filter_le])
  then have "(of_nat (length (mismatches f buf seed (unat len))) :: u32) = 0 \<longleftrightarrow> mismatches f buf seed (unat len) = []"
    using lim by (simp add: word_unat_eq_iff unsigned_of_nat take_bit_nat_eq_self)
  moreover have "mismatches f buf seed (unat len) = [] \<longleftrightarrow> (\<forall>i<unat len. f (buf + of_nat i) = pattern_byte (of_nat i) seed)"
    by (auto simp: mismatches_def filter_empty_conv)
  ultimately show ?thesis using verify_prefix [of "unat len" f buf seed] lim by (simp add: verify_pattern_def verify_spec_def)
qed

text \<open>The comparison of the read-back buffer is exact: the count is the number of bytes that differ from the pattern,
  the offset and the two bytes reported are those of the first of them, and with none the offset is the mark for a match.\<close>

theorem verify_pattern_exact: "verify_spec f buf seed (unat len) (verify_pattern f buf len seed)"
proof -
  have "unat len < 2 ^ LENGTH(32)" by (rule unsigned_less)
  then show ?thesis unfolding verify_pattern_def by (intro verify_prefix) simp
qed

section \<open>A write test against the disk\<close>

text \<open>\<open>disk\<close> is the content of the partition. A successful transfer moves whole sectors between it and the buffer;
  the registers of the chips are apart from both; memory holds what the program puts there.\<close>

definition disk_contract :: "'w mac \<Rightarrow> io_cfg \<Rightarrow> ('w \<Rightarrow> ram) \<Rightarrow> bool" where
  "disk_contract m c disk \<longleftrightarrow>
    (\<forall>buf off len w w'. dev_trap m Trap_Read (pb_bytes (io_pb c buf off len)) w = (w', Inr 0) \<longrightarrow>
       disk w' = disk w \<and> (\<forall>j<unat (sector_round_up len). ram_of m w' (buf + of_nat j) = disk w (off + of_nat j))) \<and>
    (\<forall>buf off len w w'. dev_trap m Trap_Write (pb_bytes (io_pb c buf off len)) w = (w', Inr 0) \<longrightarrow>
       (\<forall>j<unat (sector_round_up len). disk w' (off + of_nat j) = ram_of m w (buf + of_nat j))) \<and>
    (\<forall>a v w. 0x50F00000 \<le> a \<longrightarrow> ram_of m (fst (rd8 m a w)) = ram_of m w \<and> disk (fst (rd8 m a w)) = disk w \<and>
       ram_of m (wr8 m a v w) = ram_of m w \<and> disk (wr8 m a v w) = disk w) \<and>
    (\<forall>f w. ram_of m (set_ram m f w) = f \<and> disk (set_ram m f w) = disk w) \<and>
    (\<forall>t pb w w' v. dev_trap m t pb w = (w', Inl v) \<longrightarrow> v < 256)"

lemma disk_contractD:
  assumes "disk_contract m c disk"
  shows contract_read: "dev_trap m Trap_Read (pb_bytes (io_pb c buf off len)) w = (w', Inr 0) \<Longrightarrow>
      disk w' = disk w \<and> (\<forall>j<unat (sector_round_up len). ram_of m w' (buf + of_nat j) = disk w (off + of_nat j))"
    and contract_write: "dev_trap m Trap_Write (pb_bytes (io_pb c buf off len)) w = (w', Inr 0) \<Longrightarrow>
      \<forall>j<unat (sector_round_up len). disk w' (off + of_nat j) = ram_of m w (buf + of_nat j)"
  using assms by (simp_all add: disk_contract_def)

definition same_io :: "'w mac \<Rightarrow> ('w \<Rightarrow> ram) \<Rightarrow> 'w \<Rightarrow> 'w \<Rightarrow> bool" where
  "same_io m disk w w' \<longleftrightarrow> ram_of m w' = ram_of m w \<and> disk w' = disk w"

lemma same_io_trans: "same_io m disk a b \<Longrightarrow> same_io m disk b c \<Longrightarrow> same_io m disk a c"
  by (simp add: same_io_def)

lemma via_regs: "0x50F00000 \<le> VIA1_T2CL" "0x50F00000 \<le> VIA1_T2CH" "0x50F00000 \<le> VIA1_IER" "0x50F00000 \<le> VIA1_IFR" "0x50F00000 \<le> VIA1_ACR"
  by (simp_all add: VIA1_T2CL_def VIA1_T2CH_def VIA1_IER_def VIA1_IFR_def VIA1_ACR_def)

lemma chip_frame:
  assumes "disk_contract m c disk" "0x50F00000 \<le> a"
  shows "same_io m disk w (fst (rd8 m a w))" "same_io m disk w (wr8 m a v w)"
  using assms unfolding disk_contract_def same_io_def by blast+

lemma rd8_frame: "rd8 m a w = (w', b) \<Longrightarrow> disk_contract m c disk \<Longrightarrow> 0x50F00000 \<le> a \<Longrightarrow> same_io m disk w w'"
  using chip_frame(1) by (metis fst_conv)

lemma timer_start_frame:
  assumes c: "disk_contract m c disk" and r: "timer_start m w = (w', t)"
  shows "same_io m disk w w'"
  using r chip_frame [OF c via_regs(1)] chip_frame [OF c via_regs(2)] chip_frame [OF c via_regs(3)] chip_frame [OF c via_regs(4)]
    chip_frame [OF c via_regs(5)]
  by (auto simp: timer_start_def Let_def split_beta same_io_def)

lemma read_t2_frame:
  assumes c: "disk_contract m c disk" and r: "read_t2 m w = (w', v)"
  shows "same_io m disk w w'"
  using r chip_frame(1) [OF c via_regs(1)] chip_frame(1) [OF c via_regs(2)] by (auto simp: read_t2_def Let_def split_beta same_io_def)

lemma drain_frame:
  assumes c: "disk_contract m c disk" and r: "drain_wraps m w t = Some y"
  shows "same_io m disk w (fst y)"
proof -
  have "disk_contract m c disk \<longrightarrow> same_io m disk w (fst y)"
  proof (rule drain_wraps.raw_induct [where P = "\<lambda>n w t y. disk_contract n c disk \<longrightarrow> same_io n disk w (fst y)", OF _ r])
    fix f n w t y
    assume IH: "\<And>n w t y. f n w t = Some y \<Longrightarrow> disk_contract n c disk \<longrightarrow> same_io n disk w (fst y)"
      and eq: "(let (w, ifr) = rd8 n VIA1_IFR w in
         if ifr AND IER_T2 \<noteq> 0 then f n (wr8 n VIA1_IFR IER_T2 w) (t\<lparr>wrap_count := wrap_count t + 1\<rparr>) else Some (w, t)) = Some y"
    obtain w1 ifr where k: "rd8 n VIA1_IFR w = (w1, ifr)" by fastforce
    show "disk_contract n c disk \<longrightarrow> same_io n disk w (fst y)"
    proof
      assume n: "disk_contract n c disk"
      have 1: "same_io n disk w w1" by (rule rd8_frame [OF k n via_regs(4)])
      have 2: "same_io n disk w (wr8 n VIA1_IFR IER_T2 w1)" by (rule same_io_trans [OF 1 chip_frame(2) [OF n via_regs(4)]])
      show "same_io n disk w (fst y)"
        using eq k 1 IH [of n "wr8 n VIA1_IFR IER_T2 w1" "t\<lparr>wrap_count := wrap_count t + 1\<rparr>" y] n same_io_trans [OF 2]
        by (auto split: if_splits)
    qed
  qed
  with c show ?thesis by simp
qed

lemma elapsed_frame:
  assumes c: "disk_contract m c disk" and r: "timer_elapsed_us m w t = Some (w', t', us)"
  shows "same_io m disk w w'"
proof -
  obtain w1 t1 where d: "drain_wraps m w t = Some (w1, t1)" using r
    by (auto simp: timer_elapsed_us_def read_ticks_since_start_def split: option.splits)
  obtain w2 v where a: "read_t2 m w1 = (w2, v)" by fastforce
  obtain w3 b where e: "rd8 m VIA1_IFR w2 = (w3, b)" by fastforce
  obtain w4 v4 where q: "read_t2 m (wr8 m VIA1_IFR IER_T2 w3) = (w4, v4)" by fastforce
  have s3: "same_io m disk w w3"
    using drain_frame [OF c d] read_t2_frame [OF c a] rd8_frame [OF e c via_regs(4)] by (simp add: same_io_def)
  have s4: "same_io m disk w w4"
    using s3 chip_frame(2) [OF c via_regs(4), of w3 IER_T2] read_t2_frame [OF c q] by (simp add: same_io_def)
  have "w' = w3 \<or> w' = w4"
    using r d a e q by (auto simp: timer_elapsed_us_def read_ticks_since_start_def Let_def split: if_splits)
  with s3 s4 show ?thesis by blast
qed

lemma timed_trap_frame:
  assumes c: "disk_contract m c disk" and r: "timed_trap m t pb s = Some (s', us, 0)"
  shows "\<exists>w1 w2. same_io m disk (it_w s) w1 \<and> dev_trap m t pb w1 = (w2, Inr 0) \<and> same_io m disk w2 (it_w s')"
proof -
  obtain w1 tm where a: "timer_start m (it_w s) = (w1, tm)" by fastforce
  obtain w2 res where d: "dev_trap m t pb w1 = (w2, res)" by fastforce
  have tr: "trap_with_recovery m t pb (w1, it_shown s) = ((w2, it_shown s), case res of Inl v \<Rightarrow> ucast (EXC_ERR_BASE + v) | Inr e \<Rightarrow> e)"
    by (simp add: trap_with_recovery_def d)
  obtain w3 tm' where e: "timer_elapsed_us m w2 tm = Some (w3, tm', us)" and s': "it_w s' = w3"
    and z: "(case res of Inl v \<Rightarrow> ucast (EXC_ERR_BASE + v) | Inr e \<Rightarrow> e) = (0 :: u16)"
    using r by (auto simp: timed_trap_def a tr split: option.splits prod.splits)
  have "res = Inr 0"
  proof (cases res)
    case (Inl v)
    have "v < 256" using c d Inl unfolding disk_contract_def by blast
    then show ?thesis using vector_code [of v] z Inl by simp
  qed (use z in simp)
  then show ?thesis using timer_start_frame [OF c a] d elapsed_frame [OF c e] s' by blast
qed

lemma update_fold: "(\<forall>i<n. buf + of_nat i \<noteq> a) \<Longrightarrow> fold (\<lambda>i f. f(buf + of_nat i := h i)) [0..<n] f a = f a"
  by (induction n) auto

lemma word_of_nat_eq:
  assumes ij: "i < 2 ^ 32" "j < 2 ^ 32"
  shows "(b :: u32) + of_nat i = b + of_nat j \<longleftrightarrow> i = j"
proof
  assume "b + of_nat i = b + of_nat j"
  then have "unat (of_nat i :: u32) = unat (of_nat j :: u32)" by simp
  then show "i = j" using ij by (simp add: unsigned_of_nat take_bit_nat_eq_self)
qed simp

lemma filled: "j < unat len \<Longrightarrow> fill_pattern buf len seed f (buf + of_nat j) = pattern_byte (of_nat j) seed"
proof -
  assume j: "j < unat len"
  have "n \<le> unat len \<Longrightarrow> j < n \<Longrightarrow>
    fold (\<lambda>i f. f(buf + of_nat i := pattern_byte (of_nat i) seed)) [0..<n] f (buf + of_nat j) = pattern_byte (of_nat j) seed" for n
  proof (induction n)
    case (Suc n)
    have "unat len < 2 ^ LENGTH(32)" by (rule unsigned_less)
    then have "buf + of_nat j = buf + of_nat n \<longleftrightarrow> j = n" using Suc.prems by (intro word_of_nat_eq) auto
    then show ?case using Suc by auto
  qed simp
  then show ?thesis using j by (simp add: fill_pattern_def)
qed

definition holds_pattern :: "ram \<Rightarrow> u32 \<Rightarrow> u32 \<Rightarrow> u8 \<Rightarrow> bool" where
  "holds_pattern f off len seed \<longleftrightarrow> (\<forall>j<unat len. f (off + of_nat j) = pattern_byte (of_nat j) seed)"

text \<open>C33: A write test can be trusted in both directions: when the log says verified (read-back without error and no byte
  different), the disk holds the pattern at the place of the test file, every byte of it; and when the write
  and the read-back succeed, the test does verify.\<close>

theorem write_test_sound:
  assumes c: "disk_contract m c disk" and len: "unat (size_length z) \<le> 2 ^ 32 - 512"
    and r: "write_readback m c seed z s = Some (s', wr_us, wr_err, us, err, vr)"
  shows "(err = 0 \<and> vr_count vr = 0 \<longrightarrow> holds_pattern (disk (it_w s')) (write_offset z) (size_length z) seed) \<and>
    (wr_err = 0 \<and> err = 0 \<longrightarrow> vr_count vr = 0)"
proof -
  let ?pb = "pb_bytes (io_pb c IO_BUF (write_offset z) (size_length z))"
  let ?s0 = "on_ram m (fill_pattern IO_BUF (size_length z) seed) s"
  obtain s1 where w: "timed_trap m Trap_Write ?pb ?s0 = Some (s1, wr_us, wr_err)"
    and rd: "timed_trap m Trap_Read ?pb (on_ram m (clear_buffer IO_BUF (size_length z)) s1) = Some (s', us, err)"
    and vr: "vr = verify_pattern (ram_of m (it_w s')) IO_BUF (size_length z) seed"
    using r by (auto simp: write_readback_def Let_def split: option.splits)
  have ram: "ram_of m (set_ram m f w) = f" "disk (set_ram m f w) = disk w" for f w using c by (simp_all add: disk_contract_def)
  have cover: "unat (size_length z) \<le> unat (sector_round_up (size_length z))" by (rule sector_round_up_covers(1) [OF len])
  have loaded: "(\<forall>j<unat (size_length z). ram_of m (it_w s') (IO_BUF + of_nat j) = disk (it_w s') (write_offset z + of_nat j)) \<and>
      disk (it_w s') = disk (it_w s1)" if e: "err = 0"
  proof -
    obtain w1 w2 where "same_io m disk (it_w (on_ram m (clear_buffer IO_BUF (size_length z)) s1)) w1"
      and d: "dev_trap m Trap_Read ?pb w1 = (w2, Inr 0)" and "same_io m disk w2 (it_w s')"
      using timed_trap_frame [OF c] rd e by blast
    moreover have "disk w2 = disk w1 \<and> (\<forall>j<unat (sector_round_up (size_length z)). ram_of m w2 (IO_BUF + of_nat j) = disk w1 (write_offset z + of_nat j))"
      by (rule contract_read [OF c d])
    ultimately show ?thesis using cover by (simp add: same_io_def on_ram_def ram)
  qed
  have stored: "\<forall>j<unat (size_length z). disk (it_w s1) (write_offset z + of_nat j) = pattern_byte (of_nat j) seed" if e: "wr_err = 0"
  proof -
    obtain w1 w2 where "same_io m disk (it_w ?s0) w1" and d: "dev_trap m Trap_Write ?pb w1 = (w2, Inr 0)" and "same_io m disk w2 (it_w s1)"
      using timed_trap_frame [OF c] w e by blast
    moreover have "\<forall>j<unat (sector_round_up (size_length z)). disk w2 (write_offset z + of_nat j) = ram_of m w1 (IO_BUF + of_nat j)"
      by (rule contract_write [OF c d])
    ultimately show ?thesis using cover by (simp add: same_io_def on_ram_def ram filled)
  qed
  show ?thesis using loaded stored by (auto simp: vr verify_none holds_pattern_def)
qed

text \<open>A machine that keeps the contract: memory and a disk, a timer that stands still.\<close>

definition move_block :: "ram \<Rightarrow> u32 \<Rightarrow> u32 \<Rightarrow> u32 \<Rightarrow> ram \<Rightarrow> ram" where
  "move_block f from_a to_a len g = (\<lambda>a. if a - to_a < len then f (from_a + (a - to_a)) else g a)"

lemma move_block_at: "j < unat len \<Longrightarrow> move_block f x y len g (y + of_nat j) = f (x + of_nat j)"
proof -
  assume j: "j < unat len"
  have "unat len < 2 ^ LENGTH(32)" by (rule unsigned_less)
  then have "unat (of_nat j :: u32) = j" using j by (intro of_nat_u32) simp
  then show ?thesis using j by (simp add: move_block_def word_less_nat_alt)
qed

definition bench_trap :: "trap \<Rightarrow> bytes \<Rightarrow> ram \<times> ram \<Rightarrow> (ram \<times> ram) \<times> (u32 + u16)" where
  "bench_trap t pb = (\<lambda>(f, d).
    let a = pb_long 32 pb; len = pb_long 36 pb; off = pb_long 46 pb in
    (case t of Trap_Read \<Rightarrow> (move_block d off a len f, d) | Trap_Write \<Rightarrow> (f, move_block f a off len d) | Trap_Control \<Rightarrow> (f, d), Inr 0))"

definition bench_mac :: "(ram \<times> ram) mac" where
  "bench_mac = \<lparr>dev_trap = bench_trap, rd8 = (\<lambda>a w. (w, 0)), wr8 = (\<lambda>a v w. w), ram_of = fst, set_ram = (\<lambda>f w. (f, snd w)),
     bus_fault = (\<lambda>a w. None)\<rparr>"

definition floppy_cfg :: io_cfg where
  "floppy_cfg = \<lparr>cf_hda = False, cf_read_only = False, cf_refnum = 0xFFFB, cf_drive = 1, cf_results = 0, cf_offsets = (\<lambda>i. (0, 0))\<rparr>"

definition test_1KB :: IoTestSize where
  "test_1KB = \<lparr>size_label = ''1KB'', size_length = 1024, read_offset = 4096, write_offset = 8192\<rparr>"

lemma bench_contract: "disk_contract bench_mac floppy_cfg snd"
  by (auto simp: disk_contract_def bench_mac_def bench_trap_def pb_back io_pb_def Let_def move_block_at split: trap.splits)

lemma bench_timer: "timer_start bench_mac w = (w, \<lparr>wrap_count = 0, start_t2 = 0xFFFF\<rparr>)"
    "\<exists>us. timer_elapsed_us bench_mac w \<lparr>wrap_count = 0, start_t2 = 0xFFFF\<rparr> = Some (w, \<lparr>wrap_count = 0, start_t2 = 0xFFFF\<rparr>, us)"
  using ticks_without_wrap [of bench_mac 0 0 w] by (simp_all add: timer_start_def bench_mac_def Let_def)

lemma bench_timed: "\<exists>s' us. timed_trap bench_mac t pb s = Some (s', us, 0)"
proof -
  obtain w where "trap_with_recovery bench_mac t pb (it_w s, it_shown s) = ((w, it_shown s), 0)"
    by (cases "it_w s") (auto simp: trap_with_recovery_def bench_mac_def bench_trap_def Let_def)
  moreover obtain us where "timer_elapsed_us bench_mac w \<lparr>wrap_count = 0, start_t2 = 0xFFFF\<rparr> = Some (w, \<lparr>wrap_count = 0, start_t2 = 0xFFFF\<rparr>, us)"
    using bench_timer(2) by blast
  ultimately show ?thesis by (simp add: timed_trap_def bench_timer(1))
qed

definition fresh_iot :: "(ram \<times> ram) iot" where
  "fresh_iot = \<lparr>it_w = ((\<lambda>a. 0), (\<lambda>a. 0)), it_shown = [], it_jw = jw_init (io_ctx floppy_cfg)\<rparr>"

theorem write_test_sound_witness:
  "\<exists>s' wu us vr. write_readback bench_mac floppy_cfg 3 test_1KB fresh_iot = Some (s', wu, 0, us, 0, vr) \<and> vr_count vr = 0 \<and>
    holds_pattern (snd (it_w s')) 8192 1024 3"
proof -
  let ?pb = "pb_bytes (io_pb floppy_cfg IO_BUF (write_offset test_1KB) (size_length test_1KB))"
  obtain s1 wu where 1: "timed_trap bench_mac Trap_Write ?pb (on_ram bench_mac (fill_pattern IO_BUF (size_length test_1KB) 3) fresh_iot) = Some (s1, wu, 0)"
    using bench_timed by blast
  obtain s' us where 2: "timed_trap bench_mac Trap_Read ?pb (on_ram bench_mac (clear_buffer IO_BUF (size_length test_1KB)) s1) = Some (s', us, 0)"
    using bench_timed by blast
  define vr where "vr = verify_pattern (ram_of bench_mac (it_w s')) IO_BUF (size_length test_1KB) 3"
  have r: "write_readback bench_mac floppy_cfg 3 test_1KB fresh_iot = Some (s', wu, 0, us, 0, vr)"
    unfolding write_readback_def Let_def 1 option.case prod.case 2 vr_def ..
  have "unat (size_length test_1KB) \<le> 2 ^ 32 - 512" by (simp add: test_1KB_def)
  from write_test_sound [OF bench_contract this r] have "vr_count vr = 0 \<and> holds_pattern (snd (it_w s')) 8192 1024 3"
    by (simp add: test_1KB_def)
  with r show ?thesis by blast
qed

text \<open>The first test cannot fail its comparison: its pattern is the one byte 0, and the buffer has just been cleared,
  so a read-back that succeeds without transferring anything is reported as verified.\<close>

theorem first_test_vacuous:
  "vr_count (verify_pattern (clear_buffer IO_BUF 1 f) IO_BUF 1 0) = 0"
proof -
  have "[0..<4 * unat (((1 :: u32) + 3) div 4)] = [0, 1, 2, 3]" by (simp add: upt_rec)
  then show ?thesis unfolding verify_none by (simp add: clear_buffer_def pattern_byte_def IO_BUF_def)
qed

section \<open>The status cell\<close>

lemma names_distinct: "distinct (map (\<lambda>(c, n). copy_padded 8 (lit n)) ioerr_names) \<and>
    list_all (\<lambda>(c, n). copy_padded 8 (lit n) ! 0 \<noteq> 69 \<and> copy_padded 8 (lit n) \<noteq> copy_padded 8 (lit ''pass'')) ioerr_names"
  by code_simp

lemma five_digits:
  assumes "n < 100000"
  shows "((((n div 10000 mod 10) * 10 + n div 1000 mod 10) * 10 + n div 100 mod 10) * 10 + n div 10 mod 10) * 10 + n mod 10 = (n :: nat)"
proof -
  have "n div 10000 mod 10 = n div 10000" using assms by simp
  moreover have "n div 10000 = n div 1000 div 10" "n div 1000 = n div 100 div 10" "n div 100 = n div 10 div 10"
    by (simp_all flip: div_mult2_eq)
  ultimately show ?thesis by (metis div_mult_mod_eq)
qed

lemma dec_dropzeros: "foldl (\<lambda>a b. a * 10 + b) 0 (dropWhile (\<lambda>x. x = (0::nat)) ds @ es) = foldl (\<lambda>a b. a * 10 + b) 0 (ds @ es)"
  by (induction ds) auto

lemma dec_value_digits:
  assumes "\<forall>x\<in>set xs. unat (x :: u32) < 10"
  shows "dec_value (map (\<lambda>x. ucast (48 + x)) xs) = foldl (\<lambda>a b. a * 10 + b) 0 (map unat xs)"
proof -
  have d: "unat (ucast (48 + x :: u32) :: u8) = 48 + unat x" if "unat x < 10" for x
  proof -
    have "x mod 10 = x" using that by (simp add: word_unat_eq_iff unat_mod)
    then show ?thesis using unat_digit [of x] that by simp
  qed
  have "foldl (\<lambda>a b. a * 10 + (unat b - 48)) k (map (\<lambda>x. ucast (48 + x) :: u8) xs) = foldl (\<lambda>a b. a * 10 + b) k (map unat xs)" for k
    using assms by (induction xs arbitrary: k) (auto simp: d)
  then show ?thesis by (simp add: dec_value_def)
qed

lemma drop_zeros_unat: "map unat (dropWhile (\<lambda>x. x = (0 :: u32)) xs) = dropWhile (\<lambda>x. x = 0) (map unat xs)"
  by (induction xs) (auto simp: unat_eq_zero)

definition trimmed :: "u32 list \<Rightarrow> u32 \<Rightarrow> bytes" where
  "trimmed ds e = map (\<lambda>x. ucast (48 + x)) (dropWhile (\<lambda>x. x = 0) ds @ [e])"

lemma trimmed_value:
  assumes "\<forall>x\<in>set (ds @ [e]). unat x < 10"
  shows "dec_value (trimmed ds e) = foldl (\<lambda>a b. a * 10 + b) 0 (map unat ds @ [unat e])"
proof -
  have small: "\<forall>x\<in>set (dropWhile (\<lambda>x. x = 0) ds @ [e]). unat x < 10" using assms by (auto dest!: set_dropWhileD)
  have "dec_value (trimmed ds e) = foldl (\<lambda>a b. a * 10 + b) 0 (dropWhile (\<lambda>x. x = 0) (map unat ds) @ [unat e])"
    unfolding trimmed_def by (subst dec_value_digits [OF small]) (simp add: drop_zeros_unat)
  also have "\<dots> = foldl (\<lambda>a b. a * 10 + b) 0 (map unat ds @ [unat e])" by (rule dec_dropzeros)
  finally show ?thesis .
qed

lemma trimmed_shape:
  assumes "\<forall>x\<in>set (ds @ [e]). unat x < 10"
  shows "length (trimmed ds e) \<le> Suc (length ds)" "32 \<notin> set (trimmed ds e)"
proof -
  show "length (trimmed ds e) \<le> Suc (length ds)" using length_dropWhile_le [of _ ds] by (simp add: trimmed_def)
  show "32 \<notin> set (trimmed ds e)"
  proof
    assume "32 \<in> set (trimmed ds e)"
    then obtain x where x: "x \<in> set (ds @ [e])" and c: "(32 :: u8) = ucast (48 + x)"
      unfolding trimmed_def by (force dest: set_dropWhileD)
    have "x mod 10 = x" using x assms by (auto simp: word_unat_eq_iff unat_mod)
    then have "unat (ucast (48 + x) :: u8) = 48 + unat x" using unat_digit [of x] assms x by auto
    then show False unfolding c [symmetric] by simp
  qed
qed

lemma dec_table5:
  "dec_table 5 v = trimmed [v div 10000 mod 10, v div 1000 mod 10, v div 100 mod 10, v div 10 mod 10] (v mod 10)"
  by (simp add: dec_table_def trimmed_def upt_rec)

lemma digits_small: "\<forall>x\<in>set ([v div 10000 mod 10, v div 1000 mod 10, v div 100 mod 10, v div 10 mod 10] @ [v mod 10]). unat (x :: u32) < 10"
  by (simp add: unat_mod)

lemma dec_table5_value: "unat v < 100000 \<Longrightarrow> dec_value (dec_table 5 v) = unat v"
  unfolding dec_table5 trimmed_value [OF digits_small] using five_digits [of "unat v"] by (simp add: unat_div unat_mod)

lemmas dec_table5_shape = trimmed_shape [OF digits_small, folded dec_table5]

lemma unat_of_int: "0 \<le> k \<Longrightarrow> k < 2 ^ 32 \<Longrightarrow> unat (word_of_int k :: u32) = nat k"
  by (simp add: unsigned_of_int take_bit_int_eq_self)

lemma status_magnitude:
  fixes err :: u16
  defines "v \<equiv> scast err :: u32"
  shows "v <s 0 \<longleftrightarrow> sint err < 0" "unat (if v <s 0 then - v else v) = nat \<bar>sint err\<bar>"
proof -
  have lim: "- (2 ^ 15) \<le> sint err" "sint err < 2 ^ 15" using sint_greater_eq [of err] sint_less [of err] by simp_all
  have v: "v = word_of_int (sint err)" by (simp add: v_def)
  have "sint v = sint err" using lim by (simp add: v_def signed_scast_eq signed_take_bit_int_eq_self)
  then show s: "v <s 0 \<longleftrightarrow> sint err < 0" by (simp add: word_sless_alt)
  have m: "- v = word_of_int (- sint err)" unfolding v by simp
  have "sint err < 0 \<Longrightarrow> unat (- v) = nat (- sint err)" unfolding m by (rule unat_of_int) (use lim in simp_all)
  moreover have "0 \<le> sint err \<Longrightarrow> unat v = nat (sint err)" unfolding v by (rule unat_of_int) (use lim in simp_all)
  ultimately show "unat (if v <s 0 then - v else v) = nat \<bar>sint err\<bar>" unfolding s by (auto simp: abs_if)
qed

text \<open>The number in a cell.\<close>

definition cell_value :: "bytes \<Rightarrow> int" where
  "cell_value t = (let k = int (dec_value (takeWhile (\<lambda>c. c \<noteq> 32) (drop 2 t))) in if t ! 1 = 45 then - k else k)"

lemma number_cell:
  assumes "err \<noteq> 0" "map_of ioerr_names (sint err) = None"
  shows "cell_value (fmt_status err) = sint err \<and> fmt_status err ! 0 = 69"
proof -
  define v where "v = (scast err :: u32)"
  define u where "u = (if v <s 0 then - v else v)"
  define t where "t = dec_table 5 u"
  note mag = status_magnitude [of err, folded v_def, folded u_def]
  have "fmt_status err = copy_padded 8 ([69, if v <s 0 then 45 else 32] @ t)"
    using assms by (simp add: fmt_status_def Let_def v_def u_def t_def)
  moreover have "length t \<le> 5" "32 \<notin> set t" unfolding t_def using dec_table5_shape [of u] by simp_all
  ultimately have f: "fmt_status err = [69, if v <s 0 then 45 else 32] @ t @ replicate (6 - length t) 32"
    by (simp add: copy_padded_def)
  have "takeWhile (\<lambda>c. c \<noteq> 32) (t @ replicate (6 - length t) 32) = t"
    using \<open>length t \<le> 5\<close> \<open>32 \<notin> set t\<close> by (subst takeWhile_append2) (auto simp: takeWhile_eq_Nil_iff)
  moreover have "\<bar>sint err\<bar> < 100000" using sint_greater_eq [of err] sint_less [of err] by simp
  then have "dec_value t = nat \<bar>sint err\<bar>" unfolding t_def using mag(2) by (subst dec_table5_value) auto
  ultimately show ?thesis using mag(1) unfolding f cell_value_def by simp
qed

lemma named_cell:
  assumes "err \<noteq> 0" "map_of ioerr_names (sint err) = Some name"
  shows "fmt_status err = copy_padded 8 (lit name) \<and> fmt_status err ! 0 \<noteq> 69 \<and> fmt_status err \<noteq> fmt_status 0"
proof -
  have "(sint err, name) \<in> set ioerr_names" using assms(2) by (rule map_of_SomeD)
  then have "copy_padded 8 (lit name) ! 0 \<noteq> 69 \<and> copy_padded 8 (lit name) \<noteq> copy_padded 8 (lit ''pass'')"
    using names_distinct unfolding list_all_iff by fastforce
  moreover have "fmt_status err = copy_padded 8 (lit name)" "fmt_status 0 = copy_padded 8 (lit ''pass'')"
    using assms by (simp_all add: fmt_status_def)
  ultimately show ?thesis by simp
qed

lemma same_name: "(c, n) \<in> set ioerr_names \<Longrightarrow> (c', n') \<in> set ioerr_names \<Longrightarrow> copy_padded 8 (lit n) = copy_padded 8 (lit n') \<Longrightarrow> c = c'"
  using names_distinct unfolding distinct_map inj_on_def by fastforce

lemma pass_cell: "fmt_status 0 ! 0 \<noteq> 69"
  by code_simp

text \<open>The 8-character status cell identifies the result: two calls whose cells look the same ended with the same code,
  whether it is shown as pass, by its name or as a number.\<close>

theorem status_cell_identifies: "fmt_status a = fmt_status b \<longleftrightarrow> a = b"
proof
  assume eq: "fmt_status a = fmt_status b"
  have sint_eq: "a = b" if "sint a = sint b" using that by (rule signed_word_eqI)
  consider "a = 0" | "a \<noteq> 0" "map_of ioerr_names (sint a) = None" | n where "a \<noteq> 0" "map_of ioerr_names (sint a) = Some n" by fastforce
  note A = this
  consider "b = 0" | "b \<noteq> 0" "map_of ioerr_names (sint b) = None" | n where "b \<noteq> 0" "map_of ioerr_names (sint b) = Some n" by fastforce
  note B = this
  show "a = b"
  proof (cases rule: A)
    case 1
    have "fmt_status b ! 0 \<noteq> 69" using eq pass_cell unfolding 1 by simp
    then show ?thesis using eq 1 number_cell [of b] named_cell [of b] by (cases rule: B) metis+
  next
    case 2
    note a = number_cell [OF 2]
    show ?thesis
    proof (cases rule: B)
      case 1
      then show ?thesis using eq a pass_cell by metis
    next
      case b: 2
      have "sint a = sint b" using a number_cell [OF b] eq by metis
      then show ?thesis by (rule sint_eq)
    next
      case (3 k)
      show ?thesis using eq a named_cell [OF 3] by metis
    qed
  next
    case (3 n)
    note a = named_cell [OF 3]
    show ?thesis
    proof (cases rule: B)
      case 1
      then show ?thesis using eq a by metis
    next
      case 2
      then show ?thesis using eq a number_cell [OF 2] by metis
    next
      case (3 k)
      have "sint a = sint b"
        by (rule same_name [OF map_of_SomeD [OF \<open>map_of ioerr_names (sint a) = Some n\<close>] map_of_SomeD [OF 3(2)]])
          (use eq a named_cell [OF 3] in simp)
      then show ?thesis by (rule sint_eq)
    qed
  qed
qed simp

end
