(* ===== verification/KeyTest.thy ===== *)
theory KeyTest
  imports MacDevices
begin

text \<open>
  The keyboard diagnostic that boots on the Macintosh (\<open>preboot/keytest/keytest_main.c\<close>): it samples
  the ROM's key map for ever, shows the raw bytes, the keys held and the last key pressed and released,
  and ejects the disk on RETURN. One pass of its loop is a function; the loop itself is an option,
  \<open>Some\<close> when it ends in the halt after RETURN.
\<close>

section \<open>Labels and numbers\<close>

definition key_labels :: "(u8 \<times> char) list" where
  "key_labels =
    [(0x00, CHR ''A''), (0x0B, CHR ''B''), (0x08, CHR ''C''), (0x02, CHR ''D''), (0x0E, CHR ''E''), (0x03, CHR ''F''),
     (0x05, CHR ''G''), (0x04, CHR ''H''), (0x22, CHR ''I''), (0x26, CHR ''J''), (0x28, CHR ''K''), (0x25, CHR ''L''),
     (0x2E, CHR ''M''), (0x2D, CHR ''N''), (0x1F, CHR ''O''), (0x23, CHR ''P''), (0x0C, CHR ''Q''), (0x0F, CHR ''R''),
     (0x01, CHR ''S''), (0x11, CHR ''T''), (0x20, CHR ''U''), (0x09, CHR ''V''), (0x0D, CHR ''W''), (0x07, CHR ''X''),
     (0x10, CHR ''Y''), (0x06, CHR ''Z''), (0x12, CHR ''1''), (0x13, CHR ''2''), (0x14, CHR ''3''), (0x15, CHR ''4''),
     (0x17, CHR ''5''), (0x16, CHR ''6''), (0x1A, CHR ''7''), (0x1C, CHR ''8''), (0x19, CHR ''9''), (0x1D, CHR ''0''),
     (0x31, CHR '' ''), (0x24, CHR 0x0D), (0x33, CHR ''<''), (0x35, CHR ''!'')]"

definition keycode_label :: "u8 \<Rightarrow> u8" where
  "keycode_label kc = of_char (case map_of key_labels kc of Some c \<Rightarrow> c | None \<Rightarrow> CHR ''?'')"

definition put_dec3 :: "u8 \<Rightarrow> bytes" where
  "put_dec3 v = [if v \<ge> 100 then 48 + v div 100 mod 10 else 32, if v \<ge> 10 then 48 + v div 10 mod 10 else 32, 48 + v mod 10]"

section \<open>The key map\<close>

definition read_keymap :: "'w mac \<Rightarrow> 'w \<Rightarrow> 'w \<times> bytes" where
  "read_keymap m w = fold (\<lambda>i (w, out). let (w, b) = rd8 m (0x174 + of_nat i) w in (w, out @ [b])) [0..<16] (w, [])"

definition key_bit :: "bytes \<Rightarrow> nat \<Rightarrow> bool" where
  "key_bit km k \<longleftrightarrow> (km ! (k div 8)) AND push_bit (k mod 8) 1 \<noteq> 0"

text \<open>The held keys, at most six of them, each as three digits, a stroke and its label.\<close>

definition held_entry :: "nat \<Rightarrow> bytes" where
  "held_entry k = put_dec3 (of_nat k) @ [47, keycode_label (of_nat k), 32]"

fun held_from :: "bytes \<Rightarrow> nat \<Rightarrow> nat list \<Rightarrow> bytes \<Rightarrow> bytes" where
  "held_from km n_down [] out = out"
| "held_from km n_down (k # ks) out =
    (if n_down < 6
     then
       (if key_bit km k then (if length out + 6 > 48 then out else held_from km (n_down + 1) ks (out @ held_entry k))
        else held_from km n_down ks out)
     else out)"

definition held_text :: "bytes \<Rightarrow> bytes" where
  "held_text km = (let t = held_from km 0 [0..<128] [] in if t = [] then lit ''(none)'' else take 36 t)"

text \<open>Edges: the two nested loops over bytes and bits.\<close>

definition edge_bit :: "u8 \<Rightarrow> u8 \<Rightarrow> nat \<Rightarrow> nat \<Rightarrow> u8 \<times> u8 \<Rightarrow> u8 \<times> u8" where
  "edge_bit c p i b = (\<lambda>(press, release).
    if (c XOR p) AND push_bit b 1 = 0 then (press, release)
    else
      (let kc = of_nat i * 8 OR of_nat b
       in if c AND push_bit b 1 \<noteq> 0 then (kc, release) else (press, kc)))"

definition edges :: "bytes \<Rightarrow> bytes \<Rightarrow> u8 \<times> u8 \<Rightarrow> u8 \<times> u8" where
  "edges cur prev s =
    fold (\<lambda>i s. if cur ! i XOR prev ! i = 0 then s else fold (edge_bit (cur ! i) (prev ! i) i) [0..<8] s) [0..<16] s"

section \<open>The loop\<close>

record keytest =
  kt_prev :: bytes
  kt_press :: u8
  kt_release :: u8

definition raw_row :: "bytes \<Rightarrow> bytes" where
  "raw_row bs = concat (map (\<lambda>b. put_hex8 b @ [32]) bs)"

definition paint_event :: "nat \<Rightarrow> u8 \<Rightarrow> 'w gs \<Rightarrow> 'w gs" where
  "paint_event line kc g =
    (if kc \<noteq> 0xFF then paint_line (LINE line) 26 [keycode_label kc] 1 (paint_line (LINE line) 18 (put_dec3 kc @ [32, 32]) 5 g) else g)"

definition keytest_frame :: "'w mac \<Rightarrow> keytest \<Rightarrow> 'w gs \<Rightarrow> keytest \<times> bytes \<times> 'w gs" where
  "keytest_frame m s g =
    (let (w, cur) = read_keymap m (fst g);
         g = paint_line (LINE 4) 1 (raw_row (drop 8 cur)) 24 (paint_line (LINE 3) 1 (raw_row (take 8 cur)) 24 (w, snd g));
         t = held_text cur;
         g = paint_line (LINE 5) 11 t (length t) g;
         (press, release) = edges cur (kt_prev s) (kt_press s, kt_release s);
         g = paint_event 8 release (paint_event 7 press g)
     in (\<lparr>kt_prev = cur, kt_press = press, kt_release = release\<rparr>, cur, g))"

definition eject_text :: "u16 \<Rightarrow> u16 \<Rightarrow> bytes" where
  "eject_text drv res =
    (let v = sint res; k = nat \<bar>v\<bar>;
         ds = map (\<lambda>d. k div 10 ^ (4 - d) mod 10) [0..<5]
     in lit ''eject drv='' @ put_dec3 (ucast drv) @ lit '' res='' @ (if v < 0 then [45] else []) @
        map (\<lambda>x. 48 + of_nat x) (dropWhile (\<lambda>x. x = 0) (butlast ds) @ [last ds]))"

partial_function (option) keytest_loop :: "'w mac \<Rightarrow> u16 \<Rightarrow> keytest \<Rightarrow> 'w gs \<Rightarrow> 'w gs option" where
  "keytest_loop m drv s g =
    (let (s, cur, g) = keytest_frame m s g
     in if key_bit cur 0x24
        then
          (case eject_floppy m drv (paint_line (LINE 11) 1 (lit ''Ejecting...                             '') 40 g) of
             (g, Inl v) \<Rightarrow> None
           | (g, Inr res) \<Rightarrow> Some (paint_line (LINE 11) 1 (eject_text drv res) (length (eject_text drv res)) g))
        else keytest_loop m drv s g)"

definition keytest_main :: "'w mac \<Rightarrow> u16 \<Rightarrow> 'w gs \<Rightarrow> 'w gs option" where
  "keytest_main m drv g =
    keytest_loop m drv \<lparr>kt_prev = replicate 16 0, kt_press = 0xFF, kt_release = 0xFF\<rparr>
      (paint_line (LINE 11) 1 (lit ''Press RETURN to eject the floppy + halt.'') 40
      (paint_line (LINE 10) 1 (lit (''If KeyMap never changes, ROM isn'' @ [CHR 0x27] @ ''t updating it pre-System.'')) 58
      (paint_line (LINE 8) 1 (lit ''Last RELEASE: kc=    ch='') 24
      (paint_line (LINE 7) 1 (lit ''Last PRESS:   kc=    ch='') 24
      (paint_line (LINE 5) 1 (lit ''DOWN now:'') 9
      (paint_line (LINE 2) 1 (lit ''KeyMap raw (hex, $0174..$0183):'') 31
      (paint_line (LINE 0) 1 (lit ''KEYTEST: press keys (ADB keyboard diagnostic)'') 45 g)))))))"

section \<open>What the display means\<close>

definition last_code :: "nat list \<Rightarrow> u8 \<Rightarrow> u8" where
  "last_code ks old = (if ks = [] then old else of_nat (last ks))"

lemma last_code_append: "last_code (xs @ ys) old = last_code ys (last_code xs old)"
  by (simp add: last_code_def)

lemma last_code_simps [simp]: "last_code [] old = old" "last_code [k] old = of_nat k"
  by (simp_all add: last_code_def)

definition newly :: "bytes \<Rightarrow> bytes \<Rightarrow> nat list \<Rightarrow> nat list" where
  "newly a b ks = filter (\<lambda>k. key_bit a k \<and> \<not> key_bit b k) ks"

lemma newly_append: "newly a b (xs @ ys) = newly a b xs @ newly a b ys"
  by (simp add: newly_def)

lemma key_bit_bit: "key_bit km k \<longleftrightarrow> bit (km ! (k div 8)) (k mod 8)"
  by (simp add: key_bit_def bit_iff_and_push_bit_not_eq_0)

lemma code_of: "i < 16 \<Longrightarrow> b < 8 \<Longrightarrow> (of_nat i * 8 OR of_nat b :: u8) = of_nat (8 * i + b)"
proof -
  have "list_all (\<lambda>i. list_all (\<lambda>b. (of_nat i * 8 OR of_nat b :: u8) = of_nat (8 * i + b)) [0..<8]) [0..<16]" by code_simp
  then show "i < 16 \<Longrightarrow> b < 8 \<Longrightarrow> ?thesis" by (simp add: list_all_iff)
qed

lemma edge_bit_iff:
  "edge_bit c p i b (P, R) = (if bit c b = bit p b then (P, R) else if bit c b then (of_nat i * 8 OR of_nat b, R) else (P, of_nat i * 8 OR of_nat b))"
proof -
  have "(c XOR p) AND push_bit b 1 = 0 \<longleftrightarrow> bit c b = bit p b" "c AND push_bit b 1 \<noteq> 0 \<longleftrightarrow> bit c b"
    using bit_iff_and_push_bit_not_eq_0 [of "c XOR p" b] bit_iff_and_push_bit_not_eq_0 [of c b] by (auto simp: bit_xor_iff)
  then show ?thesis unfolding edge_bit_def by (simp only: prod.case Let_def if_not_P simp_thms split: if_splits)
qed

lemma byte_edges:
  assumes "i < 16"
  shows "n \<le> 8 \<Longrightarrow> fold (edge_bit (cur ! i) (prev ! i) i) [0..<n] (P, R) =
    (last_code (newly cur prev [8 * i..<8 * i + n]) P, last_code (newly prev cur [8 * i..<8 * i + n]) R)"
proof (induction n)
  case 0
  then show ?case by (simp add: newly_def)
next
  case (Suc n)
  have idx: "(8 * i + n) div 8 = i" "(8 * i + n) mod 8 = n" using Suc.prems by simp_all
  have more: "[8 * i..<8 * i + Suc n] = [8 * i..<8 * i + n] @ [8 * i + n]" by simp
  have c: "(of_nat i * 8 OR of_nat n :: u8) = of_nat (8 * i + n)" using Suc.prems assms by (intro code_of) simp_all
  have k: "key_bit cur (8 * i + n) \<longleftrightarrow> bit (cur ! i) n" "key_bit prev (8 * i + n) \<longleftrightarrow> bit (prev ! i) n"
    using Suc.prems by (simp_all add: key_bit_bit idx)
  show ?case using Suc unfolding more newly_append last_code_append upt_Suc fold_append
    by (simp add: edge_bit_iff newly_def k c)
qed

lemma edges_spec:
  "n \<le> 16 \<Longrightarrow> fold (\<lambda>i s. if cur ! i XOR prev ! i = 0 then s else fold (edge_bit (cur ! i) (prev ! i) i) [0..<8] s) [0..<n] (P, R) =
    (last_code (newly cur prev [0..<8 * n]) P, last_code (newly prev cur [0..<8 * n]) R)"
proof (induction n)
  case 0
  then show ?case by (simp add: newly_def)
next
  case (Suc n)
  have more: "[0..<8 * Suc n] = [0..<8 * n] @ [8 * n..<8 * n + 8]" using upt_add_eq_append [of 0 "8 * n" 8] by (simp add: add.commute)
  have same: "fold (edge_bit (cur ! n) (prev ! n) n) [0..<8] s = s" if "cur ! n XOR prev ! n = 0" for s
  proof -
    have "edge_bit (cur ! n) (prev ! n) n b s = s" for b s using that by (cases s) (simp add: edge_bit_def)
    then show ?thesis by (simp add: fold_invariant [where P = "\<lambda>x. x = s"] upt_rec)
  qed
  then have "(if cur ! n XOR prev ! n = 0 then s else fold (edge_bit (cur ! n) (prev ! n) n) [0..<8] s) =
      fold (edge_bit (cur ! n) (prev ! n) n) [0..<8] s" for s by simp
  then show ?case using Suc byte_edges [of n 8 cur prev] unfolding more newly_append last_code_append by simp
qed

text \<open>The last key pressed (released) that the display shows is the one with the highest code among those that went
  down (up) since the previous sample; with none it stays as it was.\<close>

theorem keytest_edges:
  "edges cur prev (P, R) = (last_code (newly cur prev [0..<128]) P, last_code (newly prev cur [0..<128]) R)"
  using edges_spec [of 16 cur prev P R] by (simp add: edges_def)

text \<open>The keys shown as held are the first six.\<close>

lemma held_prefix:
  "n \<le> 6 \<Longrightarrow> length out = 6 * n \<Longrightarrow>
    held_from km n ks out = out @ concat (map held_entry (take (6 - n) (filter (key_bit km) ks)))"
proof (induction km n ks out rule: held_from.induct)
  case (2 km n k ks out)
  have len: "length (held_entry k) = 6" by (simp add: held_entry_def put_dec3_def)
  show ?case
  proof (cases "n < 6 \<and> key_bit km k")
    case True
    then have "6 - n = Suc (6 - (n + 1))" by linarith
    then show ?thesis using 2 True len by simp
  next
    case False
    then show ?thesis using 2 by auto
  qed
qed simp

lemma held_keys: "held_text km = (case take 6 (filter (key_bit km) [0..<128]) of [] \<Rightarrow> lit ''(none)'' | ks \<Rightarrow> concat (map held_entry ks))"
proof -
  have h: "held_from km 0 [0..<128] [] = concat (map held_entry (take 6 (filter (key_bit km) [0..<128])))"
    using held_prefix [of 0 "[]" km "[0..<128]"] by simp
  have len: "length (held_entry k) = 6" for k by (simp add: held_entry_def put_dec3_def)
  have "length (concat (map held_entry ks)) = 6 * length ks" for ks by (induction ks) (simp_all add: len)
  then have "length (concat (map held_entry (take 6 (filter (key_bit km) [0..<128])))) \<le> 36" by simp
  moreover have "concat (map held_entry ks) = [] \<longleftrightarrow> ks = []" for ks by (cases ks) (auto simp: held_entry_def)
  ultimately show ?thesis unfolding held_text_def h by (simp add: Let_def split: list.splits)
qed

end
