(* ===== verification/TestPrograms.thy ===== *)
theory TestPrograms
  imports GuestHost
begin

text \<open>
  The machine code that the processor benches on the Macintosh assemble for each test
  (\<open>preboot/supervisor_bench\<close>, \<open>macos_bench\<close> and \<open>gen/cpu_test_macii.c\<close>): the registers are reset, a
  preload brings the test's inputs, a dump stores the state in a snapshot, the test runs, and a second
  dump stores the outcome. Emitters that write at a pointer are functions that give the bytes written.
  The processor itself is an argument of the theorem about the dump: all that is assumed of it is the
  effect of the four instructions the dump consists of.
\<close>

section \<open>Emitters\<close>

definition put_w :: "u16 \<Rightarrow> bytes" where
  "put_w v = [ucast (drop_bit 8 v), ucast v]"

definition put_l :: "u32 \<Rightarrow> bytes" where
  "put_l v = [ucast (drop_bit 24 v), ucast (drop_bit 16 v), ucast (drop_bit 8 v), ucast v]"

definition emit_move_l_dn_to_abs :: "nat \<Rightarrow> u32 \<Rightarrow> bytes" where
  "emit_move_l_dn_to_abs dn addr = put_w (0x23C0 OR (of_nat dn AND 7)) @ put_l addr"

definition emit_move_l_an_to_abs :: "nat \<Rightarrow> u32 \<Rightarrow> bytes" where
  "emit_move_l_an_to_abs an addr = put_w (0x23C8 OR (of_nat an AND 7)) @ put_l addr"

definition emit_movea_l_imm_to_an :: "nat \<Rightarrow> u32 \<Rightarrow> bytes" where
  "emit_movea_l_imm_to_an an imm = put_w (0x207C OR push_bit 9 (of_nat an AND 7)) @ put_l imm"

definition emit_move_l_imm_to_dn :: "nat \<Rightarrow> u32 \<Rightarrow> bytes" where
  "emit_move_l_imm_to_dn dn imm = put_w (0x203C OR push_bit 9 (of_nat dn AND 7)) @ put_l imm"

definition emit_move_w_imm_to_ccr :: "u16 \<Rightarrow> bytes" where
  "emit_move_w_imm_to_ccr imm = put_w 0x44FC @ put_w (imm AND 0xFF)"

definition emit_fmove_x_to_an_postinc :: "nat \<Rightarrow> nat \<Rightarrow> bytes" where
  "emit_fmove_x_to_an_postinc fpn an = put_w (0xF218 OR (of_nat an AND 7)) @ put_w (0x6800 OR push_bit 7 (of_nat fpn))"

definition emit_fmove_l_ctrl_to_abs :: "u16 \<Rightarrow> u32 \<Rightarrow> bytes" where
  "emit_fmove_l_ctrl_to_abs reg_mask addr = put_w 0xF239 @ put_w (0xA000 OR reg_mask) @ put_l addr"

definition moveq_zero :: "nat \<Rightarrow> bytes" where
  "moveq_zero n = put_w (0x7000 OR push_bit 9 (of_nat n))"

definition suba_self :: "nat \<Rightarrow> bytes" where
  "suba_self n = put_w (0x91C8 OR push_bit 9 (of_nat n) OR of_nat n)"

definition emit_each :: "(nat \<Rightarrow> bytes) \<Rightarrow> nat list \<Rightarrow> bytes" where
  "emit_each f ns = concat (map f ns)"

section \<open>Programs of the processor bench\<close>

record CpuTestSpec =
  ct_name :: bytes
  ct_preload :: bytes
  ct_test :: bytes
  ct_ram_init :: bytes
  ct_ram_init_present :: bool
  ct_privileged :: bool
  ct_raises_exception :: bool
  ct_hw_unsafe :: bool

text \<open>Where the buffers of a bench are: the program, the two snapshots, the scratch memory.\<close>

record layout =
  prog_at :: u32
  init_at :: u32
  final_at :: u32
  scratch_at :: u32
  saved_at :: u32

definition cpu_state_dump :: "u32 \<Rightarrow> u32 \<Rightarrow> bool \<Rightarrow> bytes" where
  "cpu_state_dump scratch_base base is_init =
    (if is_init then [] else put_w 0x42F9 @ put_l (base + 0x40)) @
    emit_each (\<lambda>n. emit_move_l_an_to_abs n (base + 0x20 + of_nat n * 4)) [0..<8] @
    emit_each (\<lambda>n. emit_move_l_dn_to_abs n (base + 0x00 + of_nat n * 4)) [0..<8] @
    emit_each (\<lambda>i. put_w 0x23F9 @ put_l (scratch_base + of_nat i * 4) @ put_l (base + 0x44 + of_nat i * 4)) [0..<16] @
    (if is_init then put_w 0x42F9 @ put_l (base + 0x40) else [])"

text \<open>A program: the bytes, and the offsets at which the test and the final dump begin.\<close>

record program =
  pg_bytes :: bytes
  pg_test_off :: nat
  pg_final_off :: nat

definition assemble :: "bytes \<Rightarrow> bytes \<Rightarrow> bytes \<Rightarrow> program" where
  "assemble front test rest =
    \<lparr>pg_bytes = front @ test @ rest, pg_test_off = length front, pg_final_off = length front + length test\<rparr>"

definition cpu_build_program :: "layout \<Rightarrow> CpuTestSpec \<Rightarrow> program" where
  "cpu_build_program L t = assemble
     (emit_each moveq_zero [0..<8] @ emit_each suba_self [0..<6] @
      put_w 0x7005 @ put_w 0x4E7B @ put_w 0x0000 @ put_w 0x4E7B @ put_w 0x0001 @ put_w 0x7000 @
      emit_movea_l_imm_to_an 6 (scratch_at L) @ emit_move_w_imm_to_ccr 0 @ ct_preload t @
      cpu_state_dump (scratch_at L) (init_at L) True)
     (ct_test t)
     (cpu_state_dump (scratch_at L) (final_at L) False @ [0x4E, 0x75])"

text \<open>The same bench as a Macintosh application: no function codes to set, and tests that return with the
  stack off by some bytes get it back from where the caller saved it.\<close>

definition has_substring :: "bytes \<Rightarrow> bytes \<Rightarrow> bool" where
  "has_substring pat s \<longleftrightarrow> (\<exists>k\<le>length s. take (length pat) (drop k s) = pat)"

definition mac_cpu_build_program :: "layout \<Rightarrow> CpuTestSpec \<Rightarrow> program" where
  "mac_cpu_build_program L t = assemble
     (emit_each moveq_zero [0..<8] @ emit_each suba_self [0..<6] @
      emit_movea_l_imm_to_an 6 (scratch_at L) @ emit_move_w_imm_to_ccr 0 @ ct_preload t @
      cpu_state_dump (scratch_at L) (init_at L) True)
     (ct_test t)
     (cpu_state_dump (scratch_at L) (final_at L) False @
      (if has_substring (lit ''RTD #'') (ct_name t) \<and> \<not> has_substring (lit ''RTD #0'') (ct_name t)
       then put_w 0x2E79 @ put_l (saved_at L) @ put_w 0x598F else []) @
      [0x4E, 0x75])"

text \<open>The first version of the application, in \<open>gen/cpu_test_macii.c\<close>: the stack pointer is kept around every test.\<close>

definition gen_cpu_build_program :: "layout \<Rightarrow> CpuTestSpec \<Rightarrow> program" where
  "gen_cpu_build_program L t =
    (let front = emit_each moveq_zero [0..<8] @ emit_each suba_self [0..<6] @
           emit_movea_l_imm_to_an 6 (scratch_at L) @ emit_move_w_imm_to_ccr 0 @ ct_preload t @
           cpu_state_dump (scratch_at L) (init_at L) True @ put_w 0x23CF @ put_l (saved_at L)
     in assemble front (ct_test t)
          (put_w 0x2E79 @ put_l (saved_at L) @ cpu_state_dump (scratch_at L) (final_at L) False @ [0x4E, 0x75]))"

section \<open>Programs of the FPU bench\<close>

record FpuTestSpec =
  ft_name :: bytes
  ft_preload :: bytes
  ft_test :: bytes

definition fpu_register_reset :: bytes where
  "fpu_register_reset = emit_each moveq_zero [0..<8] @ emit_each suba_self [0..<7]"

definition fpu_state_dump :: "u32 \<Rightarrow> bytes" where
  "fpu_state_dump base =
    emit_each (\<lambda>i. emit_move_l_an_to_abs i (base + 0x80 + of_nat i * 4)) [0..<8] @
    emit_movea_l_imm_to_an 0 base @
    emit_each (\<lambda>i. emit_fmove_x_to_an_postinc i 0) [0..<8] @
    emit_each (\<lambda>i. emit_move_l_dn_to_abs i (base + 0x60 + of_nat i * 4)) [0..<8] @
    emit_fmove_l_ctrl_to_abs 0x1000 (base + 0xA0) @ emit_fmove_l_ctrl_to_abs 0x0800 (base + 0xA4) @
    emit_fmove_l_ctrl_to_abs 0x0400 (base + 0xA8)"

definition fpu_build_program :: "layout \<Rightarrow> FpuTestSpec \<Rightarrow> program" where
  "fpu_build_program L t = assemble (fpu_register_reset @ ft_preload t @ fpu_state_dump (init_at L)) (ft_test t)
     (fpu_state_dump (final_at L) @ [0x4E, 0x75])"

section \<open>Programs of the integration bench\<close>

record CpuFpuTestSpec =
  cf_name :: bytes
  cf_op_a :: u32
  cf_program :: bytes
  cf_result_reg :: nat
  cf_expected :: u32

definition STOP_2700 :: bytes where "STOP_2700 = [0x4E, 0x72, 0x27, 0x00]"

text \<open>The first position at which a STOP starts, if any.\<close>

fun find_stop :: "nat \<Rightarrow> bytes \<Rightarrow> nat option" where
  "find_stop i [] = None"
| "find_stop i (b # bs) = (if take 4 (b # bs) = STOP_2700 then Some i else find_stop (i + 1) bs)"

definition neutralize :: "bytes \<Rightarrow> bytes" where
  "neutralize p =
    (if length p \<ge> 4 \<and> drop (length p - 4) p = STOP_2700 then take (length p - 4) p
     else
       (case find_stop 0 p of None \<Rightarrow> p
        | Some i \<Rightarrow>
          (let disp = (of_nat (length p - i - 2) :: u16)
           in p[i := 0x60, i + 1 := 0x00, i + 2 := ucast (drop_bit 8 disp), i + 3 := ucast disp])))"

definition reg_dump :: "u32 \<Rightarrow> bytes" where
  "reg_dump base =
    emit_each (\<lambda>n. emit_move_l_an_to_abs n (base + 0x20 + of_nat n * 4)) [0..<8] @
    emit_each (\<lambda>n. emit_move_l_dn_to_abs n (base + 0x00 + of_nat n * 4)) [0..<8]"

definition mac_cpu_fpu_build_program :: "layout \<Rightarrow> CpuFpuTestSpec \<Rightarrow> program" where
  "mac_cpu_fpu_build_program L t = assemble
     (emit_each moveq_zero [1..<8] @ emit_each suba_self [0..<6] @
      emit_movea_l_imm_to_an 6 (scratch_at L) @ emit_move_l_imm_to_dn 0 (cf_op_a t))
     (neutralize (cf_program t)) (reg_dump (final_at L) @ [0x4E, 0x75])"

definition cpu_fpu_build_program :: "layout \<Rightarrow> CpuFpuTestSpec \<Rightarrow> program" where
  "cpu_fpu_build_program L t = assemble
     (put_w 0x42A7 @ put_w 0xF35F @ put_w 0xF280 @ put_w 0x0000 @
      emit_each moveq_zero [1..<8] @ emit_each suba_self [0..<6] @
      emit_movea_l_imm_to_an 6 (scratch_at L) @ emit_move_l_imm_to_dn 0 (cf_op_a t))
     (neutralize (cf_program t)) (reg_dump (final_at L) @ [0x4E, 0x75])"

section \<open>Sizes\<close>

lemma emit_lengths [simp]:
  "length (put_w v) = 2" "length (put_l x) = 4" "length (emit_move_l_dn_to_abs n x) = 6" "length (emit_move_l_an_to_abs n x) = 6"
  "length (emit_movea_l_imm_to_an n x) = 6" "length (emit_move_l_imm_to_dn n x) = 6" "length (emit_move_w_imm_to_ccr v) = 4"
  "length (emit_fmove_x_to_an_postinc f n) = 4" "length (emit_fmove_l_ctrl_to_abs v x) = 8" "length (moveq_zero n) = 2"
  "length (suba_self n) = 2"
  by (simp_all add: put_w_def put_l_def emit_move_l_dn_to_abs_def emit_move_l_an_to_abs_def emit_movea_l_imm_to_an_def
      emit_move_l_imm_to_dn_def emit_move_w_imm_to_ccr_def emit_fmove_x_to_an_postinc_def emit_fmove_l_ctrl_to_abs_def
      moveq_zero_def suba_self_def)

lemma emit_each_length [simp]: "(\<And>n. length (f n) = k) \<Longrightarrow> length (emit_each f ns) = k * length ns"
  by (induction ns) (simp_all add: emit_each_def)

lemma cpu_dump_length [simp]: "length (cpu_state_dump s b i) = 262"
  by (simp add: cpu_state_dump_def emit_each_length [where k = 6] emit_each_length [where k = 10])

lemma fpu_dump_length [simp]: "length (fpu_state_dump b) = 158"
  by (simp add: fpu_state_dump_def emit_each_length [where k = 6] emit_each_length [where k = 4])

lemma neutralize_length: "length (neutralize p) \<le> length p"
  by (simp add: neutralize_def Let_def split: option.splits)

text \<open>No bench writes past its program buffer: for every test within the sizes that the corpora declare, the
  assembled program fits (1024 bytes for the processor benches and the FPU bench before the system, 512
  for the FPU application, 256 for the integration bench), and the test lies where the program counters in the log say.\<close>

theorem programs_fit:
  assumes "length (ct_preload c) \<le> 30" "length (ct_test c) \<le> 18" "length (ft_preload f) \<le> 40" "length (ft_test f) \<le> 8"
    "length (cf_program p) \<le> 32"
  shows "length (pg_bytes (cpu_build_program L c)) \<le> 1024 \<and> length (pg_bytes (mac_cpu_build_program L c)) \<le> 1024 \<and>
    length (pg_bytes (gen_cpu_build_program L c)) \<le> 1024 \<and> length (pg_bytes (fpu_build_program L f)) \<le> 512 \<and>
    length (pg_bytes (cpu_fpu_build_program L p)) \<le> 256 \<and> length (pg_bytes (mac_cpu_fpu_build_program L p)) \<le> 256 \<and>
    take (length (ct_test c)) (drop (pg_test_off (cpu_build_program L c)) (pg_bytes (cpu_build_program L c))) = ct_test c \<and>
    pg_final_off (cpu_build_program L c) - pg_test_off (cpu_build_program L c) = length (ct_test c)"
  using assms neutralize_length [of "cf_program p"]
  by (simp add: cpu_build_program_def mac_cpu_build_program_def gen_cpu_build_program_def fpu_build_program_def
      cpu_fpu_build_program_def mac_cpu_fpu_build_program_def assemble_def Let_def fpu_register_reset_def reg_dump_def
      emit_each_length [where k = 2] emit_each_length [where k = 6])

section \<open>The STOP of a test\<close>

lemma find_stop_some:
  "find_stop k p = Some i \<Longrightarrow> k \<le> i \<and> i - k + 4 \<le> length p \<and> take 4 (drop (i - k) p) = STOP_2700 \<and> (\<forall>j<i - k. take 4 (drop j p) \<noteq> STOP_2700)"
proof (induction k p rule: find_stop.induct)
  case (2 k b bs)
  show ?case
  proof (cases "take 4 (b # bs) = STOP_2700")
    case True
    then have "length (take 4 (b # bs)) = 4" by (simp add: STOP_2700_def)
    then show ?thesis using 2(2) True by simp
  next
    case False
    then have IH: "k + 1 \<le> i" "i - (k + 1) + 4 \<le> length bs" "take 4 (drop (i - (k + 1)) bs) = STOP_2700"
      "\<forall>j<i - (k + 1). take 4 (drop j bs) \<noteq> STOP_2700" using 2 by auto
    have e: "i - k = Suc (i - (k + 1))" using IH(1) by simp
    have "take 4 (drop j (b # bs)) \<noteq> STOP_2700" if "j < i - k" for j
      using that False IH(4) e by (cases j) auto
    then show ?thesis using IH e by simp
  qed
qed simp

definition branch_target :: "bytes \<Rightarrow> nat \<Rightarrow> int" where
  "branch_target q i = int i + 2 + sint (u16_of (q ! (i + 2)) (q ! (i + 3)))"

lemma u16_split: "u16_of (ucast (drop_bit 8 v)) (ucast v) = v"
  unfolding u16_of_def by (rule word_back)



theorem programs_fit_witness:
  "length (pg_bytes (cpu_build_program \<lparr>prog_at = 0, init_at = 0x1000, final_at = 0x2000, scratch_at = 0x3000, saved_at = 0x4000\<rparr>
     \<lparr>ct_name = [], ct_preload = [0x70, 0x05], ct_test = [0xD0, 0x80], ct_ram_init = [], ct_ram_init_present = False,
      ct_privileged = False, ct_raises_exception = False, ct_hw_unsafe = False\<rparr>)) \<le> 1024"
  using programs_fit [of "\<lparr>ct_name = [], ct_preload = [0x70, 0x05], ct_test = [0xD0, 0x80], ct_ram_init = [], ct_ram_init_present = False,
      ct_privileged = False, ct_raises_exception = False, ct_hw_unsafe = False\<rparr>" "\<lparr>ft_name = [], ft_preload = [], ft_test = []\<rparr>"
      "\<lparr>cf_name = [], cf_op_a = 0, cf_program = [], cf_result_reg = 0, cf_expected = 0\<rparr>"
      "\<lparr>prog_at = 0, init_at = 0x1000, final_at = 0x2000, scratch_at = 0x3000, saved_at = 0x4000\<rparr>"] by simp

section \<open>The dump on a processor\<close>

text \<open>The part of the processor that the dump touches, and the four kinds of instruction it consists of.\<close>

record cpu =
  cpu_d :: "nat \<Rightarrow> u32"
  cpu_a :: "nat \<Rightarrow> u32"
  cpu_ccr :: u8
  cpu_pc :: u32
  cpu_mem :: ram

datatype dump_op = Dump_CCR u32 | Dump_A nat u32 | Dump_D nat u32 | Dump_M u32 u32

fun op_bytes :: "dump_op \<Rightarrow> bytes" where
  "op_bytes (Dump_CCR a) = put_w 0x42F9 @ put_l a"
| "op_bytes (Dump_A n a) = emit_move_l_an_to_abs n a"
| "op_bytes (Dump_D n a) = emit_move_l_dn_to_abs n a"
| "op_bytes (Dump_M s a) = put_w 0x23F9 @ put_l s @ put_l a"

fun op_dst :: "dump_op \<Rightarrow> u32" where
  "op_dst (Dump_CCR a) = a" | "op_dst (Dump_A n a) = a" | "op_dst (Dump_D n a) = a" | "op_dst (Dump_M s a) = a"

fun op_value :: "cpu \<Rightarrow> dump_op \<Rightarrow> bytes" where
  "op_value s (Dump_CCR a) = [0, cpu_ccr s]"
| "op_value s (Dump_A n a) = put_l (cpu_a s n)"
| "op_value s (Dump_D n a) = put_l (cpu_d s n)"
| "op_value s (Dump_M src a) = put_l (long_at src (cpu_mem s))"

fun op_valid :: "dump_op \<Rightarrow> bool" where
  "op_valid (Dump_A n a) \<longleftrightarrow> n < 8" | "op_valid (Dump_D n a) \<longleftrightarrow> n < 8" | "op_valid op \<longleftrightarrow> True"

definition holds :: "ram \<Rightarrow> u32 \<Rightarrow> bytes \<Rightarrow> bool" where
  "holds f a bs \<longleftrightarrow> (\<forall>i<length bs. f (a + of_nat i) = bs ! i)"

text \<open>What is assumed of the processor: MOVE from a register or from memory to an absolute address, and MOVE from
  CCR, store the value there and go on to the next instruction; the flags they leave are open.\<close>

definition moves_ok :: "(cpu \<Rightarrow> cpu) \<Rightarrow> bool" where
  "moves_ok step \<longleftrightarrow> (\<forall>op s. op_valid op \<and> holds (cpu_mem s) (cpu_pc s) (op_bytes op) \<longrightarrow>
    (\<exists>c. step s = s\<lparr>cpu_mem := store (op_dst op) (op_value s op) (cpu_mem s), cpu_ccr := c,
       cpu_pc := cpu_pc s + of_nat (length (op_bytes op))\<rparr>))"

definition cpu_dump_ops :: "u32 \<Rightarrow> u32 \<Rightarrow> dump_op list" where
  "cpu_dump_ops scratch base =
    map (\<lambda>n. Dump_A n (base + 0x20 + of_nat n * 4)) [0..<8] @ map (\<lambda>n. Dump_D n (base + 0x00 + of_nat n * 4)) [0..<8] @
    map (\<lambda>i. Dump_M (scratch + of_nat i * 4) (base + 0x44 + of_nat i * 4)) [0..<16]"

lemma cpu_dump_as_ops:
  "cpu_state_dump scratch base False = op_bytes (Dump_CCR (base + 0x40)) @ concat (map op_bytes (cpu_dump_ops scratch base))"
  by (simp add: cpu_state_dump_def cpu_dump_ops_def emit_each_def comp_def)

text \<open>Stores and spans of addresses.\<close>

definition span :: "u32 \<Rightarrow> nat \<Rightarrow> u32 set" where
  "span a n = (\<lambda>i. a + of_nat i) ` {..<n}"

lemma store_outside: "a \<notin> span off (length xs) \<Longrightarrow> store off xs f a = f a"
proof -
  assume out: "a \<notin> span off (length xs)"
  have "\<not> (unat off \<le> unat a \<and> unat a < unat off + length xs)"
  proof
    assume i: "unat off \<le> unat a \<and> unat a < unat off + length xs"
    have "a = off + of_nat (unat a - unat off)" using i by (simp add: of_nat_diff)
    then have "a \<in> span off (length xs)" unfolding span_def using i by (intro image_eqI [where x = "unat a - unat off"]) auto
    with out show False ..
  qed
  then show "store off xs f a = f a" by (auto simp: store_def)
qed

lemma unat_plus: "unat (a :: u32) + n < 2 ^ 32 \<Longrightarrow> unat (a + of_nat n) = unat a + n"
  by (simp add: unat_word_ariths unsigned_of_nat take_bit_nat_eq_self)

lemma store_inside: "unat off + length xs \<le> 2 ^ 32 \<Longrightarrow> i < length xs \<Longrightarrow> store off xs f (off + of_nat i) = xs ! i"
  using unat_plus [of off i] by (simp add: store_def)

lemma holds_append: "holds f a (xs @ ys) \<longleftrightarrow> holds f a xs \<and> holds f (a + of_nat (length xs)) ys"
proof
  assume h: "holds f a (xs @ ys)"
  have "f (a + of_nat (length xs) + of_nat i) = ys ! i" if "i < length ys" for i
    using h that unfolding holds_def by (auto dest!: spec [where x = "length xs + i"] simp: add.assoc)
  moreover have "f (a + of_nat i) = xs ! i" if "i < length xs" for i
    using h that unfolding holds_def by (auto dest!: spec [where x = i] simp: nth_append)
  ultimately show "holds f a xs \<and> holds f (a + of_nat (length xs)) ys" by (simp add: holds_def)
next
  assume h: "holds f a xs \<and> holds f (a + of_nat (length xs)) ys"
  show "holds f a (xs @ ys)"
    unfolding holds_def
  proof (intro allI impI)
    fix i assume i: "i < length (xs @ ys)"
    show "f (a + of_nat i) = (xs @ ys) ! i"
    proof (cases "i < length xs")
      case False
      then obtain j where j: "i = length xs + j" "j < length ys" using i by (auto simp: not_less le_iff_add)
      then have "f (a + of_nat (length xs) + of_nat j) = ys ! j" using h by (simp add: holds_def)
      then show ?thesis using j by (simp add: nth_append add.assoc)
    qed (use h in \<open>simp add: holds_def nth_append\<close>)
  qed
qed

lemma holds_store: "span off (length xs) \<inter> span a (length bs) = {} \<Longrightarrow> holds (store off xs f) a bs = holds f a bs"
proof -
  assume "span off (length xs) \<inter> span a (length bs) = {}"
  then have "store off xs f (a + of_nat i) = f (a + of_nat i)" if "i < length bs" for i
    using that by (intro store_outside) (auto simp: span_def)
  then show ?thesis by (simp add: holds_def)
qed

definition put_op :: "cpu \<Rightarrow> dump_op \<Rightarrow> ram \<Rightarrow> ram" where
  "put_op s op f = store (op_dst op) (op_value (s\<lparr>cpu_mem := f\<rparr>) op) f"

definition is_move :: "dump_op \<Rightarrow> bool" where
  "is_move op \<longleftrightarrow> op_valid op \<and> (\<forall>a. op \<noteq> Dump_CCR a)"

lemma move_value: "is_move op \<Longrightarrow> op_value (s\<lparr>cpu_ccr := c, cpu_pc := p, cpu_mem := f\<rparr>) op = op_value (s\<lparr>cpu_mem := f\<rparr>) op"
    "is_move op \<Longrightarrow> length (op_value s op) = 4"
  by (cases op; simp add: is_move_def)+

lemma put_move: "is_move op \<Longrightarrow> put_op (s\<lparr>cpu_mem := g, cpu_ccr := c, cpu_pc := p\<rparr>) op f = put_op s op f"
  by (cases op) (simp_all add: is_move_def put_op_def)

lemma run_moves:
  assumes ok: "moves_ok step"
  shows "holds (cpu_mem s) (cpu_pc s) (concat (map op_bytes ops)) \<Longrightarrow> \<forall>op\<in>set ops. is_move op \<Longrightarrow>
    \<forall>op\<in>set ops. span (op_dst op) 4 \<inter> span (cpu_pc s) (length (concat (map op_bytes ops))) = {} \<Longrightarrow>
    \<exists>c. (step ^^ length ops) s = s\<lparr>cpu_mem := fold (put_op s) ops (cpu_mem s), cpu_ccr := c,
      cpu_pc := cpu_pc s + of_nat (length (concat (map op_bytes ops)))\<rparr>"
proof (induction ops arbitrary: s)
  case Nil
  then show ?case by (intro exI [where x = "cpu_ccr s"]) simp
next
  case (Cons op ops)
  let ?rest = "concat (map op_bytes ops)" and ?n = "length (op_bytes op)"
  have op: "is_move op" "op_valid op" using Cons.prems(2) by (auto simp: is_move_def)
  have h: "holds (cpu_mem s) (cpu_pc s) (op_bytes op)" "holds (cpu_mem s) (cpu_pc s + of_nat ?n) ?rest"
    using Cons.prems(1) by (simp_all add: holds_append)
  obtain c where one: "step s = s\<lparr>cpu_mem := store (op_dst op) (op_value s op) (cpu_mem s), cpu_ccr := c, cpu_pc := cpu_pc s + of_nat ?n\<rparr>"
    using ok op(2) h(1) unfolding moves_ok_def by blast
  have sub: "span (cpu_pc s + of_nat ?n) (length ?rest) \<subseteq> span (cpu_pc s) (length (concat (map op_bytes (op # ops))))"
  proof
    fix x assume "x \<in> span (cpu_pc s + of_nat ?n) (length ?rest)"
    then obtain i where "i < length ?rest" "x = cpu_pc s + of_nat (?n + i)" by (auto simp: span_def add.assoc)
    then show "x \<in> span (cpu_pc s) (length (concat (map op_bytes (op # ops))))" unfolding span_def
      by (intro image_eqI [where x = "?n + i"]) auto
  qed
  let ?t = "step s"
  have t: "cpu_pc ?t = cpu_pc s + of_nat ?n" "cpu_mem ?t = put_op s op (cpu_mem s)" unfolding one by (simp_all add: put_op_def)
  have same: "fold (put_op ?t) ops f = fold (put_op s) ops f" for f
    using Cons.prems(2) unfolding one by (intro fold_cong) (auto simp: fun_eq_iff put_move put_op_def move_value(1))
  have "\<exists>c'. (step ^^ length ops) ?t = ?t\<lparr>cpu_mem := fold (put_op ?t) ops (cpu_mem ?t), cpu_ccr := c',
      cpu_pc := cpu_pc ?t + of_nat (length ?rest)\<rparr>"
  proof (rule Cons.IH)
    show "holds (cpu_mem ?t) (cpu_pc ?t) ?rest"
      using h(2) Cons.prems(3) sub move_value(2) [OF op(1)] unfolding t put_op_def
      by (subst holds_store) auto
    show "\<forall>op\<in>set ops. is_move op" using Cons.prems(2) by simp
    show "\<forall>op\<in>set ops. span (op_dst op) 4 \<inter> span (cpu_pc ?t) (length ?rest) = {}" using Cons.prems(3) sub unfolding t by auto
  qed
  then obtain c' where "(step ^^ length ops) ?t = ?t\<lparr>cpu_mem := fold (put_op s) ops (put_op s op (cpu_mem s)), cpu_ccr := c',
      cpu_pc := cpu_pc s + of_nat ?n + of_nat (length ?rest)\<rparr>" unfolding same t by blast
  then show ?case unfolding one by (intro exI [where x = c']) (simp add: funpow_swap1 one add.assoc put_op_def [of s op "cpu_mem s"])
qed

text \<open>What a list of moves leaves in memory, when their targets are apart from each other and from their sources.\<close>

fun op_reads :: "dump_op \<Rightarrow> u32 set" where
  "op_reads (Dump_M src a) = span src 4" | "op_reads op = {}"

lemma long_at_cong: "(\<And>i. i < 4 \<Longrightarrow> f (a + of_nat i) = g (a + of_nat i)) \<Longrightarrow> long_at a f = long_at a g"
proof -
  assume e: "\<And>i. i < 4 \<Longrightarrow> f (a + of_nat i) = g (a + of_nat i)"
  have "f a = g a" "f (a + 1) = g (a + 1)" "f (a + 2) = g (a + 2)" "f (a + 3) = g (a + 3)"
    using e [of 0] e [of 1] e [of 2] e [of 3] by simp_all
  then show ?thesis by (simp add: long_at_def)
qed

lemma value_frame:
  assumes "is_move op" "op_reads op \<inter> span off (length xs) = {}"
  shows "op_value (s\<lparr>cpu_mem := store off xs f\<rparr>) op = op_value (s\<lparr>cpu_mem := f\<rparr>) op"
proof (cases op)
  case (Dump_M src a)
  have "store off xs f (src + of_nat i) = f (src + of_nat i)" if "i < 4" for i
    using assms(2) that unfolding Dump_M by (intro store_outside) (auto simp: span_def)
  then have "long_at src (store off xs f) = long_at src f" by (rule long_at_cong)
  then show ?thesis by (simp add: Dump_M)
qed (use assms in \<open>simp_all add: is_move_def\<close>)

lemma fold_outside:
  "\<forall>op\<in>set ops. is_move op \<and> x \<notin> span (op_dst op) 4 \<Longrightarrow> fold (put_op s) ops f x = f x"
  by (induction ops arbitrary: f) (auto simp: put_op_def store_outside move_value(2))

lemma fold_stored:
  assumes "\<forall>op\<in>set ops. is_move op \<and> unat (op_dst op) + 4 < 2 ^ 32"
    "distinct ops" "\<forall>p\<in>set ops. \<forall>q\<in>set ops. p \<noteq> q \<longrightarrow> span (op_dst p) 4 \<inter> span (op_dst q) 4 = {}"
    "\<forall>p\<in>set ops. \<forall>q\<in>set ops. op_reads p \<inter> span (op_dst q) 4 = {}"
  shows "op \<in> set ops \<Longrightarrow> j < 4 \<Longrightarrow> fold (put_op s) ops f (op_dst op + of_nat j) = op_value (s\<lparr>cpu_mem := f\<rparr>) op ! j"
  using assms
proof (induction ops arbitrary: f)
  case (Cons p ops)
  let ?f = "put_op s p f"
  have p: "is_move p" using Cons.prems by simp
  show ?case
  proof (cases "op = p")
    case True
    have "fold (put_op s) ops ?f (op_dst p + of_nat j) = ?f (op_dst p + of_nat j)"
    proof (rule fold_outside, intro ballI conjI)
      fix q assume q: "q \<in> set ops"
      then show "is_move q" using Cons.prems by simp
      have "p \<noteq> q" using q Cons.prems(4) by auto
      then have "span (op_dst p) 4 \<inter> span (op_dst q) 4 = {}" using Cons.prems(5) q by simp
      then show "op_dst p + of_nat j \<notin> span (op_dst q) 4" using Cons.prems(2) by (auto simp: span_def)
    qed
    also have "?f (op_dst p + of_nat j) = op_value (s\<lparr>cpu_mem := f\<rparr>) p ! j"
      using Cons.prems p by (simp add: put_op_def store_inside move_value(2))
    finally show ?thesis using True by simp
  next
    case False
    then have o: "op \<in> set ops" "is_move op" "op_reads op \<inter> span (op_dst p) 4 = {}" using Cons.prems by auto
    have "fold (put_op s) ops ?f (op_dst op + of_nat j) = op_value (s\<lparr>cpu_mem := ?f\<rparr>) op ! j"
      by (rule Cons.IH [OF o(1) Cons.prems(2)]) (use Cons.prems in auto)
    also have "op_value (s\<lparr>cpu_mem := ?f\<rparr>) op = op_value (s\<lparr>cpu_mem := f\<rparr>) op"
      using value_frame [OF o(2), where off = "op_dst p" and xs = "op_value (s\<lparr>cpu_mem := f\<rparr>) p" and s = s and f = f] o(3) move_value(2) [OF p] by (simp add: put_op_def)
    finally show ?thesis by simp
  qed
qed simp

text \<open>The snapshot in memory, as the benches read it.\<close>

record Snapshot =
  sn_d :: "u32 list"
  sn_a :: "u32 list"
  sn_ccr :: u8
  sn_ram :: bytes

definition snapshot_at :: "u32 \<Rightarrow> ram \<Rightarrow> Snapshot" where
  "snapshot_at base f =
    \<lparr>sn_d = map (\<lambda>n. long_at (base + of_nat n * 4) f) [0..<8], sn_a = map (\<lambda>n. long_at (base + 0x20 + of_nat n * 4) f) [0..<8],
     sn_ccr = f (base + 0x41), sn_ram = map (\<lambda>i. f (base + 0x44 + of_nat i)) [0..<64]\<rparr>"

lemma long_at_put: "(\<And>i. i < 4 \<Longrightarrow> f (a + of_nat i) = put_l v ! i) \<Longrightarrow> long_at a f = v"
proof -
  assume e: "\<And>i. i < 4 \<Longrightarrow> f (a + of_nat i) = put_l v ! i"
  have "f a = ucast (drop_bit 24 v)" "f (a + 1) = ucast (drop_bit 16 v)" "f (a + 2) = ucast (drop_bit 8 v)" "f (a + 3) = ucast v"
    using e [of 0] e [of 1] e [of 2] e [of 3] by (simp_all add: put_l_def numeral_2_eq_2 numeral_3_eq_3)
  then have "long_at a f = foldl (\<lambda>(x :: u32) b. push_bit 8 x OR ucast b) 0 (be32 v)"
    unfolding long_at_def be32_def by (simp add: push_bit_or ac_simps)
  then show ?thesis by (simp add: long_back)
qed

lemma byte_high: "8 \<le> n \<Longrightarrow> \<not> bit (x :: u8) n"
  by (auto dest: bit_imp_le_length)

lemma put_long_nth: "j < 4 \<Longrightarrow> put_l (long_at a f) ! j = f (a + of_nat j)"
proof -
  assume "j < 4"
  moreover have "ucast (drop_bit 24 (long_at a f)) = f a" "ucast (drop_bit 16 (long_at a f)) = f (a + 1)"
    "ucast (drop_bit 8 (long_at a f)) = f (a + 2)" "ucast (long_at a f) = f (a + 3)"
    unfolding long_at_def by (auto intro!: bit_word_eqI simp: bit_simps byte_high)
  moreover have "j = 0 \<or> j = 1 \<or> j = 2 \<or> j = 3" using \<open>j < 4\<close> by auto
  ultimately show ?thesis by (auto simp: put_l_def)
qed

text \<open>The moves of the dump by number, and where in the snapshot each stores.\<close>

definition dump_off :: "nat \<Rightarrow> nat" where
  "dump_off k = (if k < 8 then 32 + 4 * k else if k < 16 then 4 * (k - 8) else 68 + 4 * (k - 16))"

definition dump_op :: "u32 \<Rightarrow> u32 \<Rightarrow> nat \<Rightarrow> dump_op" where
  "dump_op scratch base k =
    (if k < 8 then Dump_A k (base + of_nat (dump_off k)) else if k < 16 then Dump_D (k - 8) (base + of_nat (dump_off k))
     else Dump_M (scratch + of_nat (4 * (k - 16))) (base + of_nat (dump_off k)))"

lemma cpu_dump_ops_numbered: "cpu_dump_ops scratch base = map (dump_op scratch base) [0..<32]"
proof -
  have "[0..<32] = [0..<8] @ map (\<lambda>n. 8 + n) [0..<8] @ map (\<lambda>n. 16 + n) [0..<16]" by code_simp
  then have "map (dump_op scratch base) [0..<32] = map (dump_op scratch base) [0..<8] @ map (\<lambda>n. dump_op scratch base (8 + n)) [0..<8] @
      map (\<lambda>n. dump_op scratch base (16 + n)) [0..<16]" by (simp add: comp_def)
  moreover have "map (dump_op scratch base) [0..<8] = map (\<lambda>n. Dump_A n (base + 0x20 + of_nat n * 4)) [0..<8]"
    by (rule map_cong) (auto simp: dump_op_def dump_off_def algebra_simps)
  moreover have "map (\<lambda>n. dump_op scratch base (8 + n)) [0..<8] = map (\<lambda>n. Dump_D n (base + 0x00 + of_nat n * 4)) [0..<8]"
    by (rule map_cong) (auto simp: dump_op_def dump_off_def algebra_simps)
  moreover have "map (\<lambda>n. dump_op scratch base (16 + n)) [0..<16] = map (\<lambda>i. Dump_M (scratch + of_nat i * 4) (base + 0x44 + of_nat i * 4)) [0..<16]"
    by (rule map_cong) (auto simp: dump_op_def dump_off_def algebra_simps)
  ultimately show ?thesis by (simp add: cpu_dump_ops_def)
qed

lemma dump_op_facts: "k < 32 \<Longrightarrow> is_move (dump_op scratch base k)" "op_dst (dump_op scratch base k) = base + of_nat (dump_off k)"
  "k < 32 \<Longrightarrow> dump_off k + 4 \<le> 132"
  by (auto simp: dump_op_def is_move_def dump_off_def)

lemma dump_off_apart: "k < 32 \<Longrightarrow> l < 32 \<Longrightarrow> k \<noteq> l \<Longrightarrow> dump_off k + 4 \<le> dump_off l \<or> dump_off l + 4 \<le> dump_off k"
  by (auto simp: dump_off_def)

lemma span_sub: "k + n \<le> m \<Longrightarrow> span (a + of_nat k) n \<subseteq> span a m"
  unfolding span_def by (auto simp: add.assoc simp flip: of_nat_add intro!: image_eqI [where x = "k + _"])

lemma in_span: "unat a + m < 2 ^ 32 \<Longrightarrow> k + n \<le> m \<Longrightarrow> x \<in> span (a + of_nat k) n \<Longrightarrow> unat a + k \<le> unat x \<and> unat x < unat a + k + n"
  unfolding span_def using unat_plus [of a] by (auto simp: add.assoc simp flip: of_nat_add)

lemma dump_op_reads: "k < 32 \<Longrightarrow> op_reads (dump_op scratch base k) \<subseteq> span scratch 64"
proof -
  assume k: "k < 32"
  have "span (scratch + of_nat (4 * (k - 16))) 4 \<subseteq> span scratch 64" if "\<not> k < 16" using that k by (intro span_sub) simp
  then show ?thesis by (auto simp: dump_op_def)
qed

lemma dump_targets_apart:
  assumes b: "unat base + 132 < 2 ^ 32" and k: "k < 32" "l < 32" "k \<noteq> l"
  shows "span (op_dst (dump_op scratch base k)) 4 \<inter> span (op_dst (dump_op scratch base l)) 4 = {}"
proof (rule ccontr)
  assume "\<not> ?thesis"
  then obtain x where x: "x \<in> span (base + of_nat (dump_off k)) 4" "x \<in> span (base + of_nat (dump_off l)) 4"
    by (auto simp: dump_op_facts(2))
  have "unat base + dump_off k \<le> unat x \<and> unat x < unat base + dump_off k + 4"
    by (rule in_span [OF b dump_op_facts(3) [OF k(1)] x(1)])
  moreover have "unat base + dump_off l \<le> unat x \<and> unat x < unat base + dump_off l + 4"
    by (rule in_span [OF b dump_op_facts(3) [OF k(2)] x(2)])
  ultimately show False using dump_off_apart [OF k] by auto
qed

lemma dumps_distinct:
  assumes "unat base + 132 < 2 ^ 32" "k < 32" "l < 32" "dump_op scratch base k = dump_op scratch base l"
  shows "k = l"
proof (rule ccontr)
  assume "k \<noteq> l"
  then have "span (op_dst (dump_op scratch base k)) 4 = {}" using dump_targets_apart [OF assms(1-3)] assms(4) by fastforce
  then have "{..<(4 :: nat)} = {}" by (simp add: span_def)
  then have "(0 :: nat) \<in> {}" by (metis lessThan_iff zero_less_numeral)
  then show False by simp
qed

lemma dump_off_ccr: "k < 32 \<Longrightarrow> \<not> (dump_off k \<le> 65 \<and> 65 < dump_off k + 4)"
  by (auto simp: dump_off_def)

text \<open>The dump is 33 instructions.\<close>

lemma dump_33:
  assumes ok: "moves_ok step" and code: "holds (cpu_mem s) (cpu_pc s) (cpu_state_dump scratch base False)"
    and b: "unat base + 132 < 2 ^ 32" and apart: "span base 132 \<inter> span (cpu_pc s) 262 = {}" "span base 132 \<inter> span scratch 64 = {}"
  shows "cpu_pc ((step ^^ 33) s) = cpu_pc s + 262 \<and>
    snapshot_at base (cpu_mem ((step ^^ 33) s)) =
      \<lparr>sn_d = map (cpu_d s) [0..<8], sn_a = map (cpu_a s) [0..<8], sn_ccr = cpu_ccr s,
       sn_ram = map (\<lambda>i. cpu_mem s (scratch + of_nat i)) [0..<64]\<rparr>"
proof -
  let ?c = "Dump_CCR (base + 0x40)" and ?ops = "map (dump_op scratch base) [0..<32]"
  let ?rest = "concat (map op_bytes ?ops)"
  have len: "length (op_bytes ?c) = 6" "length ?rest = 256"
    using cpu_dump_length [of scratch base False] by (simp_all add: cpu_dump_as_ops cpu_dump_ops_numbered)
  have h: "holds (cpu_mem s) (cpu_pc s) (op_bytes ?c)" "holds (cpu_mem s) (cpu_pc s + 6) ?rest"
    using code unfolding cpu_dump_as_ops cpu_dump_ops_numbered holds_append len(1) of_nat_numeral by simp_all
  obtain c where one: "step s = s\<lparr>cpu_mem := store (base + 0x40) [0, cpu_ccr s] (cpu_mem s), cpu_ccr := c, cpu_pc := cpu_pc s + 6\<rparr>"
    using ok h(1) len(1) unfolding moves_ok_def by (metis op_dst.simps(1) op_valid.simps(3) op_value.simps(1) of_nat_numeral)
  define t where "t = step s"
  have t: "cpu_pc t = cpu_pc s + 6" "cpu_mem t = store (base + 0x40) [0, cpu_ccr s] (cpu_mem s)" "cpu_d t = cpu_d s" "cpu_a t = cpu_a s"
    by (simp_all add: t_def one)
  have two: "length [0, cpu_ccr s] = 2" by simp
  have ccr_span: "span (base + 0x40) 2 \<subseteq> span base 132" using span_sub [of 64 2 132 base] by simp
  have tail: "span (cpu_pc t) 256 \<subseteq> span (cpu_pc s) 262" using span_sub [of 6 256 262 "cpu_pc s"] by (simp add: t)
  have h2: "holds (cpu_mem t) (cpu_pc t) ?rest"
  proof -
    have "span (base + 0x40) (length [0, cpu_ccr s]) \<inter> span (cpu_pc t) (length ?rest) = {}"
      unfolding two len(2) using apart(1) ccr_span tail by blast
    then show ?thesis unfolding t(2) using h(2) by (simp only: holds_store t(1))
  qed
  have moves: "\<forall>op\<in>set ?ops. is_move op" using dump_op_facts(1) by auto
  have dst: "span (op_dst (dump_op scratch base k)) 4 \<subseteq> span base 132" if "k < 32" for k
    unfolding dump_op_facts(2) by (rule span_sub [OF dump_op_facts(3) [OF that]])
  have "\<forall>op\<in>set ?ops. span (op_dst op) 4 \<inter> span (cpu_pc t) (length ?rest) = {}" using dst tail apart(1) len(2) by fastforce
  from run_moves [OF ok h2 moves this] obtain c' where
    run: "(step ^^ 32) t = t\<lparr>cpu_mem := fold (put_op t) ?ops (cpu_mem t), cpu_ccr := c', cpu_pc := cpu_pc t + of_nat (length ?rest)\<rparr>"
    by auto
  define g where "g = fold (put_op t) ?ops (cpu_mem t)"
  have g: "g (op_dst (dump_op scratch base k) + of_nat j) = op_value t (dump_op scratch base k) ! j" if "k < 32" "j < 4" for k j
  proof -
    have "g (op_dst (dump_op scratch base k) + of_nat j) = op_value (t\<lparr>cpu_mem := cpu_mem t\<rparr>) (dump_op scratch base k) ! j"
      unfolding g_def
    proof (rule fold_stored [OF _ _ _ _ _ that(2)])
      show "\<forall>op\<in>set ?ops. is_move op \<and> unat (op_dst op) + 4 < 2 ^ 32"
        using moves b dump_op_facts(3) unat_plus [of base] by (auto simp: dump_op_facts(2)) fastforce
      show "distinct ?ops"
        unfolding distinct_map using dumps_distinct [OF b] by (auto simp: inj_on_def)
      show "\<forall>p\<in>set ?ops. \<forall>q\<in>set ?ops. p \<noteq> q \<longrightarrow> span (op_dst p) 4 \<inter> span (op_dst q) 4 = {}"
      proof (intro ballI impI)
        fix p q assume "p \<in> set ?ops" "q \<in> set ?ops" and ne: "p \<noteq> q"
        then obtain k l where kl: "p = dump_op scratch base k" "q = dump_op scratch base l" "k < 32" "l < 32" by auto
        moreover have "k \<noteq> l" using ne kl by auto
        ultimately show "span (op_dst p) 4 \<inter> span (op_dst q) 4 = {}" using dump_targets_apart [OF b] by simp
      qed
      show "\<forall>p\<in>set ?ops. \<forall>q\<in>set ?ops. op_reads p \<inter> span (op_dst q) 4 = {}"
        using dump_op_reads dst apart(2) by fastforce
      show "dump_op scratch base k \<in> set ?ops" using that by simp
    qed
    then show ?thesis by simp
  qed
  have d: "long_at (base + of_nat n * 4) g = cpu_d s n" if "n < 8" for n
    by (rule long_at_put) (use g [of "8 + n"] that in \<open>simp add: dump_op_def dump_off_def t algebra_simps\<close>)
  have a: "long_at (base + 0x20 + of_nat n * 4) g = cpu_a s n" if "n < 8" for n
    by (rule long_at_put) (use g [of n] that in \<open>simp add: dump_op_def dump_off_def t algebra_simps\<close>)
  have r: "g (base + 0x44 + of_nat i) = cpu_mem s (scratch + of_nat i)" if "i < 64" for i
  proof -
    let ?q = "i div 4" and ?j = "i mod 4"
    have q: "16 + ?q < 32" "i = 4 * ?q + ?j" using that by auto
    have "g (base + of_nat (68 + 4 * ?q) + of_nat ?j) = put_l (long_at (scratch + of_nat (4 * ?q)) (cpu_mem t)) ! ?j"
      using g [OF q(1), of ?j] by (simp add: dump_op_def dump_off_def)
    also have "\<dots> = cpu_mem t (scratch + of_nat (4 * ?q) + of_nat ?j)" by (rule put_long_nth) simp
    also have "scratch + of_nat (4 * ?q) + of_nat ?j = scratch + of_nat i" by (subst (3) q(2)) (simp only: of_nat_add add.assoc)
    also have "cpu_mem t (scratch + of_nat i) = cpu_mem s (scratch + of_nat i)"
      unfolding t(2)
    proof (rule store_outside, unfold two)
      have "scratch + of_nat i \<in> span scratch 64" using that by (simp add: span_def)
      then show "scratch + of_nat i \<notin> span (base + 0x40) 2" using apart(2) ccr_span by blast
    qed
    also have "base + of_nat (68 + 4 * ?q) + of_nat ?j = base + 0x44 + of_nat i"
      by (subst (3) q(2)) (simp only: of_nat_add of_nat_numeral add.assoc)
    finally show ?thesis .
  qed
  have c: "g (base + 0x41) = cpu_ccr s"
  proof -
    have "base + 0x41 \<notin> span (base + of_nat (dump_off k)) 4" if "k < 32" for k
    proof
      assume "base + 0x41 \<in> span (base + of_nat (dump_off k)) 4"
      from in_span [OF b dump_op_facts(3) [OF that] this] show False
        using unat_plus [of base 65] b dump_off_ccr [OF that] by simp
    qed
    then have "g (base + 0x41) = cpu_mem t (base + 0x41)"
      unfolding g_def using moves by (intro fold_outside) (auto simp: dump_op_facts(2))
    also have "\<dots> = cpu_ccr s" unfolding t(2) using store_inside [of "base + 0x40" "[0, cpu_ccr s]" 1 "cpu_mem s"] unat_plus [of base 64] b by (simp add: add.assoc)
    finally show ?thesis .
  qed
  have "(step ^^ 33) s = (step ^^ 32) t" unfolding t_def by (simp add: numeral_eq_Suc funpow_swap1)
  then have fin: "cpu_pc ((step ^^ 33) s) = cpu_pc s + 262" "cpu_mem ((step ^^ 33) s) = g"
    using run len(2) by (simp_all add: t(1) g_def)
  have "snapshot_at base g = \<lparr>sn_d = map (cpu_d s) [0..<8], sn_a = map (cpu_a s) [0..<8], sn_ccr = cpu_ccr s,
       sn_ram = map (\<lambda>i. cpu_mem s (scratch + of_nat i)) [0..<64]\<rparr>"
    unfolding snapshot_at_def c by (simp only: d a r cong: map_cong) (auto intro!: map_cong simp: d a r)
  then show ?thesis using fin by simp
qed

text \<open>C31: On any processor that executes MOVE to memory and MOVE from CCR as documented, running the final dump leaves in the
  snapshot the data and address registers and the condition codes as they were when the test ended, and a copy
  of the scratch memory, and control arrives at the instruction after the dump; the snapshot must be apart
  from the code and from the scratch memory.\<close>

theorem dump_records_state:
  assumes ok: "moves_ok step" and code: "holds (cpu_mem s) (cpu_pc s) (cpu_state_dump scratch base False)"
    and b: "unat base + 132 < 2 ^ 32" and apart: "span base 132 \<inter> span (cpu_pc s) 262 = {}" "span base 132 \<inter> span scratch 64 = {}"
  shows "\<exists>k. cpu_pc ((step ^^ k) s) = cpu_pc s + 262 \<and>
    snapshot_at base (cpu_mem ((step ^^ k) s)) =
      \<lparr>sn_d = map (cpu_d s) [0..<8], sn_a = map (cpu_a s) [0..<8], sn_ccr = cpu_ccr s,
       sn_ram = map (\<lambda>i. cpu_mem s (scratch + of_nat i)) [0..<64]\<rparr>"
  using dump_33 [OF assms] by blast

text \<open>A processor that knows these instructions only, and a program in its memory.\<close>

definition mini_step :: "cpu \<Rightarrow> cpu" where
  "mini_step s =
    (let f = cpu_mem s; pc = cpu_pc s; w = word_at pc f; x = long_at (pc + 2) f in
     if w = 0x42F9 then s\<lparr>cpu_mem := store x [0, cpu_ccr s] f, cpu_pc := pc + 6\<rparr>
     else if w = 0x23F9 then s\<lparr>cpu_mem := store (long_at (pc + 6) f) (put_l (long_at x f)) f, cpu_pc := pc + 10\<rparr>
     else if w AND 0xFFF8 = 0x23C8 then s\<lparr>cpu_mem := store x (put_l (cpu_a s (unat (w AND 7)))) f, cpu_pc := pc + 6\<rparr>
     else if w AND 0xFFF8 = 0x23C0 then s\<lparr>cpu_mem := store x (put_l (cpu_d s (unat (w AND 7)))) f, cpu_pc := pc + 6\<rparr>
     else s)"

lemma holds_word: "holds f a (put_w w @ rest) \<Longrightarrow> word_at a f = w \<and> holds f (a + 2) rest"
proof -
  assume h: "holds f a (put_w w @ rest)"
  then have p: "\<forall>i<2. f (a + of_nat i) = put_w w ! i" and r: "holds f (a + 2) rest"
    unfolding holds_append by (simp_all add: holds_def)
  have "f a = put_w w ! 0" "f (a + 1) = put_w w ! 1" using p [rule_format, of 0] p [rule_format, of 1] by simp_all
  then show ?thesis using r by (simp add: word_at_def put_w_def u16_split)
qed

lemma holds_long: "holds f a (put_l x @ rest) \<Longrightarrow> long_at a f = x \<and> holds f (a + 4) rest"
  using long_at_put [of f a x] unfolding holds_append by (auto simp: holds_def)

lemma low_register: "n < 8 \<Longrightarrow> (of_nat n AND 7 :: u16) = of_nat n"
  by (auto simp: less_Suc_eq numeral_eq_Suc)

lemma reg_codes: "list_all (\<lambda>n. (0x23C8 OR (of_nat n AND 7 :: u16)) \<notin> {0x42F9, 0x23F9} \<and> (0x23C0 OR (of_nat n AND 7 :: u16)) \<notin> {0x42F9, 0x23F9} \<and>
    (0x23C8 OR (of_nat n AND 7)) AND 0xFFF8 = (0x23C8 :: u16) \<and> (0x23C0 OR (of_nat n AND 7)) AND 0xFFF8 = (0x23C0 :: u16) \<and>
    unat ((0x23C8 OR (of_nat n AND 7)) AND 7 :: u16) = n \<and> unat ((0x23C0 OR (of_nat n AND 7)) AND 7 :: u16) = n) [0..<8]"
  by code_simp

lemma mini_moves: "moves_ok mini_step"
  unfolding moves_ok_def
proof (intro allI impI)
  fix op and s :: cpu assume "op_valid op \<and> holds (cpu_mem s) (cpu_pc s) (op_bytes op)"
  then have v: "op_valid op" and h: "holds (cpu_mem s) (cpu_pc s) (op_bytes op)" by blast+
  have self: "s\<lparr>cpu_mem := f, cpu_pc := p\<rparr> = s\<lparr>cpu_mem := f, cpu_ccr := cpu_ccr s, cpu_pc := p\<rparr>" for f p by simp
  show "\<exists>c. mini_step s = s\<lparr>cpu_mem := store (op_dst op) (op_value s op) (cpu_mem s), cpu_ccr := c,
       cpu_pc := cpu_pc s + of_nat (length (op_bytes op))\<rparr>"
  proof (intro exI [where x = "cpu_ccr s"], unfold self [symmetric], cases op)
    case (Dump_CCR a)
    have "word_at (cpu_pc s) (cpu_mem s) = 0x42F9" "long_at (cpu_pc s + 2) (cpu_mem s) = a"
      using h holds_word holds_long [of _ _ _ "[]"] unfolding Dump_CCR by fastforce+
    then show "mini_step s = s\<lparr>cpu_mem := store (op_dst op) (op_value s op) (cpu_mem s), cpu_pc := cpu_pc s + of_nat (length (op_bytes op))\<rparr>"
      by (simp add: mini_step_def Dump_CCR)
  next
    case (Dump_M src a)
    have "word_at (cpu_pc s) (cpu_mem s) = 0x23F9 \<and> holds (cpu_mem s) (cpu_pc s + 2) (put_l src @ put_l a)"
      using h holds_word unfolding Dump_M by fastforce
    moreover from this have "long_at (cpu_pc s + 2) (cpu_mem s) = src \<and> long_at (cpu_pc s + 2 + 4) (cpu_mem s) = a"
      using holds_long [of "cpu_mem s" "cpu_pc s + 2" src "put_l a"] holds_long [of "cpu_mem s" "cpu_pc s + 2 + 4" a "[]"] by simp
    ultimately show "mini_step s = s\<lparr>cpu_mem := store (op_dst op) (op_value s op) (cpu_mem s), cpu_pc := cpu_pc s + of_nat (length (op_bytes op))\<rparr>"
      by (simp add: mini_step_def Dump_M add.assoc Let_def)
  next
    case (Dump_A n a)
    then have n: "n \<in> set [0..<8]" using v by simp
    have "word_at (cpu_pc s) (cpu_mem s) = 0x23C8 OR (of_nat n AND 7)" "long_at (cpu_pc s + 2) (cpu_mem s) = a"
      using h holds_word holds_long [of _ _ _ "[]"] unfolding Dump_A op_bytes.simps emit_move_l_an_to_abs_def by fastforce+
    moreover note reg_codes [unfolded list_all_iff, rule_format, OF n]
    ultimately show "mini_step s = s\<lparr>cpu_mem := store (op_dst op) (op_value s op) (cpu_mem s), cpu_pc := cpu_pc s + of_nat (length (op_bytes op))\<rparr>"
      by (simp add: mini_step_def Dump_A Let_def)
  next
    case (Dump_D n a)
    then have n: "n \<in> set [0..<8]" using v by simp
    have "word_at (cpu_pc s) (cpu_mem s) = 0x23C0 OR (of_nat n AND 7)" "long_at (cpu_pc s + 2) (cpu_mem s) = a"
      using h holds_word holds_long [of _ _ _ "[]"] unfolding Dump_D op_bytes.simps emit_move_l_dn_to_abs_def by fastforce+
    moreover note reg_codes [unfolded list_all_iff, rule_format, OF n]
    ultimately show "mini_step s = s\<lparr>cpu_mem := store (op_dst op) (op_value s op) (cpu_mem s), cpu_pc := cpu_pc s + of_nat (length (op_bytes op))\<rparr>"
      by (simp add: mini_step_def Dump_D Let_def)
  qed
qed

definition placed :: "u32 \<Rightarrow> bytes \<Rightarrow> ram" where
  "placed p bs a = (if unat (a - p) < length bs then bs ! unat (a - p) else 5)"

lemma placed_holds: "length bs < 2 ^ 32 \<Longrightarrow> holds (placed p bs) p bs"
  by (auto simp: holds_def placed_def unsigned_of_nat take_bit_nat_eq_self)

definition mini_start :: cpu where
  "mini_start = \<lparr>cpu_d = (\<lambda>n. of_nat n + 1), cpu_a = (\<lambda>n. of_nat n * 2), cpu_ccr = 0x15, cpu_pc = 0x1000,
     cpu_mem = placed 0x1000 (cpu_state_dump 0x3000 0x2000 False)\<rparr>"

lemma span_range: "unat a + n < 2 ^ 32 \<Longrightarrow> x \<in> span a n \<Longrightarrow> unat a \<le> unat x \<and> unat x < unat a + n"
  using in_span [of a n 0 n x] by simp

lemma mini_code: "holds (cpu_mem mini_start) (cpu_pc mini_start) (cpu_state_dump 0x3000 0x2000 False)"
  unfolding mini_start_def cpu.simps by (rule placed_holds) simp

lemma mini_apart: "span 0x2000 132 \<inter> span (cpu_pc mini_start) 262 = {}" "span 0x2000 132 \<inter> span 0x3000 64 = {}"
proof -
  show "span 0x2000 132 \<inter> span (cpu_pc mini_start) 262 = {}"
    using span_range [of "0x2000" 132] span_range [of "0x1000" 262] by (auto simp: mini_start_def) force
  show "span 0x2000 132 \<inter> span 0x3000 64 = {}"
    using span_range [of "0x2000" 132] span_range [of "0x3000" 64] by auto force
qed

lemma mini_state:
  "map (\<lambda>i. cpu_mem mini_start (0x3000 + of_nat i)) [0..<64] = replicate 64 5"
  "map (cpu_d mini_start) [0..<8] = [1, 2, 3, 4, 5, 6, 7, 8]" "map (cpu_a mini_start) [0..<8] = [0, 2, 4, 6, 8, 10, 12, 14]"
proof -
  have far: "placed 0x1000 (cpu_state_dump 0x3000 0x2000 False) (0x3000 + of_nat i) = 5" if "i < 64" for i
  proof -
    have small: "unat (of_nat k :: u32) = k" if "k < 2 ^ 32" for k
      using that by (simp add: unsigned_of_nat take_bit_nat_eq_self)
    have "0x3000 + of_nat i - 0x1000 = (of_nat (0x2000 + i) :: u32)" by simp
    moreover have "unat (of_nat (0x2000 + i) :: u32) = 0x2000 + i" by (rule small) (use that in simp)
    ultimately have "unat (0x3000 + of_nat i - 0x1000 :: u32) = 0x2000 + i" by (simp only:)
    then show ?thesis by (simp add: placed_def)
  qed
  show "map (\<lambda>i. cpu_mem mini_start (0x3000 + of_nat i)) [0..<64] = replicate 64 5"
    using far by (intro nth_equalityI) (simp_all add: mini_start_def)
  show "map (cpu_d mini_start) [0..<8] = [1, 2, 3, 4, 5, 6, 7, 8]" "map (cpu_a mini_start) [0..<8] = [0, 2, 4, 6, 8, 10, 12, 14]"
    by (simp_all add: mini_start_def upt_rec)
qed

theorem dump_records_state_witness:
  "\<exists>k. cpu_pc ((mini_step ^^ k) mini_start) = 0x1106 \<and>
    snapshot_at 0x2000 (cpu_mem ((mini_step ^^ k) mini_start)) =
      \<lparr>sn_d = [1, 2, 3, 4, 5, 6, 7, 8], sn_a = [0, 2, 4, 6, 8, 10, 12, 14], sn_ccr = 0x15, sn_ram = replicate 64 5\<rparr>"
proof -
  have "unat (0x2000 :: u32) + 132 < 2 ^ 32" by simp
  from dump_records_state [OF mini_moves mini_code this mini_apart] show ?thesis
    unfolding mini_state by (simp add: mini_start_def)
qed

end
