(* ===== verification/SuperBench.thy ===== *)
theory SuperBench
  imports TestPrograms
begin

text \<open>
  The processor benches that boot on the Macintosh (\<open>preboot/supervisor_bench\<close>): for every test of the
  corpus the program is assembled into memory, run behind the exception handlers of \<open>recovery.s\<close>,
  counted, shown, and logged as one line of JSON. The three benches (processor, coprocessor, both
  together) share their display and their ending. The assembly is an argument: the installation of
  the vectors, and the call of a program at an address, which gives the exception vector or 0 (the
  instruction-cache flush and the masking of interrupts around it belong to it).
\<close>

section \<open>Text\<close>

definition format_decimal :: "u32 \<Rightarrow> nat \<Rightarrow> bytes" where
  "format_decimal v width = (let ds = f_putul v in replicate (width - length ds) 32 @ ds)"

definition hex_char :: "u32 \<Rightarrow> u8" where
  "hex_char v = lit ''0123456789ABCDEF'' ! unat (v AND 0xF)"

definition format_hex32 :: "u32 \<Rightarrow> bytes" where
  "format_hex32 v = map (\<lambda>i. hex_char (drop_bit (4 * (7 - i)) v)) [0..<8]"

definition quoted :: "bytes \<Rightarrow> bytes" where
  "quoted name = [34] @ concat (map (\<lambda>c. if c = 34 \<or> c = 92 then [92, c] else [c]) name) @ [34]"

text \<open>Numbers with commas between them.\<close>

fun commas :: "bytes list \<Rightarrow> bytes" where
  "commas [] = []"
| "commas [x] = x"
| "commas (x # y # ys) = x @ [44] @ commas (y # ys)"

definition numbers :: "u32 list \<Rightarrow> bytes" where
  "numbers vs = commas (map f_putul vs)"

definition long_text :: "u32 \<Rightarrow> bytes" where
  "long_text v = (if v <s 0 then [45] @ f_putul (- v) else f_putul v)"

definition snap_json :: "Snapshot \<Rightarrow> u32 \<Rightarrow> bytes" where
  "snap_json s pc =
    lit ''{\"d\":['' @ numbers (sn_d s) @ lit ''],\"a\":['' @ numbers (sn_a s) @ lit ''],\"ccr\":'' @ f_putul (ucast (sn_ccr s)) @
    lit '',\"pc\":'' @ f_putul pc @ lit '',\"ram\":['' @ numbers (map ucast (sn_ram s)) @ lit '']}''"

definition cpu_line :: "bytes \<Rightarrow> u32 \<Rightarrow> Snapshot \<Rightarrow> u32 \<Rightarrow> bytes" where
  "cpu_line name vec s pc =
    lit ''{\"name\":'' @ quoted name @ lit '',\"vec\":'' @ f_putul vec @
    (if vec \<noteq> 0 then lit '',\"trap_state\":'' else lit '',\"final\":'') @ snap_json s pc @ lit ''}'' @ [10]"

section \<open>The coprocessor's snapshot\<close>

record FpuSnapshot =
  fs_fp :: "bytes list"
  fs_d :: "u32 list"
  fs_a :: "u32 list"
  fs_fpcr :: u32
  fs_fpsr :: u32
  fs_fpiar :: u32

definition fpu_snapshot_at :: "u32 \<Rightarrow> ram \<Rightarrow> FpuSnapshot" where
  "fpu_snapshot_at base f =
    \<lparr>fs_fp = map (\<lambda>i. map (\<lambda>j. f (base + of_nat (12 * i + j))) [0..<12]) [0..<8],
     fs_d = map (\<lambda>n. long_at (base + 0x60 + of_nat n * 4) f) [0..<8], fs_a = map (\<lambda>n. long_at (base + 0x80 + of_nat n * 4) f) [0..<8],
     fs_fpcr = long_at (base + 0xA0) f, fs_fpsr = long_at (base + 0xA4) f, fs_fpiar = long_at (base + 0xA8) f\<rparr>"

definition fpu_snap_json :: "FpuSnapshot \<Rightarrow> bytes" where
  "fpu_snap_json s =
    lit ''{\"d\":['' @ numbers (fs_d s) @ lit ''],\"a\":['' @ numbers (fs_a s) @ lit ''],\"fp\":['' @
    commas (map (\<lambda>r. [91] @ numbers (map ucast r) @ [93]) (fs_fp s)) @ lit ''],\"fpcr\":'' @ f_putul (fs_fpcr s) @
    lit '',\"fpsr\":'' @ f_putul (fs_fpsr s) @ lit '',\"fpiar\":'' @ f_putul (fs_fpiar s) @ [125]"

definition fpu_line :: "bytes \<Rightarrow> u32 \<Rightarrow> FpuSnapshot \<Rightarrow> bytes" where
  "fpu_line name vec s =
    lit ''{\"name\":'' @ quoted name @ lit '',\"vec\":'' @ f_putul vec @
    (if vec \<noteq> 0 then lit '',\"trap_state\":'' else lit '',\"final\":'') @ fpu_snap_json s @ lit ''}'' @ [10]"

definition both_line :: "CpuFpuTestSpec \<Rightarrow> u32 \<Rightarrow> u32 \<Rightarrow> bool \<Rightarrow> bytes" where
  "both_line t actual vec pass =
    lit ''{\"name\":'' @ quoted (cf_name t) @ lit '',\"op_a\":'' @ long_text (cf_op_a t) @
    lit '',\"result_reg\":'' @ f_putul (of_nat (cf_result_reg t)) @ lit '',\"expected\":'' @ long_text (cf_expected t) @
    lit '',\"actual\":'' @ long_text actual @ lit '',\"vec\":'' @ f_putul vec @ lit '',\"pass\":'' @ f_putul (if pass then 1 else 0) @
    lit ''}'' @ [10]"

section \<open>The state of a bench\<close>

record 'w bench_asm =
  install_vbr :: "'w \<Rightarrow> 'w"
  invoke_test :: "u32 \<Rightarrow> 'w \<Rightarrow> 'w \<times> u32"

record bench_cfg =
  bc_refnum :: u16
  bc_drive :: u16
  bc_results :: u32
  bc_max :: u32

record 'w bench =
  be_w :: 'w
  be_shown :: "paint list"
  be_jw :: JsonlWriter
  n_run :: u32
  n_ok :: u32
  n_bad :: u32
  n_trap :: u32

definition be_paint :: "u32 \<Rightarrow> u32 \<Rightarrow> bytes \<Rightarrow> nat \<Rightarrow> 'w bench \<Rightarrow> 'w bench" where
  "be_paint row col t n s = s\<lparr>be_shown := be_shown s @ [Paint row col t n]\<rparr>"

definition be_wipe :: "'w bench \<Rightarrow> 'w bench" where
  "be_wipe s = s\<lparr>be_shown := be_shown s @ [Wipe]\<rparr>"

definition be_ram :: "'w mac \<Rightarrow> (ram \<Rightarrow> ram) \<Rightarrow> 'w bench \<Rightarrow> 'w bench" where
  "be_ram m h s = s\<lparr>be_w := set_ram m (h (ram_of m (be_w s))) (be_w s)\<rparr>"

definition be_log :: "'w jw_io \<Rightarrow> bytes \<Rightarrow> 'w bench \<Rightarrow> 'w bench" where
  "be_log io line s = (let (jw, w) = jw_puts io line (be_jw s, be_w s) in s\<lparr>be_jw := jw, be_w := w\<rparr>)"

definition be_commit :: "'w jw_io \<Rightarrow> 'w bench \<Rightarrow> 'w bench" where
  "be_commit io s = (let (jw, w) = jw_commit_line io (be_jw s, be_w s) in s\<lparr>be_jw := jw, be_w := w\<rparr>)"

definition bench_start :: "'w bench_asm \<Rightarrow> bench_cfg \<Rightarrow> 'w \<Rightarrow> 'w bench" where
  "bench_start A c w =
    \<lparr>be_w = install_vbr A w, be_shown = [], be_jw = jw_init \<lparr>jc_refnum = bc_refnum c, jc_drive = bc_drive c, jc_base_offset = bc_results c, jc_max_bytes = bc_max c\<rparr>,
     n_run = 0, n_ok = 0, n_bad = 0, n_trap = 0\<rparr>"

definition paint_banner :: "string \<Rightarrow> nat \<Rightarrow> 'w bench \<Rightarrow> 'w bench" where
  "paint_banner title n s =
    be_paint 16 14 (lit '': '') 2 (be_paint 16 4 (lit ''Test '') 5 (be_paint 4 4 (lit title) n (be_wipe s)))"

text \<open>The head of a test: its number and its name; \<open>n_run\<close> counts it.\<close>

definition paint_test :: "nat \<Rightarrow> bytes \<Rightarrow> 'w bench \<Rightarrow> 'w bench" where
  "paint_test idx name s =
    be_paint 16 16 name 60 (be_paint 16 9 (format_decimal (of_nat idx + 1) 4) 4 (s\<lparr>n_run := n_run s + 1\<rparr>))"

definition count_result :: "u32 \<Rightarrow> 'w bench \<Rightarrow> 'w bench" where
  "count_result vec s = (if vec \<noteq> 0 then s\<lparr>n_trap := n_trap s + 1\<rparr> else s\<lparr>n_ok := n_ok s + 1\<rparr>)"

definition paint_count :: "u32 \<Rightarrow> string \<Rightarrow> u32 \<Rightarrow> 'w bench \<Rightarrow> 'w bench" where
  "paint_count col label v s =
    be_paint 28 (col + of_nat (length label)) (format_decimal v 4) 4 (be_paint 28 col (lit label) (length label) s)"

definition paint_tally :: "u32 \<Rightarrow> 'w bench \<Rightarrow> 'w bench" where
  "paint_tally vec s =
    (let s = paint_count 4 ''run='' (n_run s) s; s = paint_count 14 ''ok='' (n_ok s) s; s = paint_count 24 ''trap='' (n_trap s) s
     in be_paint 28 44 (drop 6 (format_hex32 vec)) 2 (be_paint 28 36 (lit ''lastvec='') 8 s))"

text \<open>The ending: the log is flushed, the writer's error shown, and a floppy ejected. The last vector set of the
  handlers is stale by then, so an exception in the eject call has no result.\<close>

definition finish_bench :: "'w mac \<Rightarrow> bench_cfg \<Rightarrow> 'w jw_io \<Rightarrow> 'w bench \<Rightarrow> 'w bench option" where
  "finish_bench m c io s =
    (let (jw, w) = jw_flush io (be_jw s, be_w s);
         s = s\<lparr>be_jw := jw, be_w := w\<rparr>;
         s = be_paint 28 4 (lit ''ioResult='') 9 s;
         s = be_paint 28 13 (drop 4 (format_hex32 (ucast (jw_last_err jw)))) 4 s;
         s = be_paint 52 4 (lit ''Power off and extract /Results.jsonl'') 40 s
     in if bc_drive c = 1 \<or> bc_drive c = 2
        then
          (case eject_floppy m (bc_drive c) (be_w s, be_shown s) of
             (g, Inl v) \<Rightarrow> None
           | (g, Inr ej) \<Rightarrow>
             (let s = be_paint 76 4 (lit ''EJECT drv='') 10 (s\<lparr>be_w := fst g, be_shown := snd g\<rparr>);
                  s = be_paint 76 14 (format_decimal (scast (bc_drive c)) 1) 1 s;
                  s = be_paint 76 16 (lit ''res='') 4 s
              in Some (be_paint 76 20 (drop 4 (format_hex32 (ucast ej))) 4 s)))
        else Some s)"

definition bench_loop :: "(nat \<Rightarrow> 't \<Rightarrow> 's \<Rightarrow> 's) \<Rightarrow> 't list \<Rightarrow> 's \<Rightarrow> 's" where
  "bench_loop step ts s = fold (\<lambda>(i, t). step i t) (enumerate 0 ts) s"

section \<open>The processor bench\<close>

definition cpu_prepare :: "layout \<Rightarrow> CpuTestSpec \<Rightarrow> ram \<Rightarrow> ram" where
  "cpu_prepare L t f =
    (let f = f_memset (scratch_at L) 0 64 (f_memset (final_at L) 0 132 (f_memset (init_at L) 0 132 f));
         f = (if ct_ram_init_present t then store (scratch_at L) (take 64 (ct_ram_init t)) f else f)
     in store (prog_at L) (pg_bytes (cpu_build_program L t)) f)"

definition cpu_bench_step ::
  "'w mac \<Rightarrow> 'w bench_asm \<Rightarrow> 'w jw_io \<Rightarrow> layout \<Rightarrow> nat \<Rightarrow> CpuTestSpec \<Rightarrow> 'w bench \<Rightarrow> 'w bench" where
  "cpu_bench_step m A io L idx t s =
    (if ct_hw_unsafe t then s
     else
       (let s = be_ram m (cpu_prepare L t) (paint_test idx (ct_name t) s);
            p = cpu_build_program L t;
            (w, vec) = invoke_test A (prog_at L) (be_w s);
            snap = snapshot_at (if vec \<noteq> 0 then init_at L else final_at L) (ram_of m w);
            pc = prog_at L + of_nat (if vec \<noteq> 0 then pg_test_off p else pg_final_off p);
            s = paint_tally vec (count_result vec (s\<lparr>be_w := w\<rparr>))
        in be_log io (cpu_line (ct_name t) vec snap pc) s))"

definition cpu_bench_main ::
  "'w mac \<Rightarrow> 'w bench_asm \<Rightarrow> 'w jw_io \<Rightarrow> layout \<Rightarrow> bench_cfg \<Rightarrow> CpuTestSpec list \<Rightarrow> 'w \<Rightarrow> 'w bench option" where
  "cpu_bench_main m A io L c ts w =
    (let s = paint_banner ''SUPERVISOR CPU BENCH - full corpus'' 40 (bench_start A c w);
         s = be_wipe (bench_loop (cpu_bench_step m A io L) ts s)
     in finish_bench m c io (be_paint 4 4 (lit ''ALL TESTS DONE - writing results...'') 40 s))"

section \<open>The coprocessor bench\<close>

definition fpu_prepare :: "layout \<Rightarrow> FpuTestSpec \<Rightarrow> ram \<Rightarrow> ram" where
  "fpu_prepare L t f =
    store (prog_at L) (pg_bytes (fpu_build_program L t)) (f_memset (final_at L) 0 172 (f_memset (init_at L) 0 172 f))"

definition fpu_bench_step ::
  "'w mac \<Rightarrow> 'w bench_asm \<Rightarrow> 'w jw_io \<Rightarrow> layout \<Rightarrow> nat \<Rightarrow> FpuTestSpec \<Rightarrow> 'w bench \<Rightarrow> 'w bench" where
  "fpu_bench_step m A io L idx t s =
    (let s = be_ram m (fpu_prepare L t) (paint_test idx (ft_name t) s);
         (w, vec) = invoke_test A (prog_at L) (be_w s);
         snap = fpu_snapshot_at (if vec \<noteq> 0 then init_at L else final_at L) (ram_of m w);
         s = paint_tally vec (count_result vec (s\<lparr>be_w := w\<rparr>))
     in be_log io (fpu_line (ft_name t) vec snap) s)"

definition fpu_bench_main ::
  "'w mac \<Rightarrow> 'w bench_asm \<Rightarrow> 'w jw_io \<Rightarrow> layout \<Rightarrow> bench_cfg \<Rightarrow> FpuTestSpec list \<Rightarrow> 'w \<Rightarrow> 'w bench option" where
  "fpu_bench_main m A io L c ts w =
    (let s = paint_banner ''SUPERVISOR FPU BENCH - full corpus'' 40 (bench_start A c w);
         s = be_wipe (bench_loop (fpu_bench_step m A io L) ts s)
     in finish_bench m c io (be_paint 4 4 (lit ''ALL FPU TESTS DONE - writing results...'') 45 s))"

section \<open>The integration bench\<close>

definition both_prepare :: "layout \<Rightarrow> CpuFpuTestSpec \<Rightarrow> ram \<Rightarrow> ram" where
  "both_prepare L t f =
    store (prog_at L) (pg_bytes (cpu_fpu_build_program L t)) (f_memset (scratch_at L) 0 64 (f_memset (final_at L) 0 64 f))"

definition count_verdict :: "u32 \<Rightarrow> bool \<Rightarrow> 'w bench \<Rightarrow> 'w bench" where
  "count_verdict vec pass s =
    (let s = (if vec \<noteq> 0 then s\<lparr>n_trap := n_trap s + 1\<rparr> else s)
     in if pass then s\<lparr>n_ok := n_ok s + 1\<rparr> else if vec = 0 then s\<lparr>n_bad := n_bad s + 1\<rparr> else s)"

definition paint_verdicts :: "'w bench \<Rightarrow> 'w bench" where
  "paint_verdicts s =
    (let s = paint_count 4 ''run='' (n_run s) s; s = paint_count 14 ''ok='' (n_ok s) s; s = paint_count 24 ''bad='' (n_bad s) s
     in paint_count 35 ''trap='' (n_trap s) s)"

definition both_bench_step ::
  "'w mac \<Rightarrow> 'w bench_asm \<Rightarrow> 'w jw_io \<Rightarrow> layout \<Rightarrow> nat \<Rightarrow> CpuFpuTestSpec \<Rightarrow> 'w bench \<Rightarrow> 'w bench" where
  "both_bench_step m A io L idx t s =
    (let s = be_ram m (both_prepare L t) (paint_test idx (cf_name t) s);
         (w, vec) = invoke_test A (prog_at L) (be_w s);
         actual = long_at (final_at L + of_nat (cf_result_reg t) * 4) (ram_of m w);
         pass = (vec = 0 \<and> actual = cf_expected t);
         s = paint_verdicts (count_verdict vec pass (s\<lparr>be_w := w\<rparr>))
     in be_commit io (be_log io (both_line t actual vec pass) s))"

definition both_bench_main ::
  "'w mac \<Rightarrow> 'w bench_asm \<Rightarrow> 'w jw_io \<Rightarrow> layout \<Rightarrow> bench_cfg \<Rightarrow> CpuFpuTestSpec list \<Rightarrow> 'w \<Rightarrow> 'w bench option" where
  "both_bench_main m A io L c ts w =
    (let s = paint_banner ''SUPERVISOR CPU/FPU BENCH - full corpus'' 45 (bench_start A c w);
         s = be_wipe (bench_loop (both_bench_step m A io L) ts s);
         s = be_paint 4 4 (lit ''ALL CPU/FPU TESTS DONE - writing results...'') 50 s;
         s = be_paint 16 11 (format_decimal (n_ok s) 4) 4 (be_paint 16 4 (lit ''passed='') 7 s);
         s = be_paint 16 21 (format_decimal (n_run s) 4) 4 (be_paint 16 18 (lit ''of '') 3 s)
     in finish_bench m c io s)"

section \<open>The screen\<close>

text \<open>What a wipe does to the memory, as \<open>wipe_screen\<close>, and the memory after the recorded calls.\<close>

definition wipe_screen :: "ram \<Rightarrow> ram" where
  "wipe_screen f =
    (let fb = long_at 0x0824 f
     in if fb < 0x00100000 then f else fold (\<lambda>i f. store (fb + of_nat i * 4) (be32 0xFFFFFFFF) f) [0..<9600] f)"

definition paint_effect :: "u32 \<Rightarrow> paint \<Rightarrow> ram \<Rightarrow> ram" where
  "paint_effect rb p f = (case p of Paint row col t n \<Rightarrow> paint_string rb row col t n f | Wipe \<Rightarrow> wipe_screen f)"

lemma be32_ones: "be32 0xFFFFFFFF = replicate 4 0xFF"
  by code_simp

lemma wipe_steps:
  assumes "unat fb + 4 * n \<le> 2 ^ 32"
  shows "fold (\<lambda>i f. store (fb + of_nat i * 4) (be32 0xFFFFFFFF) f) [0..<n] f a =
    (if unat fb \<le> unat a \<and> unat a < unat fb + 4 * n then 0xFF else f a)"
  using assms
proof (induction n arbitrary: f)
  case (Suc n)
  have "unat (fb + of_nat (4 * n)) = unat fb + 4 * n" using Suc.prems by (intro unat_plus) simp
  then have u: "unat (fb + of_nat n * 4) = unat fb + 4 * n" by (simp add: mult.commute)
  have "fold (\<lambda>i f. store (fb + of_nat i * 4) (be32 0xFFFFFFFF) f) [0..<Suc n] f a =
    store (fb + of_nat n * 4) (be32 0xFFFFFFFF) (fold (\<lambda>i f. store (fb + of_nat i * 4) (be32 0xFFFFFFFF) f) [0..<n] f) a"
    by simp
  also have "\<dots> = (if unat fb \<le> unat a \<and> unat a < unat fb + 4 * Suc n then 0xFF else f a)"
    using Suc.IH [of f] Suc.prems unfolding store_def [of "fb + of_nat n * 4"] u be32_ones by auto
  finally show ?case .
qed auto

lemma wiped:
  assumes "0x00100000 \<le> long_at 0x0824 f" "unat (long_at 0x0824 f) + 38400 \<le> 2 ^ 32"
  shows "wipe_screen f a =
    (if unat (long_at 0x0824 f) \<le> unat a \<and> unat a < unat (long_at 0x0824 f) + 38400 then 0xFF else f a)"
  using assms wipe_steps [of "long_at 0x0824 f" 9600 f a] by (simp add: wipe_screen_def not_less [symmetric])

section \<open>Counting\<close>

text \<open>Each bench counts every test it runs once as run and once under one outcome.\<close>

locale counted_bench =
  fixes bench_step :: "nat \<Rightarrow> 't \<Rightarrow> 's \<Rightarrow> 's" and runs :: "'t \<Rightarrow> bool" and total :: "'s \<Rightarrow> u32" and outcomes :: "'s \<Rightarrow> u32"
  assumes step_total: "total (bench_step i t s) = total s + (if runs t then 1 else 0)"
    and step_outcomes: "outcomes (bench_step i t s) = outcomes s + (if runs t then 1 else 0)"
begin

lemma fold_counts:
  "total (fold (\<lambda>(i, t). bench_step i t) its s) = total s + of_nat (length (filter (runs \<circ> snd) its)) \<and>
   outcomes (fold (\<lambda>(i, t). bench_step i t) its s) = outcomes s + of_nat (length (filter (runs \<circ> snd) its))"
proof (induction its arbitrary: s)
  case (Cons it its)
  obtain i t where it: "it = (i, t)" by fastforce
  show ?case using Cons.IH [of "bench_step i t s"] by (simp add: it step_total step_outcomes)
qed simp

lemma loop_counts:
  "total (bench_loop bench_step ts s) = total s + of_nat (length (filter runs ts))"
  "outcomes (bench_loop bench_step ts s) = outcomes s + of_nat (length (filter runs ts))"
proof -
  have "length (filter (runs \<circ> snd) (enumerate n ts)) = length (filter runs ts)" for n
    by (induction ts arbitrary: n) auto
  then show "total (bench_loop bench_step ts s) = total s + of_nat (length (filter runs ts))"
    "outcomes (bench_loop bench_step ts s) = outcomes s + of_nat (length (filter runs ts))"
    using fold_counts [of "enumerate 0 ts" s] by (simp_all add: bench_loop_def)
qed

end

lemma be_counts [simp]:
  "n_run (be_paint r c t k s) = n_run s" "n_ok (be_paint r c t k s) = n_ok s" "n_bad (be_paint r c t k s) = n_bad s" "n_trap (be_paint r c t k s) = n_trap s"
  "n_run (be_ram m h s) = n_run s" "n_ok (be_ram m h s) = n_ok s" "n_bad (be_ram m h s) = n_bad s" "n_trap (be_ram m h s) = n_trap s"
  "n_run (be_log io l s) = n_run s" "n_ok (be_log io l s) = n_ok s" "n_bad (be_log io l s) = n_bad s" "n_trap (be_log io l s) = n_trap s"
  "n_run (be_commit io s) = n_run s" "n_ok (be_commit io s) = n_ok s" "n_bad (be_commit io s) = n_bad s" "n_trap (be_commit io s) = n_trap s"
  "n_run (be_wipe s) = n_run s" "n_ok (be_wipe s) = n_ok s" "n_bad (be_wipe s) = n_bad s" "n_trap (be_wipe s) = n_trap s"
  by (simp_all add: be_paint_def be_ram_def be_log_def be_commit_def be_wipe_def split: prod.splits)

lemma paint_counts [simp]:
  "n_run (paint_count c l v s) = n_run s" "n_ok (paint_count c l v s) = n_ok s" "n_bad (paint_count c l v s) = n_bad s" "n_trap (paint_count c l v s) = n_trap s"
  "n_run (paint_tally vec s) = n_run s" "n_ok (paint_tally vec s) = n_ok s" "n_bad (paint_tally vec s) = n_bad s" "n_trap (paint_tally vec s) = n_trap s"
  "n_run (paint_verdicts s) = n_run s" "n_ok (paint_verdicts s) = n_ok s" "n_bad (paint_verdicts s) = n_bad s" "n_trap (paint_verdicts s) = n_trap s"
  "n_run (paint_test i nm s) = n_run s + 1" "n_ok (paint_test i nm s) = n_ok s" "n_bad (paint_test i nm s) = n_bad s" "n_trap (paint_test i nm s) = n_trap s"
  "n_run (paint_banner b k s) = n_run s" "n_ok (paint_banner b k s) = n_ok s" "n_bad (paint_banner b k s) = n_bad s" "n_trap (paint_banner b k s) = n_trap s"
  by (simp_all add: paint_count_def paint_tally_def paint_verdicts_def paint_test_def paint_banner_def)

lemma finish_counts:
  "finish_bench m c io s = Some s' \<Longrightarrow> n_run s' = n_run s \<and> n_ok s' = n_ok s \<and> n_bad s' = n_bad s \<and> n_trap s' = n_trap s"
  by (auto simp: finish_bench_def Let_def split: prod.splits if_splits sum.splits)

interpretation cpu_bench: counted_bench "cpu_bench_step m A io L" "\<lambda>t. \<not> ct_hw_unsafe t" n_run "\<lambda>s. n_ok s + n_trap s"
  by unfold_locales (simp_all add: cpu_bench_step_def count_result_def Let_def split: prod.splits)

interpretation fpu_bench: counted_bench "fpu_bench_step m A io L" "\<lambda>t. True" n_run "\<lambda>s. n_ok s + n_trap s"
  by unfold_locales (simp_all add: fpu_bench_step_def count_result_def Let_def split: prod.splits)

interpretation both_bench: counted_bench "both_bench_step m A io L" "\<lambda>t. True" n_run "\<lambda>s. n_ok s + n_bad s + n_trap s"
  by unfold_locales (simp_all add: both_bench_step_def count_verdict_def Let_def split: prod.splits)

text \<open>The tallies of the three benches are complete: whatever the tests do, at the end the number of tests run is that
  of the corpus (without those unsafe on the hardware, for the processor bench), and it is the sum of the
  outcomes shown next to it (passed, failed, trapped).\<close>

theorem bench_tallies:
  "(\<forall>s. cpu_bench_main m A io L c ts w = Some s \<longrightarrow>
      n_run s = of_nat (length (filter (\<lambda>t. \<not> ct_hw_unsafe t) ts)) \<and> n_run s = n_ok s + n_trap s) \<and>
   (\<forall>s. fpu_bench_main m A io L c fs w = Some s \<longrightarrow> n_run s = of_nat (length fs) \<and> n_run s = n_ok s + n_trap s) \<and>
   (\<forall>s. both_bench_main m A io L c bs w = Some s \<longrightarrow> n_run s = of_nat (length bs) \<and> n_run s = n_ok s + n_bad s + n_trap s)"
proof (intro conjI allI impI)
  fix s assume "cpu_bench_main m A io L c ts w = Some s"
  then show "n_run s = of_nat (length (filter (\<lambda>t. \<not> ct_hw_unsafe t) ts))" "n_run s = n_ok s + n_trap s"
    using cpu_bench.loop_counts [of m A io L ts] by (auto simp: cpu_bench_main_def Let_def bench_start_def dest!: finish_counts)
next
  fix s assume "fpu_bench_main m A io L c fs w = Some s"
  then show "n_run s = of_nat (length fs)" "n_run s = n_ok s + n_trap s"
    using fpu_bench.loop_counts [of m A io L fs] by (auto simp: fpu_bench_main_def Let_def bench_start_def dest!: finish_counts)
next
  fix s assume "both_bench_main m A io L c bs w = Some s"
  then show "n_run s = of_nat (length bs)" "n_run s = n_ok s + n_bad s + n_trap s"
    using both_bench.loop_counts [of m A io L bs] by (auto simp: both_bench_main_def Let_def bench_start_def dest!: finish_counts)
qed

text \<open>The memory alone as a machine, and programs that do nothing.\<close>

definition ram_mac :: "ram mac" where
  "ram_mac = \<lparr>dev_trap = (\<lambda>t pb w. (w, Inr 0)), rd8 = (\<lambda>a w. (w, w a)), wr8 = (\<lambda>a v w. w(a := v)), ram_of = (\<lambda>w. w),
     set_ram = (\<lambda>f w. f), bus_fault = (\<lambda>a w. None)\<rparr>"

definition zero_asm :: "ram bench_asm" where
  "zero_asm = \<lparr>install_vbr = (\<lambda>w. w), invoke_test = (\<lambda>e w. (w, 0))\<rparr>"

theorem bench_tallies_witness:
  "\<exists>s. both_bench_main ram_mac zero_asm (\<lambda>r d off bs w. (w, 0)) \<lparr>prog_at = 0x1000, init_at = 0x4000, final_at = 0x2000, scratch_at = 0x3000, saved_at = 0x5000\<rparr> \<lparr>bc_refnum = 0, bc_drive = 0, bc_results = 0, bc_max = 32768\<rparr>
     [\<lparr>cf_name = [65], cf_op_a = 1, cf_program = [], cf_result_reg = 0, cf_expected = 1\<rparr>] (\<lambda>a. 0) = Some s \<and>
     n_run s = 1 \<and> n_ok s + n_bad s + n_trap s = 1"
proof -
  let ?io = "\<lambda>r d off bs w. (w, 0)" and ?c = "\<lparr>bc_refnum = 0, bc_drive = 0, bc_results = 0, bc_max = 32768\<rparr>"
    and ?L = "\<lparr>prog_at = 0x1000, init_at = 0x4000, final_at = 0x2000, scratch_at = 0x3000, saved_at = 0x5000\<rparr>"
    and ?ts = "[\<lparr>cf_name = [65], cf_op_a = 1, cf_program = [], cf_result_reg = 0, cf_expected = 1\<rparr>]"
  obtain s where s: "both_bench_main ram_mac zero_asm ?io ?L ?c ?ts (\<lambda>a. 0) = Some s"
    by (fastforce simp: both_bench_main_def finish_bench_def Let_def split: prod.splits)
  have h: "n_run s = of_nat (length ?ts) \<and> n_run s = n_ok s + n_bad s + n_trap s"
    by (rule bench_tallies [THEN conjunct2, THEN conjunct2, rule_format, OF s])
  then have "n_run s = 1" "n_ok s + n_bad s + n_trap s = n_run s" using h [THEN conjunct2, symmetric] by simp_all
  then show ?thesis using s by simp
qed

section \<open>The log can be read back\<close>

definition is_digit :: "u8 \<Rightarrow> bool" where
  "is_digit b \<longleftrightarrow> 48 \<le> unat b \<and> unat b \<le> 57"

definition take_number :: "bytes \<Rightarrow> nat \<times> bytes" where
  "take_number bs = (dec_value (takeWhile is_digit bs), dropWhile is_digit bs)"

fun take_numbers :: "nat \<Rightarrow> bytes \<Rightarrow> nat list \<times> bytes" where
  "take_numbers 0 bs = ([], bs)"
| "take_numbers (Suc n) bs =
    (let (v, bs) = take_number bs; (vs, bs) = take_numbers n (if n = 0 then bs else tl bs) in (v # vs, bs))"

fun unquote :: "bytes \<Rightarrow> bytes \<times> bytes" where
  "unquote [] = ([], [])"
| "unquote (c # bs) =
    (if c = 34 then ([], bs)
     else if c = 92 then (case bs of [] \<Rightarrow> ([], []) | d # ds \<Rightarrow> (let (name, rest) = unquote ds in (d # name, rest)))
     else (let (name, rest) = unquote bs in (c # name, rest)))"

text \<open>A reader of the lines of the processor bench, as the comparison tool sees them.\<close>

record line_view =
  lv_name :: bytes
  lv_vec :: nat
  lv_d :: "nat list"
  lv_a :: "nat list"
  lv_ccr :: nat
  lv_pc :: nat
  lv_ram :: "nat list"

definition read_cpu_line :: "bytes \<Rightarrow> line_view" where
  "read_cpu_line bs =
    (let (name, bs) = unquote (drop 9 bs);
         (vec, bs) = take_number (drop 7 bs);
         (d, bs) = take_numbers 8 (drop (if vec \<noteq> 0 then 20 else 15) bs);
         (a, bs) = take_numbers 8 (drop 7 bs);
         (ccr, bs) = take_number (drop 8 bs);
         (pc, bs) = take_number (drop 6 bs);
         (mem, bs) = take_numbers 64 (drop 8 bs)
     in \<lparr>lv_name = name, lv_vec = vec, lv_d = d, lv_a = a, lv_ccr = ccr, lv_pc = pc, lv_ram = mem\<rparr>)"

lemma putul_digit: "list_all is_digit (f_putul v)" "dec_value (f_putul v) = unat v"
proof -
  show "dec_value (f_putul v) = unat v"
    using putul_digits_value [of v] by (auto simp: f_putul_def dec_value_def)
  show "list_all is_digit (f_putul v)"
    by (auto simp: f_putul_def list_all_iff is_digit_def dest: putul_digits_range)
qed

lemma take_number_put: "\<not> is_digit c \<Longrightarrow> take_number (f_putul v @ c # rest) = (unat v, c # rest)"
proof -
  assume "\<not> is_digit c"
  moreover have "\<forall>b\<in>set (f_putul v). is_digit b" using putul_digit(1) [of v] by (simp add: list_all_iff)
  ultimately show ?thesis by (simp add: take_number_def takeWhile_append dropWhile_append putul_digit)
qed

lemma numbers_Cons: "numbers (v # vs) = f_putul v @ (if vs = [] then [] else 44 # numbers vs)"
  by (cases vs) (simp_all add: numbers_def)

lemma digit_codes [simp]: "\<not> is_digit 44" "\<not> is_digit 93" "\<not> is_digit 125"
  by (simp_all add: is_digit_def)

lemma take_numbers_put: "vs \<noteq> [] \<Longrightarrow> take_numbers (length vs) (numbers vs @ 93 # rest) = (map unat vs, 93 # rest)"
proof (induction vs)
  case (Cons v vs)
  show ?case
  proof (cases "vs = []")
    case True
    then show ?thesis by (simp add: numbers_Cons take_number_put)
  next
    case False
    then show ?thesis using Cons.IH by (simp add: numbers_Cons take_number_put)
  qed
qed simp

lemma unquote_name: "unquote (concat (map (\<lambda>c. if c = 34 \<or> c = 92 then [92, c] else [c]) name) @ 34 # rest) = (name, rest)"
  by (induction name) auto

lemma byte_wide: "unat (ucast (x :: u8) :: u32) = unat x"
proof -
  have "unat x < 2 ^ 8" using unsigned_less [of x] by simp
  then show ?thesis by (simp add: unsigned_ucast_eq take_bit_nat_eq_self)
qed

lemma lit_Cons: "lit (c # s) = of_char c # lit s" "lit [] = []"
  by (simp_all add: lit_def)

text \<open>C35: The log loses nothing: from a line of the processor bench's log, whatever the name of the test contains, its
  name, the vector, the eight data and address registers, the flags, the program counter and the 64 bytes
  of scratch memory can be read back.\<close>

theorem cpu_line_readable:
  "read_cpu_line (cpu_line name vec (snapshot_at base f) pc) =
    \<lparr>lv_name = name, lv_vec = unat vec, lv_d = map unat (sn_d (snapshot_at base f)), lv_a = map unat (sn_a (snapshot_at base f)),
     lv_ccr = unat (sn_ccr (snapshot_at base f)), lv_pc = unat pc, lv_ram = map unat (sn_ram (snapshot_at base f))\<rparr>"
proof -
  let ?s = "snapshot_at base f"
  have len: "length (sn_d ?s) = 8" "length (sn_a ?s) = 8" "length (sn_ram ?s) = 64" by (simp_all add: snapshot_at_def)
  have ne: "sn_d ?s \<noteq> []" "sn_a ?s \<noteq> []" "map ucast (sn_ram ?s) \<noteq> ([] :: u32 list)" using len by auto
  have rd: "take_numbers 8 (numbers (sn_d ?s) @ 93 # r) = (map unat (sn_d ?s), 93 # r)" for r
    using take_numbers_put [OF ne(1), of r] len by simp
  have ra: "take_numbers 8 (numbers (sn_a ?s) @ 93 # r) = (map unat (sn_a ?s), 93 # r)" for r
    using take_numbers_put [OF ne(2), of r] len by simp
  have rm: "take_numbers 64 (numbers (map ucast (sn_ram ?s)) @ 93 # r) = (map unat (sn_ram ?s), 93 # r)" for r
    using take_numbers_put [OF ne(3), of r] len by (simp add: comp_def byte_wide)
  have v: "(unat vec = 0) = (vec = 0)" by (simp add: unat_eq_zero)
  show ?thesis
    by (cases "vec = 0") (simp_all add: read_cpu_line_def cpu_line_def snap_json_def quoted_def lit_Cons unquote_name take_number_put rd ra rm v byte_wide)
qed

text \<open>A signed number in the log of the integration bench.\<close>

lemma sint_cases: "sint (v :: u32) = uint v - (if bit (uint v) 31 then 2 ^ 32 else 0)"
proof -
  have "take_bit 32 (uint v) = uint v" by (rule take_bit_int_eq_self) (use unsigned_less [of v, where ?'a = int] in simp_all)
  then show ?thesis by (simp add: sint_uint signed_take_bit_eq_take_bit_minus)
qed

lemma long_text_value:
  "(if 0 \<le> sint v then long_text v = f_putul v \<and> int (dec_value (f_putul v)) = sint v
    else long_text v = 45 # f_putul (- v) \<and> int (dec_value (f_putul (- v))) = - sint v)"
proof -
  have lt: "v <s 0 \<longleftrightarrow> sint v < 0" by (simp add: word_sless_alt)
  have big: "uint v < 2 ^ 32" using unsigned_less [of v, where ?'a = int] by simp
  show ?thesis
  proof (cases "0 \<le> sint v")
    case True
    then have "sint v = uint v" using big unfolding sint_cases by (auto split: if_splits)
    then show ?thesis using True lt by (simp add: long_text_def putul_digit)
  next
    case False
    then have s: "sint v = uint v - 2 ^ 32" unfolding sint_cases by (auto split: if_splits)
    have "v \<noteq> 0" using False by auto
    then have "uint v \<noteq> 0" by (simp add: unsigned_eq_0_iff)
    then have "0 < uint v" using unsigned_greater_eq [of v, where ?'a = int] by linarith
    then have "uint (- v) = 2 ^ 32 - uint v" using big by (simp add: uint_word_ariths zmod_zminus1_eq_if)
    then have "int (unat (- v)) = - sint v" using s by simp
    then show ?thesis using False lt by (simp add: long_text_def putul_digit)
  qed
qed

section \<open>What a line means\<close>

lemma front_length: "pg_final_off (cpu_build_program L t) = pg_test_off (cpu_build_program L t) + length (ct_test t)"
  by (simp add: cpu_build_program_def assemble_def)


text \<open>One test of two bytes whose call does what the small processor does.\<close>

definition mini_layout :: layout where
  "mini_layout = \<lparr>prog_at = 0xEC6, init_at = 0x4000, final_at = 0x2000, scratch_at = 0x3000, saved_at = 0x5000\<rparr>"

definition mini_test :: CpuTestSpec where
  "mini_test = \<lparr>ct_name = [78, 79, 80], ct_preload = [], ct_test = [0x4E, 0x71], ct_ram_init = replicate 64 1, ct_ram_init_present = True,
     ct_privileged = False, ct_raises_exception = False, ct_hw_unsafe = False\<rparr>"

definition mini_asm :: "ram bench_asm" where
  "mini_asm = \<lparr>install_vbr = (\<lambda>w. w), invoke_test = (\<lambda>e w. (cpu_mem ((mini_step ^^ 33) mini_start), 0))\<rparr>"


section \<open>The memory before a test\<close>

lemma cpu_program_short:
  assumes "length (ct_preload t) \<le> 30" "length (ct_test t) \<le> 18"
  shows "length (pg_bytes (cpu_build_program L t)) \<le> 1024"
  using assms by (simp add: cpu_build_program_def assemble_def emit_each_length [where k = 2])

lemma range_span: "unat a + n \<le> 2 ^ 32 \<Longrightarrow> x \<in> span a n \<longleftrightarrow> unat a \<le> unat x \<and> unat x < unat a + n"
proof
  assume b: "unat a + n \<le> 2 ^ 32" and "x \<in> span a n"
  then obtain i where "i < n" "x = a + of_nat i" by (auto simp: span_def)
  then show "unat a \<le> unat x \<and> unat x < unat a + n" using b unat_plus [of a i] by simp
next
  assume "unat a \<le> unat x \<and> unat x < unat a + n"
  then have "x = a + of_nat (unat x - unat a)" "unat x - unat a < n" by (simp add: of_nat_diff, linarith)
  then show "x \<in> span a n" unfolding span_def by blast
qed

lemma memset_span: "unat p + n \<le> 2 ^ 32 \<Longrightarrow> f_memset p c n f x = (if x \<in> span p n then c else f x)"
  by (simp add: f_memset_spec range_span)

lemma store_span: "unat p + length bs \<le> 2 ^ 32 \<Longrightarrow> x \<notin> span p (length bs) \<Longrightarrow> store p bs f x = f x"
  by (rule store_outside)

definition buffers_apart :: "layout \<Rightarrow> bool" where
  "buffers_apart L \<longleftrightarrow>
    unat (prog_at L) + 1024 \<le> 2 ^ 32 \<and> unat (init_at L) + 132 \<le> 2 ^ 32 \<and> unat (final_at L) + 132 \<le> 2 ^ 32 \<and> unat (scratch_at L) + 64 \<le> 2 ^ 32 \<and>
    span (prog_at L) 1024 \<inter> span (init_at L) 132 = {} \<and> span (prog_at L) 1024 \<inter> span (final_at L) 132 = {} \<and>
    span (prog_at L) 1024 \<inter> span (scratch_at L) 64 = {} \<and> span (scratch_at L) 64 \<inter> span (init_at L) 132 = {} \<and>
    span (scratch_at L) 64 \<inter> span (final_at L) 132 = {}"

text \<open>Before each test of the processor bench the program lies at its address, both snapshots are zero, and the scratch
  memory is the test's initial contents, or zero when it has none, for buffers that do not overlap and tests of the declared sizes.\<close>

theorem prepared_memory:
  assumes L: "buffers_apart L" and t: "length (ct_preload t) \<le> 30" "length (ct_test t) \<le> 18" "length (ct_ram_init t) = 64"
  shows "holds (cpu_prepare L t f) (prog_at L) (pg_bytes (cpu_build_program L t)) \<and>
    holds (cpu_prepare L t f) (init_at L) (replicate 132 0) \<and> holds (cpu_prepare L t f) (final_at L) (replicate 132 0) \<and>
    holds (cpu_prepare L t f) (scratch_at L) (if ct_ram_init_present t then ct_ram_init t else replicate 64 0)"
proof -
  let ?p = "pg_bytes (cpu_build_program L t)" and ?g = "cpu_prepare L t f"
  have short: "length ?p \<le> 1024" by (rule cpu_program_short [OF t(1, 2)])
  have room: "unat (prog_at L) + length ?p \<le> 2 ^ 32" "unat (init_at L) + 132 \<le> 2 ^ 32" "unat (final_at L) + 132 \<le> 2 ^ 32"
    "unat (scratch_at L) + 64 \<le> 2 ^ 32" using L short by (simp_all add: buffers_apart_def)
  have sub: "span (prog_at L) (length ?p) \<subseteq> span (prog_at L) 1024" using short by (auto simp: span_def)
  have out: "?g x = (if x \<in> span (scratch_at L) 64 \<and> ct_ram_init_present t then ct_ram_init t ! (unat x - unat (scratch_at L))
      else if x \<in> span (scratch_at L) 64 \<or> x \<in> span (final_at L) 132 \<or> x \<in> span (init_at L) 132 then 0 else f x)"
    if "x \<notin> span (prog_at L) 1024" for x
  proof -
    let ?z = "f_memset (scratch_at L) 0 64 (f_memset (final_at L) 0 132 (f_memset (init_at L) 0 132 f))"
    have z: "?z x = (if x \<in> span (scratch_at L) 64 \<or> x \<in> span (final_at L) 132 \<or> x \<in> span (init_at L) 132 then 0 else f x)"
      unfolding memset_span [OF room(4)] memset_span [OF room(3)] memset_span [OF room(2)] by simp
    have "x \<notin> span (prog_at L) (length ?p)" using that sub by blast
    then have g: "?g x = (if ct_ram_init_present t then store (scratch_at L) (ct_ram_init t) ?z else ?z) x"
      using t(3) by (simp add: cpu_prepare_def store_outside)
    show ?thesis
    proof (cases "ct_ram_init_present t \<and> x \<in> span (scratch_at L) 64")
      case True
      then show ?thesis using range_span [OF room(4), of x] t(3) unfolding g by (simp add: store_def)
    next
      case False
      then have "?g x = ?z x" using store_outside [of x "scratch_at L" "ct_ram_init t" ?z] t(3) unfolding g by auto
      then show ?thesis unfolding z using False by auto
    qed
  qed
  have prog: "holds ?g (prog_at L) ?p"
    using store_inside [OF room(1)] by (simp add: holds_def cpu_prepare_def Let_def)
  have in_span: "a + of_nat i \<in> span a n" if "i < n" for a i n using that by (simp add: span_def)
  have I: "holds ?g (init_at L) (replicate 132 0)"
    unfolding holds_def
  proof (intro allI impI)
    fix i assume i: "i < length (replicate 132 (0 :: u8))"
    then have "init_at L + of_nat i \<in> span (init_at L) 132" by (simp add: in_span)
    then show "?g (init_at L + of_nat i) = replicate 132 0 ! i"
      using i L by (subst out) (auto simp: buffers_apart_def)
  qed
  have F: "holds ?g (final_at L) (replicate 132 0)"
    unfolding holds_def
  proof (intro allI impI)
    fix i assume i: "i < length (replicate 132 (0 :: u8))"
    then have "final_at L + of_nat i \<in> span (final_at L) 132" by (simp add: in_span)
    then show "?g (final_at L + of_nat i) = replicate 132 0 ! i"
      using i L by (subst out) (auto simp: buffers_apart_def)
  qed
  have S: "holds ?g (scratch_at L) (if ct_ram_init_present t then ct_ram_init t else replicate 64 0)"
    unfolding holds_def
  proof (intro allI impI)
    fix i assume "i < length (if ct_ram_init_present t then ct_ram_init t else replicate 64 0)"
    then have i: "i < 64" using t(3) by (simp split: if_splits)
    then have "scratch_at L + of_nat i \<in> span (scratch_at L) 64" "unat (scratch_at L + of_nat i) = unat (scratch_at L) + i"
      using room(4) by (simp_all add: in_span unat_plus)
    then show "?g (scratch_at L + of_nat i) = (if ct_ram_init_present t then ct_ram_init t else replicate 64 0) ! i"
      using i L by (subst out) (auto simp: buffers_apart_def)
  qed
  show ?thesis using prog I F S by blast
qed

theorem prepared_memory_witness:
  "holds (cpu_prepare mini_layout mini_test (\<lambda>a. 0)) 0xEC6 (pg_bytes (cpu_build_program mini_layout mini_test)) \<and>
   holds (cpu_prepare mini_layout mini_test (\<lambda>a. 0)) 0x2000 (replicate 132 0) \<and> holds (cpu_prepare mini_layout mini_test (\<lambda>a. 0)) 0x3000 (replicate 64 1)"
proof -
  have d: "span a n \<inter> span b k = {}" if "unat a + n \<le> unat b" "unat b + k \<le> 2 ^ 32" for a b n k
    using that range_span [of a n] range_span [of b k] by fastforce
  have d': "span a n \<inter> span b k = {}" if "unat b + k \<le> unat a" "unat a + n \<le> 2 ^ 32" for a b n k
    using d [OF that] by blast
  have "buffers_apart mini_layout"
    unfolding buffers_apart_def mini_layout_def layout.simps
    by (intro conjI) (rule d d'; simp | simp)+
  moreover have "length (ct_preload mini_test) \<le> 30" "length (ct_test mini_test) \<le> 18" "length (ct_ram_init mini_test) = 64"
    by (simp_all add: mini_test_def)
  ultimately show ?thesis using prepared_memory [of mini_layout mini_test "\<lambda>a. 0"] by (simp add: mini_layout_def mini_test_def)
qed

end
