(* ===== verification/MacBench.thy ===== *)
theory MacBench
  imports SuperBench
begin

text \<open>
  The same benches as Macintosh applications (\<open>src/SingleStepTests/macos_bench\<close>): each test's result
  goes into a file of its own, in folders of a hundred, so that a later crash loses nothing. The
  system is seen through the calls made to it: the folders created and the files written, in order;
  whether a file can be opened is an argument, as is the run of an assembled program on the memory
  (\<open>invoke_program\<close> with the cache flush before it). The console output is not modelled.
\<close>

section \<open>Files and folders\<close>

datatype os_call = MkDir bytes | WriteFile bytes bytes

record mac_app =
  ma_ram :: ram
  ma_calls :: "os_call list"
  ma_bucket :: int
  ma_passed :: nat

definition mac_mkdir :: "bytes \<Rightarrow> mac_app \<Rightarrow> mac_app" where
  "mac_mkdir path s = (if length path > 255 then s else s\<lparr>ma_calls := ma_calls s @ [MkDir path]\<rparr>)"

definition decimal :: "nat \<Rightarrow> bytes" where
  "decimal n = f_putul (of_nat n)"

definition decimal4 :: "nat \<Rightarrow> bytes" where
  "decimal4 n = replicate (4 - length (decimal n)) 48 @ decimal n"

definition bucket_of :: "nat \<Rightarrow> nat" where
  "bucket_of test_num = (if test_num \<le> 99 then 1 else test_num div 100 * 100)"

definition bucket_dir :: "bytes \<Rightarrow> nat \<Rightarrow> bytes" where
  "bucket_dir out lo =
    (if lo = 1 then [58] @ out @ lit '':1-99'' else [58] @ out @ [58] @ decimal lo @ [45] @ decimal (lo + 99))"

definition test_path :: "bytes \<Rightarrow> nat \<Rightarrow> bytes" where
  "test_path out i = bucket_dir out (bucket_of (i + 1)) @ [58] @ decimal4 (i + 1) @ lit ''.jsonl''"

definition test_output_path :: "bytes \<Rightarrow> nat \<Rightarrow> mac_app \<Rightarrow> bytes \<times> mac_app" where
  "test_output_path out i s =
    (let lo = bucket_of (i + 1)
     in (test_path out i,
         if int lo \<noteq> ma_bucket s then (mac_mkdir (bucket_dir out lo) (mac_mkdir out s))\<lparr>ma_bucket := int lo\<rparr> else s))"

text \<open>One result: the file is opened, written and closed, or the program gives up: \<open>Inl\<close>.\<close>

definition put_result :: "(bytes \<Rightarrow> os_call list \<Rightarrow> bool) \<Rightarrow> bytes \<Rightarrow> nat \<Rightarrow> bytes \<Rightarrow> mac_app \<Rightarrow> mac_app + mac_app" where
  "put_result opens out i body s =
    (let (path, s) = test_output_path out i s
     in if opens path (ma_calls s) then Inr (s\<lparr>ma_calls := ma_calls s @ [WriteFile path body]\<rparr>) else Inl s)"

fun app_loop :: "(nat \<Rightarrow> 't \<Rightarrow> mac_app \<Rightarrow> mac_app + mac_app) \<Rightarrow> nat \<Rightarrow> 't list \<Rightarrow> mac_app \<Rightarrow> mac_app + mac_app" where
  "app_loop step i [] s = Inr s"
| "app_loop step i (t # ts) s = (case step i t s of Inl s \<Rightarrow> Inl s | Inr s \<Rightarrow> app_loop step (i + 1) ts s)"

definition app_start :: "ram \<Rightarrow> mac_app" where
  "app_start f = \<lparr>ma_ram = f, ma_calls = [], ma_bucket = - 2, ma_passed = 0\<rparr>"

section \<open>The processor application\<close>

definition skipped :: "CpuTestSpec \<Rightarrow> bool" where
  "skipped t \<longleftrightarrow> ct_privileged t \<or> ct_raises_exception t \<or> ct_hw_unsafe t"

definition mac_cpu_text :: "CpuTestSpec \<Rightarrow> Snapshot \<Rightarrow> u32 \<Rightarrow> Snapshot \<Rightarrow> u32 \<Rightarrow> bytes" where
  "mac_cpu_text t s0 pc0 s1 pc1 =
    lit ''{\"name\":'' @ quoted (ct_name t) @ lit '',\"initial\":'' @ snap_json s0 pc0 @ lit '',\"final\":'' @ snap_json s1 pc1 @ lit ''}'' @ [10]"

definition mac_cpu_clear :: "layout \<Rightarrow> CpuTestSpec \<Rightarrow> ram \<Rightarrow> ram" where
  "mac_cpu_clear L t f =
    (let f = f_memset (scratch_at L) 0 64 (f_memset (final_at L) 0 132 (f_memset (init_at L) 0 132 f))
     in if ct_ram_init_present t then store (scratch_at L) (take 64 (ct_ram_init t)) f else f)"

definition mac_cpu_step ::
  "(u32 \<Rightarrow> ram \<Rightarrow> ram) \<Rightarrow> layout \<Rightarrow> (bytes \<Rightarrow> os_call list \<Rightarrow> bool) \<Rightarrow> nat \<Rightarrow> CpuTestSpec \<Rightarrow> mac_app \<Rightarrow> mac_app + mac_app" where
  "mac_cpu_step run L opens i t s =
    (let f = mac_cpu_clear L t (ma_ram s);
         p = mac_cpu_build_program L t;
         (f, pc0, pc1) =
           (if skipped t then (f, 0, 0)
            else (run (prog_at L) (store (prog_at L) (pg_bytes p) f), prog_at L + of_nat (pg_test_off p), prog_at L + of_nat (pg_final_off p)))
     in put_result opens (lit ''CPU Results'') i (mac_cpu_text t (snapshot_at (init_at L) f) pc0 (snapshot_at (final_at L) f) pc1) (s\<lparr>ma_ram := f\<rparr>))"

definition mac_cpu_main ::
  "(u32 \<Rightarrow> ram \<Rightarrow> ram) \<Rightarrow> layout \<Rightarrow> (bytes \<Rightarrow> os_call list \<Rightarrow> bool) \<Rightarrow> CpuTestSpec list \<Rightarrow> ram \<Rightarrow> mac_app + mac_app" where
  "mac_cpu_main run L opens ts f = app_loop (mac_cpu_step run L opens) 0 ts (app_start f)"

section \<open>The coprocessor application\<close>

definition mac_fpu_text :: "FpuTestSpec \<Rightarrow> FpuSnapshot \<Rightarrow> FpuSnapshot \<Rightarrow> bytes" where
  "mac_fpu_text t s0 s1 =
    lit ''{\"name\":'' @ quoted (ft_name t) @ lit '',\"initial\":'' @ fpu_snap_json s0 @ lit '',\"final\":'' @ fpu_snap_json s1 @ lit ''}'' @ [10]"

definition mac_fpu_step ::
  "(u32 \<Rightarrow> ram \<Rightarrow> ram) \<Rightarrow> layout \<Rightarrow> (bytes \<Rightarrow> os_call list \<Rightarrow> bool) \<Rightarrow> nat \<Rightarrow> FpuTestSpec \<Rightarrow> mac_app \<Rightarrow> mac_app + mac_app" where
  "mac_fpu_step run L opens i t s =
    (let f = run (prog_at L) (fpu_prepare L t (ma_ram s))
     in put_result opens (lit ''FPU Results'') i (mac_fpu_text t (fpu_snapshot_at (init_at L) f) (fpu_snapshot_at (final_at L) f)) (s\<lparr>ma_ram := f\<rparr>))"

definition mac_fpu_main ::
  "(u32 \<Rightarrow> ram \<Rightarrow> ram) \<Rightarrow> layout \<Rightarrow> (bytes \<Rightarrow> os_call list \<Rightarrow> bool) \<Rightarrow> FpuTestSpec list \<Rightarrow> ram \<Rightarrow> mac_app + mac_app" where
  "mac_fpu_main run L opens ts f = app_loop (mac_fpu_step run L opens) 0 ts (app_start f)"

section \<open>The integration application\<close>

definition mac_both_text :: "CpuFpuTestSpec \<Rightarrow> u32 \<Rightarrow> bool \<Rightarrow> bytes" where
  "mac_both_text t actual pass =
    lit ''{\"name\":'' @ quoted (cf_name t) @ lit '',\"op_a\":'' @ long_text (cf_op_a t) @
    lit '',\"result_reg\":'' @ f_putul (of_nat (cf_result_reg t)) @ lit '',\"expected\":'' @ long_text (cf_expected t) @
    lit '',\"actual\":'' @ long_text actual @ lit '',\"pass\":'' @ f_putul (if pass then 1 else 0) @ lit ''}'' @ [10]"

definition mac_both_prepare :: "layout \<Rightarrow> CpuFpuTestSpec \<Rightarrow> ram \<Rightarrow> ram" where
  "mac_both_prepare L t f =
    store (prog_at L) (pg_bytes (mac_cpu_fpu_build_program L t)) (f_memset (scratch_at L) 0 64 (f_memset (final_at L) 0 64 f))"

definition mac_both_step ::
  "(u32 \<Rightarrow> ram \<Rightarrow> ram) \<Rightarrow> layout \<Rightarrow> (bytes \<Rightarrow> os_call list \<Rightarrow> bool) \<Rightarrow> nat \<Rightarrow> CpuFpuTestSpec \<Rightarrow> mac_app \<Rightarrow> mac_app + mac_app" where
  "mac_both_step run L opens i t s =
    (let f = run (prog_at L) (mac_both_prepare L t (ma_ram s));
         actual = long_at (final_at L + of_nat (cf_result_reg t) * 4) f;
         pass = (actual = cf_expected t);
         s = s\<lparr>ma_ram := f, ma_passed := (if pass then ma_passed s + 1 else ma_passed s)\<rparr>
     in put_result opens (lit ''CPU FPU Results'') i (mac_both_text t actual pass) s)"

definition mac_both_main ::
  "(u32 \<Rightarrow> ram \<Rightarrow> ram) \<Rightarrow> layout \<Rightarrow> (bytes \<Rightarrow> os_call list \<Rightarrow> bool) \<Rightarrow> CpuFpuTestSpec list \<Rightarrow> ram \<Rightarrow> mac_app + mac_app" where
  "mac_both_main run L opens ts f = app_loop (mac_both_step run L opens) 0 ts (app_start f)"

section \<open>Names of files\<close>

lemma decimal_value: "n < 2 ^ 32 \<Longrightarrow> dec_value (decimal n) = n"
  by (simp add: decimal_def putul_digit unsigned_of_nat take_bit_nat_eq_self)

lemma dec_value_zeros: "dec_value (replicate k 48 @ ds) = dec_value ds"
  by (induction k) (simp_all add: dec_value_def)

lemma dec_value_snoc: "dec_value (ds @ [d]) = dec_value ds * 10 + (unat d - 48)"
  by (simp add: dec_value_def)

lemma putul_length: "unat v < 10 ^ Suc k \<Longrightarrow> length (putul_digits v) \<le> Suc k"
proof (induction k arbitrary: v)
  case 0
  then have "unat (v div 10) = 0" by (simp add: unat_div)
  then have "v div 10 = 0" by (simp only: unat_eq_zero)
  then have "putul_digits (v div 10) = []" by (subst putul_digits.simps) simp
  then show ?case by (subst putul_digits.simps) simp
next
  case (Suc k)
  have "unat v < 10 ^ Suc k * 10" using Suc.prems by (simp add: mult.commute)
  then have "unat v div 10 < 10 ^ Suc k" by (rule less_mult_imp_div_less)
  then have "unat (v div 10) < 10 ^ Suc k" by (simp add: unat_div)
  from Suc.IH [OF this] show ?case by (subst putul_digits.simps) simp
qed

lemma decimal4_length: "n < 10000 \<Longrightarrow> length (decimal4 n) = 4"
proof -
  assume n: "n < 10000"
  then have "unat (of_nat n :: u32) = n" by (simp add: unsigned_of_nat take_bit_nat_eq_self)
  then have "length (putul_digits (of_nat n)) \<le> 4" using putul_length [of "of_nat n" 3] n by simp
  then have "length (decimal n) \<le> 4" by (simp add: decimal_def f_putul_def)
  then show ?thesis by (simp add: decimal4_def)
qed

lemma decimal4_inj: "n < 10000 \<Longrightarrow> k < 10000 \<Longrightarrow> decimal4 n = decimal4 k \<Longrightarrow> n = k"
proof -
  assume b: "n < 10000" "k < 10000" and e: "decimal4 n = decimal4 k"
  have "dec_value (decimal4 n) = n" "dec_value (decimal4 k) = k" using b by (simp_all add: decimal4_def dec_value_zeros decimal_value)
  with e show "n = k" by metis
qed

lemma test_path_inj: "i < 9999 \<Longrightarrow> j < 9999 \<Longrightarrow> test_path out i = test_path out j \<Longrightarrow> i = j"
proof -
  assume b: "i < 9999" "j < 9999" and e: "test_path out i = test_path out j"
  have "length (decimal4 (i + 1)) = length (decimal4 (j + 1))" using b by (simp add: decimal4_length)
  with e have "decimal4 (i + 1) = decimal4 (j + 1)" unfolding test_path_def by (simp add: append_assoc [symmetric] del: append_assoc)
  then show "i = j" using decimal4_inj [of "i + 1" "j + 1"] b by simp
qed

section \<open>What is written where\<close>

text \<open>The folder of a file: its path up to the last colon.\<close>

definition folder_of :: "bytes \<Rightarrow> bytes" where
  "folder_of p = rev (tl (dropWhile (\<lambda>c. c \<noteq> 58) (rev p)))"

fun folders_first :: "bytes set \<Rightarrow> os_call list \<Rightarrow> bool" where
  "folders_first made [] \<longleftrightarrow> True"
| "folders_first made (MkDir d # cs) \<longleftrightarrow> folders_first (insert d made) cs"
| "folders_first made (WriteFile p body # cs) \<longleftrightarrow> folder_of p \<in> made \<and> folders_first made cs"

fun files :: "os_call list \<Rightarrow> bytes list" where
  "files [] = []"
| "files (MkDir d # cs) = files cs"
| "files (WriteFile p body # cs) = p # files cs"

fun folders :: "os_call list \<Rightarrow> bytes set" where
  "folders [] = {}"
| "folders (MkDir d # cs) = insert d (folders cs)"
| "folders (WriteFile p body # cs) = folders cs"

lemma files_append [simp]: "files (xs @ ys) = files xs @ files ys"
  by (induction xs rule: files.induct) simp_all

lemma folders_append [simp]: "folders (xs @ ys) = folders xs \<union> folders ys"
  by (induction xs rule: folders.induct) simp_all

lemma folders_first_append: "folders_first made (xs @ ys) \<longleftrightarrow> folders_first made xs \<and> folders_first (made \<union> folders xs) ys"
  by (induction made xs rule: folders_first.induct) simp_all

lemma folder_of_path: "58 \<notin> set name \<Longrightarrow> folder_of (d @ [58] @ name) = d"
proof -
  assume "58 \<notin> set name"
  then have "\<forall>c\<in>set (rev name). c \<noteq> 58" by auto
  then have "dropWhile (\<lambda>c. c \<noteq> 58) (rev name @ 58 # rev d) = 58 # rev d" by (simp add: dropWhile_append)
  then show ?thesis by (simp add: folder_of_def)
qed

lemma digits_no_colon: "58 \<notin> set (decimal n)"
  using putul_digit(1) [of "of_nat n"] by (auto simp: decimal_def list_all_iff is_digit_def)

lemma folder_of_test: "folder_of (test_path out i) = bucket_dir out (bucket_of (i + 1))"
proof -
  have "58 \<notin> set (decimal4 (i + 1) @ lit ''.jsonl'')" using digits_no_colon [of "i + 1"] by (auto simp: decimal4_def lit_def)
  then show ?thesis unfolding test_path_def by (rule folder_of_path)
qed

text \<open>The bucket remembered is one whose folder exists.\<close>

definition app_inv :: "bytes \<Rightarrow> mac_app \<Rightarrow> bool" where
  "app_inv out s \<longleftrightarrow> folders_first {} (ma_calls s) \<and> (ma_bucket s = - 2 \<or> (\<exists>lo. ma_bucket s = int lo \<and> bucket_dir out lo \<in> folders (ma_calls s)))"

lemma bucket_dir_short: "length out \<le> 200 \<Longrightarrow> length (bucket_dir out (bucket_of n)) \<le> 255"
proof -
  have "length (decimal k) \<le> 10" for k
    using putul_length [of "of_nat k" 9] unsigned_less [of "of_nat k :: u32", where ?'a = nat] by (simp add: decimal_def f_putul_def)
  from this [of "bucket_of n"] this [of "bucket_of n + 99"] show "length out \<le> 200 \<Longrightarrow> ?thesis" by (simp add: bucket_dir_def lit_def)
qed

lemma put_result_ok:
  assumes inv: "app_inv out s" and len: "length out \<le> 200" and r: "put_result opens out i body s = Inr s'"
  shows "app_inv out s'" "files (ma_calls s') = files (ma_calls s) @ [test_path out i]"
proof -
  let ?d = "bucket_dir out (bucket_of (i + 1))"
  have short: "length ?d \<le> 255" by (rule bucket_dir_short [OF len])
  obtain q where q: "test_output_path out i s = (test_path out i, q)" by (simp add: test_output_path_def Let_def)
  have s': "s' = q\<lparr>ma_calls := ma_calls q @ [WriteFile (test_path out i) body]\<rparr>" using r by (auto simp: put_result_def q split: if_splits)
  have fq: "files (ma_calls q) = files (ma_calls s)" "folders_first {} (ma_calls q)" "?d \<in> folders (ma_calls q)" "ma_bucket q = int (bucket_of (i + 1))"
    using q inv short len
    by (auto simp: test_output_path_def Let_def mac_mkdir_def app_inv_def folders_first_append split: if_splits)
  show "app_inv out s'" unfolding app_inv_def s' using fq by (auto simp: folders_first_append folder_of_test)
  show "files (ma_calls s') = files (ma_calls s) @ [test_path out i]" unfolding s' by (simp add: fq)
qed

text \<open>The three applications give every test its file.\<close>

locale result_app =
  fixes step :: "nat \<Rightarrow> 't \<Rightarrow> mac_app \<Rightarrow> mac_app + mac_app" and out :: bytes
  assumes short: "length out \<le> 200"
    and step_result: "\<exists>opens body s'. step i t s = put_result opens out i body s' \<and> ma_calls s' = ma_calls s \<and> ma_bucket s' = ma_bucket s"
begin

lemma step_ok: "step i t s = Inr s' \<Longrightarrow> app_inv out s \<Longrightarrow> app_inv out s' \<and> files (ma_calls s') = files (ma_calls s) @ [test_path out i]"
proof -
  assume r: "step i t s = Inr s'" and inv: "app_inv out s"
  obtain opens body s1 where e: "step i t s = put_result opens out i body s1" "ma_calls s1 = ma_calls s" "ma_bucket s1 = ma_bucket s"
    using step_result by blast
  have "app_inv out s1" using inv by (simp add: app_inv_def e)
  from put_result_ok [OF this short r [unfolded e(1)]] show ?thesis by (simp add: e)
qed

lemma loop_ok:
  "app_loop step i ts s = Inr s' \<Longrightarrow> app_inv out s \<Longrightarrow>
    app_inv out s' \<and> files (ma_calls s') = files (ma_calls s) @ map (test_path out) [i..<i + length ts]"
proof (induction ts arbitrary: i s)
  case (Cons t ts)
  then obtain s1 where s1: "step i t s = Inr s1" "app_loop step (i + 1) ts s1 = Inr s'" by (auto split: sum.splits)
  from step_ok [OF s1(1) Cons.prems(2)] have 1: "app_inv out s1" "files (ma_calls s1) = files (ma_calls s) @ [test_path out i]" by simp_all
  have "[i..<i + length (t # ts)] = i # [i + 1..<i + 1 + length ts]" by (simp add: upt_rec)
  then show ?case using Cons.IH [OF s1(2) 1(1)] 1(2) by simp
qed simp

lemma run_ok: "app_loop step 0 ts (app_start f) = Inr s \<Longrightarrow> folders_first {} (ma_calls s) \<and> files (ma_calls s) = map (test_path out) [0..<length ts]"
  using loop_ok [of 0 ts "app_start f" s] by (simp add: app_inv_def app_start_def)

end

interpretation cpu_app: result_app "mac_cpu_step run L opens" "lit ''CPU Results''"
  by unfold_locales (simp add: lit_def, unfold mac_cpu_step_def Let_def, auto split: prod.splits,
    (intro exI conjI, rule refl, simp, simp)+)

interpretation fpu_app: result_app "mac_fpu_step run L opens" "lit ''FPU Results''"
  by unfold_locales (simp add: lit_def, unfold mac_fpu_step_def Let_def, intro exI conjI, rule refl, simp_all)

interpretation both_app: result_app "mac_both_step run L opens" "lit ''CPU FPU Results''"
  by unfold_locales (simp add: lit_def, unfold mac_both_step_def Let_def, intro exI conjI, rule refl, simp_all)

text \<open>When a Macintosh application ends normally it has written exactly one file for every test, in order, each under
  its own name (for corpora below 9999 tests), and each into a folder created before; this holds for the
  processor, the coprocessor and the integration application, whatever the tests do to the memory.\<close>

theorem one_file_per_test:
  "(mac_cpu_main run L opens cs f = Inr s \<longrightarrow>
      files (ma_calls s) = map (test_path (lit ''CPU Results'')) [0..<length cs] \<and> folders_first {} (ma_calls s)) \<and>
   (mac_fpu_main run L opens fs f = Inr s \<longrightarrow>
      files (ma_calls s) = map (test_path (lit ''FPU Results'')) [0..<length fs] \<and> folders_first {} (ma_calls s)) \<and>
   (mac_both_main run L opens bs f = Inr s \<longrightarrow>
      files (ma_calls s) = map (test_path (lit ''CPU FPU Results'')) [0..<length bs] \<and> folders_first {} (ma_calls s)) \<and>
   (n < 9999 \<longrightarrow> distinct (map (test_path out) [0..<n]))"
proof (intro conjI impI)
  show "mac_cpu_main run L opens cs f = Inr s \<Longrightarrow> files (ma_calls s) = map (test_path (lit ''CPU Results'')) [0..<length cs]"
    "mac_cpu_main run L opens cs f = Inr s \<Longrightarrow> folders_first {} (ma_calls s)"
    using cpu_app.run_ok [of run L opens cs f s] by (simp_all add: mac_cpu_main_def)
  show "mac_fpu_main run L opens fs f = Inr s \<Longrightarrow> files (ma_calls s) = map (test_path (lit ''FPU Results'')) [0..<length fs]"
    "mac_fpu_main run L opens fs f = Inr s \<Longrightarrow> folders_first {} (ma_calls s)"
    using fpu_app.run_ok [of run L opens fs f s] by (simp_all add: mac_fpu_main_def)
  show "mac_both_main run L opens bs f = Inr s \<Longrightarrow> files (ma_calls s) = map (test_path (lit ''CPU FPU Results'')) [0..<length bs]"
    "mac_both_main run L opens bs f = Inr s \<Longrightarrow> folders_first {} (ma_calls s)"
    using both_app.run_ok [of run L opens bs f s] by (simp_all add: mac_both_main_def)
  assume "n < 9999"
  then show "distinct (map (test_path out) [0..<n])"
    unfolding distinct_map inj_on_def using test_path_inj [of _ _ out] by auto
qed

theorem one_file_per_test_witness:
  "\<exists>s. mac_both_main (\<lambda>e f. f) \<lparr>prog_at = 0x1000, init_at = 0x4000, final_at = 0x2000, scratch_at = 0x3000, saved_at = 0x5000\<rparr> (\<lambda>p cs. True)
     [\<lparr>cf_name = [65], cf_op_a = 1, cf_program = [], cf_result_reg = 0, cf_expected = 1\<rparr>] (\<lambda>a. 0) = Inr s \<and>
     files (ma_calls s) = [lit '':CPU FPU Results:1-99:0001.jsonl'']"
proof -
  let ?L = "\<lparr>prog_at = 0x1000, init_at = 0x4000, final_at = 0x2000, scratch_at = 0x3000, saved_at = 0x5000\<rparr>"
    and ?ts = "[\<lparr>cf_name = [65], cf_op_a = 1, cf_program = [], cf_result_reg = 0, cf_expected = 1\<rparr>]"
  obtain s where s: "mac_both_main (\<lambda>e f. f) ?L (\<lambda>p cs. True) ?ts (\<lambda>a. 0) = Inr s"
    by (simp add: mac_both_main_def mac_both_step_def put_result_def test_output_path_def Let_def)
  have "test_path (lit ''CPU FPU Results'') 0 = lit '':CPU FPU Results:1-99:0001.jsonl''" by code_simp
  with s one_file_per_test [of "\<lambda>e f. f" ?L "\<lambda>p cs. True" "[]" "\<lambda>a. 0" s "[]" ?ts 1 "[]"] show ?thesis by simp
qed

end
