(* ===== verification/XorShift.thy ===== *)
theory XorShift
  imports Prelude
begin

text \<open>
  The random numbers of the corpus generator (\<open>src/SingleStepTests/gen/gen_fpu.c\<close>): a 32-bit
  xorshift. It is a linear map of bit vectors, and its period is settled by arithmetic of polynomials:
  its characteristic polynomial is given, a polynomial acts on vectors by combining powers of the map,
  and powers of \<open>x\<close> are computed modulo that polynomial. From any state but 0 the generator passes
  through all \<open>2 ^ 32 - 1\<close> others; from 0 it never moves.
\<close>

unbundle bit_operations_syntax

section \<open>The generator\<close>

definition r32 :: "u32 \<Rightarrow> u32" where
  "r32 g_rng =
    (let x = g_rng XOR push_bit 13 g_rng;
         x = x XOR drop_bit 17 x
     in x XOR push_bit 5 x)"

lemma r32_xor: "r32 (x XOR y) = r32 x XOR r32 y"
  by (simp add: r32_def Let_def push_bit_xor drop_bit_xor ac_simps)

lemma r32_zero [simp]: "r32 0 = 0"
  by (simp add: r32_def)

lemma draws_zero [simp]: "(r32 ^^ k) 0 = 0"
  by (induction k) simp_all

lemma draws_xor: "(r32 ^^ k) (x XOR y) = (r32 ^^ k) x XOR (r32 ^^ k) y"
  by (induction k) (simp_all add: r32_xor)

section \<open>Polynomials acting on vectors\<close>

text \<open>A polynomial over two elements is an integer, its coefficients the bits. \<open>sel ts a\<close> is the sum of
  the members of \<open>ts\<close> whose bit is set in \<open>a\<close>.\<close>

fun sel :: "'b list \<Rightarrow> int \<Rightarrow> 'b::semiring_bit_operations" where
  "sel [] a = 0"
| "sel (t # ts) a = (if odd a then t XOR sel ts (a div 2) else sel ts (a div 2))"

definition powers :: "('b \<Rightarrow> 'b) \<Rightarrow> nat \<Rightarrow> 'b \<Rightarrow> 'b list" where
  "powers F n v = map (\<lambda>i. (F ^^ i) v) [0..<n]"

definition characteristic_poly :: int where
  "characteristic_poly = 0x1003EC241"

definition mulx :: "int \<Rightarrow> int" where
  "mulx a = (if bit a 31 then (2 * a) XOR characteristic_poly else 2 * a)"

definition mulx2 :: "int \<Rightarrow> int" where
  "mulx2 a = mulx (mulx a)"

definition act :: "int \<Rightarrow> u32 \<Rightarrow> u32" where
  "act a v = sel (powers r32 32 v) a"

text \<open>Squaring is linear: the squares of the powers of \<open>x\<close> make up a table.\<close>

definition squares :: "int list" where
  "squares =
    [0x1, 0x4, 0x10, 0x40, 0x100, 0x400, 0x1000, 0x4000, 0x10000, 0x40000, 0x100000, 0x400000, 0x1000000,
     0x4000000, 0x10000000, 0x40000000, 0x3EC241, 0xFB0904, 0x3EC2410, 0xFB09040, 0x3EC24100, 0xFB090400,
     0xEC6756C3, 0xB1DE1DCF, 0xC705F3BE, 0x1C54883B, 0x715220EC, 0xC57641F1, 0x159A4107, 0x5669041C,
     0x599AD231, 0x66558A85]"

fun xpow :: "nat \<Rightarrow> int" where
  "xpow n = (if n = 0 then 1 else let s = sel squares (xpow (n div 2)) in if odd n then mulx s else s)"

declare xpow.simps [simp del]

lemma odd_xor: "odd (a XOR b) \<longleftrightarrow> odd a \<noteq> odd b" for a b :: int
  by (simp add: even_xor_iff)

lemma half_xor: "(a XOR b) div 2 = (a div 2) XOR (b div 2)" for a b :: int
  using drop_bit_xor [of 1 a b] by (simp only: drop_bit_eq_div power_one_right)

lemma xor_cancel [simp]: "a XOR (a XOR b) = b" for a b :: "'b::semiring_bit_operations"
  by (simp flip: xor.assoc)

lemma sel_xor: "sel ts (a XOR b) = sel ts a XOR sel ts b"
  by (induction ts arbitrary: a b) (auto simp: odd_xor half_xor ac_simps)

lemma sel_zero [simp]: "sel ts 0 = 0"
  by (induction ts) simp_all

lemma sel_map:
  assumes "\<And>x y. G (x XOR y) = G x XOR G y" and "G 0 = 0"
  shows "G (sel ts a) = sel (map G ts) a"
  by (induction ts arbitrary: a) (simp_all add: assms)

lemma sel_snoc: "sel (ts @ [t]) a = sel ts a XOR (if bit a (length ts) then t else 0)"
  by (induction ts arbitrary: a) (auto simp: bit_Suc bit_0 ac_simps)

lemma length_powers [simp]: "length (powers F n v) = n"
  by (simp add: powers_def)

lemma powers_Suc: "powers F (Suc n) v = v # powers F n (F v)"
  by (simp add: powers_def upt_conv_Cons [of 0] map_Suc_upt [symmetric] funpow_swap1 del: upt_Suc)

lemma powers_snoc: "powers F (Suc n) v = powers F n v @ [(F ^^ n) v]"
  by (simp add: powers_def)

lemma map_powers: "(\<And>x. G (F x) = H (G x)) \<Longrightarrow> map G (powers F n v) = powers H n (G v)"
proof (induction n arbitrary: v)
  case (Suc n)
  then show ?case by (simp add: powers_Suc)
qed (simp add: powers_def)

lemma sel_powers_xor:
  assumes "\<And>x y. F (x XOR y) = F x XOR F y"
  shows "sel (powers F n (x XOR y)) a = sel (powers F n x) a XOR sel (powers F n y) a"
  by (induction n arbitrary: a x y) (simp add: powers_def, simp add: powers_Suc assms ac_simps)

section \<open>The characteristic polynomial\<close>

text \<open>The first 33 states from 1, and the unit vectors as combinations of the first 32.\<close>

definition krylov :: "u32 list" where
  "krylov =
    [0x1, 0x42021, 0x4080601, 0x9DCCA8C5, 0x1255994F, 0x8EF917D1, 0x2C6F5BD0, 0x25B2331A, 0x19F91CB2,
     0x77877125, 0xADD02374, 0x9E6002CB, 0x591C9737, 0xB4B84B8A, 0x4E3F8AE, 0x536AFF5, 0xC9C495B1,
     0x35219908, 0xC613DB08, 0x13223391, 0xFF571E19, 0x8E123A33, 0xE3D3EDB9, 0x52F4D3EB, 0xD9B3224F,
     0x2A90AF2, 0x5D1C3A29, 0x917797A5, 0x13E3CAE4, 0x3D5088DB, 0xA534213E, 0x36DC757, 0xCB682814]"

definition units :: "int list" where
  "units =
    [0x1, 0x9D696D47, 0xE482F256, 0xCD7CD8AC, 0x89FC6778, 0xB3227D21, 0x3DD282AF, 0x9D54FC01, 0xAF5C6626,
     0xE06468EC, 0xBBC31771, 0xA69F358F, 0x63ED022E, 0x72421836, 0xEA23AE18, 0xD2FA4A8C, 0x393494BD,
     0x2C3BF593, 0xC1606514, 0x7074593F, 0x62176236, 0xC1D3592E, 0xE5478B96, 0xF40D8AF, 0xE94AE516,
     0xC41918D0, 0x2BD326A7, 0x271734AB, 0x8A8CDED1, 0xC5581354, 0x910B9521, 0x7632AD1D]"

fun chained :: "u32 list \<Rightarrow> bool" where
  "chained (x # y # zs) \<longleftrightarrow> r32 x = y \<and> chained (y # zs)"
| "chained zs \<longleftrightarrow> True"

lemma chained_krylov: "chained krylov"
  by (simp add: krylov_def r32_def Let_def)

lemma krylov_powers: "krylov = powers r32 33 1"
proof -
  have "chained (x # zs) \<Longrightarrow> x # zs = powers r32 (Suc (length zs)) x" for x zs
    by (induction zs arbitrary: x) (simp add: powers_def, simp add: powers_Suc)
  moreover have "krylov = 1 # tl krylov" "length (tl krylov) = 32" by (simp_all add: krylov_def)
  ultimately show ?thesis using chained_krylov by (metis eval_nat_numeral(2,3) semiring_norm(26-28))
qed

lemma units_krylov: "list_all2 (\<lambda>i a. sel krylov a = push_bit i 1) [0..<32] units"
  by (simp add: krylov_def units_def upt_rec)

lemma characteristic_krylov: "sel krylov characteristic_poly = 0"
  by (simp add: krylov_def characteristic_poly_def)

text \<open>\<open>x\<close> has order dividing \<open>2 ^ 32 - 1\<close>, and for every prime \<open>q\<close> of that number \<open>x ^ ((2 ^ 32 - 1) div q) - 1\<close>
  has an inverse.\<close>

lemmas poly_eval = xpow.simps squares_def mulx_def characteristic_poly_def Let_def powers_def upt_rec

lemma full_turn: "xpow 4294967295 = 1"
  by (simp add: poly_eval)

lemma invertible_3: "sel (powers mulx 32 0x9A1B191D) (xpow 0x55555555 XOR 1) = 1"
  by (simp add: poly_eval)

lemma invertible_5: "sel (powers mulx 32 0x256DAA81) (xpow 0x33333333 XOR 1) = 1"
  by (simp add: poly_eval)

lemma invertible_17: "sel (powers mulx 32 0x552BD776) (xpow 0x0F0F0F0F XOR 1) = 1"
  by (simp add: poly_eval)

lemma invertible_257: "sel (powers mulx 32 0xAC9B5802) (xpow 0x00FF00FF XOR 1) = 1"
  by (simp add: poly_eval)

lemma invertible_65537: "sel (powers mulx 32 0xD1472012) (xpow 0xFFFF XOR 1) = 1"
  by (simp add: poly_eval)

lemma squares_powers: "squares = powers mulx2 32 1"
  by (simp add: poly_eval mulx2_def)

text \<open>A linear map that vanishes on the 32 unit vectors vanishes.\<close>

lemma linear_zero:
  fixes G :: "u32 \<Rightarrow> u32"
  assumes lin: "\<And>x y. G (x XOR y) = G x XOR G y" and units: "\<And>i. i < 32 \<Longrightarrow> G (push_bit i 1) = 0"
  shows "G v = 0"
proof -
  have zero: "G 0 = 0" using lin [of 0 0] by simp
  have "n \<le> 32 \<Longrightarrow> G (take_bit n v) = 0" for n
  proof (induction n)
    case (Suc n)
    have "take_bit (Suc n) v = take_bit n v XOR (if bit v n then push_bit n 1 else 0)"
      using Suc.prems by (intro bit_word_eqI) (auto simp: bit_simps less_Suc_eq)
    then show ?case using Suc units [of n] by (simp add: lin zero)
  qed (simp add: zero)
  from this [of 32] show ?thesis by (simp add: take_bit_word_eq_self)
qed

lemma sel_zeros: "set ts \<subseteq> {0} \<Longrightarrow> sel ts a = 0"
  by (induction ts arbitrary: a) auto

lemma characteristic: "sel (powers r32 33 v) characteristic_poly = 0"
proof -
  let ?G = "\<lambda>v. sel (powers r32 33 v) characteristic_poly"
  have lin: "?G (x XOR y) = ?G x XOR ?G y" for x y by (rule sel_powers_xor) (rule r32_xor)
  have zero: "?G 0 = 0" using lin [of 0 0] by simp
  have step: "?G (r32 x) = r32 (?G x)" for x
    by (simp add: sel_map [of r32, OF r32_xor r32_zero] map_powers [of r32 r32])
  have "?G ((r32 ^^ i) 1) = 0" for i
    by (induction i) (simp_all add: step krylov_powers [symmetric] characteristic_krylov)
  then have "set (map ?G krylov) \<subseteq> {0}" by (auto simp: krylov_powers powers_def)
  then have combos: "?G (sel krylov c) = 0" for c
    by (simp only: sel_map [of ?G, OF lin zero] sel_zeros)
  have "?G (push_bit i 1) = 0" if "i < 32" for i
    using units_krylov combos [of "units ! i"] that by (simp add: list_all2_conv_all_nth)
  then show ?thesis by (rule linear_zero [OF lin])
qed

section \<open>Powers of x are powers of the generator\<close>

lemma act_xor: "act (a XOR b) v = act a v XOR act b v"
  by (simp only: act_def sel_xor)

lemma act_xor_right: "act a (x XOR y) = act a x XOR act a y"
  by (simp only: act_def sel_powers_xor r32_xor)

lemma act_r32: "act a (r32 v) = r32 (act a v)"
  by (simp add: act_def sel_map [of r32, OF r32_xor r32_zero] map_powers [of r32 r32])

lemma act_draws: "act a ((r32 ^^ k) v) = (r32 ^^ k) (act a v)"
  by (induction k) (simp_all add: act_r32)

lemma act_zero [simp]: "act a 0 = 0" "act 0 v = 0"
  using act_xor_right [of a 0 0] by (simp_all add: act_def)

lemma act_one [simp]: "act 1 v = v"
  using powers_Suc [of r32 31 v] by (simp add: act_def)

lemma act_mulx: "act (mulx a) v = r32 (act a v)"
proof -
  have p32: "powers r32 32 v = v # powers r32 31 (r32 v)" using powers_Suc [of r32 31 v] by simp
  have "act (2 * a) v = sel (powers r32 31 (r32 v)) a" by (simp add: act_def p32)
  moreover have "act a (r32 v) = sel (powers r32 31 (r32 v)) a XOR (if bit a 31 then (r32 ^^ 31) (r32 v) else 0)"
    using powers_snoc [of r32 31 "r32 v"] by (simp add: act_def sel_snoc)
  moreover have "act characteristic_poly v = (r32 ^^ 31) (r32 v)"
  proof -
    have "sel (powers r32 33 v) characteristic_poly = act characteristic_poly v XOR (r32 ^^ 32) v"
      using powers_snoc [of r32 32 v] by (simp add: act_def sel_snoc characteristic_poly_def)
    moreover have "(r32 ^^ 32) v = (r32 ^^ 31) (r32 v)" using funpow_Suc_right [of 31 r32] by simp
    ultimately show ?thesis using characteristic [of v] by simp (metis xor_cancel xor.right_neutral)
  qed
  ultimately show ?thesis by (simp add: mulx_def act_xor act_r32 [symmetric])
qed

lemma act_powers_mulx: "map (\<lambda>p. act p v) (powers mulx n a) = powers r32 n (act a v)"
  by (rule map_powers) (rule act_mulx)

lemma act_mulp: "act (sel (powers mulx 32 a) b) v = act b (act a v)"
  using sel_map [of "\<lambda>p. act p v" "powers mulx 32 a" b] by (simp add: act_xor act_powers_mulx act_def [of b])

text \<open>Squaring: the mixed terms cancel.\<close>

lemma sel_square:
  "sel (powers r32 n (sel (powers r32 n v) a)) a = sel (powers (\<lambda>x. r32 (r32 x)) n v) a"
proof (induction n)
  case (Suc n)
  let ?C = "\<lambda>v. sel (powers r32 n v) a"
  have twice: "((\<lambda>x. r32 (r32 x)) ^^ n) v = (r32 ^^ n) ((r32 ^^ n) v)" by (induction n) (simp_all add: funpow_swap1)
  have lin: "?C (x XOR y) = ?C x XOR ?C y" for x y by (rule sel_powers_xor) (rule r32_xor)
  have zero: "?C 0 = 0" using lin [of 0 0] by simp
  have "?C (r32 x) = r32 (?C x)" for x by (simp add: sel_map [of r32, OF r32_xor r32_zero] map_powers [of r32 r32])
  then have commute: "?C ((r32 ^^ k) x) = (r32 ^^ k) (?C x)" for k x by (induction k) simp_all
  show ?case
    by (simp add: powers_snoc sel_snoc twice lin zero draws_xor commute flip: Suc.IH) (simp add: ac_simps)
qed (simp add: powers_def)

lemma act_square: "act (sel squares a) v = act a (act a v)"
proof -
  have "map (\<lambda>p. act p v) squares = powers (\<lambda>x. r32 (r32 x)) 32 (act 1 v)"
    unfolding squares_powers by (rule map_powers) (simp add: mulx2_def act_mulx)
  moreover have "act (sel squares a) v = sel (map (\<lambda>p. act p v) squares) a" by (rule sel_map) (simp_all add: act_xor)
  moreover have "act a (act a v) = sel (powers (\<lambda>x. r32 (r32 x)) 32 v) a" by (simp only: act_def sel_square)
  ultimately show ?thesis by simp
qed

lemma act_xpow: "act (xpow n) v = (r32 ^^ n) v"
proof (induction n arbitrary: v rule: xpow.induct)
  case (1 n)
  show ?case
  proof (cases "n = 0")
    case False
    have "(r32 ^^ (n div 2)) ((r32 ^^ (n div 2)) v) = (r32 ^^ (2 * (n div 2))) v"
      by (simp add: mult_2 funpow_add)
    then have half: "act (sel squares (xpow (n div 2))) v = (r32 ^^ (2 * (n div 2))) v"
      by (simp add: act_square 1 [OF False])
    show ?thesis
    proof (cases "odd n")
      case True
      then have "n = Suc (2 * (n div 2))" by simp
      then have "(r32 ^^ n) v = r32 ((r32 ^^ (2 * (n div 2))) v)" by (metis comp_apply funpow.simps(2))
      then show ?thesis using False True half by (simp add: xpow.simps [of n] Let_def act_mulx)
    next
      case e: False
      then have "2 * (n div 2) = n" by simp
      then show ?thesis using False e half by (simp add: xpow.simps [of n] Let_def)
    qed
  qed (simp add: xpow.simps)
qed

section \<open>The period\<close>

definition period :: nat where
  "period = 4294967295"

lemma draws_full: "(r32 ^^ period) v = v"
  using act_xpow [of period v] by (simp add: full_turn period_def)

lemma r32_inject: "r32 x = r32 y \<longleftrightarrow> x = y"
proof
  assume "r32 x = r32 y"
  moreover have "(r32 ^^ (period - 1)) (r32 v) = v" for v
    using draws_full [of v] funpow_Suc_right [of "period - 1" r32] by (simp add: period_def del: funpow.simps)
  ultimately show "x = y" by metis
qed simp

lemma r32_nonzero: "r32 x = 0 \<longleftrightarrow> x = 0"
  using r32_inject [of x 0] by simp

lemma draws_inject: "(r32 ^^ k) x = (r32 ^^ k) y \<longleftrightarrow> x = y"
  by (induction k) (simp_all add: r32_inject)

text \<open>An invertible \<open>x ^ n - 1\<close> leaves no vector but 0 fixed.\<close>

lemma moves:
  assumes "sel (powers mulx 32 h) (xpow n XOR 1) = 1" and "(r32 ^^ n) v = v"
  shows "v = 0"
proof -
  have "act (xpow n XOR 1) (act h v) = v" using act_mulp [of h "xpow n XOR 1" v] assms(1) by simp
  moreover have "act (xpow n XOR 1) (act h v) = 0"
    by (simp add: act_xor act_xpow act_draws [symmetric] assms(2))
  ultimately show ?thesis by simp
qed

lemma moves_each:
  assumes "q \<in> {3, 5, 17, 257, 65537}" and "(r32 ^^ (period div q)) v = v"
  shows "v = 0"
  using assms [unfolded period_def] moves [OF invertible_3, of v] moves [OF invertible_5, of v] moves [OF invertible_17, of v]
    moves [OF invertible_257, of v] moves [OF invertible_65537, of v]
  by auto

lemma returns_gcd:
  assumes "(r32 ^^ a) v = v" and "(r32 ^^ b) v = v"
  shows "(r32 ^^ gcd a b) v = v"
proof (cases "a = 0")
  case False
  have multiple: "(r32 ^^ (k * n)) v = v" if "(r32 ^^ k) v = v" for k n
    using that by (induction n) (simp_all add: funpow_add)
  obtain x y where xy: "a * x = b * y + gcd a b" using bezout_nat [OF False] by blast
  have "v = (r32 ^^ (gcd a b + b * y)) v" using multiple [OF assms(1), of x] xy by (simp add: ac_simps)
  then show ?thesis using multiple [OF assms(2), of y] by (simp add: funpow_add)
qed (use assms in simp)

text \<open>The divisors of \<open>2 ^ 32 - 1\<close>, the product of the five Fermat primes.\<close>

definition only_trivial :: "nat \<Rightarrow> nat \<Rightarrow> bool" where
  "only_trivial b q \<longleftrightarrow> (\<forall>d\<in>set [2..<Suc b]. \<not> d dvd q)"

lemma no_divisor:
  assumes t: "only_trivial b q" and small: "q < (b + 1) * (b + 1)" and d: "d dvd q" and q: "0 < q"
  shows "d = 1 \<or> d = q"
proof (rule ccontr)
  assume ne: "\<not> ?thesis"
  obtain e where e: "q = d * e" using d by blast
  have big: "d > 1" "e > 1" using ne e q by (auto simp: nat_neq_iff less_Suc_eq)
  have "b < k" if "1 < k" "k dvd q" for k
  proof (rule ccontr)
    assume "\<not> b < k"
    then have "k \<in> set [2..<Suc b]" using that(1) by auto
    then show False using t that(2) unfolding only_trivial_def by blast
  qed
  from this [OF big(1)] this [OF big(2)] have "d > b" "e > b" using e by simp_all
  then have "(b + 1) * (b + 1) \<le> d * e" by (intro mult_mono) auto
  then show False using small e by simp
qed

lemma fermat: "q \<in> {3, 5, 17, 257, 65537} \<Longrightarrow> d dvd q \<Longrightarrow> d = 1 \<or> d = (q::nat)"
proof -
  have t: "only_trivial 1 3" "only_trivial 2 5" "only_trivial 4 17" "only_trivial 16 257" "only_trivial 256 65537"
    by (simp_all add: only_trivial_def upt_rec)
  show "q \<in> {3, 5, 17, 257, 65537} \<Longrightarrow> d dvd q \<Longrightarrow> d = 1 \<or> d = q"
    using no_divisor [OF t(1), of d] no_divisor [OF t(2), of d] no_divisor [OF t(3), of d]
      no_divisor [OF t(4), of d] no_divisor [OF t(5), of d] by auto
qed

lemma proper_divisor:
  fixes g :: nat
  assumes "g dvd period" and "g \<noteq> period"
  shows "\<exists>q\<in>{3, 5, 17, 257, 65537}. g dvd period div q"
proof -
  obtain m where m: "period = g * m" using assms(1) by blast
  have "m \<noteq> 1" using m assms(2) by auto
  have "\<exists>q\<in>{3, 5, 17, 257, 65537}. q dvd m"
  proof (rule ccontr)
    assume none: "\<not> ?thesis"
    have "coprime m q" if "q \<in> {3, 5, 17, 257, 65537}" for q
    proof (rule coprimeI)
      fix d assume d: "d dvd m" "d dvd q"
      show "is_unit d" using fermat [OF that d(2)] none that d(1) by auto
    qed
    then have "coprime m (3 * (5 * (17 * (257 * 65537))))" by (simp only: coprime_mult_right_iff) blast
    moreover have "m dvd 3 * (5 * (17 * (257 * 65537)))" using m by (simp add: period_def dvd_def) (metis mult.commute)
    ultimately have "is_unit m" by (metis coprime_common_divisor dvd_refl)
    then show False using \<open>m \<noteq> 1\<close> by simp
  qed
  then obtain q where q: "q \<in> {3, 5, 17, 257, 65537}" "q dvd m" by blast
  then obtain e where "m = q * e" by blast
  then have "period div q = g * e" using m q(1) by (auto simp: ac_simps)
  then show ?thesis using q(1) by auto
qed

lemma no_early_return:
  assumes "v \<noteq> 0" and "0 < d" and "d < period"
  shows "(r32 ^^ d) v \<noteq> v"
proof
  assume "(r32 ^^ d) v = v"
  then have g: "(r32 ^^ gcd d period) v = v" using returns_gcd draws_full by blast
  have "gcd d period \<noteq> period" using assms gcd_le1_nat [of d period] by linarith
  then obtain q where q: "q \<in> {3, 5, 17, 257, 65537}" "gcd d period dvd period div q"
    using proper_divisor [of "gcd d period"] by auto
  have "(r32 ^^ (k * n)) v = v" if "(r32 ^^ k) v = v" for k n
    using that by (induction n) (simp_all add: funpow_add)
  then have "(r32 ^^ (period div q)) v = v" using q(2) g by (metis dvd_def)
  then show False using moves_each [OF q(1)] assms(1) by blast
qed

lemma visits_all:
  assumes "s \<noteq> 0"
  shows "bij_betw (\<lambda>k. (r32 ^^ k) s) {..<period} (UNIV - {0})"
proof -
  have ordered: "(r32 ^^ i) s \<noteq> (r32 ^^ j) s" if "i < j" "j < period" for i j
  proof
    assume "(r32 ^^ i) s = (r32 ^^ j) s"
    moreover have "(r32 ^^ j) s = (r32 ^^ i) ((r32 ^^ (j - i)) s)"
      using that(1) by (simp flip: funpow_add comp_apply [of "r32 ^^ i"])
    ultimately have "(r32 ^^ (j - i)) s = s" using draws_inject by metis
    then show False using no_early_return [OF assms, of "j - i"] that by simp
  qed
  then have inj: "inj_on (\<lambda>k. (r32 ^^ k) s) {..<period}" by (intro inj_onI) (metis lessThan_iff nat_neq_iff)
  have "(r32 ^^ k) s \<noteq> 0" for k using assms draws_inject [of k s 0] by simp
  then have sub: "(\<lambda>k. (r32 ^^ k) s) ` {..<period} \<subseteq> UNIV - {0}" by auto
  have "card (UNIV - {0 :: u32}) = period" by (simp add: card_Diff_singleton card_word period_def)
  then have "(\<lambda>k. (r32 ^^ k) s) ` {..<period} = UNIV - {0}"
    using card_image [OF inj] by (intro card_subset_eq sub) simp_all
  then show ?thesis using inj by (simp add: bij_betw_def)
qed

lemma reaches: "s \<noteq> 0 \<Longrightarrow> x \<noteq> 0 \<Longrightarrow> \<exists>k. (r32 ^^ k) s = x"
  using visits_all [of s] unfolding bij_betw_def set_eq_iff image_iff by auto metis

text \<open>C0: From any state but 0 the generator runs through all the other 2^32 - 1 states, each once, before one
  comes back: the corpus generator can draw every value, whatever non-zero seed it is given.\<close>

theorem r32_full_period:
  assumes "s \<noteq> 0"
  shows "bij_betw (\<lambda>k. (r32 ^^ k) s) {..<2 ^ 32 - 1} (UNIV - {0})"
proof -
  have "(2 ^ 32 - 1 :: nat) = period" by (simp add: period_def)
  then show ?thesis using visits_all [OF assms] by simp
qed

theorem r32_full_period_witness: "bij_betw (\<lambda>k. (r32 ^^ k) 0xBEEFC0DE) {..<2 ^ 32 - 1} (UNIV - {0})"
  by (rule r32_full_period) simp

end
