(* ===== verification/Spec2Isabelle.thy ===== *)
theory Spec2Isabelle
  imports Prelude SimClock SoftUart SerialTerm RomBus BlockDevice KeyInput VideoOut DebugConsole
    DasmStub GuestMem Trace FetchLogs Mouse Cmdline Capture Simulator ScsiBench FlineDasm SstBench CoproBench
    JsonlWriter GuestScreen GuestHost DiskCopy MacDevices IoTest KeyTest TestPrograms SuperBench MacBench XorShift
begin

text \<open>
  The software of LBMacTwo, a Macintosh II core for the MiSTer board, is a simulator and a set of test
  benches around the core's hardware description: C++ programs that clock a circuit generated by
  Verilator and play the machine's surroundings. This development models those programs and proves
  what makes them correct.

  \<^bold>\<open>The program.\<close> The simulator (\<open>src/verilator\<close>) is \<open>sim_main.cpp\<close> and the components under
  \<open>sim/\<close>. \<open>main\<close> reads the command line, builds the components, queues the ROM images for download and
  calls \<open>verilate\<close> in batches until a stop; one call of \<open>verilate\<close> advances the clock by half a
  cycle, lets the disk, the keyboard and the download bus drive their ports, evaluates the circuit,
  runs the traces and probes, and passes the serial line, the sound and the pixels on. Around it stand
  a bench for the SCSI controller (\<open>src/verilator/scsi_bench\<close>) and three for the processors
  (\<open>src/SingleStepTests\<close>). The circuit itself is generated from another language; everywhere it is an
  argument (\<open>core\<close> or \<open>ev\<close>) and every theorem holds for every circuit unless a named hypothesis says
  what is assumed of it.

  \<^bold>\<open>Theories, bottom up.\<close>
  \<^item> \<open>Prelude\<close>: the machine integers, the bit macros, lists as queues and logs, and the interfaces:
    \<open>fifo\<close> (queues; interpreted in \<open>RomBus\<close> and \<open>KeyInput\<close>), \<open>bounded_log\<close> (keeping the newest
    entries; \<open>SerialTerm\<close>, \<open>DebugConsole\<close>, \<open>Trace\<close>), \<open>word_memory\<close> (memories read and written by
    words; \<open>GuestMem\<close>, \<open>SstBench\<close>). Two more stand beside their providers: \<open>edge_source\<close> in
    \<open>SimClock\<close> and \<open>line_code\<close> in \<open>SoftUart\<close>.
  \<^item> \<open>SimClock\<close>: \<open>sim_clock.cpp\<close>, \<open>sim_audio.cpp\<close>. A divider of ratio \<open>r\<close> has period \<open>r + 1\<close>.
  \<^item> \<open>SoftUart\<close>: the bit-level UART of \<open>sim_serial.cpp\<close>; sender and receiver followed sample by sample,
    up to the loop-back theorem and the tolerance of the receiver.
  \<^item> \<open>SerialTerm\<close>: the serial window on top of it.
  \<^item> \<open>RomBus\<close>: \<open>sim_bus.cpp\<close>, the queue of downloads and the words sent to the core.
  \<^item> \<open>BlockDevice\<close>: \<open>sim_blkdevice.cpp\<close>, mounting, reading and writing sectors of disk images.
  \<^item> \<open>KeyInput\<close>: \<open>sim_input.cpp\<close>, both builds of the keyboard scan and the PS/2 events.
  \<^item> \<open>VideoOut\<close>: \<open>sim_video.cpp\<close>, the capture of the picture.
  \<^item> \<open>DebugConsole\<close>: \<open>sim_console.cpp\<close>.
  \<^item> \<open>DasmStub\<close>: \<open>m68k_dasm_stubs.cpp\<close>.
  \<^item> \<open>GuestMem\<close>, \<open>Trace\<close>, \<open>Mouse\<close>, \<open>Cmdline\<close>, \<open>Capture\<close>: the parts of \<open>sim_main.cpp\<close> that read the
    guest's memory, trace instructions, drive the mouse, parse the command line, and write screenshots
    and memory images.
  \<^item> \<open>Simulator\<close>: \<open>verilate\<close>, the start and the headless loop, composed of the components above; a
    use after which the code's behaviour is undefined (a write outside a buffer) makes a step \<open>None\<close>.
  \<^item> \<open>ScsiBench\<close>: \<open>scsi_bench.cpp\<close>; its blocking bus cycles are operations of the library's state
    monad.
  \<^item> \<open>FlineDasm\<close>, \<open>SstBench\<close>, \<open>CoproBench\<close>: \<open>fpu/fline_disasm.h\<close>, the single-step bench
    \<open>tg68k/sim_main.cpp\<close>, and the two coprocessor benches \<open>fpu/sim_main.cpp\<close> and
    \<open>cpu_fpu/sim_main.cpp\<close>.

  \<^bold>\<open>How the models correspond.\<close> A class is a record whose fields have the names of its members, an
  enumeration a datatype, a method a function from the object's state (and its arguments) to the new
  state and its results, with the source's name where the logic allows it. Integers have the width of
  the source (\<open>u8\<close> to \<open>u64\<close>, \<open>s8\<close> as words read with \<open>sint\<close>) wherever they wrap; plain counters
  are \<open>int\<close> or \<open>nat\<close>. Failures are values: \<open>None\<close> for undefined behaviour or an exception that ends
  the program, \<open>Inl\<close> or \<open>Exit\<close> for an exit status. Files, the host's devices, the JSON library and the
  GUI are arguments. Printed lines are the leading words and the numbers printed.

  \<^bold>\<open>What the theorems show.\<close> Numbered texts (C1, C2, ...) state the properties, the most important
  first: data that arrives is the data that was sent (serial line C1, C14, C15; disk sectors C2, C3;
  ROM images C4, C7, C32; the bench's sector transfers C5, C6; keys, packets and options C20, C29,
  C31; pictures and memory images C12, C13, C40); memory and buffers stay inside their bounds (C21,
  C11); timing is exact (reset C25, stops C16, mounting C27, bus cycles C22, C23, boot C17); traces
  lose nothing and disturb nothing (C8, C38, C39); verdicts of the benches mean what they say (C9,
  C10, C18, C24, C26) or do not (C34).

  \<^bold>\<open>Loops and bounds.\<close> Every loop of the source is total here: bounded loops recurse on their bound
  (1000 clocks of the coprocessor's watchdog, 5000 cycles of a test, \<open>DREQ_TIMEOUT\<close>, the batch size),
  loops over data on the data. Two may run for ever and are options: the byte search of \<open>GuestMem\<close>
  (a \<open>partial_function\<close>; the property gives the ranges for which it returns) and the headless loop,
  which is followed for one batch and for any number of calls.

  \<^bold>\<open>Not modelled.\<close> The windowed main loop, the help text and the remaining probes of \<open>verilate\<close>, which
  only print; opening windows and devices of the host; the vendored libraries (Dear ImGui, ImPlot,
  json, stb, the Verilator run-time but for two functions, the Musashi disassembler); the generated
  tables of tests; the hardware description and the programs in other languages.
\<close>

end
